(* ===== verification/Prelude.thy ===== *)
theory Prelude
  imports Main "HOL-Library.Sublist" "HOL-Library.List_Lexorder" "HOL-Library.Char_ord"
begin

text \<open>
  Shared vocabulary of the development: the model of Rust's \<open>Result\<close> and of the
  \<open>?\<close> operator, state-passing operations that keep their effects when they fail,
  the string functions of the Rust standard library the components use, and generic
  lemmas on lists.

  A Rust \<open>String\<close> or \<open>&str\<close> is a \<open>string\<close>, the list of its bytes. A character
  class of the standard library (\<open>char::is_whitespace\<close>) is modelled on ASCII.
\<close>

section \<open>Hint collections\<close>

named_theorems result_simps \<open>evaluation of results and of the question-mark operator\<close>
named_theorems rust_string \<open>unfolding rules of the standard-library string functions\<close>

section \<open>Results and effects\<close>

type_synonym ('s, 'e, 'a) action = "'s \<Rightarrow> ('e + 'a) \<times> 's"

text \<open>An action succeeds with a value, fails with an error, or runs another one and
  goes on with its value: the \<open>?\<close> operator returns the error and leaves the state
  as the failed call left it.\<close>

definition ok :: "'a \<Rightarrow> ('s, 'e, 'a) action" where
  "ok x s = (Inr x, s)"

definition fail :: "'e \<Rightarrow> ('s, 'e, 'a) action" where
  "fail e s = (Inl e, s)"

definition and_then :: "('s, 'e, 'a) action \<Rightarrow> ('a \<Rightarrow> ('s, 'e, 'b) action) \<Rightarrow> ('s, 'e, 'b) action" where
  "and_then m k s = (case m s of (Inl e, s') \<Rightarrow> (Inl e, s') | (Inr x, s') \<Rightarrow> k x s')"

text \<open>\<open>let _ = m\<close>: the effect is kept, the result is dropped.\<close>

definition ignoring :: "('s, 'e, 'a) action \<Rightarrow> ('s, 'e, unit) action" where
  "ignoring m s = (Inr (), snd (m s))"

text \<open>A computation that does not touch the state.\<close>

definition pure_result :: "'e + 'a \<Rightarrow> ('s, 'e, 'a) action" where
  "pure_result r s = (r, s)"

text \<open>\<open>ok_or_else\<close>.\<close>

definition ok_or :: "'e \<Rightarrow> 'a option \<Rightarrow> 'e + 'a" where
  "ok_or e x = (case x of None \<Rightarrow> Inl e | Some v \<Rightarrow> Inr v)"

definition is_ok :: "'e + 'a \<Rightarrow> bool" where
  "is_ok r = (case r of Inl _ \<Rightarrow> False | Inr _ \<Rightarrow> True)"

lemma ok_apply [simp, result_simps]: "ok x s = (Inr x, s)"
  by (simp add: ok_def)

lemma fail_apply [simp, result_simps]: "fail e s = (Inl e, s)"
  by (simp add: fail_def)

lemma pure_result_apply [simp, result_simps]: "pure_result r s = (r, s)"
  by (simp add: pure_result_def)

lemma ok_or_simps [simp, result_simps]: "ok_or e None = Inl e" "ok_or e (Some v) = Inr v"
  by (simp_all add: ok_or_def)

lemma is_ok_simps [simp, result_simps]: "is_ok (Inl e) = False" "is_ok (Inr v) = True"
  by (simp_all add: is_ok_def)

lemma and_then_pure_Inr: "and_then (pure_result (Inr x)) k = k x"
  by (rule ext) (simp add: and_then_def)

lemma and_then_Inr [simp, result_simps]: "m s = (Inr x, s') \<Longrightarrow> and_then m k s = k x s'"
  by (simp add: and_then_def)

lemma and_then_Inl [simp, result_simps]: "m s = (Inl e, s') \<Longrightarrow> and_then m k s = (Inl e, s')"
  by (simp add: and_then_def)

lemma and_then_eq_Inr:
  "and_then m k s = (Inr y, t) \<longleftrightarrow> (\<exists>x s'. m s = (Inr x, s') \<and> k x s' = (Inr y, t))"
  by (auto simp: and_then_def split: prod.splits sum.splits)

lemma and_then_InrE:
  assumes "and_then m k s = (Inr y, t)"
  obtains x s' where "m s = (Inr x, s')" and "k x s' = (Inr y, t)"
  using assms by (auto simp: and_then_eq_Inr)

lemma ok_or_eq_Inr [simp]: "ok_or e x = Inr v \<longleftrightarrow> x = Some v"
  by (cases x) auto

section \<open>Strings of the standard library\<close>

abbreviation NL :: char where "NL \<equiv> CHR 0x0A"
abbreviation CR :: char where "CR \<equiv> CHR 0x0D"
abbreviation TAB :: char where "TAB \<equiv> CHR 0x09"

definition is_ws :: "char \<Rightarrow> bool" where
  "is_ws c \<longleftrightarrow> c = CHR '' '' \<or> c = TAB \<or> c = NL \<or> c = CR \<or> c = CHR 0x0B \<or> c = CHR 0x0C"

text \<open>\<open>trim_start_matches\<close>, \<open>trim_end_matches\<close> and \<open>trim_matches\<close> of a
  character predicate.\<close>

definition trim_start_matches :: "(char \<Rightarrow> bool) \<Rightarrow> string \<Rightarrow> string" where
  "trim_start_matches p s = dropWhile p s"

definition trim_end_matches :: "(char \<Rightarrow> bool) \<Rightarrow> string \<Rightarrow> string" where
  "trim_end_matches p s = rev (dropWhile p (rev s))"

definition trim_matches :: "(char \<Rightarrow> bool) \<Rightarrow> string \<Rightarrow> string" where
  "trim_matches p s = trim_end_matches p (trim_start_matches p s)"

definition trim :: "string \<Rightarrow> string" where
  "trim s = trim_matches is_ws s"

definition strip_prefix_char :: "char \<Rightarrow> string \<Rightarrow> string option" where
  "strip_prefix_char c s = (case s of x # xs \<Rightarrow> (if x = c then Some xs else None) | [] \<Rightarrow> None)"

text \<open>\<open>[a, b].join(sep)\<close>.\<close>

fun join :: "string \<Rightarrow> string list \<Rightarrow> string" where
  "join sep [] = []"
| "join sep [x] = x"
| "join sep (x # y # xs) = x @ sep @ join sep (y # xs)"

text \<open>
  \<open>split_inclusive('\\n')\<close> without the newline: the pieces of the text between newlines;
  no piece after a final newline. The flag tells whether a newline ended the piece.
\<close>

fun nl_pieces :: "string \<Rightarrow> string \<Rightarrow> (string \<times> bool) list" where
  "nl_pieces acc [] = (if acc = [] then [] else [(rev acc, False)])"
| "nl_pieces acc (c # cs) =
     (if c = NL then (rev acc, True) # nl_pieces [] cs else nl_pieces (c # acc) cs)"

text \<open>\<open>str::lines\<close>: a piece ended by a newline loses one carriage return before it; a
  carriage return that no newline follows stays.\<close>

definition strip_cr :: "string \<times> bool \<Rightarrow> string" where
  "strip_cr p = (if snd p \<and> fst p \<noteq> [] \<and> last (fst p) = CR then butlast (fst p) else fst p)"

definition str_lines :: "string \<Rightarrow> string list" where
  "str_lines s = map strip_cr (nl_pieces [] s)"

text \<open>\<open>split_inclusive\<close> of a newline: the lines with their terminators.\<close>

fun split_inclusive :: "string \<Rightarrow> string list" where
  "split_inclusive [] = []"
| "split_inclusive (c # cs) =
     (if c = NL then [c] # split_inclusive cs
      else case split_inclusive cs of [] \<Rightarrow> [[c]] | l # ls \<Rightarrow> (c # l) # ls)"

definition strip_suffix_char :: "char \<Rightarrow> string \<Rightarrow> string" where
  "strip_suffix_char c s = (if s \<noteq> [] \<and> last s = c then butlast s else s)"

subsection \<open>Lemmas on the string functions\<close>

lemma concat_split_inclusive [simp]: "concat (split_inclusive s) = s"
  by (induction s) (auto split: list.splits)

lemma split_inclusive_nl: "NL \<notin> set l \<Longrightarrow> split_inclusive (l @ NL # s) = (l @ [NL]) # split_inclusive s"
  by (induction l) auto

lemma split_inclusive_append: "s = [] \<or> last s = NL \<Longrightarrow> split_inclusive (s @ t) = split_inclusive s @ split_inclusive t"
proof (induction s)
  case (Cons c s)
  show ?case
  proof (cases "s = []")
    case False
    then have "split_inclusive (s @ t) = split_inclusive s @ split_inclusive t" using Cons by simp
    moreover have "split_inclusive s \<noteq> []" using False by (cases s) (auto split: list.splits)
    ultimately show ?thesis by (cases "split_inclusive s") auto
  qed (use Cons in simp)
qed simp

lemma join_Cons: "xs \<noteq> [] \<Longrightarrow> join sep (x # xs) = x @ sep @ join sep xs"
  by (cases xs) auto

lemma join_append:
  "xs \<noteq> [] \<Longrightarrow> ys \<noteq> [] \<Longrightarrow> join sep (xs @ ys) = join sep xs @ sep @ join sep ys"
proof (induction xs)
  case (Cons x xs)
  then show ?case by (cases "xs = []") (simp_all add: join_Cons)
qed simp

lemma nl_pieces_line:
  "NL \<notin> set l \<Longrightarrow> nl_pieces acc (l @ NL # cs) = (rev acc @ l, True) # nl_pieces [] cs"
  by (induction l arbitrary: acc) auto

lemma nl_pieces_last:
  "NL \<notin> set l \<Longrightarrow> nl_pieces acc l = (if rev acc @ l = [] then [] else [(rev acc @ l, False)])"
  by (induction l arbitrary: acc) auto

lemma nl_pieces_append_nl:
  "nl_pieces acc (s @ NL # t) = nl_pieces acc (s @ [NL]) @ nl_pieces [] t"
  by (induction s arbitrary: acc) auto

lemma str_lines_Nil [simp]: "str_lines [] = []"
  by (simp add: str_lines_def)

lemma str_lines_append_nl: "str_lines (s @ NL # t) = str_lines (s @ [NL]) @ str_lines t"
  by (simp add: str_lines_def nl_pieces_append_nl [of _ s t])

lemma str_lines_line:
  "NL \<notin> set l \<Longrightarrow> str_lines (l @ NL # cs) = strip_cr (l, True) # str_lines cs"
  by (simp add: str_lines_def nl_pieces_line)

lemma strip_cr_id: "CR \<notin> set l \<Longrightarrow> strip_cr (l, b) = l"
  by (auto simp: strip_cr_def dest: last_in_set)

lemma nl_pieces_eq_Nil [simp]: "nl_pieces acc s = [] \<longleftrightarrow> acc = [] \<and> s = []"
  by (induction s arbitrary: acc) auto

lemma join_pieces:
  "join [NL] (map fst (nl_pieces acc s)) @ (if s \<noteq> [] \<and> last s = NL then [NL] else []) = rev acc @ s"
proof (induction s arbitrary: acc)
  case (Cons c s)
  show ?case
  proof (cases "c = NL \<and> s \<noteq> []")
    case True
    then show ?thesis using Cons [of "[]"] by (simp add: join_Cons)
  next
    case False
    then show ?thesis using Cons [of "c # acc"] by auto
  qed
qed simp

lemma set_nl_pieces: "p \<in> set (nl_pieces acc s) \<Longrightarrow> set (fst p) \<subseteq> set acc \<union> set s"
  by (induction s arbitrary: acc) (fastforce split: if_splits)+

lemma str_lines_no_cr: "CR \<notin> set s \<Longrightarrow> str_lines s = map fst (nl_pieces [] s)"
  unfolding str_lines_def
proof (rule map_cong)
  fix p assume "CR \<notin> set s" "p \<in> set (nl_pieces [] s)"
  then have "CR \<notin> set (fst p)" using set_nl_pieces [of p "[]" s] by auto
  then show "strip_cr p = fst p" using strip_cr_id [of "fst p" "snd p"] by simp
qed simp

text \<open>Lines joined again are the text, up to its final newline.\<close>

lemma join_str_lines:
  "CR \<notin> set s \<Longrightarrow> join [NL] (str_lines s) @ (if s \<noteq> [] \<and> last s = NL then [NL] else []) = s"
  using join_pieces [of "[]" s] by (simp add: str_lines_no_cr)

lemma trim_start_matches_id: "s = [] \<or> \<not> p (hd s) \<Longrightarrow> trim_start_matches p s = s"
  by (cases s) (auto simp: trim_start_matches_def)

lemma trim_end_matches_snoc [simp]:
  "trim_end_matches p (s @ [c]) = (if p c then trim_end_matches p s else s @ [c])"
  by (simp add: trim_end_matches_def)

lemma trim_end_matches_Nil [simp]: "trim_end_matches p [] = []"
  by (simp add: trim_end_matches_def)

lemma trim_start_matches_idem [simp]:
  "trim_start_matches p (trim_start_matches p s) = trim_start_matches p s"
  by (simp add: trim_start_matches_def)

lemma trim_end_matches_idem [simp]:
  "trim_end_matches p (trim_end_matches p s) = trim_end_matches p s"
  by (simp add: trim_end_matches_def)

lemma trim_end_matches_prefix: "prefix (trim_end_matches p s) s"
  by (metis append_Nil2 prefixI rev_append rev_rev_ident takeWhile_dropWhile_id trim_end_matches_def)

lemma trim_start_of_end:
  "trim_start_matches p (trim_end_matches p (trim_start_matches p s))
     = trim_end_matches p (trim_start_matches p s)"
proof (rule trim_start_matches_id)
  let ?t = "trim_start_matches p s"
  have hd: "?t = [] \<or> \<not> p (hd ?t)"
    unfolding trim_start_matches_def using hd_dropWhile [of p s] by blast
  obtain z where z: "?t = trim_end_matches p ?t @ z"
    using trim_end_matches_prefix [of p ?t] by (auto elim: prefixE)
  then show "trim_end_matches p ?t = [] \<or> \<not> p (hd (trim_end_matches p ?t))"
    using hd by (metis append_is_Nil_conv hd_append2)
qed

lemma trim_matches_idem [simp]: "trim_matches p (trim_matches p s) = trim_matches p s"
  by (simp add: trim_matches_def trim_start_of_end)

lemma trim_idem [simp]: "trim (trim s) = trim s"
  by (simp add: trim_def)

section \<open>Lists\<close>

text \<open>\<open>Iterator::position\<close>.\<close>

fun position :: "('a \<Rightarrow> bool) \<Rightarrow> 'a list \<Rightarrow> nat option" where
  "position p [] = None"
| "position p (x # xs) = (if p x then Some 0 else map_option Suc (position p xs))"

lemma position_append: "\<forall>x \<in> set xs. \<not> p x \<Longrightarrow> p y \<Longrightarrow> position p (xs @ y # ys) = Some (length xs)"
  by (induction xs) auto

lemma position_Some:
  "position p xs = Some n \<Longrightarrow> n < length xs \<and> p (xs ! n) \<and> (\<forall>x \<in> set (take n xs). \<not> p x)"
  by (induction xs arbitrary: n) (auto split: if_splits)

lemma takeWhile_sep: "c \<notin> set ys \<Longrightarrow> takeWhile (\<lambda>x. x \<noteq> c) (ys @ c # zs) = ys"
  by (induction ys) auto

text \<open>Two texts that end in the same separator and a part without it are equal
  piecewise.\<close>

lemma append_sep_eq_iff:
  assumes "c \<notin> set ys" and "c \<notin> set ys'"
  shows "xs @ c # ys = xs' @ c # ys' \<longleftrightarrow> xs = xs' \<and> ys = ys'"
proof
  assume eq: "xs @ c # ys = xs' @ c # ys'"
  have "takeWhile (\<lambda>x. x \<noteq> c) (rev (xs @ c # ys)) = rev ys"
    using assms(1) takeWhile_sep [of c "rev ys" "rev xs"] by simp
  moreover have "takeWhile (\<lambda>x. x \<noteq> c) (rev (xs' @ c # ys')) = rev ys'"
    using assms(2) takeWhile_sep [of c "rev ys'" "rev xs'"] by simp
  ultimately have "ys = ys'"
    using eq by (metis rev_rev_ident)
  then show "xs = xs' \<and> ys = ys'"
    using eq by simp
qed auto

text \<open>\<open>Iterator::find\<close> is \<open>List.find\<close>; scanning from the end.\<close>

lemma find_filter_imp: "(\<And>x. P x \<Longrightarrow> Q x) \<Longrightarrow> find P (filter Q xs) = find P xs"
  by (induction xs) auto

lemma find_in_append:
  "find P (xs @ ys) = (if find P xs = None then find P ys else find P xs)"
  by (induction xs) auto

lemma find_SomeD: "find P xs = Some x \<Longrightarrow> P x \<and> x \<in> set xs"
  by (auto simp: find_Some_iff)

lemma find_None_conv: "find P xs = None \<longleftrightarrow> (\<forall>x \<in> set xs. \<not> P x)"
  by (auto simp: find_None_iff)

end
