(* ===== verification/Undo_Stack.thy ===== *)
theory Undo_Stack
  imports Prelude
begin

text \<open>
  The bounded undo/redo stack of \<open>swissarmyhammer-store/src/stack.rs\<close>: a list of entries
  and a pointer one past the last executed entry. The entries before the pointer have been
  done, the others can be redone. Entries that share a group id are undone and redone as
  one step.

  An \<open>UndoEntryId\<close> (a ULID) is its canonical text, which is what the stack file, the
  changelogs and the trash file names hold.
\<close>

section \<open>Data\<close>

type_synonym undo_entry_id = string
type_synonym stored_item_id = string

record undo_entry =
  ue_id :: undo_entry_id
  ue_label :: string
  ue_item_id :: stored_item_id
  ue_group_id :: "undo_entry_id option"

record undo_stack =
  entries :: "undo_entry list"
  pointer :: nat
  max_size :: nat

definition default_max_size :: nat where
  "default_max_size = 100"

definition new_stack :: undo_stack where
  "new_stack = \<lparr>entries = [], pointer = 0, max_size = default_max_size\<rparr>"

definition with_max_size :: "nat \<Rightarrow> undo_stack" where
  "with_max_size n = \<lparr>entries = [], pointer = 0, max_size = n\<rparr>"

section \<open>Operations\<close>

definition can_undo :: "undo_stack \<Rightarrow> bool" where
  "can_undo s \<longleftrightarrow> 0 < pointer s"

definition can_redo :: "undo_stack \<Rightarrow> bool" where
  "can_redo s \<longleftrightarrow> pointer s < length (entries s)"

definition undo_target :: "undo_stack \<Rightarrow> undo_entry option" where
  "undo_target s = (if can_undo s then Some (entries s ! (pointer s - 1)) else None)"

definition redo_target :: "undo_stack \<Rightarrow> undo_entry option" where
  "redo_target s = (if can_redo s then Some (entries s ! pointer s) else None)"

text \<open>Dropping the oldest entries over the capacity.\<close>

definition trim_oldest :: "undo_stack \<Rightarrow> undo_stack" where
  "trim_oldest s =
     (if max_size s < length (entries s)
      then let excess = length (entries s) - max_size s
           in s\<lparr>entries := drop excess (entries s), pointer := pointer s - excess\<rparr>
      else s)"

definition push_with_group ::
  "undo_entry_id \<Rightarrow> string \<Rightarrow> stored_item_id \<Rightarrow> undo_entry_id option \<Rightarrow> undo_stack \<Rightarrow> undo_stack" where
  "push_with_group i label item g s =
     (if 0 < pointer s \<and> ue_id (entries s ! (pointer s - 1)) = i then s
      else trim_oldest
        (s\<lparr>entries := take (pointer s) (entries s)
                       @ [\<lparr>ue_id = i, ue_label = label, ue_item_id = item, ue_group_id = g\<rparr>],
           pointer := pointer s + 1\<rparr>))"

definition push :: "undo_entry_id \<Rightarrow> string \<Rightarrow> stored_item_id \<Rightarrow> undo_stack \<Rightarrow> undo_stack" where
  "push i label item s = push_with_group i label item None s"

text \<open>The loop of \<open>group_undo_range\<close>: \<open>start\<close> walks down over entries of the group.\<close>

fun walk_back :: "undo_entry list \<Rightarrow> undo_entry_id \<Rightarrow> nat \<Rightarrow> nat" where
  "walk_back es g 0 = 0"
| "walk_back es g (Suc n) =
     (if ue_group_id (es ! n) = Some g then walk_back es g n else Suc n)"

definition group_undo_range :: "undo_stack \<Rightarrow> (nat \<times> nat) option" where
  "group_undo_range s =
     (if \<not> can_undo s then None
      else let e = pointer s; top = entries s ! (e - 1)
           in case ue_group_id top of
                None \<Rightarrow> Some (e - 1, e)
              | Some g \<Rightarrow> Some (walk_back (entries s) g (e - 1), e))"

text \<open>The loop of \<open>group_redo_range\<close>: \<open>end\<close> walks up over entries of the group.\<close>

function walk_fwd :: "undo_entry list \<Rightarrow> undo_entry_id \<Rightarrow> nat \<Rightarrow> nat" where
  "walk_fwd es g n =
     (if n < length es \<and> ue_group_id (es ! n) = Some g then walk_fwd es g (Suc n) else n)"
  by pat_completeness auto
termination
  by (relation "measure (\<lambda>(es, g, n). length es - n)") auto

declare walk_fwd.simps [simp del]

definition group_redo_range :: "undo_stack \<Rightarrow> (nat \<times> nat) option" where
  "group_redo_range s =
     (if \<not> can_redo s then None
      else let b = pointer s; bottom = entries s ! b
           in case ue_group_id bottom of
                None \<Rightarrow> Some (b, b + 1)
              | Some g \<Rightarrow> Some (b, walk_fwd (entries s) g (b + 1)))"

definition record_undo_n :: "nat \<Rightarrow> undo_stack \<Rightarrow> undo_stack" where
  "record_undo_n n s = s\<lparr>pointer := pointer s - n\<rparr>"

definition record_redo_n :: "nat \<Rightarrow> undo_stack \<Rightarrow> undo_stack" where
  "record_redo_n n s = s\<lparr>pointer := min (pointer s + n) (length (entries s))\<rparr>"

definition record_undo :: "undo_stack \<Rightarrow> undo_stack" where
  "record_undo s = (if can_undo s then s\<lparr>pointer := pointer s - 1\<rparr> else s)"

definition record_redo :: "undo_stack \<Rightarrow> undo_stack" where
  "record_redo s = (if can_redo s then s\<lparr>pointer := pointer s + 1\<rparr> else s)"

definition clear :: "undo_stack \<Rightarrow> undo_stack" where
  "clear s = s\<lparr>entries := [], pointer := 0\<rparr>"

text \<open>
  \<open>load\<close>: the file is absent, blank, or parsed by the YAML library (the parameter
  \<open>parse\<close>); what it parses to may hold any pointer and any number of entries, so both are
  clamped.
\<close>

definition load_stack :: "(string \<Rightarrow> 'e + undo_stack) \<Rightarrow> string option \<Rightarrow> 'e + undo_stack" where
  "load_stack parse file =
     (case file of
        None \<Rightarrow> Inr new_stack
      | Some contents \<Rightarrow>
          if trim contents = [] then Inr new_stack
          else case parse contents of
                 Inl e \<Rightarrow> Inl e
               | Inr st \<Rightarrow>
                   Inr (trim_oldest (st\<lparr>pointer := min (pointer st) (length (entries st))\<rparr>)))"

section \<open>The invariant\<close>

definition stack_wf :: "undo_stack \<Rightarrow> bool" where
  "stack_wf s \<longleftrightarrow> pointer s \<le> length (entries s) \<and> length (entries s) \<le> max_size s"

lemma stack_wf_new [simp]: "stack_wf new_stack" "stack_wf (with_max_size n)"
  by (simp_all add: stack_wf_def new_stack_def with_max_size_def)

lemma trim_oldest_wf: "pointer s \<le> length (entries s) \<Longrightarrow> stack_wf (trim_oldest s)"
  by (auto simp: stack_wf_def trim_oldest_def Let_def)

lemma max_size_trim [simp]: "max_size (trim_oldest s) = max_size s"
  by (simp add: trim_oldest_def Let_def)

lemma max_size_ops [simp]:
  "max_size (push_with_group i l item g s) = max_size s"
  "max_size (record_undo_n n s) = max_size s" "max_size (record_redo_n n s) = max_size s"
  by (simp_all add: push_with_group_def record_undo_n_def record_redo_n_def)

lemma push_with_group_wf: "stack_wf s \<Longrightarrow> stack_wf (push_with_group i l item g s)"
  by (cases "0 < pointer s \<and> ue_id (entries s ! (pointer s - 1)) = i")
     (auto simp: push_with_group_def stack_wf_def [of s] intro!: trim_oldest_wf)

lemma record_undo_n_wf: "stack_wf s \<Longrightarrow> stack_wf (record_undo_n n s)"
  by (auto simp: stack_wf_def record_undo_n_def)

lemma record_redo_n_wf: "stack_wf s \<Longrightarrow> stack_wf (record_redo_n n s)"
  by (auto simp: stack_wf_def record_redo_n_def)

lemma record_undo_redo_wf:
  "stack_wf s \<Longrightarrow> stack_wf (record_undo s)" "stack_wf s \<Longrightarrow> stack_wf (record_redo s)"
  by (auto simp: stack_wf_def record_undo_def record_redo_def can_undo_def can_redo_def)

lemma clear_wf: "stack_wf s \<Longrightarrow> stack_wf (clear s)"
  by (auto simp: stack_wf_def clear_def)

lemma load_stack_wf: "load_stack parse file = Inr s \<Longrightarrow> stack_wf s"
  by (auto simp: load_stack_def intro!: trim_oldest_wf split: option.splits if_splits sum.splits)

lemmas stack_wf_intros =
  push_with_group_wf record_undo_n_wf record_redo_n_wf record_undo_redo_wf clear_wf load_stack_wf

section \<open>Groups\<close>

text \<open>What the two walks find: the longest run of the group that ends (starts) there.\<close>

lemma walk_back_le: "walk_back es g n \<le> n"
  by (induction n) auto

lemma walk_back_run: "walk_back es g n \<le> i \<Longrightarrow> i < n \<Longrightarrow> ue_group_id (es ! i) = Some g"
  by (induction n) (auto simp: less_Suc_eq split: if_splits)

lemma walk_back_stop:
  "0 < walk_back es g n \<Longrightarrow> ue_group_id (es ! (walk_back es g n - 1)) \<noteq> Some g"
  by (induction n) auto

lemma walk_back_unique:
  assumes "w \<le> n" and "\<And>i. w \<le> i \<Longrightarrow> i < n \<Longrightarrow> ue_group_id (es ! i) = Some g"
    and "w = 0 \<or> ue_group_id (es ! (w - 1)) \<noteq> Some g"
  shows "walk_back es g n = w"
  using assms by (induction n) (auto simp: le_Suc_eq)

lemma walk_fwd_ge: "n \<le> walk_fwd es g n"
proof (induction es g n rule: walk_fwd.induct)
  case (1 es g n)
  then show ?case by (subst walk_fwd.simps) auto
qed

lemma walk_fwd_le: "n \<le> length es \<Longrightarrow> walk_fwd es g n \<le> length es"
proof (induction es g n rule: walk_fwd.induct)
  case (1 es g n)
  then show ?case by (subst walk_fwd.simps) auto
qed

lemma walk_fwd_run: "n \<le> i \<Longrightarrow> i < walk_fwd es g n \<Longrightarrow> ue_group_id (es ! i) = Some g"
proof (induction es g n rule: walk_fwd.induct)
  case (1 es g n)
  then show ?case
    by (cases "n < length es \<and> ue_group_id (es ! n) = Some g"; cases "i = n")
       (auto simp: walk_fwd.simps [of es g n])
qed

lemma walk_fwd_stop:
  "walk_fwd es g n < length es \<Longrightarrow> ue_group_id (es ! walk_fwd es g n) \<noteq> Some g"
proof (induction es g n rule: walk_fwd.induct)
  case (1 es g n)
  then show ?case
    by (cases "n < length es \<and> ue_group_id (es ! n) = Some g")
       (auto simp: walk_fwd.simps [of es g n])
qed

lemma walk_fwd_unique:
  assumes "n \<le> w" "w \<le> length es" and "\<And>i. n \<le> i \<Longrightarrow> i < w \<Longrightarrow> ue_group_id (es ! i) = Some g"
    and "w = length es \<or> ue_group_id (es ! w) \<noteq> Some g"
  shows "walk_fwd es g n = w"
  using assms
proof (induction es g n rule: walk_fwd.induct)
  case (1 es g n)
  show ?case
  proof (cases "n = w")
    case True
    with "1.prems" show ?thesis by (subst walk_fwd.simps) auto
  next
    case False
    with 1 have "n < length es \<and> ue_group_id (es ! n) = Some g" by auto
    with 1 False show ?thesis by (simp add: walk_fwd.simps [of es g n])
  qed
qed

text \<open>The pointer stands between two groups, never inside one.\<close>

definition at_boundary :: "undo_stack \<Rightarrow> bool" where
  "at_boundary s \<longleftrightarrow>
     pointer s = 0 \<or> length (entries s) \<le> pointer s \<or>
     ue_group_id (entries s ! (pointer s - 1)) = None \<or>
     ue_group_id (entries s ! (pointer s - 1)) \<noteq> ue_group_id (entries s ! pointer s)"

lemma group_undo_range_bounds:
  "group_undo_range s = Some (a, b) \<Longrightarrow> a < b \<and> b = pointer s"
  using walk_back_le [of "entries s" _ "pointer s - 1"]
  by (auto simp: group_undo_range_def can_undo_def Let_def le_imp_less_Suc
        split: if_splits option.splits) (metis Suc_pred le_imp_less_Suc)

lemma group_redo_range_bounds:
  "group_redo_range s = Some (a, b) \<Longrightarrow> a < b \<and> a = pointer s \<and> b \<le> length (entries s)"
  using walk_fwd_ge [of "pointer s + 1" "entries s"] walk_fwd_le [of "pointer s + 1" "entries s"]
  by (auto simp: group_redo_range_def can_redo_def Let_def Suc_le_eq
        split: if_splits option.splits)

lemma group_range_Some:
  "can_undo s \<Longrightarrow> \<exists>a. group_undo_range s = Some (a, pointer s)"
  "can_redo s \<Longrightarrow> \<exists>b. group_redo_range s = Some (pointer s, b)"
  by (auto simp: group_undo_range_def group_redo_range_def Let_def split: option.split)

lemma push_at_boundary:
  "stack_wf s \<Longrightarrow> at_boundary s \<Longrightarrow> at_boundary (push_with_group i l item g s)"
  by (auto simp: at_boundary_def push_with_group_def stack_wf_def trim_oldest_def Let_def)

text \<open>Undoing a group leaves a pointer from which exactly that group is redone.\<close>

lemma undo_then_redo_range:
  assumes wf: "stack_wf s" and bd: "at_boundary s" and r: "group_undo_range s = Some (a, b)"
  shows "group_redo_range (record_undo_n (b - a) s) = Some (a, b)"
    and "record_redo_n (b - a) (record_undo_n (b - a) s) = s"
    and "at_boundary (record_undo_n (b - a) s)"
proof -
  let ?es = "entries s"
  have ab: "a < b" "b = pointer s" "b \<le> length ?es"
    using group_undo_range_bounds [OF r] wf by (auto simp: stack_wf_def)
  then have can: "can_undo s" by (simp add: can_undo_def)
  show "record_redo_n (b - a) (record_undo_n (b - a) s) = s"
    using ab by (simp add: record_redo_n_def record_undo_n_def)
  show "group_redo_range (record_undo_n (b - a) s) = Some (a, b)"
  proof (cases "ue_group_id (?es ! (b - 1))")
    case None
    then have "a = b - 1" using r ab can by (simp add: group_undo_range_def Let_def)
    with None ab show ?thesis
      by (simp add: group_redo_range_def can_redo_def record_undo_n_def Let_def)
  next
    case (Some g)
    then have a: "a = walk_back ?es g (b - 1)"
      using r ab can by (simp add: group_undo_range_def Let_def)
    have run: "ue_group_id (?es ! i) = Some g" if "a \<le> i" "i < b" for i
      using that walk_back_run [of ?es g "b - 1" i] Some
      by (cases "i = b - 1") (auto simp: a)
    have "b = length ?es \<or> ue_group_id (?es ! b) \<noteq> Some g"
      using bd ab Some by (auto simp: at_boundary_def)
    then have "walk_fwd ?es g (a + 1) = b"
      using ab run by (intro walk_fwd_unique) auto
    with ab run [of a] show ?thesis
      by (simp add: group_redo_range_def can_redo_def record_undo_n_def Let_def)
  qed
  show "at_boundary (record_undo_n (b - a) s)"
  proof (cases "ue_group_id (?es ! (b - 1))")
    case None
    then have "a = b - 1" using r ab can by (simp add: group_undo_range_def Let_def)
    with None ab show ?thesis
      by (cases "ue_group_id (?es ! (b - 2))") (auto simp: at_boundary_def record_undo_n_def numeral_2_eq_2)
  next
    case (Some g)
    then have a: "a = walk_back ?es g (b - 1)"
      using r ab can by (simp add: group_undo_range_def Let_def)
    have "ue_group_id (?es ! a) = Some g"
      using walk_back_run [of ?es g "b - 1" a] Some ab(1) by (cases "a = b - 1") (auto simp: a)
    with walk_back_stop [of ?es g "b - 1"] ab show ?thesis
      by (auto simp: at_boundary_def record_undo_n_def a)
  qed
qed

lemma redo_then_undo_range:
  assumes wf: "stack_wf s" and bd: "at_boundary s" and r: "group_redo_range s = Some (a, b)"
  shows "group_undo_range (record_redo_n (b - a) s) = Some (a, b)"
    and "record_undo_n (b - a) (record_redo_n (b - a) s) = s"
    and "at_boundary (record_redo_n (b - a) s)"
proof -
  let ?es = "entries s"
  have ab: "a < b" "a = pointer s" "b \<le> length ?es"
    using group_redo_range_bounds [OF r] by auto
  then have can: "can_redo s" by (simp add: can_redo_def)
  have p: "pointer (record_redo_n (b - a) s) = b" "entries (record_redo_n (b - a) s) = ?es"
    using ab by (auto simp: record_redo_n_def)
  show "record_undo_n (b - a) (record_redo_n (b - a) s) = s"
    using ab by (simp add: record_redo_n_def record_undo_n_def)
  have "group_undo_range (record_redo_n (b - a) s) = Some (a, b)
        \<and> at_boundary (record_redo_n (b - a) s)"
  proof (cases "ue_group_id (?es ! a)")
    case None
    then have "b = a + 1" using r ab can by (simp add: group_redo_range_def Let_def)
    with None ab p show ?thesis
      by (simp add: group_undo_range_def can_undo_def at_boundary_def Let_def)
  next
    case (Some g)
    then have b: "b = walk_fwd ?es g (a + 1)"
      using r ab can by (simp add: group_redo_range_def Let_def)
    have run: "ue_group_id (?es ! i) = Some g" if "a \<le> i" "i < b" for i
      using that walk_fwd_run [of "a + 1" i ?es g] Some by (cases "i = a") (auto simp: b)
    have "a = 0 \<or> ue_group_id (?es ! (a - 1)) \<noteq> Some g"
      using bd ab Some by (auto simp: at_boundary_def)
    then have "walk_back ?es g (b - 1) = a"
      using ab run by (intro walk_back_unique) auto
    moreover have "b = length ?es \<or> ue_group_id (?es ! b) \<noteq> Some g"
      using walk_fwd_stop [of ?es g "a + 1"] ab by (auto simp: b)
    ultimately show ?thesis
      using ab p run [of "b - 1"]
      by (auto simp: group_undo_range_def can_undo_def at_boundary_def Let_def)
  qed
  then show "group_undo_range (record_redo_n (b - a) s) = Some (a, b)"
    and "at_boundary (record_redo_n (b - a) s)" by auto
qed

text \<open>One step of undo or redo: a single entry without a group, or all adjacent entries of one group.\<close>

definition whole_group :: "undo_entry list \<Rightarrow> nat \<Rightarrow> nat \<Rightarrow> bool" where
  "whole_group es a b \<longleftrightarrow> a < b \<and> b \<le> length es \<and>
     (case ue_group_id (es ! a) of
        None \<Rightarrow> b = a + 1
      | Some g \<Rightarrow> (\<forall>i \<in> {a..<b}. ue_group_id (es ! i) = Some g) \<and>
          (a = 0 \<or> ue_group_id (es ! (a - 1)) \<noteq> Some g) \<and> (b = length es \<or> ue_group_id (es ! b) \<noteq> Some g))"

lemma redo_range_whole:
  assumes bd: "at_boundary s" and r: "group_redo_range s = Some (a, b)"
  shows "whole_group (entries s) a b"
proof -
  let ?es = "entries s"
  have ab: "a < b" "a = pointer s" "b \<le> length ?es" using group_redo_range_bounds [OF r] by auto
  show ?thesis
  proof (cases "ue_group_id (?es ! a)")
    case None
    then show ?thesis using r ab by (simp add: group_redo_range_def whole_group_def Let_def split: if_splits)
  next
    case (Some g)
    then have b: "b = walk_fwd ?es g (a + 1)"
      using r ab by (simp add: group_redo_range_def Let_def split: if_splits)
    have "ue_group_id (?es ! i) = Some g" if "a \<le> i" "i < b" for i
      using that walk_fwd_run [of "a + 1" i ?es g] Some by (cases "i = a") (auto simp: b)
    moreover have "a = 0 \<or> ue_group_id (?es ! (a - 1)) \<noteq> Some g"
      using bd ab Some by (auto simp: at_boundary_def)
    moreover have "b = length ?es \<or> ue_group_id (?es ! b) \<noteq> Some g"
      using walk_fwd_stop [of ?es g "a + 1"] ab by (auto simp: b)
    ultimately show ?thesis using ab Some by (simp add: whole_group_def)
  qed
qed

lemma undo_range_whole:
  assumes "stack_wf s" "at_boundary s" "group_undo_range s = Some (a, b)"
  shows "whole_group (entries s) a b"
  using redo_range_whole [OF undo_then_redo_range(3,1) [OF assms]] by (simp add: record_undo_n_def)

section \<open>Reachable stacks\<close>

text \<open>The stacks the module can produce: its fields are private, so every stack comes from a
  constructor or \<open>load\<close> and a sequence of method calls.\<close>

inductive reachable_stack :: "undo_stack \<Rightarrow> bool" where
  new: "reachable_stack new_stack"
| with_max: "reachable_stack (with_max_size n)"
| loaded: "load_stack (parse :: string \<Rightarrow> string + undo_stack) file = Inr s \<Longrightarrow> reachable_stack s"
| pushed: "reachable_stack s \<Longrightarrow> reachable_stack (push_with_group i l item g s)"
| undone_n: "reachable_stack s \<Longrightarrow> reachable_stack (record_undo_n n s)"
| redone_n: "reachable_stack s \<Longrightarrow> reachable_stack (record_redo_n n s)"
| undone: "reachable_stack s \<Longrightarrow> reachable_stack (record_undo s)"
| redone: "reachable_stack s \<Longrightarrow> reachable_stack (record_redo s)"
| cleared: "reachable_stack s \<Longrightarrow> reachable_stack (clear s)"

lemma reachable_stack_wf: "reachable_stack s \<Longrightarrow> stack_wf s"
  by (induction rule: reachable_stack.induct) (auto intro: stack_wf_intros)

end
