(* ===== verification/Store_Files.thy ===== *)
theory Store_Files
  imports Undo_Stack
begin

text \<open>
  The files of one store directory: \<open>swissarmyhammer-store/src/trash.rs\<close> (the soft delete
  and the archive) and \<open>changelog.rs\<close> (the append-only JSONL log of one item).

  A directory is a map from paths to texts. A path keeps the parts its file name is
  formatted from; \<open>path_name\<close> is the name on disk and \<open>path_name_inj\<close> says that two paths
  never share a name, as long as neither the ULIDs nor the extensions hold a dot (a ULID is
  Crockford base 32) and no item id holds a slash. The operating system is modelled as far
  as the code depends on it: a \<open>rename\<close> of an absent source fails, and one onto an
  existing target replaces it.
\<close>

section \<open>Paths\<close>

datatype path =
    Live stored_item_id string
  | Trashed stored_item_id undo_entry_id string
  | Archived stored_item_id undo_entry_id string

type_synonym files = "path \<Rightarrow> string option"

fun path_name :: "path \<Rightarrow> string" where
  "path_name (Live i x) = i @ ''.'' @ x"
| "path_name (Trashed i e x) = ''.trash/'' @ i @ ''.'' @ e @ ''.'' @ x"
| "path_name (Archived i e x) = ''.archive/'' @ i @ ''.'' @ e @ ''.'' @ x"

definition dotless :: "string \<Rightarrow> bool" where
  "dotless s \<longleftrightarrow> CHR ''.'' \<notin> set s"

fun path_ok :: "path \<Rightarrow> bool" where
  "path_ok (Live i x) \<longleftrightarrow> dotless x \<and> CHR ''/'' \<notin> set i \<and> CHR ''/'' \<notin> set x"
| "path_ok (Trashed i e x) \<longleftrightarrow> dotless e \<and> dotless x"
| "path_ok (Archived i e x) \<longleftrightarrow> dotless e \<and> dotless x"

lemma name_parts_inj:
  assumes "dotless e" "dotless x" "dotless e'" "dotless x'"
  shows "i @ ''.'' @ e @ ''.'' @ x = i' @ ''.'' @ e' @ ''.'' @ x' \<longleftrightarrow> i = i' \<and> e = e' \<and> x = x'"
  using append_sep_eq_iff [of "CHR ''.''" x x' "i @ ''.'' @ e" "i' @ ''.'' @ e'"]
    append_sep_eq_iff [of "CHR ''.''" e e' i i'] assms
  by (auto simp: dotless_def)

lemma live_not_in_subdir:
  assumes "CHR ''/'' \<notin> set i" "CHR ''/'' \<notin> set x" "CHR ''/'' \<in> set t"
  shows "i @ ''.'' @ x \<noteq> t" "t \<noteq> i @ ''.'' @ x"
  using assms by auto

lemma path_name_inj:
  assumes "path_ok p" "path_ok q" "path_name p = path_name q"
  shows "p = q"
proof (cases p; cases q)
  fix i x i' x'
  assume "p = Live i x" "q = Live i' x'"
  then show ?thesis
    using assms append_sep_eq_iff [of "CHR ''.''" x x' i i'] by (auto simp: dotless_def)
next
  fix i e x i' e' x'
  assume "p = Trashed i e x" "q = Trashed i' e' x'"
  then show ?thesis using assms name_parts_inj [of e x e' x' i i'] by auto
next
  fix i e x i' e' x'
  assume "p = Archived i e x" "q = Archived i' e' x'"
  then show ?thesis using assms name_parts_inj [of e x e' x' i i'] by auto
qed (use assms live_not_in_subdir in fastforce)+

section \<open>Moving files\<close>

datatype io_error = IoNotFound | IoOther string

definition rename_file :: "path \<Rightarrow> path \<Rightarrow> (files, io_error, unit) action" where
  "rename_file src dst fs =
     (case fs src of
        None \<Rightarrow> (Inl IoNotFound, fs)
      | Some c \<Rightarrow> (Inr (), fs(src := None, dst := Some c)))"

definition trash_file ::
  "stored_item_id \<Rightarrow> string \<Rightarrow> undo_entry_id \<Rightarrow> (files, io_error, unit) action" where
  "trash_file i x e = rename_file (Live i x) (Trashed i e x)"

definition restore_file ::
  "stored_item_id \<Rightarrow> string \<Rightarrow> undo_entry_id \<Rightarrow> (files, io_error, unit) action" where
  "restore_file i x e = rename_file (Trashed i e x) (Live i x)"

definition is_trashed :: "stored_item_id \<Rightarrow> string \<Rightarrow> undo_entry_id \<Rightarrow> files \<Rightarrow> bool" where
  "is_trashed i x e fs \<longleftrightarrow> fs (Trashed i e x) \<noteq> None"

definition archive_file ::
  "stored_item_id \<Rightarrow> string \<Rightarrow> undo_entry_id \<Rightarrow> (files, io_error, unit) action" where
  "archive_file i x e = rename_file (Live i x) (Archived i e x)"

definition restore_archived_file ::
  "stored_item_id \<Rightarrow> string \<Rightarrow> undo_entry_id \<Rightarrow> (files, io_error, unit) action" where
  "restore_archived_file i x e = rename_file (Archived i e x) (Live i x)"

definition is_archived :: "stored_item_id \<Rightarrow> string \<Rightarrow> undo_entry_id \<Rightarrow> files \<Rightarrow> bool" where
  "is_archived i x e fs \<longleftrightarrow> fs (Archived i e x) \<noteq> None"

lemma rename_file_simps [simp]:
  "fs src = None \<Longrightarrow> rename_file src dst fs = (Inl IoNotFound, fs)"
  "fs src = Some c \<Longrightarrow> rename_file src dst fs = (Inr (), fs(src := None, dst := Some c))"
  by (simp_all add: rename_file_def)

lemma rename_file_eq_Inr:
  "rename_file src dst fs = (Inr u, fs') \<longleftrightarrow>
     (\<exists>c. fs src = Some c \<and> fs' = fs(src := None, dst := Some c))"
  by (auto simp: rename_file_def split: option.splits)

text \<open>
  \<open>find_archived_entry_id\<close>: the listing of \<open>.archive/\<close> (\<open>None\<close> when the directory is
  missing) is scanned for \<open>item.entry.ext\<close>, and the greatest entry id wins. The slice
  between prefix and suffix panics when they overlap, which is the outer \<open>None\<close>.
  \<open>parse_ulid\<close> is the ULID library's parser; it returns the canonical text, whose
  lexicographic order is the order of the ULIDs.
\<close>

definition slice_between :: "nat \<Rightarrow> nat \<Rightarrow> string \<Rightarrow> string option" where
  "slice_between p q s =
     (if p + q \<le> length s then Some (take (length s - q - p) (drop p s)) else None)"

fun best_archived ::
  "(string \<Rightarrow> undo_entry_id option) \<Rightarrow> string \<Rightarrow> string \<Rightarrow> undo_entry_id option \<Rightarrow> string list
     \<Rightarrow> undo_entry_id option option" where
  "best_archived parse_ulid pre suf best [] = Some best"
| "best_archived parse_ulid pre suf best (n # ns) =
     (if prefix pre n \<and> suffix suf n
      then case slice_between (length pre) (length suf) n of
             None \<Rightarrow> None
           | Some mid \<Rightarrow>
               (case parse_ulid mid of
                  None \<Rightarrow> best_archived parse_ulid pre suf best ns
                | Some e \<Rightarrow>
                    best_archived parse_ulid pre suf
                      (Some (case best of
                               Some prev \<Rightarrow> (if prev > e then prev else e)
                             | None \<Rightarrow> e)) ns)
      else best_archived parse_ulid pre suf best ns)"

definition find_archived_entry_id ::
  "(string \<Rightarrow> undo_entry_id option) \<Rightarrow> string list option \<Rightarrow> stored_item_id \<Rightarrow> string
     \<Rightarrow> undo_entry_id option option" where
  "find_archived_entry_id parse_ulid listing i x =
     (case listing of
        None \<Rightarrow> Some None
      | Some ns \<Rightarrow> best_archived parse_ulid (i @ ''.'') (''.'' @ x) None ns)"

section \<open>The changelog of an item\<close>

datatype change_op = Create | Update | Delete | Archive | Unarchive

record changelog_entry =
  ce_id :: undo_entry_id
  ce_timestamp :: nat
  ce_op :: change_op
  ce_item_id :: stored_item_id
  ce_forward_patch :: string
  ce_reverse_patch :: string
  ce_transaction_id :: "string option"

text \<open>\<open>to_json\<close> and \<open>of_json\<close> stand for \<open>serde_json::to_string\<close> and
  \<open>serde_json::from_str\<close> on the entry type.\<close>

definition append_entry ::
  "(changelog_entry \<Rightarrow> string) \<Rightarrow> path \<Rightarrow> changelog_entry \<Rightarrow> (files, io_error, unit) action" where
  "append_entry to_json p e fs =
     (let old = (case fs p of None \<Rightarrow> [] | Some c \<Rightarrow> c)
      in (Inr (), fs(p \<mapsto> old @ to_json e @ [NL])))"

definition read_line :: "(string \<Rightarrow> changelog_entry option) \<Rightarrow> string \<Rightarrow> changelog_entry option" where
  "read_line of_json l = (if trim l = [] then None else of_json l)"

definition log_entries :: "(string \<Rightarrow> changelog_entry option) \<Rightarrow> string \<Rightarrow> changelog_entry list" where
  "log_entries of_json c = List.map_filter (read_line of_json) (str_lines c)"

definition read_all :: "(string \<Rightarrow> changelog_entry option) \<Rightarrow> path \<Rightarrow> files \<Rightarrow> changelog_entry list" where
  "read_all of_json p fs = (case fs p of None \<Rightarrow> [] | Some c \<Rightarrow> log_entries of_json c)"

fun scan_lines ::
  "(string \<Rightarrow> changelog_entry option) \<Rightarrow> undo_entry_id \<Rightarrow> string list \<Rightarrow> changelog_entry option" where
  "scan_lines of_json i [] = None"
| "scan_lines of_json i (l # ls) =
     (if trim l = [] then scan_lines of_json i ls
      else case of_json l of
             Some e \<Rightarrow> (if ce_id e = i then Some e else scan_lines of_json i ls)
           | None \<Rightarrow> scan_lines of_json i ls)"

definition find_entry ::
  "(string \<Rightarrow> changelog_entry option) \<Rightarrow> path \<Rightarrow> undo_entry_id \<Rightarrow> files \<Rightarrow> changelog_entry option" where
  "find_entry of_json p i fs =
     (case fs p of None \<Rightarrow> None | Some c \<Rightarrow> scan_lines of_json i (rev (str_lines c)))"

definition compact ::
  "(changelog_entry \<Rightarrow> string) \<Rightarrow> (string \<Rightarrow> changelog_entry option) \<Rightarrow> undo_entry_id set \<Rightarrow> path
     \<Rightarrow> (files, io_error, unit) action" where
  "compact to_json of_json referenced p fs =
     (let kept = filter (\<lambda>e. ce_id e \<in> referenced) (read_all of_json p fs)
      in (Inr (), fs(p \<mapsto> concat (map (\<lambda>e. to_json e @ [NL]) kept))))"

subsection \<open>Lemmas on the log\<close>

text \<open>What the code relies on of the JSON library: an entry is printed on one line and
  read back.\<close>

definition codec_ok :: "(changelog_entry \<Rightarrow> string) \<Rightarrow> (string \<Rightarrow> changelog_entry option) \<Rightarrow> bool" where
  "codec_ok to_json of_json \<longleftrightarrow>
     (\<forall>e. of_json (to_json e) = Some e \<and> trim (to_json e) \<noteq> [] \<and>
          NL \<notin> set (to_json e) \<and> CR \<notin> set (to_json e))"

text \<open>A log the code wrote: every line is ended.\<close>

definition log_ok :: "string \<Rightarrow> bool" where
  "log_ok c \<longleftrightarrow> c = [] \<or> last c = NL"

lemma log_ok_simps [simp]: "log_ok []" "log_ok (c @ [NL])" "log_ok (c @ d @ [NL])"
  by (auto simp: log_ok_def)

lemma map_filter_append: "List.map_filter f (xs @ ys) = List.map_filter f xs @ List.map_filter f ys"
  by (induction xs) (auto simp: List.map_filter_simps split: option.splits)

lemma str_lines_log_append:
  assumes "log_ok c" shows "str_lines (c @ d) = str_lines c @ str_lines d"
proof (cases "c = []")
  case False
  with assms obtain b where "c = b @ [NL]"
    by (metis append_butlast_last_id log_ok_def)
  then show ?thesis using str_lines_append_nl [of b d] by simp
qed simp

lemma log_entries_append:
  "log_ok c \<Longrightarrow> log_entries of_json (c @ d) = log_entries of_json c @ log_entries of_json d"
  by (simp add: log_entries_def str_lines_log_append map_filter_append)

lemma log_entries_Nil [simp]: "log_entries of_json [] = []"
  by (simp add: log_entries_def List.map_filter_simps)

lemma log_entries_line:
  assumes "codec_ok to_json of_json"
  shows "log_entries of_json (to_json e @ [NL]) = [e]"
proof -
  have "str_lines (to_json e @ [NL]) = [to_json e]"
    using assms str_lines_line [of "to_json e" "[]"]
    by (auto simp: codec_ok_def strip_cr_id)
  then show ?thesis
    using assms by (simp add: log_entries_def List.map_filter_simps read_line_def codec_ok_def)
qed

lemma log_entries_append_entry:
  "codec_ok to_json of_json \<Longrightarrow> log_ok c
     \<Longrightarrow> log_entries of_json (c @ to_json e @ [NL]) = log_entries of_json c @ [e]"
  by (simp add: log_entries_append log_entries_line)

lemma scan_lines_find:
  "scan_lines of_json i ls = find (\<lambda>e. ce_id e = i) (List.map_filter (read_line of_json) ls)"
  by (induction ls) (auto simp: List.map_filter_simps read_line_def split: option.splits)

lemma rev_map_filter: "List.map_filter f (rev xs) = rev (List.map_filter f xs)"
  by (induction xs) (auto simp: map_filter_append List.map_filter_simps split: option.splits)

text \<open>\<open>find_entry\<close> finds the last entry of the log with the id.\<close>

lemma find_entry_eq:
  "find_entry of_json p i fs = find (\<lambda>e. ce_id e = i) (rev (read_all of_json p fs))"
  by (simp add: find_entry_def read_all_def scan_lines_find rev_map_filter log_entries_def
        split: option.splits)

lemma log_entries_concat:
  assumes "codec_ok to_json of_json"
  shows "log_entries of_json (concat (map (\<lambda>e. to_json e @ [NL]) es)) = es"
proof (induction es)
  case (Cons e es)
  then show ?case
    using log_entries_append [of "to_json e @ [NL]" of_json] log_entries_line [OF assms, of e]
    by simp
qed simp

end
