(* ===== verification/Store_Handle.thy ===== *)
theory Store_Handle
  imports Store_Files
begin

text \<open>
  \<open>StoreHandle\<close> of \<open>swissarmyhammer-store/src/handle.rs\<close>: write, delete, archive,
  unarchive, undo and redo of the items of one directory, each recorded in the item's
  changelog and announced by a pending event; with the patch operations of \<open>diff.rs\<close>, the
  \<open>TrackedStore\<close> trait of \<open>store.rs\<close>, the errors of \<open>error.rs\<close> and the events of
  \<open>event.rs\<close>.

  What an implementor of \<open>TrackedStore\<close> provides, and what comes from libraries outside
  the repository, are the fields of \<open>store_env\<close>. The clock and the ULID generator are
  arguments of the operations. The operating system fails only as in \<open>Store_Files\<close>.
\<close>

section \<open>Errors, events, environment\<close>

datatype store_error =
    Io io_error
  | Json string
  | Yaml string
  | NotFound string
  | EntryNotFound string
  | PatchFailed string
  | MergeConflict string
  | Deserialize string
  | NoProvider string

record change_event =
  event_name :: string
  payload_store :: string
  payload_id :: string

record 'item store_env =
  se_item_id :: "'item \<Rightarrow> string"
  se_serialize :: "'item \<Rightarrow> store_error + string"
  se_deserialize :: "string \<Rightarrow> string \<Rightarrow> store_error + 'item"
  se_parse_id :: "string \<Rightarrow> bool"
  se_extension :: string
  se_store_name :: string
  se_create_patch :: "string \<Rightarrow> string \<Rightarrow> string"
  se_apply_patch :: "string \<Rightarrow> string \<Rightarrow> string + string"
  se_to_json :: "changelog_entry \<Rightarrow> string"
  se_of_json :: "string \<Rightarrow> changelog_entry option"
  se_parse_ulid :: "string \<Rightarrow> undo_entry_id option"
  se_list_archive :: "files \<Rightarrow> string list option"

record handle =
  hfiles :: files
  pending :: "change_event list"

definition new_handle :: "files \<Rightarrow> handle" where
  "new_handle fs = \<lparr>hfiles = fs, pending = []\<rparr>"

type_synonym 'a handle_action = "(handle, store_error, 'a) action"

text \<open>A file operation inside a handle, with \<open>map_err(StoreError::Io)\<close>.\<close>

definition on_files :: "(files, io_error, 'a) action \<Rightarrow> 'a handle_action" where
  "on_files m h =
     (case m (hfiles h) of
        (Inl e, fs) \<Rightarrow> (Inl (Io e), h\<lparr>hfiles := fs\<rparr>)
      | (Inr x, fs) \<Rightarrow> (Inr x, h\<lparr>hfiles := fs\<rparr>))"

section \<open>Patches\<close>

definition create_patches :: "'item store_env \<Rightarrow> string \<Rightarrow> string \<Rightarrow> string \<times> string" where
  "create_patches env old new = (se_create_patch env old new, se_create_patch env new old)"

definition apply_patch :: "'item store_env \<Rightarrow> string \<Rightarrow> string \<Rightarrow> store_error + string" where
  "apply_patch env t p =
     (case se_apply_patch env t p of Inl m \<Rightarrow> Inl (PatchFailed m) | Inr r \<Rightarrow> Inr r)"

section \<open>Helpers of the handle\<close>

definition log_path :: "stored_item_id \<Rightarrow> path" where
  "log_path i = Live i ''jsonl''"

definition item_path :: "'item store_env \<Rightarrow> stored_item_id \<Rightarrow> path" where
  "item_path env i = Live i (se_extension env)"

definition read_text :: "'item store_env \<Rightarrow> stored_item_id \<Rightarrow> string option handle_action" where
  "read_text env i h = (Inr (hfiles h (item_path env i)), h)"

text \<open>A temporary file renamed over the target: one replacement of the target.\<close>

definition atomic_write :: "'item store_env \<Rightarrow> stored_item_id \<Rightarrow> string \<Rightarrow> unit handle_action" where
  "atomic_write env i content h = (Inr (), h\<lparr>hfiles := (hfiles h)(item_path env i \<mapsto> content)\<rparr>)"

definition push_event :: "'item store_env \<Rightarrow> string \<Rightarrow> stored_item_id \<Rightarrow> unit handle_action" where
  "push_event env name i h =
     (Inr (), h\<lparr>pending := pending h
        @ [\<lparr>event_name = name, payload_store = se_store_name env, payload_id = i\<rparr>]\<rparr>)"

text \<open>The end of every undo and redo branch: parse the id, deserialize the text.\<close>

definition rebuild_item :: "'item store_env \<Rightarrow> stored_item_id \<Rightarrow> string \<Rightarrow> 'item handle_action" where
  "rebuild_item env i txt =
     pure_result (if se_parse_id env i then se_deserialize env i txt else Inl (Deserialize i))"

definition mk_entry ::
  "'item store_env \<Rightarrow> undo_entry_id \<Rightarrow> nat \<Rightarrow> change_op \<Rightarrow> stored_item_id \<Rightarrow> string \<Rightarrow> string
     \<Rightarrow> changelog_entry" where
  "mk_entry env eid now op i old new =
     (let ps = create_patches env old new
      in \<lparr>ce_id = eid, ce_timestamp = now, ce_op = op, ce_item_id = i,
          ce_forward_patch = fst ps, ce_reverse_patch = snd ps, ce_transaction_id = None\<rparr>)"

section \<open>The operations\<close>

definition handle_get :: "'item store_env \<Rightarrow> stored_item_id \<Rightarrow> 'item handle_action" where
  "handle_get env i =
     and_then (read_text env i) (\<lambda>t.
     and_then (pure_result (ok_or (NotFound i) t)) (\<lambda>txt.
       pure_result (se_deserialize env i txt)))"

definition handle_write ::
  "'item store_env \<Rightarrow> undo_entry_id \<Rightarrow> nat \<Rightarrow> 'item \<Rightarrow> undo_entry_id option handle_action" where
  "handle_write env eid now item =
     (let i = se_item_id env item in
      and_then (pure_result (se_serialize env item)) (\<lambda>new_text.
      and_then (read_text env i) (\<lambda>old_text.
        if old_text = Some new_text then ok None
        else
          let is_create = (old_text = None);
              op = (if is_create then Create else Update);
              entry = mk_entry env eid now op i (case old_text of None \<Rightarrow> [] | Some t \<Rightarrow> t) new_text
          in and_then (on_files (append_entry (se_to_json env) (log_path i) entry)) (\<lambda>_.
             and_then (atomic_write env i new_text) (\<lambda>_.
             and_then (push_event env (if is_create then ''item-created'' else ''item-changed'') i) (\<lambda>_.
               ok (Some eid)))))))"

definition handle_delete ::
  "'item store_env \<Rightarrow> undo_entry_id \<Rightarrow> nat \<Rightarrow> stored_item_id \<Rightarrow> undo_entry_id handle_action" where
  "handle_delete env eid now i =
     and_then (read_text env i) (\<lambda>t.
     and_then (pure_result (ok_or (NotFound i) t)) (\<lambda>txt.
     and_then (on_files (append_entry (se_to_json env) (log_path i)
                 (mk_entry env eid now Delete i txt []))) (\<lambda>_.
     and_then (on_files (trash_file i (se_extension env) eid)) (\<lambda>_.
     and_then (on_files (trash_file i ''jsonl'' eid)) (\<lambda>_.
     and_then (push_event env ''item-removed'' i) (\<lambda>_.
       ok eid))))))"

definition handle_archive ::
  "'item store_env \<Rightarrow> undo_entry_id \<Rightarrow> nat \<Rightarrow> stored_item_id \<Rightarrow> undo_entry_id handle_action" where
  "handle_archive env eid now i =
     and_then (read_text env i) (\<lambda>t.
     and_then (pure_result (ok_or (NotFound i) t)) (\<lambda>txt.
     and_then (on_files (append_entry (se_to_json env) (log_path i)
                 (mk_entry env eid now Archive i txt []))) (\<lambda>_.
     and_then (on_files (archive_file i (se_extension env) eid)) (\<lambda>_.
     and_then (on_files (archive_file i ''jsonl'' eid)) (\<lambda>_.
     and_then (push_event env ''item-removed'' i) (\<lambda>_.
       ok eid))))))"

definition handle_unarchive ::
  "'item store_env \<Rightarrow> undo_entry_id \<Rightarrow> nat \<Rightarrow> stored_item_id \<Rightarrow> undo_entry_id \<Rightarrow> 'item handle_action" where
  "handle_unarchive env eid now i archive_id =
     and_then (on_files (restore_archived_file i ''jsonl'' archive_id)) (\<lambda>_.
     and_then (on_files (restore_archived_file i (se_extension env) archive_id)) (\<lambda>_.
     and_then (read_text env i) (\<lambda>t.
     and_then (pure_result (ok_or (NotFound i) t)) (\<lambda>txt.
     and_then (on_files (append_entry (se_to_json env) (log_path i)
                 (mk_entry env eid now Unarchive i [] txt))) (\<lambda>_.
     and_then (push_event env ''item-created'' i) (\<lambda>_.
       rebuild_item env i txt))))))"

text \<open>The inner \<open>None\<close> of the scan is \<open>NotFound\<close>; its outer \<open>None\<close>, the panic of the
  slice, is kept as the outer \<open>None\<close> of this operation.\<close>

definition handle_unarchive_latest ::
  "'item store_env \<Rightarrow> undo_entry_id \<Rightarrow> nat \<Rightarrow> stored_item_id \<Rightarrow> handle
     \<Rightarrow> ((store_error + 'item \<times> undo_entry_id) \<times> handle) option" where
  "handle_unarchive_latest env eid now i h =
     (case find_archived_entry_id (se_parse_ulid env) (se_list_archive env (hfiles h)) i
             (se_extension env) of
        None \<Rightarrow> None
      | Some found \<Rightarrow>
          Some (and_then (pure_result (ok_or (NotFound i) found)) (\<lambda>aid.
                and_then (handle_unarchive env eid now i aid) (\<lambda>item h1.
                  (let es = read_all (se_of_json env) (log_path i) (hfiles h1)
                   in case find (\<lambda>e. ce_op e = Unarchive) (rev es) of
                        None \<Rightarrow> (Inl (EntryNotFound ''unarchive entry not found''), h1)
                      | Some e \<Rightarrow> (Inr (item, ce_id e), h1)))) h))"

text \<open>The branches of the \<open>match entry.op\<close> of \<open>undo\<close>.\<close>

fun undo_branch :: "'item store_env \<Rightarrow> changelog_entry \<Rightarrow> change_op \<Rightarrow> 'item handle_action" where
  "undo_branch env e Create =
     and_then (pure_result (apply_patch env [] (ce_forward_patch e))) (\<lambda>created_text.
     and_then (on_files (trash_file (ce_item_id e) (se_extension env) (ce_id e))) (\<lambda>_.
     and_then (on_files (trash_file (ce_item_id e) ''jsonl'' (ce_id e))) (\<lambda>_.
     and_then (push_event env ''item-removed'' (ce_item_id e)) (\<lambda>_.
       rebuild_item env (ce_item_id e) created_text))))"
| "undo_branch env e Update =
     and_then (read_text env (ce_item_id e)) (\<lambda>t.
     and_then (pure_result (ok_or (NotFound (ce_item_id e)) t)) (\<lambda>cur.
     and_then (pure_result (case apply_patch env cur (ce_reverse_patch e) of
                 Inl _ \<Rightarrow> Inl (MergeConflict ''reverse patch failed to apply'')
               | Inr r \<Rightarrow> Inr r)) (\<lambda>target.
     and_then (atomic_write env (ce_item_id e) target) (\<lambda>_.
     and_then (push_event env ''item-changed'' (ce_item_id e)) (\<lambda>_.
       rebuild_item env (ce_item_id e) target)))))"
| "undo_branch env e Delete =
     and_then (on_files (restore_file (ce_item_id e) (se_extension env) (ce_id e))) (\<lambda>_.
     and_then (pure_result (apply_patch env [] (ce_reverse_patch e))) (\<lambda>restored_text.
     and_then (push_event env ''item-created'' (ce_item_id e)) (\<lambda>_.
       rebuild_item env (ce_item_id e) restored_text)))"
| "undo_branch env e Archive =
     and_then (on_files (restore_archived_file (ce_item_id e) (se_extension env) (ce_id e))) (\<lambda>_.
     and_then (pure_result (apply_patch env [] (ce_reverse_patch e))) (\<lambda>restored_text.
     and_then (push_event env ''item-created'' (ce_item_id e)) (\<lambda>_.
       rebuild_item env (ce_item_id e) restored_text)))"
| "undo_branch env e Unarchive =
     and_then (pure_result (apply_patch env [] (ce_forward_patch e))) (\<lambda>content_text.
     and_then (on_files (archive_file (ce_item_id e) (se_extension env) (ce_id e))) (\<lambda>_.
     and_then (on_files (archive_file (ce_item_id e) ''jsonl'' (ce_id e))) (\<lambda>_.
     and_then (push_event env ''item-removed'' (ce_item_id e)) (\<lambda>_.
       rebuild_item env (ce_item_id e) content_text))))"

text \<open>The branches of \<open>redo\<close>.\<close>

fun redo_branch :: "'item store_env \<Rightarrow> changelog_entry \<Rightarrow> change_op \<Rightarrow> 'item handle_action" where
  "redo_branch env e Create =
     and_then (on_files (restore_file (ce_item_id e) (se_extension env) (ce_id e))) (\<lambda>_.
     and_then (pure_result (apply_patch env [] (ce_forward_patch e))) (\<lambda>created_text.
     and_then (push_event env ''item-created'' (ce_item_id e)) (\<lambda>_.
       rebuild_item env (ce_item_id e) created_text)))"
| "redo_branch env e Update =
     and_then (read_text env (ce_item_id e)) (\<lambda>t.
     and_then (pure_result (ok_or (NotFound (ce_item_id e)) t)) (\<lambda>cur.
     and_then (pure_result (case apply_patch env cur (ce_forward_patch e) of
                 Inl _ \<Rightarrow> Inl (MergeConflict ''forward patch failed to apply'')
               | Inr r \<Rightarrow> Inr r)) (\<lambda>target.
     and_then (atomic_write env (ce_item_id e) target) (\<lambda>_.
     and_then (push_event env ''item-changed'' (ce_item_id e)) (\<lambda>_.
       rebuild_item env (ce_item_id e) target)))))"
| "redo_branch env e Delete =
     and_then (pure_result (apply_patch env [] (ce_reverse_patch e))) (\<lambda>deleted_text.
     and_then (on_files (trash_file (ce_item_id e) (se_extension env) (ce_id e))) (\<lambda>_.
     and_then (on_files (trash_file (ce_item_id e) ''jsonl'' (ce_id e))) (\<lambda>_.
     and_then (push_event env ''item-removed'' (ce_item_id e)) (\<lambda>_.
       rebuild_item env (ce_item_id e) deleted_text))))"
| "redo_branch env e Archive =
     and_then (pure_result (apply_patch env [] (ce_reverse_patch e))) (\<lambda>archived_text.
     and_then (on_files (archive_file (ce_item_id e) (se_extension env) (ce_id e))) (\<lambda>_.
     and_then (on_files (archive_file (ce_item_id e) ''jsonl'' (ce_id e))) (\<lambda>_.
     and_then (push_event env ''item-removed'' (ce_item_id e)) (\<lambda>_.
       rebuild_item env (ce_item_id e) archived_text))))"
| "redo_branch env e Unarchive =
     and_then (on_files (restore_archived_file (ce_item_id e) (se_extension env) (ce_id e))) (\<lambda>_.
     and_then (pure_result (apply_patch env [] (ce_forward_patch e))) (\<lambda>restored_text.
     and_then (push_event env ''item-created'' (ce_item_id e)) (\<lambda>_.
       rebuild_item env (ce_item_id e) restored_text)))"

text \<open>Both start by bringing back a changelog that a delete or an archive moved away under
  the entry's id; that this fails when there is none is ignored.\<close>

definition locate_entry ::
  "'item store_env \<Rightarrow> undo_entry_id \<Rightarrow> stored_item_id \<Rightarrow> changelog_entry handle_action" where
  "locate_entry env eid i =
     and_then (ignoring (on_files (restore_file i ''jsonl'' eid))) (\<lambda>_.
     and_then (ignoring (on_files (restore_archived_file i ''jsonl'' eid))) (\<lambda>_ h.
       (ok_or (EntryNotFound eid) (find_entry (se_of_json env) (log_path i) eid (hfiles h)), h)))"

definition handle_undo ::
  "'item store_env \<Rightarrow> undo_entry_id \<Rightarrow> stored_item_id \<Rightarrow> 'item handle_action" where
  "handle_undo env eid i =
     and_then (locate_entry env eid i) (\<lambda>e. undo_branch env e (ce_op e))"

definition handle_redo ::
  "'item store_env \<Rightarrow> undo_entry_id \<Rightarrow> stored_item_id \<Rightarrow> 'item handle_action" where
  "handle_redo env eid i =
     and_then (locate_entry env eid i) (\<lambda>e. redo_branch env e (ce_op e))"

definition has_entry ::
  "'item store_env \<Rightarrow> undo_entry_id \<Rightarrow> stored_item_id \<Rightarrow> handle \<Rightarrow> bool" where
  "has_entry env eid i h \<longleftrightarrow>
     find_entry (se_of_json env) (log_path i) eid (hfiles h) \<noteq> None \<or>
     is_trashed i ''jsonl'' eid (hfiles h) \<or> is_archived i ''jsonl'' eid (hfiles h)"

definition flush_changes :: "handle \<Rightarrow> change_event list \<times> handle" where
  "flush_changes h = (pending h, h\<lparr>pending := []\<rparr>)"

section \<open>What the code relies on of its libraries\<close>

text \<open>
  The patch library: a patch made from two texts turns the first into the second. The JSON
  library: \<open>codec_ok\<close>. The store: its data files are not called \<open>.jsonl\<close>.
\<close>

definition env_ok :: "'item store_env \<Rightarrow> bool" where
  "env_ok env \<longleftrightarrow>
     (\<forall>old new. se_apply_patch env old (se_create_patch env old new) = Inr new) \<and>
     codec_ok (se_to_json env) (se_of_json env) \<and>
     se_extension env \<noteq> ''jsonl''"

lemma env_okD:
  assumes "env_ok env"
  shows "apply_patch env old (se_create_patch env old new) = Inr new"
    and "codec_ok (se_to_json env) (se_of_json env)"
    and "se_extension env \<noteq> ''jsonl''" and "''jsonl'' \<noteq> se_extension env"
  using assms by (auto simp: env_ok_def apply_patch_def)

lemma on_files_simps [simp]:
  "m (hfiles h) = (Inr x, fs) \<Longrightarrow> on_files m h = (Inr x, h\<lparr>hfiles := fs\<rparr>)"
  "m (hfiles h) = (Inl e, fs) \<Longrightarrow> on_files m h = (Inl (Io e), h\<lparr>hfiles := fs\<rparr>)"
  by (simp_all add: on_files_def)

lemma on_files_eq_Inr:
  "on_files m h = (Inr x, h') \<longleftrightarrow> (\<exists>fs. m (hfiles h) = (Inr x, fs) \<and> h' = h\<lparr>hfiles := fs\<rparr>)"
  by (auto simp: on_files_def split: prod.splits sum.splits)

lemma mk_entry_simps [simp]:
  "ce_id (mk_entry env eid now op i old new) = eid"
  "ce_op (mk_entry env eid now op i old new) = op"
  "ce_item_id (mk_entry env eid now op i old new) = i"
  "ce_forward_patch (mk_entry env eid now op i old new) = se_create_patch env old new"
  "ce_reverse_patch (mk_entry env eid now op i old new) = se_create_patch env new old"
  by (simp_all add: mk_entry_def create_patches_def Let_def)

end
