(* ===== verification/Store_Undo.thy ===== *)
theory Store_Undo
  imports Store_Handle
begin

text \<open>
  Undo and redo of one store handle are correct: an undo brings back the directory as it
  was before the operation, a redo brings back the one after it, and neither disturbs what
  older entries of the undo stack need.

  Two directories \<open>agree\<close> for a set of entry ids when they hold the same data files, when
  each changelog holds the same entries of these ids, and when trash and archive hold the
  same files under these ids. Undo and redo of an entry of the set cannot tell such
  directories apart (\<open>handle_undo_sim\<close>, \<open>handle_redo_sim\<close>).
\<close>

section \<open>Directories that agree\<close>

fun path_ext :: "path \<Rightarrow> string" where
  "path_ext (Live i x) = x"
| "path_ext (Trashed i e x) = x"
| "path_ext (Archived i e x) = x"

fun relevant :: "undo_entry_id set \<Rightarrow> path \<Rightarrow> bool" where
  "relevant ids (Live i x) \<longleftrightarrow> True"
| "relevant ids (Trashed i e x) \<longleftrightarrow> e \<in> ids"
| "relevant ids (Archived i e x) \<longleftrightarrow> e \<in> ids"

definition ids_entries ::
  "(string \<Rightarrow> changelog_entry option) \<Rightarrow> undo_entry_id set \<Rightarrow> string \<Rightarrow> changelog_entry list" where
  "ids_entries of_json ids c = filter (\<lambda>e. ce_id e \<in> ids) (log_entries of_json c)"

fun log_agree ::
  "(string \<Rightarrow> changelog_entry option) \<Rightarrow> undo_entry_id set \<Rightarrow> string option \<Rightarrow> string option \<Rightarrow> bool" where
  "log_agree of_json ids None None \<longleftrightarrow> True"
| "log_agree of_json ids (Some c) (Some c') \<longleftrightarrow>
     log_ok c \<and> log_ok c' \<and> ids_entries of_json ids c = ids_entries of_json ids c'"
| "log_agree of_json ids _ _ \<longleftrightarrow> False"

definition content_agree ::
  "(string \<Rightarrow> changelog_entry option) \<Rightarrow> undo_entry_id set \<Rightarrow> path \<Rightarrow> string option \<Rightarrow> string option \<Rightarrow> bool"
  where
  "content_agree of_json ids p x y \<longleftrightarrow>
     (if path_ext p = ''jsonl'' then log_agree of_json ids x y else x = y)"

definition agree_files ::
  "(string \<Rightarrow> changelog_entry option) \<Rightarrow> undo_entry_id set \<Rightarrow> files \<Rightarrow> files \<Rightarrow> bool" where
  "agree_files of_json ids fs fs' \<longleftrightarrow>
     (\<forall>p. relevant ids p \<longrightarrow> content_agree of_json ids p (fs p) (fs' p))"

definition agree :: "'item store_env \<Rightarrow> undo_entry_id set \<Rightarrow> handle \<Rightarrow> handle \<Rightarrow> bool" where
  "agree env ids h h' \<longleftrightarrow> agree_files (se_of_json env) ids (hfiles h) (hfiles h')"

lemma log_agree_sym: "log_agree oj ids x y \<Longrightarrow> log_agree oj ids y x"
  by (cases x; cases y) auto

lemma log_agree_trans: "log_agree oj ids x y \<Longrightarrow> log_agree oj ids y z \<Longrightarrow> log_agree oj ids x z"
  by (cases x; cases y; cases z) auto

lemma ids_entries_mono:
  "ids \<subseteq> ids' \<Longrightarrow> ids_entries oj ids' c = ids_entries oj ids' c'
     \<Longrightarrow> ids_entries oj ids c = ids_entries oj ids c'"
proof -
  assume sub: "ids \<subseteq> ids'" and eq: "ids_entries oj ids' c = ids_entries oj ids' c'"
  have "ids_entries oj ids d = filter (\<lambda>e. ce_id e \<in> ids) (ids_entries oj ids' d)" for d
    using sub by (auto simp: ids_entries_def intro!: filter_cong)
  then show ?thesis using eq by simp
qed

lemma log_agree_mono: "ids \<subseteq> ids' \<Longrightarrow> log_agree oj ids' x y \<Longrightarrow> log_agree oj ids x y"
  by (cases x; cases y) (auto intro: ids_entries_mono)

lemma relevant_mono: "ids \<subseteq> ids' \<Longrightarrow> relevant ids p \<Longrightarrow> relevant ids' p"
  by (cases p) auto

lemma content_agree_sym: "content_agree oj ids p x y \<Longrightarrow> content_agree oj ids p y x"
  by (simp add: content_agree_def log_agree_sym split: if_splits)

lemma content_agree_trans:
  "content_agree oj ids p x y \<Longrightarrow> content_agree oj ids p y z \<Longrightarrow> content_agree oj ids p x z"
  by (auto simp: content_agree_def intro: log_agree_trans split: if_splits)

lemma content_agree_mono:
  "ids \<subseteq> ids' \<Longrightarrow> content_agree oj ids' p x y \<Longrightarrow> content_agree oj ids p x y"
  by (auto simp: content_agree_def intro: log_agree_mono split: if_splits)

lemma agree_sym: "agree env ids h h' \<Longrightarrow> agree env ids h' h"
  by (simp add: agree_def agree_files_def content_agree_sym)

lemma agree_trans: "agree env ids h h' \<Longrightarrow> agree env ids h' h'' \<Longrightarrow> agree env ids h h''"
  unfolding agree_def agree_files_def by (blast intro: content_agree_trans)

lemma agree_refl1: "agree env ids h h' \<Longrightarrow> agree env ids h h"
  by (blast intro: agree_sym agree_trans)

lemma agree_mono: "ids \<subseteq> ids' \<Longrightarrow> agree env ids' h h' \<Longrightarrow> agree env ids h h'"
  unfolding agree_def agree_files_def by (blast intro: relevant_mono content_agree_mono)

lemma agree_files_cong:
  "agree env ids h h' \<Longrightarrow> hfiles k = hfiles h \<Longrightarrow> hfiles k' = hfiles h' \<Longrightarrow> agree env ids k k'"
  by (simp add: agree_def)

lemma agreeD:
  "agree env ids h h' \<Longrightarrow> relevant ids p
     \<Longrightarrow> content_agree (se_of_json env) ids p (hfiles h p) (hfiles h' p)"
  by (simp add: agree_def agree_files_def)

lemma content_agree_None: "content_agree oj ids p x y \<Longrightarrow> x = None \<longleftrightarrow> y = None"
  by (cases x; cases y) (auto simp: content_agree_def split: if_splits)

text \<open>The live data file of an item, what the rest of the program sees of the store.\<close>

definition view :: "'item store_env \<Rightarrow> handle \<Rightarrow> stored_item_id \<Rightarrow> string option" where
  "view env h i = hfiles h (item_path env i)"

lemma agree_item:
  "se_extension env \<noteq> ''jsonl'' \<Longrightarrow> agree env ids h h'
     \<Longrightarrow> hfiles h (Live i (se_extension env)) = hfiles h' (Live i (se_extension env))"
  using agreeD [of env ids h h' "Live i (se_extension env)"] by (simp add: content_agree_def)

lemma agree_view:
  "se_extension env \<noteq> ''jsonl'' \<Longrightarrow> agree env ids h h' \<Longrightarrow> view env h = view env h'"
  by (rule ext) (simp add: view_def item_path_def agree_item)

section \<open>Undo and redo respect agreement\<close>

text \<open>An action behaves alike on directories that agree.\<close>

definition sim :: "'item store_env \<Rightarrow> undo_entry_id set \<Rightarrow> 'a handle_action \<Rightarrow> bool" where
  "sim env ids m \<longleftrightarrow>
     (\<forall>h h' x h1. agree env ids h h' \<longrightarrow> m h = (Inr x, h1) \<longrightarrow>
        (\<exists>h1'. m h' = (Inr x, h1') \<and> agree env ids h1 h1'))"

lemma simI:
  "(\<And>h h' x h1. agree env ids h h' \<Longrightarrow> m h = (Inr x, h1) \<Longrightarrow>
      \<exists>h1'. m h' = (Inr x, h1') \<and> agree env ids h1 h1') \<Longrightarrow> sim env ids m"
  by (auto simp: sim_def)

lemma simD:
  "sim env ids m \<Longrightarrow> agree env ids h h' \<Longrightarrow> m h = (Inr x, h1)
     \<Longrightarrow> \<exists>h1'. m h' = (Inr x, h1') \<and> agree env ids h1 h1'"
  by (auto simp: sim_def)

lemma sim_and_then_post:
  assumes m: "sim env ids m" and post: "\<And>h x h1. m h = (Inr x, h1) \<Longrightarrow> P x"
    and k: "\<And>x. P x \<Longrightarrow> sim env ids (k x)"
  shows "sim env ids (and_then m k)"
proof (rule simI)
  fix h h' y h2
  assume a: "agree env ids h h'" and r: "and_then m k h = (Inr y, h2)"
  from r obtain x h1 where 1: "m h = (Inr x, h1)" and 2: "k x h1 = (Inr y, h2)"
    by (rule and_then_InrE)
  from simD [OF m a 1] obtain h1' where 3: "m h' = (Inr x, h1')" "agree env ids h1 h1'" by blast
  from simD [OF k [OF post [OF 1]] 3(2) 2] 3(1)
  show "\<exists>h2'. and_then m k h' = (Inr y, h2') \<and> agree env ids h2 h2'" by auto
qed

lemma sim_and_then:
  "sim env ids m \<Longrightarrow> (\<And>x. sim env ids (k x)) \<Longrightarrow> sim env ids (and_then m k)"
  by (rule sim_and_then_post [where P = "\<lambda>_. True"]) auto

lemma sim_pure_result: "sim env ids (pure_result r)"
  by (auto intro: simI)

lemma sim_push_event: "sim env ids (push_event env' n i)"
  by (auto intro!: simI simp: push_event_def agree_def)

lemma sim_rebuild: "sim env ids (rebuild_item env' i t)"
  by (simp add: rebuild_item_def sim_pure_result)

lemma sim_read_text: "se_extension env \<noteq> ''jsonl'' \<Longrightarrow> sim env ids (read_text env i)"
  by (rule simI) (auto simp: read_text_def item_path_def agree_item)

lemma sim_atomic_write: "se_extension env \<noteq> ''jsonl'' \<Longrightarrow> sim env ids (atomic_write env i c)"
  by (auto intro!: simI simp: atomic_write_def item_path_def agree_def agree_files_def content_agree_def)

lemma agree_rename:
  assumes a: "agree env ids h h'" and rel: "relevant ids src" "relevant ids dst"
    and ext: "path_ext src = path_ext dst"
    and r: "rename_file src dst (hfiles h) = (Inr x, fs)"
  shows "\<exists>fs'. rename_file src dst (hfiles h') = (Inr x, fs') \<and>
               agree env ids (h\<lparr>hfiles := fs\<rparr>) (h'\<lparr>hfiles := fs'\<rparr>)"
proof -
  obtain c where c: "hfiles h src = Some c" and fs: "fs = (hfiles h)(src := None, dst := Some c)"
    using r by (auto simp: rename_file_eq_Inr)
  have ca: "content_agree (se_of_json env) ids src (hfiles h src) (hfiles h' src)"
    using a rel(1) by (rule agreeD)
  then obtain c' where c': "hfiles h' src = Some c'"
    using c content_agree_None by fastforce
  have "agree env ids (h\<lparr>hfiles := fs\<rparr>) (h'\<lparr>hfiles := (hfiles h')(src := None, dst := Some c')\<rparr>)"
    using a rel ext ca c c'
    by (auto simp: agree_def agree_files_def content_agree_def fs)
  then show ?thesis using c' by auto
qed

lemma sim_rename:
  assumes "relevant ids src" "relevant ids dst" "path_ext src = path_ext dst"
  shows "sim env ids (on_files (rename_file src dst))"
proof (rule simI)
  fix h h' x h1
  assume a: "agree env ids h h'" and r: "on_files (rename_file src dst) h = (Inr x, h1)"
  from r obtain fs where fs: "rename_file src dst (hfiles h) = (Inr x, fs)" "h1 = h\<lparr>hfiles := fs\<rparr>"
    by (simp add: on_files_eq_Inr) blast
  from agree_rename [OF a assms fs(1)] obtain fs' where
    "rename_file src dst (hfiles h') = (Inr x, fs')" "agree env ids h1 (h'\<lparr>hfiles := fs'\<rparr>)"
    using fs(2) by blast
  then show "\<exists>h1'. on_files (rename_file src dst) h' = (Inr x, h1') \<and> agree env ids h1 h1'"
    by (metis on_files_simps(1))
qed

lemma sim_ignoring_rename:
  assumes "relevant ids src" "relevant ids dst" "path_ext src = path_ext dst"
  shows "sim env ids (ignoring (on_files (rename_file src dst)))"
proof (rule simI)
  fix h h' x h1
  assume a: "agree env ids h h'" and r: "ignoring (on_files (rename_file src dst)) h = (Inr x, h1)"
  show "\<exists>h1'. ignoring (on_files (rename_file src dst)) h' = (Inr x, h1') \<and> agree env ids h1 h1'"
  proof (cases "hfiles h src")
    case None
    then have "hfiles h' src = None"
      using content_agree_None [OF agreeD [OF a assms(1)]] by simp
    with None r a show ?thesis
      by (auto simp: ignoring_def on_files_def agree_def)
  next
    case (Some c)
    then have "rename_file src dst (hfiles h) = (Inr (), (hfiles h)(src := None, dst := Some c))"
      by simp
    from agree_rename [OF a assms this] obtain fs'
      where "rename_file src dst (hfiles h') = (Inr (), fs')"
        "agree env ids (h\<lparr>hfiles := (hfiles h)(src := None, dst := Some c)\<rparr>) (h'\<lparr>hfiles := fs'\<rparr>)"
      by blast
    with Some r show ?thesis by (auto simp: ignoring_def on_files_def)
  qed
qed

lemma find_ids_entries:
  "e \<in> ids \<Longrightarrow> find (\<lambda>x. ce_id x = e) (rev (log_entries oj c))
     = find (\<lambda>x. ce_id x = e) (rev (ids_entries oj ids c))"
  unfolding ids_entries_def rev_filter by (rule find_filter_imp [symmetric]) simp

lemma agree_find_entry:
  assumes "agree env ids h h'" "e \<in> ids"
  shows "find_entry (se_of_json env) (log_path i) e (hfiles h)
       = find_entry (se_of_json env) (log_path i) e (hfiles h')"
proof -
  have "log_agree (se_of_json env) ids (hfiles h (log_path i)) (hfiles h' (log_path i))"
    using agreeD [OF assms(1), of "log_path i"] by (simp add: content_agree_def log_path_def)
  then show ?thesis
    using assms(2)
    by (cases "hfiles h (log_path i)"; cases "hfiles h' (log_path i)")
       (auto simp: find_entry_eq read_all_def find_ids_entries)
qed

lemma sim_locate: "e \<in> ids \<Longrightarrow> sim env ids (locate_entry env e i)"
  unfolding locate_entry_def restore_file_def restore_archived_file_def
  by (intro sim_and_then sim_ignoring_rename simI) (auto simp: agree_find_entry)

lemma locate_entry_id:
  "locate_entry env eid i h = (Inr e, h1) \<Longrightarrow> ce_id e = eid"
  by (auto simp: locate_entry_def and_then_eq_Inr find_entry_eq dest: find_SomeD)

lemmas file_moves = trash_file_def restore_file_def archive_file_def restore_archived_file_def

lemmas sim_steps =
  sim_and_then sim_pure_result sim_push_event sim_rebuild sim_read_text sim_atomic_write sim_rename

lemma sim_undo_branch:
  assumes "se_extension env \<noteq> ''jsonl''" "ce_id e \<in> ids"
  shows "sim env ids (undo_branch env e op)"
  by (cases op; simp only: undo_branch.simps file_moves; intro sim_steps; simp add: assms)

lemma sim_redo_branch:
  assumes "se_extension env \<noteq> ''jsonl''" "ce_id e \<in> ids"
  shows "sim env ids (redo_branch env e op)"
  by (cases op; simp only: redo_branch.simps file_moves; intro sim_steps; simp add: assms)

lemma handle_undo_sim:
  assumes "env_ok env" "e \<in> ids" shows "sim env ids (handle_undo env e i)"
  unfolding handle_undo_def
proof (rule sim_and_then_post [where P = "\<lambda>x. ce_id x = e"])
  show "sim env ids (locate_entry env e i)" using assms(2) by (rule sim_locate)
qed (use assms in \<open>auto intro: sim_undo_branch dest: locate_entry_id env_okD\<close>)

lemma handle_redo_sim:
  assumes "env_ok env" "e \<in> ids" shows "sim env ids (handle_redo env e i)"
  unfolding handle_redo_def
proof (rule sim_and_then_post [where P = "\<lambda>x. ce_id x = e"])
  show "sim env ids (locate_entry env e i)" using assms(2) by (rule sim_locate)
qed (use assms in \<open>auto intro: sim_redo_branch dest: locate_entry_id env_okD\<close>)

lemma has_entry_agree:
  assumes "agree env ids h h'" "e \<in> ids"
  shows "has_entry env e i h = has_entry env e i h'"
  using agree_find_entry [OF assms]
    content_agree_None [OF agreeD [OF assms(1), of "Trashed i e ''jsonl''"]]
    content_agree_None [OF agreeD [OF assms(1), of "Archived i e ''jsonl''"]] assms(2)
  by (simp add: has_entry_def is_trashed_def is_archived_def)

end
