(* ===== verification/Store_Reverse.thy ===== *)
theory Store_Reverse
  imports Store_Undo
begin

text \<open>
  When a changelog entry can be undone and redone. A directory in which the effect of an
  entry stands is \<open>applied\<close>, one in which it has been taken back is \<open>unapplied\<close>. Undo leads
  from the first to the second, redo back to exactly the files one came from, and both
  notions only depend on what \<open>agree\<close> compares. Each mutation of the handle (\<open>write\<close>,
  \<open>delete\<close>, \<open>archive\<close>, \<open>unarchive\<close>) leaves a directory in which its new entry is applied and
  whose undo agrees with the directory before it.
\<close>

section \<open>Applied and unapplied entries\<close>

fun place :: "change_op \<Rightarrow> stored_item_id \<Rightarrow> undo_entry_id \<Rightarrow> string \<Rightarrow> path" where
  "place Create i k x = Trashed i k x"
| "place Update i k x = Trashed i k x"
| "place Delete i k x = Trashed i k x"
| "place Archive i k x = Archived i k x"
| "place Unarchive i k x = Archived i k x"

definition logged :: "'item store_env \<Rightarrow> changelog_entry \<Rightarrow> string \<Rightarrow> bool" where
  "logged env e c \<longleftrightarrow>
     log_ok c \<and> find (\<lambda>x. ce_id x = ce_id e) (rev (log_entries (se_of_json env) c)) = Some e"

definition slots_free :: "'item store_env \<Rightarrow> stored_item_id \<Rightarrow> undo_entry_id \<Rightarrow> files \<Rightarrow> bool" where
  "slots_free env i k fs \<longleftrightarrow>
     fs (Trashed i k (se_extension env)) = None \<and> fs (Trashed i k ''jsonl'') = None \<and>
     fs (Archived i k (se_extension env)) = None \<and> fs (Archived i k ''jsonl'') = None"

definition live_with :: "'item store_env \<Rightarrow> changelog_entry \<Rightarrow> files \<Rightarrow> bool" where
  "live_with env e fs \<longleftrightarrow>
     slots_free env (ce_item_id e) (ce_id e) fs \<and>
     fs (Live (ce_item_id e) (se_extension env)) \<noteq> None \<and>
     (\<exists>c. fs (Live (ce_item_id e) ''jsonl'') = Some c \<and> logged env e c)"

definition stowed :: "'item store_env \<Rightarrow> changelog_entry \<Rightarrow> files \<Rightarrow> files" where
  "stowed env e fs =
     (let i = ce_item_id e; pl = place (ce_op e) i (ce_id e); x = se_extension env
      in fs(Live i x := None, Live i ''jsonl'' := None,
            pl x := fs (Live i x), pl ''jsonl'' := fs (Live i ''jsonl'')))"

definition fetched :: "'item store_env \<Rightarrow> changelog_entry \<Rightarrow> files \<Rightarrow> files" where
  "fetched env e fs =
     (let i = ce_item_id e; pl = place (ce_op e) i (ce_id e); x = se_extension env
      in fs(pl x := None, pl ''jsonl'' := None,
            Live i x := fs (pl x), Live i ''jsonl'' := fs (pl ''jsonl'')))"

definition moved_with :: "'item store_env \<Rightarrow> changelog_entry \<Rightarrow> files \<Rightarrow> bool" where
  "moved_with env e fs \<longleftrightarrow>
     fs (Live (ce_item_id e) (se_extension env)) = None \<and>
     fs (Live (ce_item_id e) ''jsonl'') = None \<and> live_with env e (fetched env e fs)"

definition rebuild_ok :: "'item store_env \<Rightarrow> stored_item_id \<Rightarrow> string \<Rightarrow> bool" where
  "rebuild_ok env i t \<longleftrightarrow> se_parse_id env i \<and> is_ok (se_deserialize env i t)"

definition text_ok :: "'item store_env \<Rightarrow> changelog_entry \<Rightarrow> string \<Rightarrow> bool" where
  "text_ok env e p \<longleftrightarrow> (\<exists>t. apply_patch env [] p = Inr t \<and> rebuild_ok env (ce_item_id e) t)"

definition update_ok :: "'item store_env \<Rightarrow> changelog_entry \<Rightarrow> string \<Rightarrow> string \<Rightarrow> bool" where
  "update_ok env e old new \<longleftrightarrow>
     apply_patch env new (ce_reverse_patch e) = Inr old \<and>
     apply_patch env old (ce_forward_patch e) = Inr new \<and>
     rebuild_ok env (ce_item_id e) old \<and> rebuild_ok env (ce_item_id e) new"

definition applied :: "'item store_env \<Rightarrow> changelog_entry \<Rightarrow> files \<Rightarrow> bool" where
  "applied env e fs \<longleftrightarrow>
     (case ce_op e of
        Create \<Rightarrow> live_with env e fs \<and> text_ok env e (ce_forward_patch e)
      | Update \<Rightarrow> live_with env e fs \<and>
          (\<exists>old new. fs (Live (ce_item_id e) (se_extension env)) = Some new \<and> update_ok env e old new)
      | Delete \<Rightarrow> moved_with env e fs \<and> text_ok env e (ce_reverse_patch e)
      | Archive \<Rightarrow> moved_with env e fs \<and> text_ok env e (ce_reverse_patch e)
      | Unarchive \<Rightarrow> live_with env e fs \<and> text_ok env e (ce_forward_patch e))"

definition unapplied :: "'item store_env \<Rightarrow> changelog_entry \<Rightarrow> files \<Rightarrow> bool" where
  "unapplied env e fs \<longleftrightarrow>
     (case ce_op e of
        Create \<Rightarrow> moved_with env e fs \<and> text_ok env e (ce_forward_patch e)
      | Update \<Rightarrow> live_with env e fs \<and>
          (\<exists>old new. fs (Live (ce_item_id e) (se_extension env)) = Some old \<and> update_ok env e old new)
      | Delete \<Rightarrow> live_with env e fs \<and> text_ok env e (ce_reverse_patch e)
      | Archive \<Rightarrow> live_with env e fs \<and> text_ok env e (ce_reverse_patch e)
      | Unarchive \<Rightarrow> moved_with env e fs \<and> text_ok env e (ce_forward_patch e))"

section \<open>Moving out and back in\<close>

lemma place_neq [simp]:
  "place op i k x \<noteq> Live j y" "Live j y \<noteq> place op i k x"
  "place op i k x = place op j l y \<longleftrightarrow> i = j \<and> k = l \<and> x = y"
  by (cases op; auto)+

lemma fetched_stowed:
  assumes "live_with env e fs" "se_extension env \<noteq> ''jsonl''"
  shows "fetched env e (stowed env e fs) = fs"
  using assms
  by (cases "ce_op e") (auto simp: fetched_def stowed_def Let_def live_with_def slots_free_def fun_eq_iff)

lemma stowed_fetched:
  assumes "moved_with env e fs" "se_extension env \<noteq> ''jsonl''"
  shows "stowed env e (fetched env e fs) = fs"
  using assms
  by (auto simp: fetched_def stowed_def Let_def moved_with_def fun_eq_iff)

lemma moved_stowed:
  assumes "live_with env e fs" "se_extension env \<noteq> ''jsonl''"
  shows "moved_with env e (stowed env e fs)"
  using assms by (simp add: moved_with_def fetched_stowed) (simp add: stowed_def Let_def)

lemma live_fetched: "moved_with env e fs \<Longrightarrow> live_with env e (fetched env e fs)"
  by (simp add: moved_with_def)

lemma locate_live:
  assumes "live_with env e (hfiles h)"
  shows "locate_entry env (ce_id e) (ce_item_id e) h = (Inr e, h)"
  using assms
  by (auto simp: live_with_def slots_free_def logged_def locate_entry_def file_moves and_then_def
      ignoring_def on_files_def find_entry_eq read_all_def log_path_def)

definition fetch_log :: "changelog_entry \<Rightarrow> files \<Rightarrow> files" where
  "fetch_log e fs =
     (let i = ce_item_id e; p = place (ce_op e) i (ce_id e) ''jsonl''
      in fs(p := None, Live i ''jsonl'' := fs p))"

lemma locate_moved:
  assumes "moved_with env e (hfiles h)"
  shows "locate_entry env (ce_id e) (ce_item_id e) h
           = (Inr e, h\<lparr>hfiles := fetch_log e (hfiles h)\<rparr>)"
  using assms
  by (cases "ce_op e")
     (auto simp: live_with_def slots_free_def logged_def locate_entry_def file_moves and_then_def
      ignoring_def on_files_def find_entry_eq read_all_def log_path_def moved_with_def
      fetched_def Let_def fetch_log_def split: if_splits)

lemma rename_out:
  assumes "live_with env e (hfiles h)" "se_extension env \<noteq> ''jsonl''"
  shows "and_then (on_files (rename_file (Live (ce_item_id e) (se_extension env))
                               (place (ce_op e) (ce_item_id e) (ce_id e) (se_extension env)))) (\<lambda>_.
         and_then (on_files (rename_file (Live (ce_item_id e) ''jsonl'')
                               (place (ce_op e) (ce_item_id e) (ce_id e) ''jsonl''))) k) h
       = k () (h\<lparr>hfiles := stowed env e (hfiles h)\<rparr>)"
  using assms
  by (auto simp: live_with_def and_then_def on_files_def stowed_def Let_def rename_file_def
      fun_upd_twist intro!: arg_cong [where f = "k ()"])

lemma rename_in:
  assumes "moved_with env e (hfiles h)" "se_extension env \<noteq> ''jsonl''"
  shows "and_then (on_files (rename_file (place (ce_op e) (ce_item_id e) (ce_id e) (se_extension env))
                               (Live (ce_item_id e) (se_extension env)))) k
           (h\<lparr>hfiles := fetch_log e (hfiles h)\<rparr>)
       = k () (h\<lparr>hfiles := fetched env e (hfiles h)\<rparr>)"
proof -
  obtain c where "hfiles h (place (ce_op e) (ce_item_id e) (ce_id e) (se_extension env)) = Some c"
    using assms by (auto simp: moved_with_def live_with_def fetched_def Let_def split: if_splits)
  then show ?thesis
    using assms(2)
    by (auto simp: and_then_def on_files_def fetched_def fetch_log_def Let_def fun_upd_twist
        intro!: arg_cong [where f = "k ()"])
qed

lemma rebuild_okE:
  assumes "rebuild_ok env i t"
  obtains v where "\<forall>h. rebuild_item env i t h = (Inr v, h)"
  using assms by (auto simp: rebuild_ok_def rebuild_item_def is_ok_def split: sum.splits)

lemma text_okE:
  assumes "text_ok env e p"
  obtains t v where "apply_patch env [] p = Inr t"
    "\<forall>h. rebuild_item env (ce_item_id e) t h = (Inr v, h)"
  using assms by (auto simp: text_ok_def elim: rebuild_okE)

section \<open>Undo of an applied entry, redo of an unapplied one\<close>

definition redirect :: "'item store_env \<Rightarrow> changelog_entry \<Rightarrow> string option \<Rightarrow> files \<Rightarrow> files" where
  "redirect env e t fs = fs(Live (ce_item_id e) (se_extension env) := t)"

lemma stow_branch:
  assumes "live_with env e (hfiles h)" "se_extension env \<noteq> ''jsonl''" "text_ok env e p"
    and "pl = place (ce_op e) (ce_item_id e) (ce_id e)"
  shows "\<exists>v h'. and_then (pure_result (apply_patch env [] p)) (\<lambda>t.
           and_then (on_files (rename_file (Live (ce_item_id e) (se_extension env)) (pl (se_extension env)))) (\<lambda>_.
           and_then (on_files (rename_file (Live (ce_item_id e) ''jsonl'') (pl ''jsonl''))) (\<lambda>_.
           and_then (push_event env n (ce_item_id e)) (\<lambda>_.
             rebuild_item env (ce_item_id e) t)))) h = (Inr v, h') \<and>
         hfiles h' = stowed env e (hfiles h)"
proof -
  obtain t v where t: "apply_patch env [] p = Inr t"
    "\<forall>h. rebuild_item env (ce_item_id e) t h = (Inr v, h)"
    using assms(3) by (rule text_okE)
  show ?thesis
    unfolding assms(4) t(1) and_then_pure_Inr rename_out [OF assms(1,2)]
    using t(2) by (simp add: push_event_def and_then_def)
qed

lemma fetch_branch:
  assumes "moved_with env e (hfiles h)" "se_extension env \<noteq> ''jsonl''" "text_ok env e p"
    and "pl = place (ce_op e) (ce_item_id e) (ce_id e)"
  shows "\<exists>v h'. and_then (on_files (rename_file (pl (se_extension env)) (Live (ce_item_id e) (se_extension env)))) (\<lambda>_.
           and_then (pure_result (apply_patch env [] p)) (\<lambda>t.
           and_then (push_event env n (ce_item_id e)) (\<lambda>_.
             rebuild_item env (ce_item_id e) t))) (h\<lparr>hfiles := fetch_log e (hfiles h)\<rparr>) = (Inr v, h') \<and>
         hfiles h' = fetched env e (hfiles h)"
proof -
  obtain t v where t: "apply_patch env [] p = Inr t"
    "\<forall>h. rebuild_item env (ce_item_id e) t h = (Inr v, h)"
    using assms(3) by (rule text_okE)
  show ?thesis
    unfolding assms(4) rename_in [OF assms(1,2)]
    using t by (simp add: push_event_def and_then_def)
qed

definition undone_files :: "'item store_env \<Rightarrow> changelog_entry \<Rightarrow> files \<Rightarrow> files" where
  "undone_files env e fs =
     (case ce_op e of
        Create \<Rightarrow> stowed env e fs
      | Update \<Rightarrow> redirect env e
          (case apply_patch env (the (fs (Live (ce_item_id e) (se_extension env)))) (ce_reverse_patch e) of
             Inr t \<Rightarrow> Some t | Inl _ \<Rightarrow> None) fs
      | Delete \<Rightarrow> fetched env e fs
      | Archive \<Rightarrow> fetched env e fs
      | Unarchive \<Rightarrow> stowed env e fs)"

definition redone_files :: "'item store_env \<Rightarrow> changelog_entry \<Rightarrow> files \<Rightarrow> files" where
  "redone_files env e fs =
     (case ce_op e of
        Create \<Rightarrow> fetched env e fs
      | Update \<Rightarrow> redirect env e
          (case apply_patch env (the (fs (Live (ce_item_id e) (se_extension env)))) (ce_forward_patch e) of
             Inr t \<Rightarrow> Some t | Inl _ \<Rightarrow> None) fs
      | Delete \<Rightarrow> stowed env e fs
      | Archive \<Rightarrow> stowed env e fs
      | Unarchive \<Rightarrow> fetched env e fs)"

lemma update_okE:
  assumes "update_ok env e old new"
  obtains v w where "apply_patch env new (ce_reverse_patch e) = Inr old"
    "apply_patch env old (ce_forward_patch e) = Inr new"
    "\<forall>h. rebuild_item env (ce_item_id e) old h = (Inr v, h)"
    "\<forall>h. rebuild_item env (ce_item_id e) new h = (Inr w, h)"
  using assms rebuild_okE [of env "ce_item_id e" old] rebuild_okE [of env "ce_item_id e" new]
  unfolding update_ok_def by metis

lemma handle_live:
  assumes "live_with env e (hfiles h)"
  shows "handle_undo env (ce_id e) (ce_item_id e) h = undo_branch env e (ce_op e) h"
    and "handle_redo env (ce_id e) (ce_item_id e) h = redo_branch env e (ce_op e) h"
  by (simp_all add: handle_undo_def handle_redo_def and_then_def locate_live [OF assms])

lemma handle_moved:
  assumes "moved_with env e (hfiles h)"
  shows "handle_undo env (ce_id e) (ce_item_id e) h
           = undo_branch env e (ce_op e) (h\<lparr>hfiles := fetch_log e (hfiles h)\<rparr>)"
    and "handle_redo env (ce_id e) (ce_item_id e) h
           = redo_branch env e (ce_op e) (h\<lparr>hfiles := fetch_log e (hfiles h)\<rparr>)"
  by (simp_all add: handle_undo_def handle_redo_def and_then_def locate_moved [OF assms])

lemma handle_undo_applied:
  assumes ext: "se_extension env \<noteq> ''jsonl''" and ap: "applied env e (hfiles h)"
  shows "\<exists>v h'. handle_undo env (ce_id e) (ce_item_id e) h = (Inr v, h') \<and>
                hfiles h' = undone_files env e (hfiles h)"
proof (cases "ce_op e")
  case Create
  then have l: "live_with env e (hfiles h)" and t: "text_ok env e (ce_forward_patch e)"
    using ap by (simp_all add: applied_def)
  show ?thesis
    using stow_branch [OF l ext t, of "place (ce_op e) (ce_item_id e) (ce_id e)" "''item-removed''"] Create
    by (simp add: handle_live [OF l] file_moves undone_files_def)
next
  case Update
  then obtain old new where l: "live_with env e (hfiles h)"
    and new: "hfiles h (Live (ce_item_id e) (se_extension env)) = Some new"
    and u: "update_ok env e old new"
    using ap by (auto simp: applied_def)
  from u show ?thesis
    by (rule update_okE)
       (use Update new in \<open>simp add: handle_live [OF l]
          undone_files_def and_then_def read_text_def item_path_def atomic_write_def push_event_def
          redirect_def\<close>)
next
  case Delete
  then have m: "moved_with env e (hfiles h)" and t: "text_ok env e (ce_reverse_patch e)"
    using ap by (simp_all add: applied_def)
  show ?thesis
    using fetch_branch [OF m ext t, of "place (ce_op e) (ce_item_id e) (ce_id e)" "''item-created''"] Delete
    by (simp add: handle_moved [OF m] file_moves undone_files_def)
next
  case Archive
  then have m: "moved_with env e (hfiles h)" and t: "text_ok env e (ce_reverse_patch e)"
    using ap by (simp_all add: applied_def)
  show ?thesis
    using fetch_branch [OF m ext t, of "place (ce_op e) (ce_item_id e) (ce_id e)" "''item-created''"] Archive
    by (simp add: handle_moved [OF m] file_moves undone_files_def)
next
  case Unarchive
  then have l: "live_with env e (hfiles h)" and t: "text_ok env e (ce_forward_patch e)"
    using ap by (simp_all add: applied_def)
  show ?thesis
    using stow_branch [OF l ext t, of "place (ce_op e) (ce_item_id e) (ce_id e)" "''item-removed''"] Unarchive
    by (simp add: handle_live [OF l] file_moves undone_files_def)
qed

lemma handle_redo_unapplied:
  assumes ext: "se_extension env \<noteq> ''jsonl''" and ap: "unapplied env e (hfiles h)"
  shows "\<exists>v h'. handle_redo env (ce_id e) (ce_item_id e) h = (Inr v, h') \<and>
                hfiles h' = redone_files env e (hfiles h)"
proof (cases "ce_op e")
  case Create
  then have m: "moved_with env e (hfiles h)" and t: "text_ok env e (ce_forward_patch e)"
    using ap by (simp_all add: unapplied_def)
  show ?thesis
    using fetch_branch [OF m ext t, of "place (ce_op e) (ce_item_id e) (ce_id e)" "''item-created''"] Create
    by (simp add: handle_moved [OF m] file_moves redone_files_def)
next
  case Update
  then obtain old new where l: "live_with env e (hfiles h)"
    and old: "hfiles h (Live (ce_item_id e) (se_extension env)) = Some old"
    and u: "update_ok env e old new"
    using ap by (auto simp: unapplied_def)
  from u show ?thesis
    by (rule update_okE)
       (use Update old in \<open>simp add: handle_live [OF l]
          redone_files_def and_then_def read_text_def item_path_def atomic_write_def push_event_def
          redirect_def\<close>)
next
  case Delete
  then have l: "live_with env e (hfiles h)" and t: "text_ok env e (ce_reverse_patch e)"
    using ap by (simp_all add: unapplied_def)
  show ?thesis
    using stow_branch [OF l ext t, of "place (ce_op e) (ce_item_id e) (ce_id e)" "''item-removed''"] Delete
    by (simp add: handle_live [OF l] file_moves redone_files_def)
next
  case Archive
  then have l: "live_with env e (hfiles h)" and t: "text_ok env e (ce_reverse_patch e)"
    using ap by (simp_all add: unapplied_def)
  show ?thesis
    using stow_branch [OF l ext t, of "place (ce_op e) (ce_item_id e) (ce_id e)" "''item-removed''"] Archive
    by (simp add: handle_live [OF l] file_moves redone_files_def)
next
  case Unarchive
  then have m: "moved_with env e (hfiles h)" and t: "text_ok env e (ce_forward_patch e)"
    using ap by (simp_all add: unapplied_def)
  show ?thesis
    using fetch_branch [OF m ext t, of "place (ce_op e) (ce_item_id e) (ce_id e)" "''item-created''"] Unarchive
    by (simp add: handle_moved [OF m] file_moves redone_files_def)
qed

lemma live_with_redirect:
  "live_with env e fs \<Longrightarrow> se_extension env \<noteq> ''jsonl'' \<Longrightarrow> live_with env e (redirect env e (Some t) fs)"
  by (auto simp: live_with_def slots_free_def redirect_def)

lemma redirect_simps [simp]:
  "redirect env e x fs (Live (ce_item_id e) (se_extension env)) = x"
  "redirect env e x (redirect env e y fs) = redirect env e x fs"
  "fs (Live (ce_item_id e) (se_extension env)) = x \<Longrightarrow> redirect env e x fs = fs"
  by (auto simp: redirect_def)

lemmas reverse_defs = applied_def unapplied_def undone_files_def redone_files_def
lemmas reverse_moves = moved_stowed live_fetched fetched_stowed stowed_fetched live_with_redirect

lemma undone_unapplied:
  assumes "se_extension env \<noteq> ''jsonl''" "applied env e fs"
  shows "unapplied env e (undone_files env e fs) \<and> redone_files env e (undone_files env e fs) = fs"
  using assms
  by (cases "ce_op e") (auto simp: reverse_defs reverse_moves update_ok_def)

lemma redone_applied:
  assumes "se_extension env \<noteq> ''jsonl''" "unapplied env e fs"
  shows "applied env e (redone_files env e fs) \<and> undone_files env e (redone_files env e fs) = fs"
  using assms
  by (cases "ce_op e") (auto simp: reverse_defs reverse_moves update_ok_def)

section \<open>Both notions depend only on what agreement compares\<close>

lemma logged_agree:
  assumes "log_agree (se_of_json env) ids (Some c) (Some c')" "ce_id e \<in> ids" "logged env e c"
  shows "logged env e c'"
  using assms by (simp add: logged_def find_ids_entries)

lemma live_with_agree:
  assumes ag: "agree env ids h h'" and k: "ce_id e \<in> ids" and ext: "se_extension env \<noteq> ''jsonl''"
    and l: "live_with env e (hfiles h)"
  shows "live_with env e (hfiles h')"
proof -
  let ?i = "ce_item_id e" and ?k = "ce_id e" and ?x = "se_extension env"
  have none: "hfiles h p = None \<longleftrightarrow> hfiles h' p = None" if "relevant ids p" for p
    using content_agree_None [OF agreeD [OF ag that]] .
  have slots: "slots_free env ?i ?k (hfiles h')"
    using l k none [of "Trashed ?i ?k ?x"] none [of "Trashed ?i ?k ''jsonl''"]
      none [of "Archived ?i ?k ?x"] none [of "Archived ?i ?k ''jsonl''"]
    by (simp add: live_with_def slots_free_def)
  obtain c where c: "hfiles h (Live ?i ''jsonl'') = Some c" "logged env e c"
    using l by (auto simp: live_with_def)
  moreover have "log_agree (se_of_json env) ids (hfiles h (Live ?i ''jsonl'')) (hfiles h' (Live ?i ''jsonl''))"
    using agreeD [OF ag, of "Live ?i ''jsonl''"] by (simp add: content_agree_def)
  ultimately obtain c' where "hfiles h' (Live ?i ''jsonl'') = Some c'" "logged env e c'"
    using logged_agree [OF _ k c(2)] by (cases "hfiles h' (Live ?i ''jsonl'')") auto
  then show ?thesis
    using l slots none [of "Live ?i ?x"] by (simp add: live_with_def)
qed

lemma agree_fetched:
  assumes ag: "agree env ids h h'" and k: "ce_id e \<in> ids"
  shows "agree env ids (h\<lparr>hfiles := fetched env e (hfiles h)\<rparr>) (h'\<lparr>hfiles := fetched env e (hfiles h')\<rparr>)"
proof -
  have rel: "relevant ids (place (ce_op e) (ce_item_id e) (ce_id e) y)" for y
    using k by (cases "ce_op e") auto
  have ext: "path_ext (place (ce_op e) (ce_item_id e) (ce_id e) y) = y" for y
    by (cases "ce_op e") auto
  show ?thesis
    using agreeD [OF ag] agreeD [OF ag rel [of "''jsonl''"]] agreeD [OF ag rel [of "se_extension env"]]
    by (auto simp: agree_def agree_files_def fetched_def Let_def content_agree_def ext)
qed

lemma moved_with_agree:
  assumes ag: "agree env ids h h'" and k: "ce_id e \<in> ids" and ext: "se_extension env \<noteq> ''jsonl''"
    and m: "moved_with env e (hfiles h)"
  shows "moved_with env e (hfiles h')"
proof -
  have "live_with env e (fetched env e (hfiles h'))"
    using live_with_agree [OF agree_fetched [OF ag k] k ext] m by (simp add: moved_with_def)
  then show ?thesis
    using m content_agree_None [OF agreeD [OF ag, of "Live (ce_item_id e) (se_extension env)"]]
      content_agree_None [OF agreeD [OF ag, of "Live (ce_item_id e) ''jsonl''"]]
    by (simp add: moved_with_def)
qed

lemma applied_agree:
  assumes "agree env ids h h'" "ce_id e \<in> ids" "se_extension env \<noteq> ''jsonl''"
  shows "applied env e (hfiles h) \<Longrightarrow> applied env e (hfiles h')"
    and "unapplied env e (hfiles h) \<Longrightarrow> unapplied env e (hfiles h')"
  using live_with_agree [OF assms] moved_with_agree [OF assms] agree_item [OF assms(3,1)]
  by (cases "ce_op e"; auto simp: applied_def unapplied_def)+

section \<open>The mutations leave their entry applied\<close>

text \<open>A directory of a store at rest: an item has a changelog as long as it has a data file,
  and every changelog ends its lines.\<close>

definition paired :: "'item store_env \<Rightarrow> files \<Rightarrow> bool" where
  "paired env fs \<longleftrightarrow>
     (\<forall>i. fs (Live i (se_extension env)) = None \<longleftrightarrow> fs (Live i ''jsonl'') = None)"

definition logs_ok :: "files \<Rightarrow> bool" where
  "logs_ok fs \<longleftrightarrow> (\<forall>p c. path_ext p = ''jsonl'' \<longrightarrow> fs p = Some c \<longrightarrow> log_ok c)"

text \<open>Every stored text is one the store's own code can read back.\<close>

fun path_item :: "path \<Rightarrow> stored_item_id" where
  "path_item (Live i x) = i"
| "path_item (Trashed i e x) = i"
| "path_item (Archived i e x) = i"

definition readable :: "'item store_env \<Rightarrow> files \<Rightarrow> bool" where
  "readable env fs \<longleftrightarrow>
     (\<forall>p t. path_ext p = se_extension env \<longrightarrow> fs p = Some t \<longrightarrow> rebuild_ok env (path_item p) t)"

definition at_rest :: "'item store_env \<Rightarrow> files \<Rightarrow> bool" where
  "at_rest env fs \<longleftrightarrow> paired env fs \<and> logs_ok fs \<and> readable env fs"

text \<open>Nothing has been moved away under the id yet, as for a newly made ULID.\<close>

definition fresh :: "undo_entry_id \<Rightarrow> files \<Rightarrow> bool" where
  "fresh k fs \<longleftrightarrow> (\<forall>i x. fs (Trashed i k x) = None \<and> fs (Archived i k x) = None)"

lemma log_agree_same: "log_agree oj ids x x \<longleftrightarrow> (\<forall>c. x = Some c \<longrightarrow> log_ok c)"
  by (cases x) auto

lemma agree_refl: "agree env ids h h" if "logs_ok (hfiles h)"
  using that by (simp add: agree_def agree_files_def content_agree_def logs_ok_def log_agree_same)

definition with_entry :: "'item store_env \<Rightarrow> changelog_entry \<Rightarrow> files \<Rightarrow> files" where
  "with_entry env e fs =
     fs(Live (ce_item_id e) ''jsonl'' \<mapsto>
          (case fs (Live (ce_item_id e) ''jsonl'') of None \<Rightarrow> [] | Some c \<Rightarrow> c) @ se_to_json env e @ [NL])"

lemma append_entry_eq:
  "append_entry (se_to_json env) (log_path (ce_item_id e)) e fs = (Inr (), with_entry env e fs)"
  by (simp add: append_entry_def with_entry_def log_path_def Let_def)

lemma readableI:
  "(\<And>p t. path_ext p = se_extension env \<Longrightarrow> fs p = Some t \<Longrightarrow> rebuild_ok env (path_item p) t)
     \<Longrightarrow> readable env fs"
  by (auto simp: readable_def)

lemma readableD2:
  "readable env fs \<Longrightarrow> fs p = Some t \<Longrightarrow> path_ext p = se_extension env \<Longrightarrow> path_item p = i
     \<Longrightarrow> rebuild_ok env i t"
  by (auto simp: readable_def)

lemma at_restD:
  assumes "at_rest env fs" "fs (Live i (se_extension env)) = Some t"
  shows "fs (Live i ''jsonl'') \<noteq> None" "rebuild_ok env i t"
  using assms by (force simp: at_rest_def paired_def intro: readableD2)+

lemma logs_okI:
  "(\<And>p c. path_ext p = ''jsonl'' \<Longrightarrow> fs p = Some c \<Longrightarrow> log_ok c) \<Longrightarrow> logs_ok fs"
  by (auto simp: logs_ok_def)

lemma logs_okD2: "logs_ok fs \<Longrightarrow> fs p = Some c \<Longrightarrow> path_ext p = ''jsonl'' \<Longrightarrow> log_ok c"
  by (auto simp: logs_ok_def)

lemma logs_okD [dest]: "logs_ok fs \<Longrightarrow> fs (Live i ''jsonl'') = Some c \<Longrightarrow> log_ok c"
  unfolding logs_ok_def by force

lemma with_entry_agree:
  assumes "codec_ok (se_to_json env) (se_of_json env)" "logs_ok fs" "ce_id e \<notin> ids"
    and "fs (Live (ce_item_id e) ''jsonl'') \<noteq> None"
  shows "agree_files (se_of_json env) ids (with_entry env e fs) fs"
proof -
  obtain c where c: "fs (Live (ce_item_id e) ''jsonl'') = Some c" "log_ok c"
    using assms(2,4) by auto
  have "log_agree (se_of_json env) ids (fs p) (fs p)" if "path_ext p = ''jsonl''" for p
    using that assms(2) by (auto simp: log_agree_same logs_ok_def)
  then show ?thesis
    using c assms(3)
    by (auto simp: agree_files_def content_agree_def with_entry_def ids_entries_def
        log_entries_append_entry [OF assms(1)])
qed

lemma with_entry_logged:
  assumes "codec_ok (se_to_json env) (se_of_json env)" "logs_ok fs"
  shows "\<exists>c. with_entry env e fs (Live (ce_item_id e) ''jsonl'') = Some c \<and> logged env e c"
proof (cases "fs (Live (ce_item_id e) ''jsonl'')")
  case None
  then show ?thesis by (simp add: with_entry_def logged_def log_entries_line [OF assms(1)])
next
  case (Some c)
  then have "log_ok c" using assms(2) by blast
  with Some show ?thesis
    by (simp add: with_entry_def logged_def log_entries_append_entry [OF assms(1)])
qed

lemma with_entry_live:
  assumes "codec_ok (se_to_json env) (se_of_json env)" "logs_ok fs" "fresh (ce_id e) fs"
    and "fs (Live (ce_item_id e) (se_extension env)) \<noteq> None" "se_extension env \<noteq> ''jsonl''"
  shows "live_with env e (with_entry env e fs)"
  using assms with_entry_logged [OF assms(1,2), of e]
  by (auto simp: live_with_def slots_free_def fresh_def with_entry_def)

lemma place_parts [simp]:
  "path_ext (place op i k x) = x" "path_item (place op i k x) = i"
  by (cases op; simp)+

lemma readableD:
  "readable env fs \<Longrightarrow> fs (Live i (se_extension env)) = Some t \<Longrightarrow> rebuild_ok env i t"
  unfolding readable_def by force

lemma keeps_with_entry:
  assumes "logs_ok fs" "se_extension env \<noteq> ''jsonl''"
  shows "logs_ok (with_entry env e fs)" "readable env fs \<Longrightarrow> readable env (with_entry env e fs)"
  using assms
  by (auto intro!: logs_okI readableI intro: logs_okD2 [of fs] readableD2 [of env fs]
      simp: with_entry_def split: if_splits)

lemma keeps_redirect:
  assumes "se_extension env \<noteq> ''jsonl''" "rebuild_ok env (ce_item_id e) t"
  shows "logs_ok fs \<Longrightarrow> logs_ok (redirect env e (Some t) fs)"
    "readable env fs \<Longrightarrow> readable env (redirect env e (Some t) fs)"
  using assms
  by (auto intro!: logs_okI readableI intro: logs_okD2 [of fs] readableD2 [of env fs]
      simp: redirect_def split: if_splits)

lemma at_rest_with_entry:
  assumes "at_rest env fs" "se_extension env \<noteq> ''jsonl''"
    and "fs (Live (ce_item_id e) (se_extension env)) \<noteq> None"
  shows "at_rest env (with_entry env e fs)"
proof -
  have "fs (Live (ce_item_id e) ''jsonl'') \<noteq> None"
    using assms by (simp add: at_rest_def paired_def)
  then show ?thesis
    using assms by (simp add: at_rest_def keeps_with_entry) (auto simp: paired_def with_entry_def)
qed

lemma at_rest_redirect:
  assumes "at_rest env fs" "se_extension env \<noteq> ''jsonl''" "rebuild_ok env (ce_item_id e) t"
    and "fs (Live (ce_item_id e) ''jsonl'') \<noteq> None"
  shows "at_rest env (redirect env e (Some t) fs)"
  using assms by (simp add: at_rest_def keeps_redirect) (auto simp: paired_def redirect_def)

lemma at_rest_created:
  assumes "at_rest env fs" "se_extension env \<noteq> ''jsonl''" "rebuild_ok env (ce_item_id e) t"
  shows "at_rest env (redirect env e (Some t) (with_entry env e fs))"
  using assms
  by (simp add: at_rest_def keeps_redirect keeps_with_entry)
     (auto simp: paired_def redirect_def with_entry_def)

text \<open>A directory that only holds texts of another one, each under the same item and extension.\<close>

definition drawn_from :: "files \<Rightarrow> files \<Rightarrow> bool" where
  "drawn_from fs' fs \<longleftrightarrow>
     (\<forall>p t. fs' p = Some t \<longrightarrow>
        (\<exists>q. fs q = Some t \<and> path_ext q = path_ext p \<and> path_item q = path_item p))"

lemma drawn_from_keeps:
  assumes "drawn_from fs' fs"
  shows "logs_ok fs \<Longrightarrow> logs_ok fs'" "readable env fs \<Longrightarrow> readable env fs'"
  using assms unfolding drawn_from_def logs_ok_def readable_def by metis+

lemma drawn_from_stowed: "drawn_from (stowed env e fs) fs"
  unfolding drawn_from_def stowed_def Let_def
  by (auto split: if_splits)

lemma drawn_from_fetched: "drawn_from (fetched env e fs) fs"
  unfolding drawn_from_def fetched_def Let_def
  by (auto split: if_splits)

lemma at_rest_stowed:
  assumes "at_rest env fs" "se_extension env \<noteq> ''jsonl''"
  shows "at_rest env (stowed env e fs)"
proof -
  have "paired env (stowed env e fs)"
    using assms by (auto simp: at_rest_def paired_def stowed_def Let_def)
  then show ?thesis
    using assms(1) unfolding at_rest_def by (blast intro: drawn_from_keeps drawn_from_stowed)
qed

lemma at_rest_fetched:
  assumes "at_rest env fs" "se_extension env \<noteq> ''jsonl''" "moved_with env e fs"
  shows "at_rest env (fetched env e fs)"
proof -
  have "paired env (fetched env e fs)"
    using assms(1,2) live_fetched [OF assms(3)]
    by (auto simp: at_rest_def paired_def fetched_def Let_def live_with_def)
  then show ?thesis
    using assms(1) unfolding at_rest_def by (blast intro: drawn_from_keeps drawn_from_fetched)
qed

lemma at_rest_undone:
  assumes "at_rest env fs" "se_extension env \<noteq> ''jsonl''" "applied env e fs"
  shows "at_rest env (undone_files env e fs)"
  using assms
  by (cases "ce_op e")
     (auto simp: applied_def undone_files_def update_ok_def live_with_def
       intro!: at_rest_stowed at_rest_fetched at_rest_redirect)

lemma at_rest_redone:
  assumes "at_rest env fs" "se_extension env \<noteq> ''jsonl''" "unapplied env e fs"
  shows "at_rest env (redone_files env e fs)"
  using assms
  by (cases "ce_op e")
     (auto simp: unapplied_def redone_files_def update_ok_def live_with_def
       intro!: at_rest_stowed at_rest_fetched at_rest_redirect)

section \<open>The mutations are reversible\<close>

definition recorded ::
  "'item store_env \<Rightarrow> undo_entry_id set \<Rightarrow> files \<Rightarrow> undo_entry_id \<Rightarrow> stored_item_id \<Rightarrow> files \<Rightarrow> bool" where
  "recorded env ids fs k i fs' \<longleftrightarrow>
     (\<exists>e. ce_id e = k \<and> ce_item_id e = i \<and> applied env e fs' \<and> at_rest env fs' \<and>
          agree_files (se_of_json env) ids (undone_files env e fs') fs)"

lemma handle_write_changes:
  assumes "se_serialize env item = Inr new" "se_item_id env item = i"
    and "hfiles h (Live i (se_extension env)) \<noteq> Some new"
  shows "\<exists>old h' e. handle_write env k now item h = (Inr (Some k), h') \<and>
     old = (case hfiles h (Live i (se_extension env)) of None \<Rightarrow> [] | Some t \<Rightarrow> t) \<and>
     e = mk_entry env k now (if hfiles h (Live i (se_extension env)) = None then Create else Update) i old new \<and>
     hfiles h' = redirect env e (Some new) (with_entry env e (hfiles h))"
  using assms
  by (auto simp: handle_write_def Let_def and_then_def read_text_def item_path_def on_files_def
      append_entry_def with_entry_def log_path_def atomic_write_def push_event_def redirect_def
      split: option.splits)

lemma created_undone:
  assumes "logs_ok fs" "ce_op e = Create" "ce_id e \<notin> ids" "se_extension env \<noteq> ''jsonl''"
    and "fs (Live (ce_item_id e) (se_extension env)) = None" "fs (Live (ce_item_id e) ''jsonl'') = None"
  shows "agree_files (se_of_json env) ids
           (stowed env e (redirect env e (Some t) (with_entry env e fs))) fs"
  using assms
  by (auto simp: agree_files_def content_agree_def stowed_def redirect_def with_entry_def Let_def
      log_agree_same logs_ok_def)

lemma write_recorded:
  assumes env: "env_ok env" and rest: "at_rest env (hfiles h)" and fr: "fresh k (hfiles h)"
    and k: "k \<notin> ids" and new: "se_serialize env item = Inr new"
    and rb: "rebuild_ok env (se_item_id env item) new"
    and w: "handle_write env k now item h = (Inr (Some k'), h')"
  shows "k' = k \<and> recorded env ids (hfiles h) k (se_item_id env item) (hfiles h')"
proof -
  note ext = env_okD(3) [OF env]
  let ?i = "se_item_id env item"
  have ne: "hfiles h (Live ?i (se_extension env)) \<noteq> Some new"
    using w new by (auto simp: handle_write_def Let_def and_then_def read_text_def item_path_def)
  from handle_write_changes [OF new refl ne, of k now] w obtain old e
    where "k' = k" and old: "old = (case hfiles h (Live ?i (se_extension env)) of None \<Rightarrow> [] | Some t \<Rightarrow> t)"
      and e: "e = mk_entry env k now (if hfiles h (Live ?i (se_extension env)) = None then Create else Update) ?i old new"
      and h': "hfiles h' = redirect env e (Some new) (with_entry env e (hfiles h))"
    by auto
  have parts: "ce_id e = k" "ce_item_id e = ?i"
    "apply_patch env old (ce_forward_patch e) = Inr new" "apply_patch env new (ce_reverse_patch e) = Inr old"
    by (simp_all add: e env_okD [OF env])
  have logs: "logs_ok (hfiles h)" and rest': "at_rest env (hfiles h')"
    using rest at_rest_created [OF rest ext, of e new] rb by (simp_all add: at_rest_def h' parts)
  have "applied env e (hfiles h') \<and>
      agree_files (se_of_json env) ids (undone_files env e (hfiles h')) (hfiles h)"
  proof (cases "hfiles h (Live ?i (se_extension env))")
    case None
    have op: "ce_op e = Create" and no_log: "hfiles h (Live ?i ''jsonl'') = None"
      using None rest by (simp_all add: e at_rest_def paired_def)
    have "live_with env e (hfiles h')"
      using with_entry_logged [of env "hfiles h" e] env_okD [OF env] rest fr ext
      by (auto simp: h' live_with_def slots_free_def fresh_def redirect_def with_entry_def parts at_rest_def)
    then show ?thesis
      using op parts rb None no_log logs k ext old created_undone [of "hfiles h" e ids env new]
      by (auto simp: applied_def text_ok_def undone_files_def h')
  next
    case (Some t)
    have op: "ce_op e = Update" and t: "old = t" and log: "hfiles h (Live ?i ''jsonl'') \<noteq> None"
      using Some at_restD(1) [OF rest Some] by (auto simp: e old)
    have "live_with env e (with_entry env e (hfiles h))"
      using with_entry_live [of env "hfiles h" e] env_okD(2) [OF env] rest fr ext Some
      by (simp add: parts at_rest_def)
    moreover have "rebuild_ok env ?i t"
      using at_restD(2) [OF rest Some] .
    moreover have "redirect env e (Some t) (with_entry env e (hfiles h)) = with_entry env e (hfiles h)"
      using Some ext by (simp add: parts with_entry_def)
    ultimately show ?thesis
      using op parts rb logs k ext log t with_entry_agree [OF env_okD(2) [OF env], of "hfiles h" e ids]
      by (auto simp: applied_def update_ok_def undone_files_def h' live_with_redirect
          redirect_simps(1) [of env e, unfolded parts(2)])
  qed
  with \<open>k' = k\<close> parts rest' show ?thesis by (auto simp: recorded_def)
qed

text \<open>Delete and archive: the entry is appended, data file and changelog are moved away.\<close>

lemma moved_away_recorded:
  assumes env: "env_ok env" and rest: "at_rest env fs" and fr: "fresh k fs" and k: "k \<notin> ids"
    and tx: "fs (Live i (se_extension env)) = Some old" and op: "op = Delete \<or> op = Archive"
    and e: "e = mk_entry env k now op i old []"
  shows "recorded env ids fs k i (stowed env e (with_entry env e fs))"
proof -
  note ext = env_okD(3) [OF env]
  have parts: "ce_id e = k" "ce_item_id e = i" "ce_op e = op"
    "apply_patch env [] (ce_reverse_patch e) = Inr old"
    by (simp_all add: e env_okD [OF env])
  have logs: "logs_ok fs" using rest by (simp add: at_rest_def)
  have live: "live_with env e (with_entry env e fs)"
    using with_entry_live [of env fs e] env_okD(2) [OF env] fr ext tx logs by (simp add: parts)
  have t: "text_ok env e (ce_reverse_patch e)"
    using at_restD(2) [OF rest tx] by (simp add: text_ok_def parts)
  have "agree_files (se_of_json env) ids (with_entry env e fs) fs"
    using with_entry_agree [OF env_okD(2) [OF env] logs, of e ids] k at_restD(1) [OF rest tx]
    by (simp add: parts)
  moreover have "at_rest env (stowed env e (with_entry env e fs))"
    using at_rest_stowed at_rest_with_entry [of env fs e] rest ext tx by (simp add: parts)
  ultimately show ?thesis
    unfolding recorded_def
    by (intro exI [of _ e])
       (use op live t ext in \<open>auto simp: parts applied_def undone_files_def moved_stowed fetched_stowed\<close>)
qed

lemma handle_delete_eq:
  assumes "at_rest env (hfiles h)" "hfiles h (Live i (se_extension env)) = Some old"
    and "se_extension env \<noteq> ''jsonl''" and e: "e = mk_entry env k now Delete i old []"
  shows "\<exists>h'. handle_delete env k now i h = (Inr k, h') \<and>
           hfiles h' = stowed env e (with_entry env e (hfiles h))"
  using assms(2,3) at_restD(1) [OF assms(1,2)]
  by (auto simp: handle_delete_def and_then_def read_text_def item_path_def on_files_def file_moves
      append_entry_def with_entry_def log_path_def push_event_def stowed_def Let_def e fun_upd_twist)

lemma handle_archive_eq:
  assumes "at_rest env (hfiles h)" "hfiles h (Live i (se_extension env)) = Some old"
    and "se_extension env \<noteq> ''jsonl''" and e: "e = mk_entry env k now Archive i old []"
  shows "\<exists>h'. handle_archive env k now i h = (Inr k, h') \<and>
           hfiles h' = stowed env e (with_entry env e (hfiles h))"
  using assms(2,3) at_restD(1) [OF assms(1,2)]
  by (auto simp: handle_archive_def and_then_def read_text_def item_path_def on_files_def file_moves
      append_entry_def with_entry_def log_path_def push_event_def stowed_def Let_def e fun_upd_twist)

lemma delete_recorded:
  assumes "env_ok env" "at_rest env (hfiles h)" "fresh k (hfiles h)" "k \<notin> ids"
    and d: "handle_delete env k now i h = (Inr k', h')"
  shows "k' = k \<and> recorded env ids (hfiles h) k i (hfiles h')"
proof -
  obtain t where t: "hfiles h (Live i (se_extension env)) = Some t"
    using d by (cases "hfiles h (Live i (se_extension env))")
       (auto simp: handle_delete_def and_then_def read_text_def item_path_def)
  show ?thesis
    using handle_delete_eq [OF assms(2) t env_okD(3) [OF assms(1)] refl, of k now] d
      moved_away_recorded [OF assms(1-4) t _ refl, of Delete now] by auto
qed

lemma archive_recorded:
  assumes "env_ok env" "at_rest env (hfiles h)" "fresh k (hfiles h)" "k \<notin> ids"
    and d: "handle_archive env k now i h = (Inr k', h')"
  shows "k' = k \<and> recorded env ids (hfiles h) k i (hfiles h')"
proof -
  obtain t where t: "hfiles h (Live i (se_extension env)) = Some t"
    using d by (cases "hfiles h (Live i (se_extension env))")
       (auto simp: handle_archive_def and_then_def read_text_def item_path_def)
  show ?thesis
    using handle_archive_eq [OF assms(2) t env_okD(3) [OF assms(1)] refl, of k now] d
      moved_away_recorded [OF assms(1-4) t _ refl, of Archive now] by auto
qed

text \<open>Unarchive is reversible as long as no entry of the stack needs the place the item was
  archived in: its undo archives the item under the new entry's id.\<close>

definition unarchived_files ::
  "'item store_env \<Rightarrow> stored_item_id \<Rightarrow> undo_entry_id \<Rightarrow> files \<Rightarrow> files" where
  "unarchived_files env i a fs =
     fs(Archived i a ''jsonl'' := None, Archived i a (se_extension env) := None,
        Live i ''jsonl'' := fs (Archived i a ''jsonl''),
        Live i (se_extension env) := fs (Archived i a (se_extension env)))"

lemma handle_unarchive_eq:
  assumes "handle_unarchive env k now i a h = (Inr v, h')" "se_extension env \<noteq> ''jsonl''"
  shows "\<exists>t c. hfiles h (Archived i a (se_extension env)) = Some t \<and>
           hfiles h (Archived i a ''jsonl'') = Some c \<and>
           hfiles h' = with_entry env (mk_entry env k now Unarchive i [] t)
                         (unarchived_files env i a (hfiles h))"
  using assms
  by (cases "hfiles h (Archived i a (se_extension env))"; cases "hfiles h (Archived i a ''jsonl'')")
     (auto simp: handle_unarchive_def and_then_def read_text_def item_path_def on_files_def file_moves
      append_entry_def with_entry_def log_path_def push_event_def Let_def fun_upd_twist rename_file_def
      unarchived_files_def rebuild_item_def split: if_splits option.splits sum.splits)

lemma drawn_from_unarchived: "drawn_from (unarchived_files env i a fs) fs"
  unfolding drawn_from_def unarchived_files_def by (auto split: if_splits)

lemma unarchive_applied:
  assumes env: "env_ok env" and rest: "at_rest env (hfiles h)" and fr: "fresh k (hfiles h)"
    and k: "k \<notin> ids" and a: "a \<notin> ids" and gone: "hfiles h (Live i (se_extension env)) = None"
    and u: "handle_unarchive env k now i a h = (Inr v, h')"
  shows "\<exists>t. applied env (mk_entry env k now Unarchive i [] t) (hfiles h') \<and> at_rest env (hfiles h') \<and>
     agree_files (se_of_json env) ids
       (undone_files env (mk_entry env k now Unarchive i [] t) (hfiles h')) (hfiles h)"
proof -
  note ext = env_okD(3) [OF env]
  obtain t c where t: "hfiles h (Archived i a (se_extension env)) = Some t"
    and c: "hfiles h (Archived i a ''jsonl'') = Some c"
    and h': "hfiles h' = with_entry env (mk_entry env k now Unarchive i [] t)
                           (unarchived_files env i a (hfiles h))"
    using handle_unarchive_eq [OF u ext] by blast
  define e where "e = mk_entry env k now Unarchive i [] t"
  let ?fs = "unarchived_files env i a (hfiles h)"
  have parts: "ce_id e = k" "ce_item_id e = i" "ce_op e = Unarchive"
    "apply_patch env [] (ce_forward_patch e) = Inr t"
    by (simp_all add: e_def env_okD [OF env])
  have D: "?fs (Live i (se_extension env)) = Some t" and fr': "fresh k ?fs"
    using t fr ext by (auto simp: unarchived_files_def fresh_def)
  have "paired env ?fs"
    using rest t c ext by (auto simp: at_rest_def paired_def unarchived_files_def)
  then have rest': "at_rest env ?fs"
    using rest unfolding at_rest_def by (blast intro: drawn_from_keeps drawn_from_unarchived)
  have logs: "logs_ok ?fs" using rest' by (simp add: at_rest_def)
  have live: "live_with env e (with_entry env e ?fs)"
    using with_entry_live [of env ?fs e] env_okD(2) [OF env] fr' ext D logs by (simp add: parts)
  have tx: "text_ok env e (ce_forward_patch e)"
    using at_restD(2) [OF rest' D] by (simp add: text_ok_def parts)
  have "hfiles h (Live i ''jsonl'') = None"
    using gone rest by (simp add: at_rest_def paired_def)
  then have ag: "agree_files (se_of_json env) ids (stowed env e (with_entry env e ?fs)) (hfiles h)"
    using k a gone logs rest
    by (auto simp: agree_files_def content_agree_def stowed_def unarchived_files_def with_entry_def Let_def
        parts at_rest_def log_agree_same logs_okD2)
  have "at_rest env (with_entry env e ?fs)"
    using at_rest_with_entry [of env ?fs e] rest' ext D by (simp add: parts)
  then show ?thesis
    using live tx ag unfolding h' e_def [symmetric]
    by (intro exI [of _ t]) (simp add: parts applied_def undone_files_def e_def [symmetric])
qed

lemma unarchive_recorded:
  assumes "env_ok env" "at_rest env (hfiles h)" "fresh k (hfiles h)" "k \<notin> ids" "a \<notin> ids"
    and "hfiles h (Live i (se_extension env)) = None"
    and "handle_unarchive env k now i a h = (Inr v, h')"
  shows "recorded env ids (hfiles h) k i (hfiles h')"
proof -
  from unarchive_applied [OF assms] obtain t where
    "applied env (mk_entry env k now Unarchive i [] t) (hfiles h')" "at_rest env (hfiles h')"
    "agree_files (se_of_json env) ids (undone_files env (mk_entry env k now Unarchive i [] t) (hfiles h')) (hfiles h)"
    by blast
  then show ?thesis
    unfolding recorded_def by (intro exI [of _ "mk_entry env k now Unarchive i [] t"]) simp
qed

end
