(* ===== verification/Reversible.thy ===== *)
theory Reversible
  imports Prelude
begin

text \<open>
  The contract of a log of reversible steps. The client is an undo stack: a list of keys,
  some applied, some taken bwd. The provider undoes and redoes the step of one key. The
  contract asks that both directions look at a state only as far as a relation \<open>R K\<close>
  compares it, where \<open>K\<close> are the keys on the stack, and that redo brings back the state an
  undo came from. Proved from it: the stack can be unwound and rewound step by step, the
  states seen on the way are the recorded ones, and a new step does not disturb the older
  ones. \<open>Store_Reverse\<close> and \<open>Store_Context\<close> provide the contract for one store and for all
  stores of a context.
\<close>

section \<open>Walking along a list of keys\<close>

primrec walk :: "('k \<Rightarrow> 's \<Rightarrow> 's option) \<Rightarrow> 'k list \<Rightarrow> 's \<Rightarrow> 's option" where
  "walk f [] s = Some s"
| "walk f (k # ks) s = (case f k s of None \<Rightarrow> None | Some t \<Rightarrow> walk f ks t)"

primrec can_walk :: "('k \<Rightarrow> 's \<Rightarrow> 's option) \<Rightarrow> ('k \<Rightarrow> 's \<Rightarrow> bool) \<Rightarrow> 'k list \<Rightarrow> 's \<Rightarrow> bool" where
  "can_walk f ready [] s \<longleftrightarrow> True"
| "can_walk f ready (k # ks) s \<longleftrightarrow>
     ready k s \<and> (case f k s of None \<Rightarrow> False | Some t \<Rightarrow> can_walk f ready ks t)"

text \<open>The views met on the way.\<close>

primrec trail :: "('k \<Rightarrow> 's \<Rightarrow> 's option) \<Rightarrow> ('s \<Rightarrow> 'v) \<Rightarrow> 'k list \<Rightarrow> 's \<Rightarrow> 'v list" where
  "trail f view [] s = []"
| "trail f view (k # ks) s = (case f k s of None \<Rightarrow> [] | Some t \<Rightarrow> view t # trail f view ks t)"

lemma can_walk_append: "can_walk f ready (ks @ ls) s \<Longrightarrow> can_walk f ready ks s"
  by (induction ks arbitrary: s) (auto split: option.splits)

lemma trail_append:
  "can_walk f ready (ks @ ls) s
     \<Longrightarrow> trail f view ks s = take (length ks) (trail f view (ks @ ls) s)"
  by (induction ks arbitrary: s) (auto split: option.splits)

lemma can_walk_trail_length: "can_walk f ready ks s \<Longrightarrow> length (trail f view ks s) = length ks"
  by (induction ks arbitrary: s) (auto split: option.splits)

lemma walk_append: "walk f (ks @ ls) s = (case walk f ks s of None \<Rightarrow> None | Some t \<Rightarrow> walk f ls t)"
  by (induction ks arbitrary: s) (auto split: option.splits)

section \<open>The contract\<close>

locale agreement =
  fixes R :: "'k set \<Rightarrow> 's \<Rightarrow> 's \<Rightarrow> bool" and view :: "'s \<Rightarrow> 'v"
  assumes R_sym: "R K s t \<Longrightarrow> R K t s"
    and R_trans: "R K s t \<Longrightarrow> R K t u \<Longrightarrow> R K s u"
    and R_mono: "K \<subseteq> L \<Longrightarrow> R L s t \<Longrightarrow> R K s t"
    and R_view: "R K s t \<Longrightarrow> view s = view t"

text \<open>Steps in one direction.\<close>

locale directed = agreement R view
  for R :: "'k set \<Rightarrow> 's \<Rightarrow> 's \<Rightarrow> bool" and view :: "'s \<Rightarrow> 'v" +
  fixes step :: "'k \<Rightarrow> 's \<Rightarrow> 's option" and ready :: "'k \<Rightarrow> 's \<Rightarrow> bool"
  assumes step_sim: "R K s s' \<Longrightarrow> k \<in> K \<Longrightarrow> step k s = Some t
      \<Longrightarrow> \<exists>t'. step k s' = Some t' \<and> R K t t'"
    and ready_sim: "R K s s' \<Longrightarrow> k \<in> K \<Longrightarrow> ready k s \<Longrightarrow> ready k s'"
begin

lemma walk_sim:
  "R K s s' \<Longrightarrow> set ks \<subseteq> K \<Longrightarrow> walk step ks s = Some t
     \<Longrightarrow> \<exists>t'. walk step ks s' = Some t' \<and> R K t t'"
proof (induction ks arbitrary: s s')
  case (Cons k ks)
  then obtain u where u: "step k s = Some u" "walk step ks u = Some t"
    by (auto split: option.splits)
  obtain u' where "step k s' = Some u'" "R K u u'"
    using step_sim [OF Cons.prems(1) _ u(1)] Cons.prems(2) by auto
  then show ?case using Cons.IH [of u u'] u(2) Cons.prems(2) by auto
qed simp

lemma can_walk_sim:
  "R K s s' \<Longrightarrow> set ks \<subseteq> K \<Longrightarrow> can_walk step ready ks s \<Longrightarrow> can_walk step ready ks s'"
proof (induction ks arbitrary: s s')
  case (Cons k ks)
  then obtain u where u: "step k s = Some u" "can_walk step ready ks u" "ready k s"
    by (auto split: option.splits)
  obtain u' where "step k s' = Some u'" "R K u u'"
    using step_sim [OF Cons.prems(1) _ u(1)] Cons.prems(2) by auto
  then show ?case
    using Cons.IH [of u u'] ready_sim [OF Cons.prems(1) _ u(3)] u(2) Cons.prems(2) by auto
qed simp

lemma trail_sim:
  "R K s s' \<Longrightarrow> set ks \<subseteq> K \<Longrightarrow> can_walk step ready ks s
     \<Longrightarrow> trail step view ks s' = trail step view ks s"
proof (induction ks arbitrary: s s')
  case (Cons k ks)
  then obtain u where u: "step k s = Some u" "can_walk step ready ks u"
    by (auto split: option.splits)
  obtain u' where u': "step k s' = Some u'" "R K u u'"
    using step_sim [OF Cons.prems(1) _ u(1)] Cons.prems(2) by auto
  then show ?case
    using Cons.IH [of u u'] u Cons.prems(2) R_view [OF u'(2)] by auto
qed simp

end

text \<open>Both directions, inverse to each other.\<close>

locale reversible =
  bwd: directed R view undo applied + fwd: directed R view redo unapplied
  for R :: "'k set \<Rightarrow> 's \<Rightarrow> 's \<Rightarrow> bool" and view :: "'s \<Rightarrow> 'v"
    and undo redo :: "'k \<Rightarrow> 's \<Rightarrow> 's option" and applied unapplied :: "'k \<Rightarrow> 's \<Rightarrow> bool" +
  fixes good :: "'s \<Rightarrow> bool"
  assumes good_refl: "good s \<Longrightarrow> R K s s"
    and undo_applied: "good s \<Longrightarrow> applied k s \<Longrightarrow>
      \<exists>t. undo k s = Some t \<and> good t \<and> unapplied k t \<and> (\<exists>s'. redo k t = Some s' \<and> R UNIV s' s)"
    and redo_unapplied: "good s \<Longrightarrow> unapplied k s \<Longrightarrow>
      \<exists>t. redo k s = Some t \<and> good t \<and> applied k t \<and> (\<exists>s'. undo k t = Some s' \<and> R UNIV s' s)"
begin

text \<open>A cursor between the applied keys \<open>ps\<close> (newest first) and the undone keys \<open>fs\<close>
  (next one first).\<close>

lemma undo_one:
  assumes "good s" "can_walk undo applied (k # ps) s" "can_walk redo unapplied fs s"
  shows "\<exists>t. undo k s = Some t \<and> good t \<and> can_walk undo applied ps t \<and>
     can_walk redo unapplied (k # fs) t \<and>
     trail redo view (k # fs) t = view s # trail redo view fs s"
proof -
  obtain t s' where t: "undo k s = Some t" "good t" "unapplied k t"
    and s': "redo k t = Some s'" "R UNIV s s'"
    using undo_applied [of s k] assms bwd.R_sym by auto
  then show ?thesis
    using assms fwd.can_walk_sim [OF s'(2)] fwd.trail_sim [OF s'(2)] bwd.R_view [OF s'(2)]
    by auto
qed

lemma redo_one:
  assumes "good s" "can_walk redo unapplied (k # fs) s" "can_walk undo applied ps s"
  shows "\<exists>t. redo k s = Some t \<and> good t \<and> can_walk redo unapplied fs t \<and>
     can_walk undo applied (k # ps) t \<and>
     trail undo view (k # ps) t = view s # trail undo view ps s"
proof -
  obtain t s' where t: "redo k s = Some t" "good t" "applied k t"
    and s': "undo k t = Some s'" "R UNIV s s'"
    using redo_unapplied [of s k] assms bwd.R_sym by auto
  then show ?thesis
    using assms bwd.can_walk_sim [OF s'(2)] bwd.trail_sim [OF s'(2)] bwd.R_view [OF s'(2)]
    by auto
qed

lemma undo_many:
  assumes "good s" "can_walk undo applied (ks @ ps) s" "can_walk redo unapplied fs s"
  shows "\<exists>t. walk undo ks s = Some t \<and> good t \<and> can_walk undo applied ps t \<and>
     can_walk redo unapplied (rev ks @ fs) t \<and>
     view t # trail undo view ps t = drop (length ks) (view s # trail undo view (ks @ ps) s) \<and>
     trail redo view (rev ks @ fs) t
       = rev (take (length ks) (view s # trail undo view (ks @ ps) s)) @ trail redo view fs s"
  using assms
proof (induction ks arbitrary: s fs)
  case (Cons k ks)
  obtain t where t: "undo k s = Some t" "good t" "can_walk undo applied (ks @ ps) t"
    "can_walk redo unapplied (k # fs) t" "trail redo view (k # fs) t = view s # trail redo view fs s"
    using undo_one [OF Cons.prems(1), of k "ks @ ps" fs] Cons.prems by auto
  from Cons.IH [OF t(2-4)] t show ?case by (auto simp del: trail.simps simp: trail.simps(2) [of _ _ k "ks @ ps"])
qed simp

lemma redo_many:
  assumes "good s" "can_walk redo unapplied (ks @ fs) s" "can_walk undo applied ps s"
  shows "\<exists>t. walk redo ks s = Some t \<and> good t \<and> can_walk redo unapplied fs t \<and>
     can_walk undo applied (rev ks @ ps) t \<and>
     view t # trail redo view fs t = drop (length ks) (view s # trail redo view (ks @ fs) s) \<and>
     trail undo view (rev ks @ ps) t
       = rev (take (length ks) (view s # trail redo view (ks @ fs) s)) @ trail undo view ps s"
  using assms
proof (induction ks arbitrary: s ps)
  case (Cons k ks)
  obtain t where t: "redo k s = Some t" "good t" "can_walk redo unapplied (ks @ fs) t"
    "can_walk undo applied (k # ps) t" "trail undo view (k # ps) t = view s # trail undo view ps s"
    using redo_one [OF Cons.prems(1), of k "ks @ fs" ps] Cons.prems by auto
  from Cons.IH [OF t(2-4)] t show ?case by (auto simp del: trail.simps simp: trail.simps(2) [of _ _ k "ks @ fs"])
qed simp

text \<open>A new step keeps what is applied undoable, and its undo leads back to the view before it.\<close>

lemma record_one:
  assumes "can_walk undo applied ps s" "good s'" "applied k s'"
    and "undo k s' = Some t" "R (set ps) t s"
  shows "can_walk undo applied (k # ps) s' \<and>
     trail undo view (k # ps) s' = view s # trail undo view ps s"
  using assms bwd.can_walk_sim [OF bwd.R_sym [OF assms(5)]] bwd.trail_sim [OF bwd.R_sym [OF assms(5)]]
    bwd.R_view [OF assms(5)]
  by auto

end

end
