(* ===== verification/Store_Context.thy ===== *)
theory Store_Context
  imports Store_Reverse Reversible
begin

text \<open>
  \<open>StoreContext\<close> of \<open>swissarmyhammer-store/src/context.rs\<close>: one undo stack shared by
  several stores (behind the \<open>ErasedStore\<close> of \<open>erased.rs\<close>), with undo groups. An undo finds,
  for each entry of the top group, the store that owns it and undoes it there.

  The stores keep their files in separate directories. Operations are taken
  one at a time: two running concurrently, between the locks, are not modelled. \<open>render\<close> and \<open>parse\<close> are the YAML
  library on the stack file \<open>undo_stack.yaml\<close>; writing that file succeeds.
\<close>

section \<open>State\<close>

type_synonym 'item store = "'item store_env \<times> handle"
type_synonym entry_key = "undo_entry_id \<times> stored_item_id"

record 'item store_context =
  cx_stack :: undo_stack
  cx_stores :: "'item store list"
  cx_group :: "undo_entry_id option"
  cx_file :: "string option"

record undo_outcome =
  uo_store_name :: string
  uo_item_id :: stored_item_id
  uo_items :: "(string \<times> stored_item_id) list"

definition new_context :: "(string \<Rightarrow> 'e + undo_stack) \<Rightarrow> string option \<Rightarrow> 'item store_context" where
  "new_context parse file =
     \<lparr>cx_stack = (case load_stack parse file of Inl _ \<Rightarrow> new_stack | Inr s \<Rightarrow> s),
      cx_stores = [], cx_group = None, cx_file = file\<rparr>"

definition set_stack ::
  "(undo_stack \<Rightarrow> string) \<Rightarrow> undo_stack \<Rightarrow> 'item store_context \<Rightarrow> 'item store_context" where
  "set_stack render st cx = cx\<lparr>cx_stack := st, cx_file := Some (render st)\<rparr>"

section \<open>Groups, registration, push\<close>

definition begin_undo_group :: "undo_entry_id \<Rightarrow> 'item store_context \<Rightarrow> 'item store_context" where
  "begin_undo_group g cx = (if cx_group cx = None then cx\<lparr>cx_group := Some g\<rparr> else cx)"

definition end_undo_group :: "'item store_context \<Rightarrow> 'item store_context" where
  "end_undo_group cx = cx\<lparr>cx_group := None\<rparr>"

definition register :: "'item store \<Rightarrow> 'item store_context \<Rightarrow> 'item store_context" where
  "register s cx = cx\<lparr>cx_stores := cx_stores cx @ [s]\<rparr>"

definition cx_push ::
  "(undo_stack \<Rightarrow> string) \<Rightarrow> undo_entry_id \<Rightarrow> string \<Rightarrow> stored_item_id
     \<Rightarrow> 'item store_context \<Rightarrow> 'item store_context" where
  "cx_push render i label item cx =
     set_stack render (push_with_group i label item (cx_group cx) (cx_stack cx)) cx"

section \<open>Undo and redo\<close>

text \<open>The entries of a range of the stack.\<close>

definition entry_key :: "undo_entry \<Rightarrow> entry_key" where
  "entry_key u = (ue_id u, ue_item_id u)"

definition range_keys :: "undo_stack \<Rightarrow> nat \<times> nat \<Rightarrow> entry_key list" where
  "range_keys st r = map entry_key (take (snd r - fst r) (drop (fst r) (entries st)))"

text \<open>The first store that has the entry.\<close>

primrec find_owner :: "entry_key \<Rightarrow> 'item store list \<Rightarrow> nat option" where
  "find_owner k [] = None"
| "find_owner k (s # ss) =
     (if has_entry (fst s) (fst k) (snd k) (snd s) then Some 0 else map_option Suc (find_owner k ss))"

text \<open>One round of the loop, with \<open>act\<close> the store's \<open>undo\<close> or \<open>redo\<close>, whose value is
  dropped (\<open>undo_erased\<close>, \<open>redo_erased\<close>).\<close>

definition dispatch ::
  "('item store_env \<Rightarrow> undo_entry_id \<Rightarrow> stored_item_id \<Rightarrow> 'item handle_action) \<Rightarrow> entry_key
     \<Rightarrow> ('item store list, store_error, string) action" where
  "dispatch act k sts =
     (case find_owner k sts of
        None \<Rightarrow> (Inl (NoProvider (fst k)), sts)
      | Some n \<Rightarrow>
          (case act (fst (sts ! n)) (fst k) (snd k) (snd (sts ! n)) of
             (Inl e, h) \<Rightarrow> (Inl e, sts[n := (fst (sts ! n), h)])
           | (Inr _, h) \<Rightarrow> (Inr (se_store_name (fst (sts ! n))), sts[n := (fst (sts ! n), h)])))"

primrec process ::
  "('item store_env \<Rightarrow> undo_entry_id \<Rightarrow> stored_item_id \<Rightarrow> 'item handle_action) \<Rightarrow> entry_key list
     \<Rightarrow> ('item store list, store_error, (string \<times> stored_item_id) list) action" where
  "process act [] = ok []"
| "process act (k # ks) =
     and_then (dispatch act k) (\<lambda>name. and_then (process act ks) (\<lambda>items. ok ((name, snd k) # items)))"

definition outcome :: "(string \<times> stored_item_id) list \<Rightarrow> undo_outcome" where
  "outcome items = \<lparr>uo_store_name = fst (last items), uo_item_id = snd (last items), uo_items = items\<rparr>"

definition cx_undo ::
  "(undo_stack \<Rightarrow> string) \<Rightarrow> ('item store_context, store_error, undo_outcome) action" where
  "cx_undo render cx =
     (case group_undo_range (cx_stack cx) of
        None \<Rightarrow> (Inl (NotFound ''nothing to undo''), cx)
      | Some r \<Rightarrow>
          let ks = range_keys (cx_stack cx) r
          in case process handle_undo (rev ks) (cx_stores cx) of
               (Inl e, sts) \<Rightarrow> (Inl e, cx\<lparr>cx_stores := sts\<rparr>)
             | (Inr items, sts) \<Rightarrow>
                 (Inr (outcome items),
                  set_stack render (record_undo_n (length ks) (cx_stack cx)) (cx\<lparr>cx_stores := sts\<rparr>)))"

definition cx_redo ::
  "(undo_stack \<Rightarrow> string) \<Rightarrow> ('item store_context, store_error, undo_outcome) action" where
  "cx_redo render cx =
     (case group_redo_range (cx_stack cx) of
        None \<Rightarrow> (Inl (NotFound ''nothing to redo''), cx)
      | Some r \<Rightarrow>
          let ks = range_keys (cx_stack cx) r
          in case process handle_redo ks (cx_stores cx) of
               (Inl e, sts) \<Rightarrow> (Inl e, cx\<lparr>cx_stores := sts\<rparr>)
             | (Inr items, sts) \<Rightarrow>
                 (Inr (outcome items),
                  set_stack render (record_redo_n (length ks) (cx_stack cx)) (cx\<lparr>cx_stores := sts\<rparr>)))"

definition cx_can_undo :: "'item store_context \<Rightarrow> bool" where
  "cx_can_undo cx = can_undo (cx_stack cx)"

definition cx_can_redo :: "'item store_context \<Rightarrow> bool" where
  "cx_can_redo cx = can_redo (cx_stack cx)"

definition undo_depth :: "'item store_context \<Rightarrow> nat" where
  "undo_depth cx = pointer (cx_stack cx)"

definition flush_all :: "'item store_context \<Rightarrow> change_event list \<times> 'item store_context" where
  "flush_all cx =
     (concat (map (\<lambda>s. fst (flush_changes (snd s))) (cx_stores cx)),
      cx\<lparr>cx_stores := map (\<lambda>s. (fst s, snd (flush_changes (snd s)))) (cx_stores cx)\<rparr>)"

section \<open>Mutations through the context\<close>

text \<open>
  The callers of the store (\<open>EntityContext::write_internal\<close> and \<open>stage_internal\<close>,
  \<open>PerspectiveContext::write\<close> and \<open>delete\<close>, \<open>ViewsContext\<close>) all do the same: mutate the item
  through its handle and push the entry the handle returned, if any.
\<close>

definition put_store :: "nat \<Rightarrow> handle \<Rightarrow> 'item store_context \<Rightarrow> 'item store_context" where
  "put_store n h cx = cx\<lparr>cx_stores := (cx_stores cx)[n := (fst (cx_stores cx ! n), h)]\<rparr>"

definition cx_write ::
  "(undo_stack \<Rightarrow> string) \<Rightarrow> nat \<Rightarrow> undo_entry_id \<Rightarrow> nat \<Rightarrow> string \<Rightarrow> 'item
     \<Rightarrow> ('item store_context, store_error, undo_entry_id option) action" where
  "cx_write render n eid now label item cx =
     (let env = fst (cx_stores cx ! n)
      in case handle_write env eid now item (snd (cx_stores cx ! n)) of
           (Inl e, h) \<Rightarrow> (Inl e, put_store n h cx)
         | (Inr None, h) \<Rightarrow> (Inr None, put_store n h cx)
         | (Inr (Some k), h) \<Rightarrow>
             (Inr (Some k), cx_push render k label (se_item_id env item) (put_store n h cx)))"

datatype staging_op = StageDelete | StageArchive

definition cx_stage ::
  "(undo_stack \<Rightarrow> string) \<Rightarrow> staging_op \<Rightarrow> nat \<Rightarrow> undo_entry_id \<Rightarrow> nat \<Rightarrow> string \<Rightarrow> stored_item_id
     \<Rightarrow> ('item store_context, store_error, undo_entry_id) action" where
  "cx_stage render op n eid now label i cx =
     (let env = fst (cx_stores cx ! n);
          act = (case op of StageDelete \<Rightarrow> handle_delete | StageArchive \<Rightarrow> handle_archive)
      in case act env eid now i (snd (cx_stores cx ! n)) of
           (Inl e, h) \<Rightarrow> (Inl e, put_store n h cx)
         | (Inr k, h) \<Rightarrow> (Inr k, cx_push render k label i (put_store n h cx)))"

text \<open>\<open>unarchive_latest\<close>, then the push; the outer \<open>None\<close> is its panic.\<close>

definition cx_unarchive ::
  "(undo_stack \<Rightarrow> string) \<Rightarrow> nat \<Rightarrow> undo_entry_id \<Rightarrow> nat \<Rightarrow> string \<Rightarrow> stored_item_id
     \<Rightarrow> 'item store_context \<Rightarrow> ((store_error + undo_entry_id) \<times> 'item store_context) option" where
  "cx_unarchive render n eid now label i cx =
     (let env = fst (cx_stores cx ! n)
      in case handle_unarchive_latest env eid now i (snd (cx_stores cx ! n)) of
           None \<Rightarrow> None
         | Some (Inl e, h) \<Rightarrow> Some (Inl e, put_store n h cx)
         | Some (Inr (item, k), h) \<Rightarrow> Some (Inr k, cx_push render k label i (put_store n h cx)))"

end
