(* ===== verification/Store_Session.thy ===== *)
theory Store_Session
  imports Store_Context
begin

text \<open>
  The stores of a context provide the contract of \<open>Reversible\<close>, and so a session of mutations, groups,
  undos and redos keeps its undo stack usable: undo and redo succeed and show the versions that the
  session recorded, as far back as its record reaches. An unarchive of an item whose archiving is still on the
  stack cuts the record, for undo fails below it.
\<close>

section \<open>Steps on the stores of a context\<close>

definition quiet ::
  "('item store list, store_error, string) action \<Rightarrow> 'item store list \<Rightarrow> 'item store list option" where
  "quiet m sts = (case m sts of (Inl _, _) \<Rightarrow> None | (Inr _, sts') \<Rightarrow> Some sts')"

definition undo1 :: "entry_key \<Rightarrow> 'item store list \<Rightarrow> 'item store list option" where
  "undo1 k = quiet (dispatch handle_undo k)"

definition redo1 :: "entry_key \<Rightarrow> 'item store list \<Rightarrow> 'item store list option" where
  "redo1 k = quiet (dispatch handle_redo k)"

definition in_owner ::
  "('item store_env \<Rightarrow> changelog_entry \<Rightarrow> files \<Rightarrow> bool) \<Rightarrow> entry_key \<Rightarrow> 'item store list \<Rightarrow> bool" where
  "in_owner P k sts \<longleftrightarrow>
     (\<exists>n e. find_owner k sts = Some n \<and> ce_id e = fst k \<and> ce_item_id e = snd k \<and>
            P (fst (sts ! n)) e (hfiles (snd (sts ! n))))"

definition stores_agree :: "entry_key set \<Rightarrow> 'item store list \<Rightarrow> 'item store list \<Rightarrow> bool" where
  "stores_agree K sts sts' \<longleftrightarrow>
     list_all2 (\<lambda>s s'. fst s' = fst s \<and> env_ok (fst s) \<and> agree (fst s) (fst ` K) (snd s) (snd s')) sts sts'"

definition stores_ok :: "'item store list \<Rightarrow> bool" where
  "stores_ok sts \<longleftrightarrow> (\<forall>s \<in> set sts. env_ok (fst s) \<and> at_rest (fst s) (hfiles (snd s)))"

definition stores_view :: "'item store list \<Rightarrow> (stored_item_id \<Rightarrow> string option) list" where
  "stores_view sts = map (\<lambda>s. view (fst s) (snd s)) sts"

lemma process_walk:
  "walk (\<lambda>k. quiet (dispatch act k)) ks sts = Some t
     \<Longrightarrow> \<exists>its. process act ks sts = (Inr its, t) \<and> map snd its = map snd ks"
proof (induction ks arbitrary: sts)
  case (Cons k ks)
  then obtain u where u: "quiet (dispatch act k) sts = Some u"
    "walk (\<lambda>k. quiet (dispatch act k)) ks u = Some t" by (auto split: option.splits)
  then obtain name where "dispatch act k sts = (Inr name, u)"
    by (auto simp: quiet_def split: prod.splits sum.splits)
  with Cons.IH [OF u(2)] show ?case by (auto simp: and_then_def)
qed simp

lemma process_undo: "walk undo1 ks sts = Some t
     \<Longrightarrow> \<exists>its. process handle_undo ks sts = (Inr its, t) \<and> map snd its = map snd ks"
  using process_walk [of handle_undo] by (simp add: undo1_def [abs_def])

lemma process_redo: "walk redo1 ks sts = Some t
     \<Longrightarrow> \<exists>its. process handle_redo ks sts = (Inr its, t) \<and> map snd its = map snd ks"
  using process_walk [of handle_redo] by (simp add: redo1_def [abs_def])

lemma find_owner_Some:
  "find_owner k sts = Some n \<Longrightarrow> n < length sts \<and> has_entry (fst (sts ! n)) (fst k) (snd k) (snd (sts ! n))"
  by (induction sts arbitrary: n) (auto split: if_splits)

lemma find_owner_update:
  "find_owner k sts = Some n \<Longrightarrow> has_entry (fst s) (fst k) (snd k) (snd s)
     \<Longrightarrow> find_owner k (sts[n := s]) = Some n"
  by (induction sts arbitrary: n) (auto split: if_splits)

lemma find_owner_agree:
  "stores_agree K sts sts' \<Longrightarrow> k \<in> K \<Longrightarrow> find_owner k sts' = find_owner k sts"
  unfolding stores_agree_def
proof (induction rule: list_all2_induct)
  case (Cons s ss s' ss')
  then have "has_entry (fst s') (fst k) (snd k) (snd s') = has_entry (fst s) (fst k) (snd k) (snd s)"
    using has_entry_agree [of "fst s" "fst ` K" "snd s" "snd s'" "fst k"] by simp
  with Cons show ?case by simp
qed simp

lemma stores_agree_nth:
  "stores_agree K sts sts' \<Longrightarrow> n < length sts
     \<Longrightarrow> fst (sts' ! n) = fst (sts ! n) \<and> env_ok (fst (sts ! n)) \<and>
         agree (fst (sts ! n)) (fst ` K) (snd (sts ! n)) (snd (sts' ! n))"
  by (auto simp: stores_agree_def list_all2_conv_all_nth)

lemma stores_agree_update:
  assumes "stores_agree K sts sts'" "fst s' = fst s" "env_ok (fst s)"
    and "agree (fst s) (fst ` K) (snd s) (snd s')"
  shows "stores_agree K (sts[n := s]) (sts'[n := s'])"
  using assms unfolding stores_agree_def by (intro list_all2_update_cong) auto

section \<open>The contract\<close>

lemma stores_agree_sym: "stores_agree K s t \<Longrightarrow> stores_agree K t s"
  by (auto simp: stores_agree_def list_all2_conv_all_nth intro: agree_sym)

lemma stores_agree_trans: "stores_agree K s t \<Longrightarrow> stores_agree K t u \<Longrightarrow> stores_agree K s u"
  unfolding stores_agree_def by (erule (1) list_all2_trans [rotated]) (auto intro: agree_trans)

lemma stores_agree_mono: "K \<subseteq> L \<Longrightarrow> stores_agree L s t \<Longrightarrow> stores_agree K s t"
  unfolding stores_agree_def
  by (erule list_all2_mono) (auto intro: agree_mono [OF image_mono])

lemma stores_agree_view: "stores_agree K s t \<Longrightarrow> stores_view s = stores_view t"
  unfolding stores_agree_def stores_view_def
  by (induction rule: list_all2_induct) (auto dest: agree_view env_okD(3))

lemma dispatch_sim:
  assumes sim: "\<And>env e i. env_ok env \<Longrightarrow> e \<in> fst ` K \<Longrightarrow> sim env (fst ` K) (act env e i)"
    and R: "stores_agree K s s'" and k: "k \<in> K" and d: "quiet (dispatch act k) s = Some t"
  shows "\<exists>t'. quiet (dispatch act k) s' = Some t' \<and> stores_agree K t t'"
proof -
  obtain n where n: "find_owner k s = Some n" "find_owner k s' = Some n"
    using d find_owner_agree [OF R k]
    by (cases "find_owner k s") (auto simp: quiet_def dispatch_def)
  note nth = stores_agree_nth [OF R conjunct1 [OF find_owner_Some [OF n(1)]]]
  obtain x h where 1: "act (fst (s ! n)) (fst k) (snd k) (snd (s ! n)) = (Inr x, h)"
    and t: "t = s[n := (fst (s ! n), h)]"
    using d n by (auto simp: quiet_def dispatch_def split: prod.splits sum.splits)
  obtain h' where 2: "act (fst (s ! n)) (fst k) (snd k) (snd (s' ! n)) = (Inr x, h')"
    "agree (fst (s ! n)) (fst ` K) h h'"
    using simD [OF sim [of "fst (s ! n)" "fst k" "snd k"] _ 1] nth k by blast
  have "stores_agree K t (s'[n := (fst (s ! n), h')])"
    unfolding t by (rule stores_agree_update [OF R]) (use 2 nth in auto)
  then show ?thesis using n 2 nth by (auto simp: quiet_def dispatch_def)
qed

lemma undo1_sim:
  "stores_agree K s s' \<Longrightarrow> k \<in> K \<Longrightarrow> undo1 k s = Some t
     \<Longrightarrow> \<exists>t'. undo1 k s' = Some t' \<and> stores_agree K t t'"
  unfolding undo1_def by (rule dispatch_sim [OF handle_undo_sim])

lemma redo1_sim:
  "stores_agree K s s' \<Longrightarrow> k \<in> K \<Longrightarrow> redo1 k s = Some t
     \<Longrightarrow> \<exists>t'. redo1 k s' = Some t' \<and> stores_agree K t t'"
  unfolding redo1_def by (rule dispatch_sim [OF handle_redo_sim])

lemma in_owner_sim:
  assumes R: "stores_agree K s s'" and k: "k \<in> K" and i: "in_owner P k s"
    and P: "\<And>env e h h'. env_ok env \<Longrightarrow> agree env (fst ` K) h h' \<Longrightarrow> ce_id e \<in> fst ` K
              \<Longrightarrow> P env e (hfiles h) \<Longrightarrow> P env e (hfiles h')"
  shows "in_owner P k s'"
proof -
  obtain n e where n: "find_owner k s = Some n" and e: "ce_id e = fst k" "ce_item_id e = snd k"
    and p: "P (fst (s ! n)) e (hfiles (snd (s ! n)))"
    using i by (auto simp: in_owner_def)
  note nth = stores_agree_nth [OF R conjunct1 [OF find_owner_Some [OF n]]]
  have "P (fst (s ! n)) e (hfiles (snd (s' ! n)))"
    using P [of "fst (s ! n)" "snd (s ! n)" "snd (s' ! n)" e] nth p k e by auto
  then show ?thesis
    using n e nth find_owner_agree [OF R k] by (auto simp: in_owner_def)
qed

lemma live_has_entry:
  "live_with env e (hfiles h) \<Longrightarrow> has_entry env (ce_id e) (ce_item_id e) h"
  by (auto simp: live_with_def logged_def has_entry_def find_entry_eq read_all_def log_path_def)

lemma moved_has_entry:
  "moved_with env e (hfiles h) \<Longrightarrow> has_entry env (ce_id e) (ce_item_id e) h"
  by (cases "ce_op e")
     (auto simp: moved_with_def live_with_def fetched_def Let_def has_entry_def is_trashed_def is_archived_def)

lemma applied_has_entry:
  "applied env e (hfiles h) \<or> unapplied env e (hfiles h) \<Longrightarrow> has_entry env (ce_id e) (ce_item_id e) h"
  by (cases "ce_op e") (auto simp: applied_def unapplied_def live_has_entry moved_has_entry)

lemma stores_ok_update:
  "stores_ok sts \<Longrightarrow> env_ok (fst s) \<Longrightarrow> at_rest (fst s) (hfiles (snd s)) \<Longrightarrow> stores_ok (sts[n := s])"
  by (auto simp: stores_ok_def dest: set_update_subset_insert [THEN subsetD])

lemma stores_ok_refl: "stores_ok s \<Longrightarrow> stores_agree K s s"
  by (auto simp: stores_ok_def stores_agree_def list_all2_same at_rest_def intro: agree_refl)

lemma stores_ok_nth:
  "stores_ok s \<Longrightarrow> n < length s \<Longrightarrow> env_ok (fst (s ! n)) \<and> at_rest (fst (s ! n)) (hfiles (snd (s ! n)))"
  by (simp add: stores_ok_def)

text \<open>The two laws that relate undo and redo, for either direction.\<close>

lemma dispatch_inverse:
  assumes ok: "stores_ok s" and i: "in_owner P k s"
    and act: "\<And>env e h. se_extension env \<noteq> ''jsonl'' \<Longrightarrow> P env e (hfiles h) \<Longrightarrow>
        \<exists>v h'. act env (ce_id e) (ce_item_id e) h = (Inr v, h') \<and> hfiles h' = f env e (hfiles h)"
    and rev_act: "\<And>env e h. se_extension env \<noteq> ''jsonl'' \<Longrightarrow> Q env e (hfiles h) \<Longrightarrow>
        \<exists>v h'. rev_act env (ce_id e) (ce_item_id e) h = (Inr v, h') \<and> hfiles h' = g env e (hfiles h)"
    and fg: "\<And>env e fs. se_extension env \<noteq> ''jsonl'' \<Longrightarrow> P env e fs \<Longrightarrow>
        Q env e (f env e fs) \<and> g env e (f env e fs) = fs"
    and rest: "\<And>env e fs. at_rest env fs \<Longrightarrow> se_extension env \<noteq> ''jsonl'' \<Longrightarrow> P env e fs \<Longrightarrow>
        at_rest env (f env e fs)"
    and has: "\<And>env e h. Q env e (hfiles h) \<Longrightarrow> has_entry env (ce_id e) (ce_item_id e) h"
  shows "\<exists>t. quiet (dispatch act k) s = Some t \<and> stores_ok t \<and> in_owner Q k t \<and>
     (\<exists>s'. quiet (dispatch rev_act k) t = Some s' \<and> stores_agree UNIV s' s)"
proof -
  obtain n e where n: "find_owner k s = Some n" and e: "ce_id e = fst k" "ce_item_id e = snd k"
    and p: "P (fst (s ! n)) e (hfiles (snd (s ! n)))"
    using i by (auto simp: in_owner_def)
  have len: "n < length s" using find_owner_Some [OF n] by simp
  let ?env = "fst (s ! n)"
  have env: "env_ok ?env" and ar: "at_rest ?env (hfiles (snd (s ! n)))"
    using stores_ok_nth [OF ok len] by auto
  note ext = env_okD(3) [OF env]
  obtain v h where 1: "act ?env (fst k) (snd k) (snd (s ! n)) = (Inr v, h)"
    "hfiles h = f ?env e (hfiles (snd (s ! n)))"
    using act [OF ext p] e by auto
  have q: "Q ?env e (hfiles h)" using fg [OF ext p] 1 by simp
  obtain w h' where 2: "rev_act ?env (fst k) (snd k) h = (Inr w, h')" "hfiles h' = g ?env e (hfiles h)"
    using rev_act [OF ext q] e by auto
  let ?t = "s[n := (?env, h)]" and ?s' = "s[n := (?env, h')]"
  have own: "find_owner k ?t = Some n"
    using find_owner_update [OF n, of "(?env, h)"] has [OF q] e by simp
  have "stores_agree UNIV (s[n := (?env, h')]) (s[n := s ! n])"
    using fg [OF ext p] 1 2 ar env
    by (intro stores_agree_update stores_ok_refl ok)
       (auto intro: agree_files_cong [OF agree_refl] simp: at_rest_def)
  moreover have "stores_ok ?t"
    using rest [OF ar ext p] env 1 by (intro stores_ok_update ok) auto
  moreover have "in_owner Q k ?t" using own e q len by (auto simp: in_owner_def)
  ultimately show ?thesis
    using n 1 2 own len by (auto simp: quiet_def dispatch_def)
qed

lemma undo1_applied:
  "stores_ok s \<Longrightarrow> in_owner applied k s \<Longrightarrow>
     \<exists>t. undo1 k s = Some t \<and> stores_ok t \<and> in_owner unapplied k t \<and>
         (\<exists>s'. redo1 k t = Some s' \<and> stores_agree UNIV s' s)"
  unfolding undo1_def redo1_def
  by (rule dispatch_inverse [where P = applied and Q = unapplied and f = undone_files and g = redone_files])
     (simp_all add: handle_undo_applied handle_redo_unapplied undone_unapplied at_rest_undone applied_has_entry)

lemma redo1_unapplied:
  "stores_ok s \<Longrightarrow> in_owner unapplied k s \<Longrightarrow>
     \<exists>t. redo1 k s = Some t \<and> stores_ok t \<and> in_owner applied k t \<and>
         (\<exists>s'. undo1 k t = Some s' \<and> stores_agree UNIV s' s)"
  unfolding undo1_def redo1_def
  by (rule dispatch_inverse [where P = unapplied and Q = applied and f = redone_files and g = undone_files])
     (simp_all add: handle_undo_applied handle_redo_unapplied redone_applied at_rest_redone applied_has_entry)

lemma in_owner_applied_sim:
  assumes "stores_agree K s s'" "k \<in> K" "in_owner applied k s" shows "in_owner applied k s'"
  using assms
proof (rule in_owner_sim)
  fix env :: "'a store_env" and e h h'
  assume "env_ok env" "agree env (fst ` K) h h'" "ce_id e \<in> fst ` K" "applied env e (hfiles h)"
  then show "applied env e (hfiles h')" using applied_agree(1) [OF _ _ env_okD(3)] by metis
qed

lemma in_owner_unapplied_sim:
  assumes "stores_agree K s s'" "k \<in> K" "in_owner unapplied k s" shows "in_owner unapplied k s'"
  using assms
proof (rule in_owner_sim)
  fix env :: "'a store_env" and e h h'
  assume "env_ok env" "agree env (fst ` K) h h'" "ce_id e \<in> fst ` K" "unapplied env e (hfiles h)"
  then show "unapplied env e (hfiles h')" using applied_agree(2) [OF _ _ env_okD(3)] by metis
qed

interpretation log: reversible stores_agree stores_view undo1 redo1
  "in_owner applied" "in_owner unapplied" stores_ok
  by unfold_locales
     (fact stores_agree_sym stores_agree_trans stores_agree_mono stores_agree_view
      undo1_sim in_owner_applied_sim redo1_sim in_owner_unapplied_sim
      stores_ok_refl undo1_applied redo1_unapplied)+

section \<open>Versions of the stores\<close>

text \<open>The specification: the versions up to the current one (newest first) and the versions
  that can be redone (next one first).\<close>

type_synonym 'v versions = "'v list \<times> 'v list"

fun commit :: "nat \<Rightarrow> 'v \<Rightarrow> 'v versions \<Rightarrow> 'v versions" where
  "commit m v (past, future) = (take (Suc m) (v # past), [])"

fun step_back :: "nat \<Rightarrow> 'v versions \<Rightarrow> 'v versions" where
  "step_back n (past, future) = (drop n past, rev (take n past) @ future)"

fun step_forth :: "nat \<Rightarrow> 'v versions \<Rightarrow> 'v versions" where
  "step_forth n (past, future) = (rev (take n future) @ past, drop n future)"

lemma step_forth_back: "n \<le> length past \<Longrightarrow> step_forth n (step_back n (past, future)) = (past, future)"
  by simp

lemma step_back_forth: "n \<le> length future \<Longrightarrow> step_back n (step_forth n (past, future)) = (past, future)"
  by simp

definition done_keys :: "undo_stack \<Rightarrow> entry_key list" where
  "done_keys st = rev (map entry_key (take (pointer st) (entries st)))"

definition redo_keys :: "undo_stack \<Rightarrow> entry_key list" where
  "redo_keys st = map entry_key (drop (pointer st) (entries st))"

text \<open>What the stores show when the newest \<open>d\<close> done entries are taken back one by one, and when the
  entries to redo are done again; the invariant says that these walks succeed. Older entries than
  \<open>d\<close> may have lost what they need, see \<open>unarchive\<close> below.\<close>

definition history :: "nat \<Rightarrow> 'item store_context \<Rightarrow> (stored_item_id \<Rightarrow> string option) list versions" where
  "history d cx =
     (stores_view (cx_stores cx) # trail undo1 stores_view (take d (done_keys (cx_stack cx))) (cx_stores cx),
      trail redo1 stores_view (redo_keys (cx_stack cx)) (cx_stores cx))"

definition session_inv :: "nat \<Rightarrow> 'item store_context \<Rightarrow> bool" where
  "session_inv d cx \<longleftrightarrow>
     stack_wf (cx_stack cx) \<and> 0 < max_size (cx_stack cx) \<and> at_boundary (cx_stack cx) \<and>
     d \<le> pointer (cx_stack cx) \<and> stores_ok (cx_stores cx) \<and>
     can_walk undo1 (in_owner applied) (take d (done_keys (cx_stack cx))) (cx_stores cx) \<and>
     can_walk redo1 (in_owner unapplied) (redo_keys (cx_stack cx)) (cx_stores cx)"

lemma length_done_keys: "stack_wf st \<Longrightarrow> length (done_keys st) = pointer st"
  by (simp add: done_keys_def stack_wf_def)

lemma history_lengths:
  assumes "session_inv d cx"
  shows "length (fst (history d cx)) = Suc d" "length (snd (history d cx)) = length (redo_keys (cx_stack cx))"
  using assms by (auto simp: session_inv_def history_def length_done_keys dest!: can_walk_trail_length)

text \<open>Fewer entries can always be taken back.\<close>

lemma session_inv_less:
  assumes inv: "session_inv d cx" and le: "d' \<le> d"
  shows "session_inv d' cx \<and> history d' cx = (take (Suc d') (fst (history d cx)), snd (history d cx))"
proof -
  note inv' = inv [unfolded session_inv_def]
  have split: "take d (done_keys (cx_stack cx)) = take d' (done_keys (cx_stack cx))
      @ drop d' (take d (done_keys (cx_stack cx)))"
    using le by (metis append_take_drop_id min.absorb1 take_take)
  have w: "can_walk undo1 (in_owner applied) (take d' (done_keys (cx_stack cx))
      @ drop d' (take d (done_keys (cx_stack cx)))) (cx_stores cx)"
    using inv' split by metis
  have "length (take d' (done_keys (cx_stack cx))) = d'"
    using inv' le by (simp add: length_done_keys)
  then have "trail undo1 stores_view (take d' (done_keys (cx_stack cx))) (cx_stores cx)
      = take d' (trail undo1 stores_view (take d (done_keys (cx_stack cx))) (cx_stores cx))"
    using trail_append [OF w, of stores_view] split by metis
  then show ?thesis
    using inv' le can_walk_append [OF w] by (simp add: session_inv_def history_def)
qed

lemma range_keys_done:
  assumes "stack_wf st" "a \<le> pointer st"
  shows "done_keys st = rev (range_keys st (a, pointer st)) @ rev (map entry_key (take a (entries st)))"
    and "length (range_keys st (a, pointer st)) = pointer st - a"
proof -
  have "take (pointer st) (entries st) = take a (entries st) @ take (pointer st - a) (drop a (entries st))"
    using assms(2) by (metis le_add_diff_inverse take_add)
  then show "done_keys st = rev (range_keys st (a, pointer st)) @ rev (map entry_key (take a (entries st)))"
    by (simp add: done_keys_def range_keys_def)
qed (use assms in \<open>auto simp: range_keys_def stack_wf_def min_def\<close>)

lemma range_keys_redo:
  assumes "b \<le> length (entries st)" "pointer st \<le> b"
  shows "redo_keys st = range_keys st (pointer st, b) @ map entry_key (drop b (entries st))"
    and "length (range_keys st (pointer st, b)) = b - pointer st"
proof -
  have "drop (pointer st) (entries st)
          = take (b - pointer st) (drop (pointer st) (entries st)) @ drop b (entries st)"
    using assms(2) by (metis append_take_drop_id drop_drop le_add_diff_inverse2)
  then show "redo_keys st = range_keys st (pointer st, b) @ map entry_key (drop b (entries st))"
    unfolding redo_keys_def range_keys_def by (metis fst_conv map_append snd_conv)
qed (use assms in \<open>simp add: range_keys_def\<close>)

lemma cx_undo_refines:
  assumes inv: "session_inv d cx" and r: "group_undo_range (cx_stack cx) = Some (a, b)" and d: "b - a \<le> d"
  shows "\<exists>out cx'. b = pointer (cx_stack cx) \<and>
     cx_undo render cx = (Inr out, cx') \<and> session_inv (d - (b - a)) cx' \<and>
     cx_stack cx' = record_undo_n (b - a) (cx_stack cx) \<and>
     map snd (uo_items out) = map snd (rev (range_keys (cx_stack cx) (a, b))) \<and>
     history (d - (b - a)) cx' = step_back (b - a) (history d cx)"
proof -
  let ?st = "cx_stack cx" and ?sts = "cx_stores cx"
  note inv' = inv [unfolded session_inv_def]
  have ab: "a < b" "b = pointer ?st" using group_undo_range_bounds [OF r] by auto
  let ?ks = "range_keys ?st (a, pointer ?st)" and ?all = "rev (map entry_key (take a (entries ?st)))"
  let ?ps = "take (d - (pointer ?st - a)) ?all"
  let ?st' = "record_undo_n (pointer ?st - a) ?st"
  have dk: "done_keys ?st = rev ?ks @ ?all" and len: "length ?ks = pointer ?st - a"
    using range_keys_done [of ?st a] inv' ab by auto
  have tk: "take d (done_keys ?st) = rev ?ks @ ?ps" using dk len d ab by simp
  obtain t where t: "walk undo1 (rev ?ks) ?sts = Some t" "stores_ok t"
    "can_walk undo1 (in_owner applied) ?ps t"
    "can_walk redo1 (in_owner unapplied) (rev (rev ?ks) @ redo_keys ?st) t"
    and h: "stores_view t # trail undo1 stores_view ?ps t
        = drop (length (rev ?ks)) (stores_view ?sts # trail undo1 stores_view (rev ?ks @ ?ps) ?sts)"
      "trail redo1 stores_view (rev (rev ?ks) @ redo_keys ?st) t
        = rev (take (length (rev ?ks)) (stores_view ?sts # trail undo1 stores_view (rev ?ks @ ?ps) ?sts))
            @ trail redo1 stores_view (redo_keys ?st) ?sts"
    using log.undo_many [of ?sts "rev ?ks" ?ps "redo_keys ?st"] inv' tk by auto
  obtain its where its: "process handle_undo (rev ?ks) ?sts = (Inr its, t)" "map snd its = map snd (rev ?ks)"
    using process_undo [OF t(1)] by blast
  have keys: "done_keys ?st' = ?all" "redo_keys ?st' = ?ks @ redo_keys ?st"
    using ab inv' by (auto simp: done_keys_def redo_keys_def record_undo_n_def range_keys_def
        stack_wf_def map_append [symmetric] simp del: map_append)
       (metis append_take_drop_id drop_drop le_add_diff_inverse2 less_imp_le_nat)
  let ?cx' = "set_stack render ?st' (cx\<lparr>cx_stores := t\<rparr>)"
  have "d - (pointer ?st - a) \<le> pointer ?st'"
    using inv' by (simp add: record_undo_n_def diff_le_mono)
  then have "session_inv (d - (pointer ?st - a)) ?cx'"
    using inv' t keys undo_then_redo_range(3) [of ?st a b] r ab record_undo_n_wf
    by (simp add: session_inv_def set_stack_def)
  moreover have "history (d - (pointer ?st - a)) ?cx' = step_back (pointer ?st - a) (history d cx)"
    using h tk keys len by (simp add: history_def set_stack_def)
  moreover have "cx_undo render cx = (Inr (outcome its), ?cx')"
    using r its len ab by (simp add: cx_undo_def Let_def)
  ultimately show ?thesis
    using r ab its(2) by (intro exI [of _ "outcome its"] exI [of _ ?cx'])
      (simp add: set_stack_def outcome_def)
qed

lemma drop_eq_ConsD:
  "drop n (v # vs) = w # ws \<Longrightarrow>
     w # rev (take n (v # vs)) @ ps = rev (take n vs) @ v # ps \<and> ws = drop n vs"
proof (induction n arbitrary: v vs ps)
  case (Suc n)
  then show ?case by (cases vs) auto
qed simp

lemma cx_redo_refines:
  assumes inv: "session_inv d cx" and r: "group_redo_range (cx_stack cx) = Some (a, b)"
  shows "\<exists>out cx'. a = pointer (cx_stack cx) \<and>
     cx_redo render cx = (Inr out, cx') \<and> session_inv (d + (b - a)) cx' \<and>
     cx_stack cx' = record_redo_n (b - a) (cx_stack cx) \<and>
     map snd (uo_items out) = map snd (range_keys (cx_stack cx) (a, b)) \<and>
     history (d + (b - a)) cx' = step_forth (b - a) (history d cx) \<and>
     b - a \<le> length (snd (history d cx))"
proof -
  let ?st = "cx_stack cx" and ?sts = "cx_stores cx"
  note inv' = inv [unfolded session_inv_def]
  have ab: "a = pointer ?st" "pointer ?st < b" "b \<le> length (entries ?st)"
    using group_redo_range_bounds [OF r] by auto
  note r = r [unfolded ab(1)]
  let ?ks = "range_keys ?st (pointer ?st, b)" and ?fs = "map entry_key (drop b (entries ?st))"
  let ?ps = "take d (done_keys ?st)"
  let ?st' = "record_redo_n (b - pointer ?st) ?st"
  have rk: "redo_keys ?st = ?ks @ ?fs" and len: "length ?ks = b - pointer ?st"
    using range_keys_redo [of b ?st] ab by auto
  obtain t where t: "walk redo1 ?ks ?sts = Some t" "stores_ok t"
    "can_walk redo1 (in_owner unapplied) ?fs t"
    "can_walk undo1 (in_owner applied) (rev ?ks @ ?ps) t"
    and h: "stores_view t # trail redo1 stores_view ?fs t
        = drop (length ?ks) (stores_view ?sts # trail redo1 stores_view (?ks @ ?fs) ?sts)"
      "trail undo1 stores_view (rev ?ks @ ?ps) t
        = rev (take (length ?ks) (stores_view ?sts # trail redo1 stores_view (?ks @ ?fs) ?sts))
            @ trail undo1 stores_view ?ps ?sts"
    using log.redo_many [of ?sts ?ks ?fs ?ps] inv' rk by auto
  obtain its where its: "process handle_redo ?ks ?sts = (Inr its, t)" "map snd its = map snd ?ks"
    using process_redo [OF t(1)] by blast
  have p: "pointer ?st' = b" "entries ?st' = entries ?st" "range_keys ?st' (pointer ?st, b) = ?ks"
    using ab by (simp_all add: range_keys_def record_redo_n_def)
  have "stack_wf ?st'" using inv' record_redo_n_wf by blast
  then have keys: "done_keys ?st' = rev ?ks @ done_keys ?st" "redo_keys ?st' = ?fs"
    using range_keys_done(1) [of ?st' "pointer ?st"] ab p
    by (simp_all add: done_keys_def [of ?st] redo_keys_def)
  have tk: "take (d + (b - pointer ?st)) (done_keys ?st') = rev ?ks @ ?ps"
    unfolding keys using len by simp
  let ?cx' = "set_stack render ?st' (cx\<lparr>cx_stores := t\<rparr>)"
  have "d \<le> pointer ?st" using inv' by blast
  then have "d + (b - pointer ?st) \<le> pointer ?st'" using p(1) ab by linarith
  then have "session_inv (d + (b - pointer ?st)) ?cx'"
    using inv' t keys(2) tk redo_then_undo_range(3) [of ?st "pointer ?st" b] r ab record_redo_n_wf
    by (simp add: session_inv_def set_stack_def)
  moreover have "history (d + (b - pointer ?st)) ?cx' = step_forth (b - pointer ?st) (history d cx)"
    using drop_eq_ConsD [OF h(1) [symmetric]] h(2) rk keys(2) tk len by (simp add: history_def set_stack_def)
  moreover have "cx_redo render cx = (Inr (outcome its), ?cx')"
    using r its len ab by (simp add: cx_redo_def Let_def)
  moreover have "b - pointer ?st \<le> length (snd (history d cx))"
    using history_lengths(2) [OF inv] rk len by simp
  ultimately show ?thesis
    using r ab its(2) by (intro exI [of _ "outcome its"] exI [of _ ?cx'])
      (simp add: set_stack_def outcome_def)
qed

section \<open>Recording a mutation\<close>

text \<open>An id no store knows, as a newly made ULID is.\<close>

definition fresh_id :: "undo_entry_id \<Rightarrow> 'item store list \<Rightarrow> bool" where
  "fresh_id k sts \<longleftrightarrow>
     (\<forall>s \<in> set sts. fresh k (hfiles (snd s)) \<and> (\<forall>i. \<not> has_entry (fst s) k i (snd s)))"

lemma find_owner_fresh:
  "\<forall>s \<in> set sts. \<not> has_entry (fst s) (fst k) (snd k) (snd s) \<Longrightarrow> n < length sts
     \<Longrightarrow> has_entry (fst s) (fst k) (snd k) (snd s) \<Longrightarrow> find_owner k (sts[n := s]) = Some n"
proof (induction sts arbitrary: n)
  case (Cons x sts)
  then show ?case by (cases n) auto
qed simp

lemma in_owner_not_fresh: "in_owner P k sts \<Longrightarrow> \<not> fresh_id (fst k) sts"
proof -
  assume "in_owner P k sts"
  then obtain n where "find_owner k sts = Some n" by (auto simp: in_owner_def)
  from find_owner_Some [OF this] show ?thesis by (auto simp: fresh_id_def dest: nth_mem)
qed

lemma done_keys_Cons:
  assumes "stack_wf st" "0 < pointer st"
  shows "\<exists>ks. done_keys st = entry_key (entries st ! (pointer st - 1)) # ks"
proof -
  have "pointer st - 1 < length (entries st)" using assms by (auto simp: stack_wf_def)
  then have "take (pointer st) (entries st) = take (pointer st - 1) (entries st) @ [entries st ! (pointer st - 1)]"
    using assms(2) take_Suc_conv_app_nth [of "pointer st - 1" "entries st"] by simp
  then show ?thesis by (simp add: done_keys_def)
qed

lemma push_keys:
  assumes "stack_wf st" "0 < pointer st \<Longrightarrow> ue_id (entries st ! (pointer st - 1)) \<noteq> k"
  shows "done_keys (push_with_group k l i g st) = take (max_size st) ((k, i) # done_keys st)"
    and "redo_keys (push_with_group k l i g st) = []"
proof -
  let ?es = "take (pointer st) (entries st) @ [\<lparr>ue_id = k, ue_label = l, ue_item_id = i, ue_group_id = g\<rparr>]"
  let ?st = "st\<lparr>entries := ?es, pointer := pointer st + 1\<rparr>"
  have p: "push_with_group k l i g st = trim_oldest ?st"
    using assms(2) by (auto simp: push_with_group_def)
  have len: "length ?es = pointer st + 1" using assms(1) by (simp add: stack_wf_def)
  have keys: "rev (map entry_key ?es) = (k, i) # done_keys st"
    by (simp add: done_keys_def entry_key_def)
  have "take (max_size st) (rev (map entry_key ?es)) = rev (map entry_key (drop (length ?es - max_size st) ?es))"
    by (metis drop_map length_map take_rev)
  then show "done_keys (push_with_group k l i g st) = take (max_size st) ((k, i) # done_keys st)"
    using len unfolding p trim_oldest_def keys [symmetric]
    by (auto simp: done_keys_def Let_def)
  show "redo_keys (push_with_group k l i g st) = []"
    using len unfolding p trim_oldest_def by (auto simp: redo_keys_def Let_def)
qed

lemma recorded_in_owner:
  assumes ok: "stores_ok sts" and n: "n < length sts" and fr: "fresh_id k sts"
    and rec: "recorded (fst (sts ! n)) (fst ` K) (hfiles (snd (sts ! n))) k i (hfiles h')"
  shows "stores_ok (sts[n := (fst (sts ! n), h')]) \<and>
     in_owner applied (k, i) (sts[n := (fst (sts ! n), h')]) \<and>
     (\<exists>t. undo1 (k, i) (sts[n := (fst (sts ! n), h')]) = Some t \<and> stores_agree K t sts)"
proof -
  let ?env = "fst (sts ! n)" and ?h = "snd (sts ! n)" and ?sts' = "sts[n := (fst (sts ! n), h')]"
  have env: "env_ok ?env" and ar: "at_rest ?env (hfiles ?h)" using stores_ok_nth [OF ok n] by auto
  obtain e where e: "ce_id e = k" "ce_item_id e = i" and ap: "applied ?env e (hfiles h')"
    and ar': "at_rest ?env (hfiles h')"
    and ag: "agree_files (se_of_json ?env) (fst ` K) (undone_files ?env e (hfiles h')) (hfiles ?h)"
    using rec by (auto simp: recorded_def)
  have "has_entry ?env k i h'" using applied_has_entry [of ?env e h'] ap e by simp
  then have own: "find_owner (k, i) ?sts' = Some n"
    using fr n by (intro find_owner_fresh) (auto simp: fresh_id_def)
  obtain v h0 where u: "handle_undo ?env k i h' = (Inr v, h0)" "hfiles h0 = undone_files ?env e (hfiles h')"
    using handle_undo_applied [OF env_okD(3) [OF env] ap] e by auto
  have "stores_agree K (sts[n := (?env, h0)]) (sts[n := sts ! n])"
    using env ag u by (intro stores_agree_update stores_ok_refl ok) (auto simp: agree_def)
  moreover have "undo1 (k, i) ?sts' = Some (sts[n := (?env, h0)])"
    using own u n by (simp add: undo1_def quiet_def dispatch_def)
  moreover have "in_owner applied (k, i) ?sts'"
    using own e ap n by (auto simp: in_owner_def)
  ultimately show ?thesis
    using stores_ok_update [OF ok, of "(?env, h')"] env ar' by auto
qed

text \<open>An id that is in use neither in the stores nor on the stack, as a newly made ULID is.\<close>

definition new_id :: "undo_entry_id \<Rightarrow> 'item store_context \<Rightarrow> bool" where
  "new_id k cx \<longleftrightarrow> fresh_id k (cx_stores cx) \<and> k \<notin> ue_id ` set (entries (cx_stack cx))"

lemma done_keys_ids: "fst ` set (done_keys st) \<subseteq> ue_id ` set (entries st)"
  by (auto simp: done_keys_def entry_key_def dest: in_set_takeD)

lemma new_idD:
  assumes "new_id k cx" "n < length (cx_stores cx)"
  shows "fresh_id k (cx_stores cx)" "fresh k (hfiles (snd (cx_stores cx ! n)))"
    and "k \<notin> fst ` set (take d (done_keys (cx_stack cx)))"
  using assms by (auto simp: new_id_def fresh_id_def)
    (use assms done_keys_ids [of "cx_stack cx"] in \<open>force simp: new_id_def dest: in_set_takeD\<close>)

text \<open>The pushed entry is the newest version; what could be redone is gone; a full stack
  forgets its oldest version.\<close>

lemma cx_push_refines:
  assumes inv: "session_inv d cx" and n: "n < length (cx_stores cx)" and new: "new_id k cx"
    and rec: "recorded (fst (cx_stores cx ! n)) (fst ` set (take d (done_keys (cx_stack cx))))
                (hfiles (snd (cx_stores cx ! n))) k i (hfiles h')"
  shows "session_inv (min (max_size (cx_stack cx)) (Suc d)) (cx_push render k label i (put_store n h' cx)) \<and>
     history (min (max_size (cx_stack cx)) (Suc d)) (cx_push render k label i (put_store n h' cx))
       = commit (max_size (cx_stack cx)) (stores_view ((cx_stores cx)[n := (fst (cx_stores cx ! n), h')]))
           (history d cx)"
proof -
  let ?st = "cx_stack cx" and ?sts = "cx_stores cx"
  let ?m = "max_size ?st" and ?ks = "(k, i) # take d (done_keys ?st)"
  let ?sts' = "?sts[n := (fst (?sts ! n), h')]"
  let ?st' = "push_with_group k label i (cx_group cx) ?st"
  note inv' = inv [unfolded session_inv_def] and fr = new_idD(1) [OF new n]
  obtain t where t: "stores_ok ?sts'" "in_owner applied (k, i) ?sts'"
    "undo1 (k, i) ?sts' = Some t" "stores_agree (set (take d (done_keys ?st))) t ?sts"
    using recorded_in_owner [OF _ n fr rec] inv' by auto
  have walks: "can_walk undo1 (in_owner applied) ?ks ?sts'"
    "trail undo1 stores_view ?ks ?sts'
       = stores_view ?sts # trail undo1 stores_view (take d (done_keys ?st)) ?sts"
    using log.record_one [OF _ t] inv' by auto
  have "ue_id (entries ?st ! (pointer ?st - 1)) \<noteq> k" if "0 < pointer ?st"
  proof -
    have "pointer ?st - 1 < length (entries ?st)" using that inv' by (auto simp: stack_wf_def)
    then show ?thesis using new by (auto simp: new_id_def)
  qed
  from push_keys [OF _ this, of label i "cx_group cx"] inv'
  have keys: "done_keys ?st' = take ?m ((k, i) # done_keys ?st)" "redo_keys ?st' = []"
    by auto
  have tk: "take (min ?m (Suc d)) (done_keys ?st') = take ?m ?ks"
    unfolding keys by (cases ?m) (simp_all add: min_def)
  have "can_walk undo1 (in_owner applied) (take ?m ?ks) ?sts'"
    using walks(1) can_walk_append [of _ _ "take ?m ?ks" "drop ?m ?ks"] by (metis append_take_drop_id)
  moreover have "trail undo1 stores_view (take ?m ?ks) ?sts'
      = take ?m (stores_view ?sts # trail undo1 stores_view (take d (done_keys ?st)) ?sts)"
    using walks trail_append [of undo1 "in_owner applied" "take ?m ?ks" "drop ?m ?ks" ?sts' stores_view]
      can_walk_trail_length [OF walks(1), of stores_view]
    unfolding append_take_drop_id
    by (simp add: min_def del: trail.simps can_walk.simps)
  moreover have "min ?m (Suc d) \<le> pointer ?st'"
    using length_done_keys [OF push_with_group_wf [of ?st k label i "cx_group cx"]] inv' keys(1)
    by (auto simp: length_done_keys)
  ultimately show ?thesis
    using t(1) inv' tk keys(2) push_with_group_wf push_at_boundary
    by (simp add: session_inv_def history_def cx_push_def set_stack_def put_store_def)
qed

section \<open>The versions an operation records\<close>

text \<open>What the operations of a session are meant to do to the versions: an item gets a text or loses it,
  and this is a new version unless nothing changes.\<close>

definition change_version ::
  "nat \<Rightarrow> nat \<Rightarrow> stored_item_id \<Rightarrow> string option
     \<Rightarrow> (stored_item_id \<Rightarrow> string option) list versions \<Rightarrow> (stored_item_id \<Rightarrow> string option) list versions" where
  "change_version m n i x H =
     (let v = hd (fst H) in if (v ! n) i = x then H else commit m (v[n := (v ! n)(i := x)]) H)"

lemma change_version_history:
  assumes "n < length (cx_stores cx)" and "view (fst (cx_stores cx ! n)) h' = (view (fst (cx_stores cx ! n)) (snd (cx_stores cx ! n)))(i := x)"
    and "view (fst (cx_stores cx ! n)) (snd (cx_stores cx ! n)) i \<noteq> x"
    and "H = (stores_view (cx_stores cx) # past, future)"
  shows "change_version m n i x H = commit m (stores_view ((cx_stores cx)[n := (fst (cx_stores cx ! n), h')])) H"
  using assms by (simp add: change_version_def stores_view_def map_update Let_def)

lemma put_store_same:
  "n < length (cx_stores cx) \<Longrightarrow> put_store n (snd (cx_stores cx ! n)) cx = cx"
  by (simp add: put_store_def)

lemma session_store:
  "session_inv d cx \<Longrightarrow> n < length (cx_stores cx) \<Longrightarrow>
     env_ok (fst (cx_stores cx ! n)) \<and> at_rest (fst (cx_stores cx ! n)) (hfiles (snd (cx_stores cx ! n)))"
  using stores_ok_nth by (auto simp: session_inv_def)

lemma cx_changes:
  assumes inv: "session_inv d cx" and n: "n < length (cx_stores cx)" and new: "new_id k cx"
    and rec: "recorded (fst (cx_stores cx ! n)) (fst ` set (take d (done_keys (cx_stack cx))))
                (hfiles (snd (cx_stores cx ! n))) k i (hfiles h')"
    and view: "view (fst (cx_stores cx ! n)) h' = (view (fst (cx_stores cx ! n)) (snd (cx_stores cx ! n)))(i := x)"
    and change: "view (fst (cx_stores cx ! n)) (snd (cx_stores cx ! n)) i \<noteq> x"
  shows "\<exists>d'. session_inv d' (cx_push render k label i (put_store n h' cx)) \<and>
     history d' (cx_push render k label i (put_store n h' cx))
       = change_version (max_size (cx_stack cx)) n i x (history d cx)"
  using cx_push_refines [OF inv n new rec, of render label]
    change_version_history [OF n view change, of "history d cx"]
  by (intro exI [of _ "min (max_size (cx_stack cx)) (Suc d)"]) (simp add: history_def [of d cx])

lemma cx_unchanged:
  assumes "view (fst (cx_stores cx ! n)) (snd (cx_stores cx ! n)) i = x" "n < length (cx_stores cx)"
  shows "change_version m n i x (history d cx) = history d cx"
  using assms by (simp add: change_version_def history_def stores_view_def)

lemma cx_write_refines:
  assumes inv: "session_inv d cx" and n: "n < length (cx_stores cx)" and fr: "new_id k cx"
    and new: "se_serialize (fst (cx_stores cx ! n)) item = Inr new"
    and rb: "rebuild_ok (fst (cx_stores cx ! n)) (se_item_id (fst (cx_stores cx ! n)) item) new"
  shows "\<exists>d'. session_inv d' (snd (cx_write render n k now label item cx)) \<and>
     history d' (snd (cx_write render n k now label item cx))
       = change_version (max_size (cx_stack cx)) n (se_item_id (fst (cx_stores cx ! n)) item) (Some new) (history d cx)"
proof -
  let ?env = "fst (cx_stores cx ! n)" and ?h = "snd (cx_stores cx ! n)"
  let ?i = "se_item_id ?env item"
  have ok: "env_ok ?env" "at_rest ?env (hfiles ?h)" using session_store [OF inv n] by auto
  show ?thesis
  proof (cases "hfiles ?h (Live ?i (se_extension ?env)) = Some new")
    case True
    then have "handle_write ?env k now item ?h = (Inr None, ?h)"
      using new by (simp add: handle_write_def Let_def and_then_def read_text_def item_path_def)
    then have "snd (cx_write render n k now label item cx) = cx"
      using n by (simp add: cx_write_def Let_def put_store_same)
    then show ?thesis
      using True inv n cx_unchanged [of cx n ?i "Some new" _ d] by (auto simp: view_def item_path_def)
  next
    case False
    obtain old h' e where w: "handle_write ?env k now item ?h = (Inr (Some k), h')"
      and h': "hfiles h' = redirect ?env e (Some new) (with_entry ?env e (hfiles ?h))" "ce_item_id e = ?i"
      using handle_write_changes [OF new refl False, of k now] by auto
    have rec: "recorded ?env (fst ` set (take d (done_keys (cx_stack cx)))) (hfiles ?h) k ?i (hfiles h')"
      using write_recorded [OF ok new_idD(2,3) [OF fr n] new rb w] by blast
    have "view ?env h' = (view ?env ?h)(?i \<mapsto> new)"
      using h' env_okD(3) [OF ok(1)] by (auto simp: view_def item_path_def redirect_def with_entry_def)
    then show ?thesis
      using cx_changes [OF inv n fr rec, of "Some new" render label] False w
      by (simp add: cx_write_def Let_def view_def item_path_def)
  qed
qed

lemma view_stowed:
  assumes "se_extension env \<noteq> ''jsonl''" "ce_op e \<in> {Delete, Archive, Unarchive}"
  shows "hfiles h' = stowed env e (with_entry env e (hfiles h)) \<Longrightarrow>
    view env h' = (view env h)(ce_item_id e := None)"
  using assms by (auto simp: view_def item_path_def stowed_def with_entry_def Let_def fun_eq_iff)

lemma cx_stage_refines:
  assumes inv: "session_inv d cx" and n: "n < length (cx_stores cx)" and fr: "new_id k cx"
  shows "\<exists>d'. session_inv d' (snd (cx_stage render op n k now label i cx)) \<and>
     history d' (snd (cx_stage render op n k now label i cx))
       = change_version (max_size (cx_stack cx)) n i None (history d cx)"
proof -
  let ?env = "fst (cx_stores cx ! n)" and ?h = "snd (cx_stores cx ! n)"
  let ?act = "case op of StageDelete \<Rightarrow> handle_delete | StageArchive \<Rightarrow> handle_archive"
  have ok: "env_ok ?env" "at_rest ?env (hfiles ?h)" using session_store [OF inv n] by auto
  note ext = env_okD(3) [OF ok(1)]
  show ?thesis
  proof (cases "hfiles ?h (Live i (se_extension ?env))")
    case None
    then have "?act ?env k now i ?h = (Inl (NotFound i), ?h)"
      by (cases op) (simp_all add: handle_delete_def handle_archive_def and_then_def read_text_def item_path_def)
    then have "snd (cx_stage render op n k now label i cx) = cx"
      using n by (simp add: cx_stage_def Let_def put_store_same)
    then show ?thesis
      using None inv n cx_unchanged [of cx n i None _ d] by (auto simp: view_def item_path_def)
  next
    case (Some t)
    define e where "e = mk_entry ?env k now (case op of StageDelete \<Rightarrow> Delete | StageArchive \<Rightarrow> Archive) i t []"
    have e: "ce_item_id e = i" "ce_op e \<in> {Delete, Archive, Unarchive}" by (cases op; simp add: e_def)+
    obtain h' where d: "?act ?env k now i ?h = (Inr k, h')"
      and h': "hfiles h' = stowed ?env e (with_entry ?env e (hfiles ?h))"
      using handle_delete_eq [OF ok(2) Some ext refl, of k now]
        handle_archive_eq [OF ok(2) Some ext refl, of k now]
      by (cases op) (auto simp: e_def)
    have rec: "recorded ?env (fst ` set (take d (done_keys (cx_stack cx)))) (hfiles ?h) k i (hfiles h')"
      using delete_recorded [OF ok new_idD(2,3) [OF fr n], of now i k h']
        archive_recorded [OF ok new_idD(2,3) [OF fr n], of now i k h'] d
      by (cases op) auto
    have "view ?env h' = (view ?env ?h)(i := None)" using view_stowed [OF ext e(2) h'] e(1) by simp
    then show ?thesis
      using cx_changes [OF inv n fr rec, of None render label] Some d
      by (simp add: cx_stage_def Let_def view_def item_path_def)
  qed
qed

lemma unarchive_latest_entry:
  assumes u: "handle_unarchive_latest env k now i h = Some (Inr (item, k'), h')"
    and env: "env_ok env" and logs: "logs_ok (hfiles h)"
  shows "k' = k \<and> (\<exists>a v. find_archived_entry_id (se_parse_ulid env) (se_list_archive env (hfiles h)) i
            (se_extension env) = Some (Some a) \<and> handle_unarchive env k now i a h = (Inr v, h'))"
proof -
  obtain a where a: "find_archived_entry_id (se_parse_ulid env) (se_list_archive env (hfiles h)) i
      (se_extension env) = Some (Some a)"
    using u by (auto simp: handle_unarchive_latest_def and_then_def ok_or_def split: option.splits)
  obtain v where v: "handle_unarchive env k now i a h = (Inr v, h')"
    and last: "find (\<lambda>e. ce_op e = Unarchive) (rev (read_all (se_of_json env) (log_path i) (hfiles h')))
                 = Some e \<longrightarrow> ce_id e = k'" for e
    using u a by (auto simp: handle_unarchive_latest_def and_then_def Let_def split: option.splits prod.splits sum.splits)
  obtain t c where c: "hfiles h (Archived i a ''jsonl'') = Some c"
    and h': "hfiles h' = with_entry env (mk_entry env k now Unarchive i [] t) (unarchived_files env i a (hfiles h))"
    using handle_unarchive_eq [OF v env_okD(3) [OF env]] by blast
  have "log_ok c" using logs c by (auto intro: logs_okD2 [of "hfiles h"])
  then have "read_all (se_of_json env) (log_path i) (hfiles h')
      = log_entries (se_of_json env) c @ [mk_entry env k now Unarchive i [] t]"
    using c env_okD(3) [OF env]
    by (simp add: h' with_entry_def unarchived_files_def read_all_def log_path_def
        log_entries_append_entry [OF env_okD(2) [OF env]])
  then have "k' = k" using last [of "mk_entry env k now Unarchive i [] t"] by simp
  with a v show ?thesis by blast
qed

text \<open>Unarchiving takes the item from the place where its archiving put it, so that this archiving, and
  with it everything older, can no longer be undone. The entries of the stack that are newer than
  the archiving are not affected.\<close>

definition newer_than :: "undo_entry_id \<Rightarrow> undo_stack \<Rightarrow> nat" where
  "newer_than a st = length (takeWhile (\<lambda>u. ue_id u \<noteq> a) (rev (take (pointer st) (entries st))))"

definition forget_older :: "nat \<Rightarrow> 'v versions \<Rightarrow> 'v versions" where
  "forget_older d H = (take (Suc d) (fst H), snd H)"

lemma newer_than_keys: "a \<notin> fst ` set (take (newer_than a st) (done_keys st))"
proof -
  let ?us = "rev (take (pointer st) (entries st))"
  have "done_keys st = map entry_key ?us" by (simp add: done_keys_def rev_map)
  then have "take (newer_than a st) (done_keys st) = map entry_key (takeWhile (\<lambda>u. ue_id u \<noteq> a) ?us)"
    by (metis newer_than_def take_map takeWhile_eq_take)
  then show ?thesis by (auto simp: entry_key_def dest: set_takeWhileD)
qed

lemma newer_than_absent: "stack_wf st \<Longrightarrow> a \<notin> ue_id ` set (entries st) \<Longrightarrow> newer_than a st = pointer st"
  unfolding newer_than_def
  by (subst takeWhile_eq_all_conv [THEN iffD2]) (auto simp: stack_wf_def dest: in_set_takeD)

lemma take_Suc_min: "length xs = Suc d \<Longrightarrow> take (Suc (min d n)) xs = take (Suc n) xs"
  by (simp add: min_def)

lemma cx_unarchive_refines:
  assumes inv: "session_inv d cx" and n: "n < length (cx_stores cx)" and fr: "new_id k cx"
    and gone: "view (fst (cx_stores cx ! n)) (snd (cx_stores cx ! n)) i = None"
    and a: "find_archived_entry_id (se_parse_ulid (fst (cx_stores cx ! n)))
        (se_list_archive (fst (cx_stores cx ! n)) (hfiles (snd (cx_stores cx ! n)))) i
        (se_extension (fst (cx_stores cx ! n))) = Some (Some a)"
    and u: "cx_unarchive render n k now label i cx = Some (Inr k', cx')"
  shows "\<exists>d' t. hfiles (snd (cx_stores cx ! n)) (Archived i a (se_extension (fst (cx_stores cx ! n)))) = Some t \<and>
     session_inv d' cx' \<and>
     history d' cx' = change_version (max_size (cx_stack cx)) n i (Some t)
       (forget_older (newer_than a (cx_stack cx)) (history d cx))"
proof -
  let ?env = "fst (cx_stores cx ! n)" and ?h = "snd (cx_stores cx ! n)"
  let ?d = "min d (newer_than a (cx_stack cx))"
  have ok: "env_ok ?env" "at_rest ?env (hfiles ?h)" using session_store [OF inv n] by auto
  note ext = env_okD(3) [OF ok(1)]
  obtain item h' where w: "handle_unarchive_latest ?env k now i ?h = Some (Inr (item, k'), h')"
    and cx': "cx' = cx_push render k' label i (put_store n h' cx)"
    using u by (auto simp: cx_unarchive_def Let_def split: option.splits prod.splits sum.splits)
  have "logs_ok (hfiles ?h)" using ok by (simp add: at_rest_def)
  from unarchive_latest_entry [OF w ok(1) this] a obtain v where k': "k' = k"
    and v: "handle_unarchive ?env k now i a ?h = (Inr v, h')" by auto
  obtain t c where t: "hfiles ?h (Archived i a (se_extension ?env)) = Some t"
    and h': "hfiles h' = with_entry ?env (mk_entry ?env k now Unarchive i [] t) (unarchived_files ?env i a (hfiles ?h))"
    using handle_unarchive_eq [OF v ext] by blast
  have view: "view ?env h' = (view ?env ?h)(i \<mapsto> t)"
    using t ext by (auto simp: view_def item_path_def h' with_entry_def unarchived_files_def)
  have less: "session_inv ?d cx" "history ?d cx = forget_older (newer_than a (cx_stack cx)) (history d cx)"
    using session_inv_less [OF inv, of ?d] history_lengths(1) [OF inv]
    by (simp_all add: forget_older_def take_Suc_min)
  have "a \<notin> fst ` set (take ?d (done_keys (cx_stack cx)))"
    using newer_than_keys [of a "cx_stack cx"] image_mono [OF set_take_subset_set_take [of ?d "newer_than a (cx_stack cx)"]]
    by (metis min.cobounded2 subsetD)
  then have rec: "recorded ?env (fst ` set (take ?d (done_keys (cx_stack cx)))) (hfiles ?h) k i (hfiles h')"
    using unarchive_recorded [OF ok new_idD(2,3) [OF fr n] _ _ v] gone
    by (simp add: view_def item_path_def)
  show ?thesis
    using cx_changes [OF less(1) n fr rec view, of render label] gone t k' cx' less(2) by auto
qed

lemma session_inv_pending:
  assumes inv: "session_inv d cx" and st: "cx_stack cx' = cx_stack cx"
    and len: "length (cx_stores cx') = length (cx_stores cx)"
    and same: "\<And>n. n < length (cx_stores cx) \<Longrightarrow> fst (cx_stores cx' ! n) = fst (cx_stores cx ! n) \<and>
        hfiles (snd (cx_stores cx' ! n)) = hfiles (snd (cx_stores cx ! n))"
  shows "session_inv d cx' \<and> history d cx' = history d cx"
proof -
  note inv' = inv [unfolded session_inv_def]
  have "stores_agree UNIV (cx_stores cx) (cx_stores cx')"
    using len same stores_ok_refl [of "cx_stores cx" UNIV] inv'
    by (auto simp: stores_agree_def list_all2_conv_all_nth intro: agree_files_cong)
  note R = this log.bwd.can_walk_sim [OF this] log.fwd.can_walk_sim [OF this]
    log.bwd.trail_sim [OF this] log.fwd.trail_sim [OF this] stores_agree_view [OF this]
  have "stores_ok (cx_stores cx')"
    using inv' len same by (simp add: stores_ok_def all_set_conv_all_nth)
  then show ?thesis using inv' R st by (simp add: session_inv_def history_def)
qed

section \<open>Sessions\<close>

text \<open>The sessions of a context together with a record of the versions that its stores should have
  shown. The record is kept apart from the context: a write puts the text it was given, a delete and
  an archive take the item out, an unarchive puts back the archived text, and an undo or a redo moves
  along the recorded versions by the size of the group at the pointer, whatever the operation did to the
  files. The context is created without a stack file and its stores are registered; ids are new, what
  is written can be read back, and the item of an unarchive is not live. An unarchive makes the
  record forget the versions before the archiving it takes back, and no undo of the session goes
  below them.\<close>

definition undo_size :: "undo_stack \<Rightarrow> nat" where
  "undo_size st = (case group_undo_range st of None \<Rightarrow> 0 | Some (a, b) \<Rightarrow> b - a)"

definition redo_size :: "undo_stack \<Rightarrow> nat" where
  "redo_size st = (case group_redo_range st of None \<Rightarrow> 0 | Some (a, b) \<Rightarrow> b - a)"

inductive session ::
  "(undo_stack \<Rightarrow> string) \<Rightarrow> 'item store_context \<Rightarrow> (stored_item_id \<Rightarrow> string option) list versions \<Rightarrow> bool"
  for render where
  start: "stores_ok sts \<Longrightarrow>
    session render (fold register sts (new_context (\<lambda>_. Inl (Yaml [])) None)) ([stores_view sts], [])"
| begin_group: "session render cx H \<Longrightarrow> session render (begin_undo_group g cx) H"
| end_group: "session render cx H \<Longrightarrow> session render (end_undo_group cx) H"
| write_item: "session render cx H \<Longrightarrow> n < length (cx_stores cx) \<Longrightarrow> new_id k cx \<Longrightarrow>
    se_serialize (fst (cx_stores cx ! n)) item = Inr new \<Longrightarrow>
    rebuild_ok (fst (cx_stores cx ! n)) (se_item_id (fst (cx_stores cx ! n)) item) new \<Longrightarrow>
    session render (snd (cx_write render n k now label item cx))
      (change_version (max_size (cx_stack cx)) n (se_item_id (fst (cx_stores cx ! n)) item) (Some new) H)"
| stage: "session render cx H \<Longrightarrow> n < length (cx_stores cx) \<Longrightarrow> new_id k cx \<Longrightarrow>
    session render (snd (cx_stage render op n k now label i cx))
      (change_version (max_size (cx_stack cx)) n i None H)"
| unarchive: "session render cx H \<Longrightarrow> n < length (cx_stores cx) \<Longrightarrow> new_id k cx \<Longrightarrow>
    view (fst (cx_stores cx ! n)) (snd (cx_stores cx ! n)) i = None \<Longrightarrow>
    find_archived_entry_id (se_parse_ulid (fst (cx_stores cx ! n)))
        (se_list_archive (fst (cx_stores cx ! n)) (hfiles (snd (cx_stores cx ! n)))) i
        (se_extension (fst (cx_stores cx ! n))) = Some (Some a) \<Longrightarrow>
    cx_unarchive render n k now label i cx = Some (Inr k', cx') \<Longrightarrow>
    session render cx' (change_version (max_size (cx_stack cx)) n i
      (hfiles (snd (cx_stores cx ! n)) (Archived i a (se_extension (fst (cx_stores cx ! n)))))
      (forget_older (newer_than a (cx_stack cx)) H))"
| undo: "session render cx H \<Longrightarrow> undo_size (cx_stack cx) < length (fst H) \<Longrightarrow>
    session render (snd (cx_undo render cx)) (step_back (undo_size (cx_stack cx)) H)"
| redo: "session render cx H \<Longrightarrow>
    session render (snd (cx_redo render cx)) (step_forth (redo_size (cx_stack cx)) H)"
| flush: "session render cx H \<Longrightarrow> session render (snd (flush_all cx)) H"

lemma fold_register: "fold register sts cx = cx\<lparr>cx_stores := cx_stores cx @ sts\<rparr>"
  by (induction sts arbitrary: cx) (auto simp: register_def)

lemma step_0 [simp]: "step_back 0 H = H" "step_forth 0 H = H"
  by (cases H; simp)+

text \<open>The recorded versions are those that undo and redo lead to.\<close>

lemma session_history: "session render cx H \<Longrightarrow> \<exists>d. session_inv d cx \<and> H = history d cx"
proof (induction rule: session.induct)
  case (start sts)
  then show ?case
    by (intro exI [of _ 0]) (simp add: session_inv_def history_def fold_register new_context_def load_stack_def at_boundary_def
        done_keys_def redo_keys_def, simp add: new_stack_def default_max_size_def)
next
  case (begin_group cx H g)
  then show ?case by (auto simp: session_inv_def history_def begin_undo_group_def)
next
  case (end_group cx H)
  then show ?case by (auto simp: session_inv_def history_def end_undo_group_def)
next
  case (write_item cx H n k item new now label)
  then show ?case using cx_write_refines [of _ cx n k item new render now label] by metis
next
  case (stage cx H n k op now label i)
  then show ?case using cx_stage_refines [of _ cx n k render op now label i] by metis
next
  case (unarchive cx H n k i a now label k' cx')
  then show ?case using cx_unarchive_refines [OF _ unarchive.hyps(2-6)] by fastforce
next
  case (undo cx H)
  then obtain d where d: "session_inv d cx" "H = history d cx" by blast
  show ?case
  proof (cases "group_undo_range (cx_stack cx)")
    case None
    then show ?thesis using d by (auto simp: cx_undo_def undo_size_def)
  next
    case (Some r)
    obtain a b where ab: "r = (a, b)" by (cases r)
    have "b - a \<le> d" using undo.hyps(2) Some ab d history_lengths(1) [OF d(1)] by (simp add: undo_size_def)
    from cx_undo_refines [OF d(1) Some [unfolded ab] this, of render] show ?thesis
      using Some ab d by (auto simp: undo_size_def)
  qed
next
  case (redo cx H)
  then obtain d where d: "session_inv d cx" "H = history d cx" by blast
  show ?case
  proof (cases "group_redo_range (cx_stack cx)")
    case None
    then show ?thesis using d by (auto simp: cx_redo_def redo_size_def)
  next
    case (Some r)
    obtain a b where ab: "r = (a, b)" by (cases r)
    from cx_redo_refines [OF d(1) Some [unfolded ab], of render] show ?thesis
      using Some ab d by (auto simp: redo_size_def)
  qed
next
  case (flush cx H)
  then obtain d where d: "session_inv d cx" "H = history d cx" by blast
  have "session_inv d (snd (flush_all cx)) \<and> history d (snd (flush_all cx)) = history d cx"
    by (rule session_inv_pending [OF d(1)]) (simp_all add: flush_all_def flush_changes_def)
  then show ?case using d(2) by metis
qed

text \<open>There is never more to take back than the stack has; without an unarchive of an item whose
  archiving is on the stack the record forgets nothing but what the stack forgets.\<close>

lemma session_record_bound: "session render cx H \<Longrightarrow> length (fst H) \<le> Suc (pointer (cx_stack cx))"
  using session_history [of render cx H] history_lengths(1) [of _ cx] session_inv_def [of _ cx] by fastforce

lemma forget_nothing:
  assumes "session render cx H" and "a \<notin> ue_id ` set (entries (cx_stack cx))"
  shows "forget_older (newer_than a (cx_stack cx)) H = H"
proof -
  have "stack_wf (cx_stack cx)" using session_history [OF assms(1)] by (auto simp: session_inv_def)
  then have "newer_than a (cx_stack cx) = pointer (cx_stack cx)" using newer_than_absent assms(2) by blast
  then show ?thesis using session_record_bound [OF assms(1)] by (simp add: forget_older_def)
qed

lemma session_now: "session render cx (now # past, future) \<Longrightarrow> stores_view (cx_stores cx) = now"
  using session_history [of render cx "(now # past, future)"] by (auto simp: history_def)

text \<open>One undo, and one redo, of a session.\<close>

lemma session_undo:
  assumes s: "session render cx (now # past, future)" and can: "cx_can_undo cx"
    and enough: "undo_size (cx_stack cx) \<le> length past"
  shows "\<exists>out cx' a b. b = pointer (cx_stack cx) \<and> whole_group (entries (cx_stack cx)) a b \<and>
     undo_size (cx_stack cx) = b - a \<and>
     cx_undo render cx = (Inr out, cx') \<and>
     cx_stack cx' = record_undo_n (b - a) (cx_stack cx) \<and>
     map snd (uo_items out) = map snd (rev (range_keys (cx_stack cx) (a, b))) \<and>
     stores_view (cx_stores cx') = past ! (b - a - 1) \<and>
     session render cx' (step_back (b - a) (now # past, future))"
proof -
  obtain d where d: "session_inv d cx" "(now # past, future) = history d cx"
    using session_history [OF s] by blast
  note inv' = d(1) [unfolded session_inv_def]
  obtain a b where r: "group_undo_range (cx_stack cx) = Some (a, b)"
    using can group_range_Some(1) unfolding cx_can_undo_def by blast
  have size: "undo_size (cx_stack cx) = b - a" by (simp add: undo_size_def r)
  have ab: "a < b" using group_undo_range_bounds [OF r] by simp
  have "length past = d" using history_lengths(1) [OF d(1)] d(2) [symmetric] by simp
  then have "b - a \<le> d" using enough size by simp
  from cx_undo_refines [OF d(1) r this, of render] obtain out cx' where u: "b = pointer (cx_stack cx)"
    "cx_undo render cx = (Inr out, cx')" "cx_stack cx' = record_undo_n (b - a) (cx_stack cx)"
    "map snd (uo_items out) = map snd (rev (range_keys (cx_stack cx) (a, b)))" by blast
  have s': "session render cx' (step_back (b - a) (now # past, future))"
    using session.undo [OF s] enough u(2) size by simp
  obtain n where n: "b - a = Suc n" using ab by (metis Suc_diff_Suc)
  have "n < length past" using enough size n by simp
  then have "drop n past = past ! n # drop (Suc n) past" by (simp add: Cons_nth_drop_Suc)
  then have "stores_view (cx_stores cx') = past ! (b - a - 1)"
    using session_now [of render cx' "past ! n"] s' n by simp
  then show ?thesis
    using u s' size undo_range_whole [OF _ _ r] inv' by blast
qed

lemma session_redo:
  assumes s: "session render cx (past, future)" and can: "cx_can_redo cx"
  shows "\<exists>out cx' a b. a = pointer (cx_stack cx) \<and> whole_group (entries (cx_stack cx)) a b \<and> b - a \<le> length future \<and>
     cx_redo render cx = (Inr out, cx') \<and>
     cx_stack cx' = record_redo_n (b - a) (cx_stack cx) \<and>
     map snd (uo_items out) = map snd (range_keys (cx_stack cx) (a, b)) \<and>
     stores_view (cx_stores cx') = future ! (b - a - 1) \<and>
     session render cx' (step_forth (b - a) (past, future))"
proof -
  obtain d where d: "session_inv d cx" "(past, future) = history d cx"
    using session_history [OF s] by blast
  note inv' = d(1) [unfolded session_inv_def]
  obtain a b where r: "group_redo_range (cx_stack cx) = Some (a, b)"
    using can group_range_Some(2) unfolding cx_can_redo_def by blast
  have size: "redo_size (cx_stack cx) = b - a" by (simp add: redo_size_def r)
  have ab: "a < b" using group_redo_range_bounds [OF r] by simp
  from cx_redo_refines [OF d(1) r, of render] obtain out cx' where u: "a = pointer (cx_stack cx)"
    "cx_redo render cx = (Inr out, cx')" "cx_stack cx' = record_redo_n (b - a) (cx_stack cx)"
    "map snd (uo_items out) = map snd (range_keys (cx_stack cx) (a, b))" "b - a \<le> length future"
    using d(2) [symmetric] by auto
  have s': "session render cx' (step_forth (b - a) (past, future))"
    using session.redo [OF s] u(2) size by simp
  obtain n where n: "b - a = Suc n" using ab by (metis Suc_diff_Suc)
  have "n < length future" using u(5) n by simp
  then have "rev (take (Suc n) future) = future ! n # rev (take n future)" by (simp add: take_Suc_conv_app_nth)
  then have "stores_view (cx_stores cx') = future ! (b - a - 1)"
    using session_now [of render cx' "future ! n"] s' n by simp
  then show ?thesis using u s' redo_range_whole [OF _ r] inv' by blast
qed

end
