(* ===== verification/Store_Example.thy ===== *)
theory Store_Example
  imports Store_Session
begin

text \<open>
  A concrete store, on which the hypotheses of the store theorems hold: items are pairs of
  an id and a text, a patch is the new text, and a changelog entry is printed as its
  comma-separated fields with an escape character. It stands in for an implementor of
  \<open>TrackedStore\<close>, the patch library and the JSON library.
\<close>

section \<open>A line codec for changelog entries\<close>

fun esc :: "string \<Rightarrow> string" where
  "esc [] = []"
| "esc (c # cs) =
     (if c = NL then ''%n'' else if c = CR then ''%r''
      else if c = CHR '','' then ''%c'' else if c = CHR ''%'' then ''%p'' else [c]) @ esc cs"

definition unesc_char :: "char \<Rightarrow> char" where
  "unesc_char c =
     (if c = CHR ''n'' then NL else if c = CHR ''r'' then CR
      else if c = CHR ''c'' then CHR '','' else CHR ''%'')"

text \<open>One field and the rest after its comma.\<close>

fun unesc :: "string \<Rightarrow> string \<times> string" where
  "unesc [] = ([], [])"
| "unesc [c] = (if c = CHR '','' then ([], []) else ([c], []))"
| "unesc (c # d # cs) =
     (if c = CHR '','' then ([], d # cs)
      else if c = CHR ''%'' then (case unesc cs of (f, r) \<Rightarrow> (unesc_char d # f, r))
      else (case unesc (d # cs) of (f, r) \<Rightarrow> (c # f, r)))"

lemma unesc_esc: "unesc (esc s @ CHR '','' # r) = (s, r)"
proof (induction s)
  case Nil
  then show ?case by (cases r) auto
next
  case (Cons c s)
  obtain d ds where "esc s @ CHR '','' # r = d # ds" by (cases "esc s @ CHR '','' # r") auto
  with Cons show ?case by (auto simp: unesc_char_def)
qed

lemma esc_no_newline: "NL \<notin> set (esc s)" "CR \<notin> set (esc s)"
  by (induction s) auto

fun op_char :: "change_op \<Rightarrow> char" where
  "op_char Create = CHR ''C''"
| "op_char Update = CHR ''U''"
| "op_char Delete = CHR ''D''"
| "op_char Archive = CHR ''A''"
| "op_char Unarchive = CHR ''R''"

definition char_op :: "char \<Rightarrow> change_op" where
  "char_op c =
     (if c = CHR ''C'' then Create else if c = CHR ''U'' then Update
      else if c = CHR ''D'' then Delete else if c = CHR ''A'' then Archive else Unarchive)"

definition show_entry :: "changelog_entry \<Rightarrow> string" where
  "show_entry e =
     [op_char (ce_op e)]
     @ esc (ce_id e) @ '',''
     @ esc (replicate (ce_timestamp e) (CHR ''1'')) @ '',''
     @ esc (ce_item_id e) @ '',''
     @ esc (ce_forward_patch e) @ '',''
     @ esc (ce_reverse_patch e) @ '',''
     @ (case ce_transaction_id e of None \<Rightarrow> [] | Some t \<Rightarrow> esc t @ '','')"

definition read_entry :: "string \<Rightarrow> changelog_entry option" where
  "read_entry l =
     (case l of
        [] \<Rightarrow> None
      | c # r0 \<Rightarrow>
          (case unesc r0 of (k, r1) \<Rightarrow>
          (case unesc r1 of (t, r2) \<Rightarrow>
          (case unesc r2 of (i, r3) \<Rightarrow>
          (case unesc r3 of (f, r4) \<Rightarrow>
          (case unesc r4 of (b, r5) \<Rightarrow>
             Some \<lparr>ce_id = k, ce_timestamp = length t, ce_op = char_op c, ce_item_id = i,
                   ce_forward_patch = f, ce_reverse_patch = b,
                   ce_transaction_id = (if r5 = [] then None else Some (fst (unesc r5)))\<rparr>))))))"

lemma read_show_entry: "read_entry (show_entry e) = Some e"
proof -
  have tid: "(if (case ce_transaction_id e of None \<Rightarrow> [] | Some t \<Rightarrow> esc t @ '','') = [] then None
      else Some (fst (unesc (case ce_transaction_id e of None \<Rightarrow> [] | Some t \<Rightarrow> esc t @ '',''))))
      = ce_transaction_id e"
    using unesc_esc [of _ "[]"] by (cases "ce_transaction_id e") auto
  have "char_op (op_char (ce_op e)) = ce_op e"
    by (cases "ce_op e") (auto simp: char_op_def)
  then show ?thesis
    using tid by (simp add: read_entry_def show_entry_def unesc_esc)
qed

lemma trim_nonempty: "\<not> is_ws c \<Longrightarrow> trim (c # s) \<noteq> []"
  by (auto simp: trim_def trim_matches_def trim_start_matches_def trim_end_matches_def)

lemma op_char_not_newline [simp]:
  "op_char x \<noteq> NL" "NL \<noteq> op_char x" "op_char x \<noteq> CR" "CR \<noteq> op_char x"
  by (cases x; simp)+

lemma show_entry_codec: "codec_ok show_entry read_entry"
proof -
  have "trim (show_entry e) \<noteq> []" for e
    by (cases "ce_op e") (simp_all add: show_entry_def trim_nonempty is_ws_def)
  then show ?thesis
    by (auto simp: codec_ok_def read_show_entry) 
      (auto simp: show_entry_def esc_no_newline split: option.splits)
qed

section \<open>The store\<close>

definition text_env :: "(string \<times> string) store_env" where
  "text_env =
     \<lparr>se_item_id = fst, se_serialize = (\<lambda>item. Inr (snd item)),
      se_deserialize = (\<lambda>i t. Inr (i, t)), se_parse_id = (\<lambda>i. True),
      se_extension = ''md'', se_store_name = ''note'',
      se_create_patch = (\<lambda>old new. new), se_apply_patch = (\<lambda>t p. Inr p),
      se_to_json = show_entry, se_of_json = read_entry,
      se_parse_ulid = (\<lambda>s. if length s = 2 then Some s else None),
      se_list_archive = (\<lambda>fs. Some (if fs (Archived ''n'' ''k1'' ''md'') = None then [] else [''n.k1.md'']))\<rparr>"

lemma text_env_ok: "env_ok text_env"
  by (simp add: env_ok_def text_env_def show_entry_codec)

lemma text_env_rebuild [simp]: "rebuild_ok text_env i t"
  by (simp add: rebuild_ok_def text_env_def)

lemma text_env_simps [simp]:
  "se_item_id text_env = fst" "se_serialize text_env item = Inr (snd item)"
  "se_extension text_env = ''md''"
  by (simp_all add: text_env_def)

definition no_files :: files where
  "no_files p = None"

lemma no_files_at_rest [simp]: "at_rest env no_files"
  by (simp add: at_rest_def paired_def logs_ok_def readable_def no_files_def)

lemma no_files_fresh [simp]: "fresh k no_files"
  by (simp add: fresh_def no_files_def)

text \<open>The YAML library is not used by the examples.\<close>

definition show_stack :: "undo_stack \<Rightarrow> string" where
  "show_stack st = concat (map ue_id (entries st))"

section \<open>A session\<close>

definition example_start :: "(string \<times> string) store_context" where
  "example_start = fold register [(text_env, new_handle no_files)] (new_context (\<lambda>_. Inl (Yaml [])) None)"

definition example_written :: "(string \<times> string) store_context" where
  "example_written = snd (cx_write show_stack 0 ''k1'' 1 ''create note n'' (''n'', ''a'') example_start)"

lemma example_start_simps [simp]:
  "cx_stores example_start = [(text_env, new_handle no_files)]"
  "cx_stack example_start = new_stack" "cx_group example_start = None"
  by (simp_all add: example_start_def register_def new_context_def load_stack_def)

lemma example_start_session: "session show_stack example_start ([[\<lambda>_. None]], [])"
proof -
  have "stores_view [(text_env, new_handle no_files)] = [\<lambda>_. None]"
    by (simp add: stores_view_def view_def [abs_def] new_handle_def no_files_def)
  moreover have "session show_stack example_start ([stores_view [(text_env, new_handle no_files)]], [])"
    unfolding example_start_def by (rule session.start) (simp add: stores_ok_def text_env_ok new_handle_def)
  ultimately show ?thesis by simp
qed

lemma example_start_new_id: "new_id k example_start"
  by (simp add: new_id_def fresh_id_def has_entry_def new_stack_def new_handle_def no_files_def
      find_entry_def is_trashed_def is_archived_def fresh_def)

lemma example_written_session:
  "session show_stack example_written ([[(\<lambda>_. None)(''n'' \<mapsto> ''a'')], [\<lambda>_. None]], [])"
proof -
  have "session show_stack example_written (change_version (max_size new_stack) 0 ''n'' (Some ''a'') ([[\<lambda>_. None]], []))"
    unfolding example_written_def
    using session.write_item [OF example_start_session _ example_start_new_id, of 0 "(''n'', ''a'')" "''a''"] by simp
  then show ?thesis
    by (simp add: change_version_def new_stack_def default_max_size_def)
qed

lemma example_written_result:
  "\<exists>cx. cx_write show_stack 0 ''k1'' 1 ''create note n'' (''n'', ''a'') example_start = (Inr (Some ''k1''), cx)
     \<and> cx = example_written"
  by (simp add: example_written_def cx_write_def Let_def handle_write_def and_then_def read_text_def
      item_path_def new_handle_def no_files_def on_files_def append_entry_def atomic_write_def push_event_def)

lemma example_written_can_undo: "cx_can_undo example_written"
  by (simp add: example_written_def cx_write_def Let_def handle_write_def and_then_def read_text_def
      item_path_def new_handle_def no_files_def on_files_def append_entry_def atomic_write_def push_event_def
      cx_can_undo_def can_undo_def cx_push_def set_stack_def put_store_def push_with_group_def
      new_stack_def trim_oldest_def default_max_size_def)

lemma example_written_stack:
  "group_undo_range (cx_stack example_written) = Some (0, 1)" "pointer (cx_stack example_written) = 1"
  by (simp_all add: example_written_def cx_write_def Let_def handle_write_def and_then_def read_text_def
      item_path_def new_handle_def no_files_def on_files_def append_entry_def atomic_write_def push_event_def
      cx_can_undo_def can_undo_def cx_push_def set_stack_def put_store_def push_with_group_def
      new_stack_def trim_oldest_def default_max_size_def group_undo_range_def)

lemma example_written_size: "undo_size (cx_stack example_written) = 1"
  by (simp add: undo_size_def example_written_stack)

end
