(* ===== verification/Store_Claims.thy ===== *)
theory Store_Claims
  imports Store_Example
begin

text \<open>
  The properties of the store crate, with the concrete inputs on which their hypotheses
  hold.
\<close>

section \<open>Undo and redo of a context\<close>






text \<open>An undo followed by a redo brings back the same stack and the same files in view, whatever the
  group that was undone.\<close>

lemma undo_redo_restores:
  assumes s: "session render cx (now # past, future)" and can: "cx_can_undo cx"
    and enough: "undo_size (cx_stack cx) \<le> length past"
  shows "\<exists>out1 cx1 out2 cx2. cx_undo render cx = (Inr out1, cx1) \<and> cx_redo render cx1 = (Inr out2, cx2) \<and>
     cx_stack cx2 = cx_stack cx \<and> stores_view (cx_stores cx2) = stores_view (cx_stores cx) \<and>
     session render cx2 (now # past, future)"
proof -
  let ?st = "cx_stack cx"
  obtain d where inv: "session_inv d cx" using session_history [OF s] by blast
  note inv' = inv [unfolded session_inv_def]
  obtain a where r: "group_undo_range ?st = Some (a, pointer ?st)"
    using can group_range_Some(1) unfolding cx_can_undo_def by blast
  have a: "a < pointer ?st" using group_undo_range_bounds [OF r] by simp
  have size: "undo_size ?st = pointer ?st - a" by (simp add: undo_size_def r)
  obtain out1 cx1 where 1: "cx_undo render cx = (Inr out1, cx1)"
    "cx_stack cx1 = record_undo_n (pointer ?st - a) ?st"
    "session render cx1 (step_back (pointer ?st - a) (now # past, future))"
    using session_undo [OF s can enough] size by auto
  note t = undo_then_redo_range [OF _ _ r]
  have sz: "redo_size (cx_stack cx1) = pointer ?st - a" using t(1) inv' 1(2) by (simp add: redo_size_def)
  have "cx_can_redo cx1"
    using a inv' by (auto simp: cx_can_redo_def can_redo_def 1(2) record_undo_n_def stack_wf_def)
  then obtain out2 cx2 where 2: "cx_redo render cx1 = (Inr out2, cx2)"
    using session_redo [OF 1(3) [unfolded step_back.simps]] by blast
  have s2: "session render cx2 (now # past, future)"
    using session.redo [OF 1(3)] 2 sz step_forth_back [of "pointer ?st - a" "now # past" future] enough size
    by simp
  obtain d' where "session_inv d' cx1" using session_history [OF 1(3)] by blast
  from cx_redo_refines [OF this, of a "pointer ?st" render] have "cx_stack cx2 = ?st"
    using 2 t(1,2) inv' 1(2) by auto
  then show ?thesis using 1(1) 2 s2 session_now [OF s2] session_now [OF s] by auto
qed

lemma single_range_after_push:
  assumes "stack_wf st" "0 < max_size st"
    and "0 < pointer st \<Longrightarrow> ue_id (entries st ! (pointer st - 1)) \<noteq> k"
  shows "\<exists>p. pointer (push_with_group k l i None st) = Suc p \<and>
     group_undo_range (push_with_group k l i None st) = Some (p, Suc p) \<and>
     map snd (range_keys (push_with_group k l i None st) (p, Suc p)) = [i]"
proof -
  let ?u = "\<lparr>ue_id = k, ue_label = l, ue_item_id = i, ue_group_id = None\<rparr>"
  let ?st = "push_with_group k l i None st"
  have "\<exists>es. entries ?st = es @ [?u] \<and> pointer ?st = Suc (length es)"
    using assms
    by (auto simp: push_with_group_def trim_oldest_def Let_def stack_wf_def min_def split: if_splits)
  then obtain es where "entries ?st = es @ [?u]" "pointer ?st = Suc (length es)" by blast
  then show ?thesis
    by (intro exI [of _ "length es"])
       (simp add: group_undo_range_def can_undo_def Let_def range_keys_def entry_key_def)
qed

text \<open>A write outside any group is one undo step: undoing right after it, the stores
  show what they showed before it, and the undo names the item that was written.\<close>

lemma write_then_undo:
  assumes s: "session render cx (now # past, future)" and n: "n < length (cx_stores cx)" and new: "new_id k cx"
    and ser: "se_serialize (fst (cx_stores cx ! n)) item = Inr t"
    and rb: "rebuild_ok (fst (cx_stores cx ! n)) (se_item_id (fst (cx_stores cx ! n)) item) t"
    and g: "cx_group cx = None"
    and w: "cx_write render n k now' label item cx = (Inr (Some k'), cx1)"
  shows "\<exists>out cx2. cx_undo render cx1 = (Inr out, cx2) \<and>
     map snd (uo_items out) = [se_item_id (fst (cx_stores cx ! n)) item] \<and>
     stores_view (cx_stores cx2) = stores_view (cx_stores cx)"
proof -
  let ?i = "se_item_id (fst (cx_stores cx ! n)) item" and ?st = "cx_stack cx"
  obtain d where inv: "session_inv d cx" using session_history [OF s] by blast
  have k': "k' = k \<and> view (fst (cx_stores cx ! n)) (snd (cx_stores cx ! n)) ?i \<noteq> Some t"
    using w ser
    by (auto simp: cx_write_def handle_write_def and_then_def Let_def read_text_def view_def item_path_def
        on_files_def append_entry_def atomic_write_def push_event_def split: prod.splits sum.splits option.splits if_splits)
  have now: "now = stores_view (cx_stores cx)" using session_now [OF s] by simp
  obtain v where s1: "session render cx1 (take (Suc (max_size ?st)) (v # now # past), [])"
    using session.write_item [OF s n new ser rb, of now' label] w k' n
    by (auto simp: change_version_def now stores_view_def Let_def)
  have wf: "stack_wf ?st" "0 < max_size ?st" using inv by (auto simp: session_inv_def)
  have st: "cx_stack cx1 = push_with_group k label ?i None ?st"
    using g w k'
    by (auto simp: cx_write_def cx_push_def set_stack_def put_store_def Let_def
        split: prod.splits sum.splits option.splits)
  have top: "ue_id (entries ?st ! (pointer ?st - 1)) \<noteq> k" if "0 < pointer ?st"
  proof -
    have "pointer ?st - 1 < length (entries ?st)" using that wf(1) by (auto simp: stack_wf_def)
    then show ?thesis using new by (auto simp: new_id_def)
  qed
  obtain p where p: "pointer (cx_stack cx1) = Suc p" "group_undo_range (cx_stack cx1) = Some (p, Suc p)"
    "map snd (range_keys (cx_stack cx1) (p, Suc p)) = [?i]"
    using single_range_after_push [OF wf top, of label ?i] st by auto
  obtain m where m: "max_size ?st = Suc m" using wf(2) by (cases "max_size ?st") auto
  have "cx_can_undo cx1" by (simp add: cx_can_undo_def can_undo_def p(1))
  moreover have size: "undo_size (cx_stack cx1) = 1" by (simp add: undo_size_def p(2))
  moreover have "session render cx1 (v # take (Suc m) (now # past), [])" using s1 m by simp
  ultimately obtain out cx2 a b where u: "b = pointer (cx_stack cx1)" "undo_size (cx_stack cx1) = b - a"
    "cx_undo render cx1 = (Inr out, cx2)" "map snd (uo_items out) = map snd (rev (range_keys (cx_stack cx1) (a, b)))"
    "stores_view (cx_stores cx2) = take (Suc m) (now # past) ! (b - a - 1)"
    using session_undo [of render cx1 v "take (Suc m) (now # past)" "[]"] by fastforce
  have "a = p \<and> b = Suc p" using u(1,2) size p(1) by simp
  then show ?thesis using u p(3) now by (auto simp: rev_map)
qed

section \<open>Undo and redo of one handle\<close>

lemma recorded_reversible:
  assumes env: "env_ok env" and rec: "recorded env ids (hfiles h) k i (hfiles h1)"
  shows "\<exists>v h2 w h3. handle_undo env k i h1 = (Inr v, h2) \<and> view env h2 = view env h \<and>
     handle_redo env k i h2 = (Inr w, h3) \<and> hfiles h3 = hfiles h1"
proof -
  note ext = env_okD(3) [OF env]
  obtain e where e: "ce_id e = k" "ce_item_id e = i" and ap: "applied env e (hfiles h1)"
    and ag: "agree_files (se_of_json env) ids (undone_files env e (hfiles h1)) (hfiles h)"
    using rec by (auto simp: recorded_def)
  obtain v h2 where u: "handle_undo env k i h1 = (Inr v, h2)" "hfiles h2 = undone_files env e (hfiles h1)"
    using handle_undo_applied [OF ext ap] e by auto
  have un: "unapplied env e (hfiles h2)" "redone_files env e (hfiles h2) = hfiles h1"
    using undone_unapplied [OF ext ap] u by auto
  obtain w h3 where "handle_redo env k i h2 = (Inr w, h3)" "hfiles h3 = hfiles h1"
    using handle_redo_unapplied [OF ext un(1)] un(2) e by auto
  moreover have "view env h2 = view env h"
    using ag u ext by (intro agree_view) (auto simp: agree_def)
  ultimately show ?thesis using u by blast
qed

text \<open>Whatever a delete or an archive of an item moved away, undo brings back: every
  data file of the store reads as before the operation; and redo then leaves exactly the
  files that the operation had left.\<close>

lemma staging_reversible:
  assumes "env_ok env" and "at_rest env (hfiles h)" and "fresh k (hfiles h)"
    and "op = handle_delete \<or> op = handle_archive"
    and "op env k now i h = (Inr k', h1)"
  shows "k' = k \<and> (\<exists>v h2 w h3. handle_undo env k i h1 = (Inr v, h2) \<and> view env h2 = view env h \<and>
     handle_redo env k i h2 = (Inr w, h3) \<and> hfiles h3 = hfiles h1)"
  using assms(4)
proof
  assume "op = handle_delete"
  then show ?thesis
    using delete_recorded [OF assms(1-3), of "{}" now i k' h1] recorded_reversible [OF assms(1)] assms(5)
    by blast
next
  assume "op = handle_archive"
  then show ?thesis
    using archive_recorded [OF assms(1-3), of "{}" now i k' h1] recorded_reversible [OF assms(1)] assms(5)
    by blast
qed

definition example_handle :: handle where
  "example_handle = snd (handle_write text_env ''k0'' 1 (''n'', ''a'') (new_handle no_files))"

lemma example_handle_props:
  "at_rest text_env (hfiles example_handle)" "k \<noteq> ''k0'' \<Longrightarrow> fresh k (hfiles example_handle)"
  "hfiles example_handle (Live ''n'' ''md'') = Some ''a''"
  "hfiles example_handle (Live ''n'' ''jsonl'') \<noteq> None"
proof -
  have w: "\<exists>h. handle_write text_env ''k0'' 1 (''n'', ''a'') (new_handle no_files) = (Inr (Some ''k0''), h)
      \<and> h = example_handle"
    by (simp add: example_handle_def handle_write_def Let_def and_then_def read_text_def item_path_def
        new_handle_def no_files_def on_files_def append_entry_def atomic_write_def push_event_def)
  then show "at_rest text_env (hfiles example_handle)"
    using write_recorded [OF text_env_ok, of "new_handle no_files" "''k0''" "{}" "(''n'', ''a'')" "''a''" 1 "''k0''" example_handle]
    by (simp add: new_handle_def recorded_def) blast
  show "k \<noteq> ''k0'' \<Longrightarrow> fresh k (hfiles example_handle)"
    "hfiles example_handle (Live ''n'' ''md'') = Some ''a''"
    "hfiles example_handle (Live ''n'' ''jsonl'') \<noteq> None"
    by (simp_all add: example_handle_def handle_write_def Let_def and_then_def read_text_def item_path_def
        new_handle_def no_files_def on_files_def append_entry_def atomic_write_def push_event_def fresh_def log_path_def)
qed

text \<open>C3. Undoing an unarchive archives the item under the unarchive's own id. The archive
  it had taken back can then no longer be undone: neither trash nor archive hold anything
  under that entry's id and there is no live changelog, so the undo of the archive fails and
  no store claims the entry.\<close>

theorem undone_unarchive_strands_archive:
  assumes "env_ok env" and "at_rest env (hfiles h)"
    and "fresh k1 (hfiles h)" and "fresh k2 (hfiles h)" and "k1 \<noteq> k2"
    and "handle_archive env k1 t1 i h = (Inr k, h1)"
    and "handle_unarchive env k2 t2 i k1 h1 = (Inr x, h2)"
    and "handle_undo env k2 i h2 = (Inr y, h3)"
  shows "handle_undo env k1 i h3 = (Inl (EntryNotFound k1), h3) \<and> \<not> has_entry env k1 i h3"
proof -
  note ext = env_okD(3) [OF assms(1)]
  obtain t where t: "hfiles h (Live i (se_extension env)) = Some t"
    using assms(6) by (cases "hfiles h (Live i (se_extension env))")
       (auto simp: handle_archive_def and_then_def read_text_def item_path_def)
  let ?e1 = "mk_entry env k1 t1 Archive i t []"
  have h1: "hfiles h1 = stowed env ?e1 (with_entry env ?e1 (hfiles h))" "at_rest env (hfiles h1)"
    using handle_archive_eq [OF assms(2) t ext refl, of k1 t1] assms(6)
      archive_recorded [OF assms(1-3), of "{}" t1 i k h1] by (auto simp: recorded_def)
  have f1: "hfiles h1 (Trashed i k1 ''jsonl'') = None" "fresh k2 (hfiles h1)"
    "hfiles h1 (Live i (se_extension env)) = None"
    using assms(3-5) ext by (auto simp: h1 stowed_def with_entry_def fresh_def Let_def)
  obtain u where h2: "hfiles h2 = with_entry env (mk_entry env k2 t2 Unarchive i [] u)
      (unarchived_files env i k1 (hfiles h1))"
    using handle_unarchive_eq [OF assms(7) ext] by blast
  obtain u2 where ap: "applied env (mk_entry env k2 t2 Unarchive i [] u2) (hfiles h2)"
    using unarchive_applied [OF assms(1) h1(2) f1(2) _ _ f1(3) assms(7), of "{}"] by auto
  let ?e2 = "mk_entry env k2 t2 Unarchive i [] u2"
  have h3: "hfiles h3 = stowed env ?e2 (hfiles h2)"
    using handle_undo_applied [OF ext ap] assms(8) by (auto simp: undone_files_def)
  have none: "hfiles h3 (Live i ''jsonl'') = None" "hfiles h3 (Trashed i k1 ''jsonl'') = None"
    "hfiles h3 (Archived i k1 ''jsonl'') = None"
    using assms(5) f1(1) ext by (simp_all add: h3 stowed_def h2 with_entry_def unarchived_files_def Let_def)
  then show ?thesis
    by (simp add: handle_undo_def locate_entry_def and_then_def ignoring_def on_files_def file_moves
        find_entry_def log_path_def has_entry_def is_trashed_def is_archived_def)
qed

lemma example_archived:
  "\<exists>h1 x h2 y h3. handle_archive text_env ''k1'' 2 ''n'' example_handle = (Inr ''k1'', h1) \<and>
     handle_unarchive text_env ''k2'' 3 ''n'' ''k1'' h1 = (Inr x, h2) \<and>
     handle_undo text_env ''k2'' ''n'' h2 = (Inr y, h3)"
proof -
  obtain c where c: "hfiles example_handle (Live ''n'' ''jsonl'') = Some c" "log_ok c"
    using example_handle_props(1,4) by (auto simp: at_rest_def)
  let ?e1 = "mk_entry text_env ''k1'' 2 Archive ''n'' ''a'' []"
  obtain h1 where h1: "handle_archive text_env ''k1'' 2 ''n'' example_handle = (Inr ''k1'', h1)"
    "hfiles h1 = stowed text_env ?e1 (with_entry text_env ?e1 (hfiles example_handle))"
    using handle_archive_eq [OF example_handle_props(1), where i = "''n''" and old = "''a''" and k = "''k1''"
        and now = 2, OF _ _ refl] example_handle_props(3) by auto
  have rest: "at_rest text_env (hfiles h1)"
    using archive_recorded [OF text_env_ok example_handle_props(1) _ _ h1(1), of "{}"]
      example_handle_props(2) [of "''k1''"] by (auto simp: recorded_def)
  have fr: "fresh ''k2'' (hfiles h1)" "hfiles h1 (Live ''n'' ''md'') = None"
    using example_handle_props(2) [of "''k2''"]
    by (auto simp: h1(2) stowed_def with_entry_def fresh_def Let_def)
  obtain x h2 where h2: "handle_unarchive text_env ''k2'' 3 ''n'' ''k1'' h1 = (Inr x, h2)"
    using c example_handle_props(3)
    by (auto simp: handle_unarchive_def and_then_def on_files_def file_moves h1(2) stowed_def with_entry_def
        Let_def read_text_def item_path_def append_entry_def log_path_def push_event_def rebuild_item_def)
       (simp add: text_env_def)
  obtain u where "applied text_env (mk_entry text_env ''k2'' 3 Unarchive ''n'' [] u) (hfiles h2)"
    using unarchive_applied [OF text_env_ok rest fr(1) _ _ _ h2, of "{}"] fr(2) by auto
  from handle_undo_applied [OF _ this] obtain y h3 where "handle_undo text_env ''k2'' ''n'' h2 = (Inr y, h3)"
    by auto
  with h1(1) h2 show ?thesis by blast
qed

theorem undone_unarchive_strands_archive_witness:
  "\<exists>h1 x h2 y h3. handle_archive text_env ''k1'' 2 ''n'' example_handle = (Inr ''k1'', h1) \<and>
     handle_unarchive text_env ''k2'' 3 ''n'' ''k1'' h1 = (Inr x, h2) \<and>
     handle_undo text_env ''k2'' ''n'' h2 = (Inr y, h3) \<and>
     handle_undo text_env ''k1'' ''n'' h3 = (Inl (EntryNotFound ''k1''), h3)"
proof -
  obtain h1 x h2 y h3 where
    "handle_archive text_env ''k1'' 2 ''n'' example_handle = (Inr ''k1'', h1)"
    "handle_unarchive text_env ''k2'' 3 ''n'' ''k1'' h1 = (Inr x, h2)"
    "handle_undo text_env ''k2'' ''n'' h2 = (Inr y, h3)"
    using example_archived by blast
  moreover from undone_unarchive_strands_archive [OF text_env_ok example_handle_props(1) _ _ _ this]
  have "handle_undo text_env ''k1'' ''n'' h3 = (Inl (EntryNotFound ''k1''), h3)"
    using example_handle_props(2) by simp
  ultimately show ?thesis by blast
qed

section \<open>What a write does\<close>

text \<open>A write that changes something makes exactly the written text the item's content,
  leaves every other item alone, appends one entry to the item's changelog from whose patches
  both texts can be rebuilt, and announces the item once, as created or changed.\<close>

theorem write_effect:
  assumes "env_ok env" and "logs_ok (hfiles h)" and "se_serialize env item = Inr new"
    and "view env h (se_item_id env item) \<noteq> Some new"
  shows "\<exists>h' e. handle_write env k now item h = (Inr (Some k), h') \<and>
     view env h' = (view env h)(se_item_id env item \<mapsto> new) \<and>
     read_all (se_of_json env) (log_path (se_item_id env item)) (hfiles h')
       = read_all (se_of_json env) (log_path (se_item_id env item)) (hfiles h) @ [e] \<and>
     ce_id e = k \<and> ce_op e = (if view env h (se_item_id env item) = None then Create else Update) \<and>
     (\<forall>old. old = (case view env h (se_item_id env item) of None \<Rightarrow> [] | Some t \<Rightarrow> t) \<longrightarrow>
        apply_patch env old (ce_forward_patch e) = Inr new \<and>
        apply_patch env new (ce_reverse_patch e) = Inr old) \<and>
     pending h' = pending h @
       [\<lparr>event_name = (if view env h (se_item_id env item) = None then ''item-created'' else ''item-changed''),
         payload_store = se_store_name env, payload_id = se_item_id env item\<rparr>]"
proof -
  let ?i = "se_item_id env item" and ?D = "Live (se_item_id env item) (se_extension env)"
  let ?L = "Live (se_item_id env item) ''jsonl''"
  note env = env_okD [OF assms(1)]
  have log: "read_all (se_of_json env) (log_path ?i) (with_entry env e (hfiles h))
      = read_all (se_of_json env) (log_path ?i) (hfiles h) @ [e]" if "ce_item_id e = ?i" for e
    using assms(2) that log_entries_line [OF env(2)]
    by (cases "hfiles h ?L")
       (auto simp: read_all_def log_path_def with_entry_def log_entries_append_entry [OF env(2)])
  define e where "e = mk_entry env k now (if hfiles h ?D = None then Create else Update) ?i
      (case hfiles h ?D of None \<Rightarrow> [] | Some t \<Rightarrow> t) new"
  have "ce_item_id e = ?i" by (simp add: e_def)
  define h' where "h' = h\<lparr>hfiles := redirect env e (Some new) (with_entry env e (hfiles h)),
      pending := pending h @
       [\<lparr>event_name = (if hfiles h ?D = None then ''item-created'' else ''item-changed''),
         payload_store = se_store_name env, payload_id = ?i\<rparr>]\<rparr>"
  have "handle_write env k now item h = (Inr (Some k), h')"
    using assms(3,4)
    by (auto simp: handle_write_def Let_def and_then_def read_text_def item_path_def on_files_def
        append_entry_def with_entry_def log_path_def atomic_write_def push_event_def redirect_def
        view_def e_def h'_def split: option.splits)
  moreover have "view env h' = (view env h)(?i \<mapsto> new)"
    using env(4) by (auto simp: view_def item_path_def h'_def redirect_def with_entry_def e_def)
  moreover have "read_all (se_of_json env) (log_path ?i) (hfiles h')
      = read_all (se_of_json env) (log_path ?i) (hfiles h) @ [e]"
    using log [OF \<open>ce_item_id e = ?i\<close>] env(4)
    by (simp add: h'_def read_all_def log_path_def redirect_def e_def)
  ultimately show ?thesis
    using env(1) by (intro exI [of _ h'] exI [of _ e]) (simp add: e_def h'_def view_def item_path_def)
qed

theorem write_effect_witness:
  "\<exists>h'. handle_write text_env ''k'' 1 (''n'', ''a'') (new_handle no_files) = (Inr (Some ''k''), h') \<and>
     view text_env h' = (view text_env (new_handle no_files))(''n'' \<mapsto> ''a'')"
  using write_effect [OF text_env_ok, of "new_handle no_files" "(''n'', ''a'')" "''a''" "''k''" 1]
  by (auto simp: new_handle_def no_files_def logs_ok_def view_def)

section \<open>The changelog\<close>

text \<open>An appended entry is the last one read back and the one found under its id; what
  is found under any other id is unchanged.\<close>

theorem append_then_find:
  assumes "codec_ok to_json of_json" and "\<forall>c. fs p = Some c \<longrightarrow> log_ok c"
  shows "\<exists>fs'. append_entry to_json p e fs = (Inr (), fs') \<and>
     read_all of_json p fs' = read_all of_json p fs @ [e] \<and>
     (\<forall>i. find_entry of_json p i fs' = (if i = ce_id e then Some e else find_entry of_json p i fs)) \<and>
     (\<forall>q. q \<noteq> p \<longrightarrow> fs' q = fs q)"
proof -
  let ?c = "case fs p of None \<Rightarrow> [] | Some c \<Rightarrow> c"
  have "log_ok ?c" using assms(2) by (cases "fs p") auto
  then have "read_all of_json p (fs(p \<mapsto> ?c @ to_json e @ [NL])) = read_all of_json p fs @ [e]"
    by (cases "fs p") (simp_all add: read_all_def log_entries_append_entry [OF assms(1)] log_entries_line [OF assms(1)])
  then show ?thesis by (auto simp: append_entry_def Let_def find_entry_eq)
qed

theorem append_then_find_witness:
  "find_entry read_entry (Live ''n'' ''jsonl'') ''k''
     (snd (append_entry show_entry (Live ''n'' ''jsonl'')
       (mk_entry text_env ''k'' 1 Create ''n'' [] ''a'') no_files)) \<noteq> None"
  using append_then_find [OF show_entry_codec, of no_files "Live ''n'' ''jsonl''"
      "mk_entry text_env ''k'' 1 Create ''n'' [] ''a''"]
  by (auto simp: no_files_def)

text \<open>Compaction keeps exactly the referenced entries, in order: every one of them is
  still found, no other is.\<close>

lemma compact_keeps_referenced:
  assumes "codec_ok to_json of_json"
  shows "\<exists>fs'. compact to_json of_json ids p fs = (Inr (), fs') \<and>
     read_all of_json p fs' = filter (\<lambda>e. ce_id e \<in> ids) (read_all of_json p fs) \<and>
     (\<forall>i. find_entry of_json p i fs' = (if i \<in> ids then find_entry of_json p i fs else None))"
proof -
  let ?kept = "filter (\<lambda>e. ce_id e \<in> ids) (read_all of_json p fs)"
  let ?fs = "fs(p \<mapsto> concat (map (\<lambda>e. to_json e @ [NL]) ?kept))"
  have r: "read_all of_json p ?fs = ?kept"
    by (simp add: read_all_def log_entries_concat [OF assms])
  have "find (\<lambda>e. ce_id e = i) (rev ?kept) = (if i \<in> ids then find_entry of_json p i fs else None)" for i
  proof (cases "i \<in> ids")
    case True
    then show ?thesis by (simp add: find_entry_eq rev_filter) (rule find_filter_imp, simp)
  next
    case False
    then show ?thesis by (auto simp: find_None_iff)
  qed
  then show ?thesis using r by (simp add: compact_def Let_def find_entry_eq)
qed

section \<open>The archive\<close>

text \<open>The ids under which the listing of the archive holds the item.\<close>

definition archived_ids ::
  "(string \<Rightarrow> undo_entry_id option) \<Rightarrow> string list \<Rightarrow> stored_item_id \<Rightarrow> string \<Rightarrow> undo_entry_id set" where
  "archived_ids parse_ulid ns i x =
     {e. \<exists>mid. i @ ''.'' @ mid @ ''.'' @ x \<in> set ns \<and> parse_ulid mid = Some e}"

lemma slice_between_iff:
  assumes "prefix pre n" "suffix suf n"
  shows "slice_between (length pre) (length suf) n = Some mid \<longleftrightarrow> n = pre @ mid @ suf"
proof -
  obtain u v where n: "n = pre @ u" "n = v @ suf" using assms unfolding prefix_def suffix_def by blast
  show ?thesis
  proof (cases "length pre + length suf \<le> length n")
    case True
    obtain w where "(pre = v @ w \<and> w @ u = suf) \<or> (pre @ w = v \<and> u = w @ suf)"
      using n by (metis append_eq_append_conv2)
    then obtain w' where "u = w' @ suf" using True n(1) by (cases "w = []") auto
    then show ?thesis using n(1) by (auto simp: slice_between_def)
  qed (auto simp: slice_between_def)
qed

definition ids_between ::
  "(string \<Rightarrow> undo_entry_id option) \<Rightarrow> string \<Rightarrow> string \<Rightarrow> string list \<Rightarrow> undo_entry_id set" where
  "ids_between parse_ulid pre suf ns = {e. \<exists>mid. pre @ mid @ suf \<in> set ns \<and> parse_ulid mid = Some e}"

lemma ids_between_Cons:
  "ids_between parse pre suf (n # ns) =
     (if prefix pre n \<and> suffix suf n
      then case slice_between (length pre) (length suf) n of
             None \<Rightarrow> {} | Some mid \<Rightarrow> set_option (parse mid)
      else {}) \<union> ids_between parse pre suf ns"
proof -
  have "{e. \<exists>mid. pre @ mid @ suf = n \<and> parse mid = Some e} =
     (if prefix pre n \<and> suffix suf n
      then case slice_between (length pre) (length suf) n of
             None \<Rightarrow> {} | Some mid \<Rightarrow> set_option (parse mid)
      else {})"
  proof (cases "prefix pre n \<and> suffix suf n")
    case True
    then have eq: "pre @ mid @ suf = n \<longleftrightarrow> slice_between (length pre) (length suf) n = Some mid" for mid
      using slice_between_iff by metis
    show ?thesis unfolding eq using True by (auto split: option.split)
  next
    case False
    have "prefix pre (pre @ mid @ suf) \<and> suffix suf (pre @ mid @ suf)" for mid
      by (auto simp: prefix_def suffix_def)
    then have "pre @ mid @ suf \<noteq> n" for mid using False by metis
    with False show ?thesis by auto
  qed
  moreover have "ids_between parse pre suf (n # ns)
      = {e. \<exists>mid. pre @ mid @ suf = n \<and> parse mid = Some e} \<union> ids_between parse pre suf ns"
    by (auto simp: ids_between_def)
  ultimately show ?thesis by simp
qed

lemma best_archived_greatest:
  "best_archived parse pre suf best ns = Some r \<Longrightarrow>
     (case r of None \<Rightarrow> best = None \<and> ids_between parse pre suf ns = {}
      | Some e \<Rightarrow> e \<in> set_option best \<union> ids_between parse pre suf ns \<and>
          (\<forall>e' \<in> set_option best \<union> ids_between parse pre suf ns. e' \<le> e))"
proof (induction ns arbitrary: best)
  case Nil
  then show ?case by (cases best) (auto simp: ids_between_def)
next
  case (Cons n ns)
  show ?case
  proof (cases "prefix pre n \<and> suffix suf n")
    case False
    then have eq: "ids_between parse pre suf (n # ns) = ids_between parse pre suf ns"
      unfolding ids_between_Cons [of parse pre suf n ns] by auto
    have "best_archived parse pre suf best ns = Some r" using Cons.prems False by (auto split: if_splits)
    from Cons.IH [OF this] show ?thesis unfolding eq .
  next
    case True
    then obtain mid where mid: "slice_between (length pre) (length suf) n = Some mid"
      using Cons.prems by (auto split: option.splits)
    show ?thesis
    proof (cases "parse mid")
      case None
      then have eq: "ids_between parse pre suf (n # ns) = ids_between parse pre suf ns"
        unfolding ids_between_Cons [of parse pre suf n ns] using True mid by auto
      have "best_archived parse pre suf best ns = Some r" using Cons.prems True mid None by simp
      from Cons.IH [OF this] show ?thesis unfolding eq .
    next
      case (Some e)
      let ?b = "case best of Some prev \<Rightarrow> (if prev > e then prev else e) | None \<Rightarrow> e"
      have "best_archived parse pre suf (Some ?b) ns = Some r" using Cons.prems True mid Some by simp
      from Cons.IH [OF this] obtain e0 where e0: "r = Some e0"
        "e0 = ?b \<or> e0 \<in> ids_between parse pre suf ns" "?b \<le> e0"
        "\<forall>e' \<in> ids_between parse pre suf ns. e' \<le> e0" by (cases r) auto
      have "?b \<in> insert e (set_option best)" "\<forall>e' \<in> insert e (set_option best). e' \<le> ?b"
        by (auto split: option.splits)
      moreover have "ids_between parse pre suf (n # ns) = insert e (ids_between parse pre suf ns)"
        unfolding ids_between_Cons [of parse pre suf n ns] using True mid Some by auto
      ultimately show ?thesis using e0 by (auto intro: order_trans)
    qed
  qed
qed

lemma best_archived_panics:
  "best_archived parse pre suf best ns = None \<longleftrightarrow>
     (\<exists>n \<in> set ns. prefix pre n \<and> suffix suf n \<and> length n < length pre + length suf)"
  by (induction ns arbitrary: best) (auto simp: slice_between_def split: option.split)

text \<open>Scanning the archive for an item returns the greatest id under which the item is
  archived, and nothing exactly when there is none; it panics exactly when some name begins
  with the item's prefix and ends with the suffix but is too short to hold both, as the plain
  name \<open>item.ext\<close> is.\<close>

lemma latest_archived:
  "(case find_archived_entry_id parse_ulid (Some ns) i x of
      None \<Rightarrow> \<exists>n \<in> set ns. prefix (i @ ''.'') n \<and> suffix (''.'' @ x) n \<and> length n < length i + length x + 2
    | Some None \<Rightarrow> archived_ids parse_ulid ns i x = {}
    | Some (Some e) \<Rightarrow> e \<in> archived_ids parse_ulid ns i x \<and>
        (\<forall>e'. e' \<in> archived_ids parse_ulid ns i x \<longrightarrow> e' \<le> e))"
proof -
  have ids: "archived_ids parse_ulid ns i x = ids_between parse_ulid (i @ ''.'') (''.'' @ x) ns"
    by (simp add: archived_ids_def ids_between_def)
  show ?thesis
    using best_archived_greatest [of parse_ulid "i @ ''.''" "''.'' @ x" None ns]
      best_archived_panics [of parse_ulid "i @ ''.''" "''.'' @ x" None ns]
    unfolding ids find_archived_entry_id_def by (force split: option.splits)
qed

section \<open>The stack\<close>

text \<open>C4. No sequence of constructors, loads from disk, pushes, undos and redos makes the
  stack lie about itself: the pointer stays within the entries, the entries within the
  capacity, and the ranges handed to the undo and redo loops are non-empty slices of the
  entries that meet at the pointer.\<close>

theorem stack_ranges_in_bounds:
  assumes "reachable_stack s"
  shows "pointer s \<le> length (entries s) \<and> length (entries s) \<le> max_size s \<and>
     (can_undo s \<longleftrightarrow> group_undo_range s \<noteq> None) \<and> (can_redo s \<longleftrightarrow> group_redo_range s \<noteq> None) \<and>
     (\<forall>a b. group_undo_range s = Some (a, b) \<longrightarrow> a < b \<and> b = pointer s) \<and>
     (\<forall>a b. group_redo_range s = Some (a, b) \<longrightarrow> a < b \<and> a = pointer s \<and> b \<le> length (entries s))"
proof -
  have "can_undo s \<longleftrightarrow> group_undo_range s \<noteq> None" "can_redo s \<longleftrightarrow> group_redo_range s \<noteq> None"
    using group_range_Some [of s] by (auto simp: group_undo_range_def group_redo_range_def)
  then show ?thesis
    using reachable_stack_wf [OF assms] group_undo_range_bounds [of s] group_redo_range_bounds [of s]
    unfolding stack_wf_def by blast
qed

theorem stack_ranges_in_bounds_witness:
  "group_undo_range (push_with_group ''k'' ''l'' ''i'' None new_stack) = Some (0, 1)
   \<and> pointer (push_with_group ''k'' ''l'' ''i'' None new_stack) \<le> 100"
proof -
  have "group_undo_range (push_with_group ''k'' ''l'' ''i'' None new_stack) = Some (0, 1)"
    "max_size (push_with_group ''k'' ''l'' ''i'' None new_stack) = 100" by code_simp+
  then show ?thesis
    using stack_ranges_in_bounds [OF reachable_stack.pushed [OF reachable_stack.new, of "''k''" "''l''" "''i''" None]]
    by simp
qed

text \<open>From a well-formed stack on which no group is cut at the pointer, undoing the top
  group and redoing returns exactly the same stack, the redo covering exactly the undone
  entries; and so does redoing first and then undoing.\<close>

theorem group_undo_redo_inverse:
  assumes "stack_wf s" and "at_boundary s"
  shows "(\<forall>a b. group_undo_range s = Some (a, b) \<longrightarrow>
       group_redo_range (record_undo_n (b - a) s) = Some (a, b) \<and>
       record_redo_n (b - a) (record_undo_n (b - a) s) = s) \<and>
     (\<forall>a b. group_redo_range s = Some (a, b) \<longrightarrow>
       group_undo_range (record_redo_n (b - a) s) = Some (a, b) \<and>
       record_undo_n (b - a) (record_redo_n (b - a) s) = s)"
  using undo_then_redo_range [OF assms] redo_then_undo_range [OF assms] by blast

definition example_stack :: undo_stack where
  "example_stack = push_with_group ''k2'' ''l'' ''i'' (Some ''g'') (push_with_group ''k1'' ''l'' ''j'' (Some ''g'') new_stack)"

theorem group_undo_redo_inverse_witness:
  "group_undo_range example_stack = Some (0, 2) \<and>
   group_redo_range (record_undo_n 2 example_stack) = Some (0, 2)"
proof -
  have 1: "stack_wf example_stack" "at_boundary example_stack" "group_undo_range example_stack = Some (0, 2)"
    unfolding stack_wf_def at_boundary_def by code_simp+
  show ?thesis using group_undo_redo_inverse [OF 1(1,2)] 1(3) by auto
qed

section \<open>Where the code and its documentation differ\<close>

text \<open>\<open>undo_depth\<close> counts entries, not undo steps: two entries of one group count two,
  though one undo takes both back.\<close>

lemma undo_depth_counts_entries:
  "undo_depth cx = 2 \<and> group_undo_range (cx_stack cx) = Some (0, 2)"
  if "cx_stack cx = example_stack"
proof -
  have "pointer example_stack = 2" "group_undo_range example_stack = Some (0, 2)" by code_simp+
  then show ?thesis using that by (simp add: undo_depth_def)
qed

text \<open>Ending a nested group ends the outer one: the next push carries no group.\<close>

lemma nested_group_ends_outer:
  assumes "cx_group cx = None"
  shows "cx_group (begin_undo_group g2 (begin_undo_group g1 cx)) = Some g1"
    and "cx_group (end_undo_group (begin_undo_group g2 (begin_undo_group g1 cx))) = None"
  using assms by (simp_all add: begin_undo_group_def end_undo_group_def)

text \<open>A group longer than the capacity loses its oldest entries: one undo then takes back
  only a part of it.\<close>

lemma long_group_truncated:
  "group_undo_range
     (push_with_group ''k3'' ''l'' ''i'' (Some ''g'')
       (push_with_group ''k2'' ''l'' ''i'' (Some ''g'')
         (push_with_group ''k1'' ''l'' ''i'' (Some ''g'') (with_max_size 2)))) = Some (0, 2)"
  by code_simp

end
