(* ===== verification/Rust_Num.thy ===== *)
theory Rust_Num
  imports Prelude
begin

text \<open>
  Printing and parsing of unsigned numbers as the Rust standard library does it:
  \<open>format!("{n}")\<close>, \<open>format!("{b:02x}")\<close>, \<open>str::parse\<close> and \<open>from_str_radix\<close>. A leading
  plus sign is accepted, an overflow of the type is an error.
\<close>

definition digit_char :: "nat \<Rightarrow> char" where
  "digit_char d = (if d < 10 then char_of (48 + d) else char_of (87 + d))"

definition digit_value :: "nat \<Rightarrow> char \<Rightarrow> nat option" where
  "digit_value radix c =
     (let n = of_char c :: nat;
          d = (if 48 \<le> n \<and> n \<le> 57 then Some (n - 48)
               else if 97 \<le> n \<and> n \<le> 122 then Some (n - 87)
               else if 65 \<le> n \<and> n \<le> 90 then Some (n - 55) else None)
      in case d of None \<Rightarrow> None | Some v \<Rightarrow> (if v < radix then Some v else None))"

fun show_digits :: "nat \<Rightarrow> nat \<Rightarrow> string" where
  "show_digits radix n =
     (if radix < 2 then [] else if n < radix then [digit_char n]
      else show_digits radix (n div radix) @ [digit_char (n mod radix)])"

declare show_digits.simps [simp del]

definition show_nat :: "nat \<Rightarrow> string" where
  "show_nat n = show_digits 10 n"

fun value_of_digits :: "nat \<Rightarrow> nat \<Rightarrow> string \<Rightarrow> nat option" where
  "value_of_digits radix acc [] = Some acc"
| "value_of_digits radix acc (c # cs) =
     (case digit_value radix c of None \<Rightarrow> None | Some d \<Rightarrow> value_of_digits radix (acc * radix + d) cs)"

text \<open>\<open>from_str_radix\<close> for an unsigned type with the given number of values.\<close>

definition from_str_radix :: "nat \<Rightarrow> nat \<Rightarrow> string \<Rightarrow> nat option" where
  "from_str_radix limit radix s =
     (let ds = (case s of c # cs \<Rightarrow> (if c = CHR ''+'' \<and> cs \<noteq> [] then cs else s) | [] \<Rightarrow> [])
      in if ds = [] then None
         else case value_of_digits radix 0 ds of
                None \<Rightarrow> None
              | Some v \<Rightarrow> (if v < limit then Some v else None))"

definition parse_usize :: "string \<Rightarrow> nat option" where
  "parse_usize s = from_str_radix (2 ^ 64) 10 s"

lemma digit_value_char: "d < radix \<Longrightarrow> radix \<le> 36 \<Longrightarrow> digit_value radix (digit_char d) = Some d"
  by (auto simp: digit_value_def digit_char_def Let_def)

lemma digit_char_neq:
  "d < 36 \<Longrightarrow> (of_char (digit_char d) :: nat) \<in> {48..57} \<union> {97..122}"
  by (auto simp: digit_char_def)

lemma value_of_show_append:
  "2 \<le> radix \<Longrightarrow> radix \<le> 36 \<Longrightarrow>
     value_of_digits radix 0 (show_digits radix n @ cs) = value_of_digits radix n cs"
proof (induction radix n arbitrary: cs rule: show_digits.induct)
  case (1 radix n)
  show ?case
  proof (cases "n < radix")
    case True
    then show ?thesis using 1 by (simp add: show_digits.simps digit_value_char)
  next
    case False
    then have "value_of_digits radix 0 (show_digits radix n @ cs)
        = value_of_digits radix (n div radix) (digit_char (n mod radix) # cs)"
      using 1 by (subst show_digits.simps) auto
    then show ?thesis using 1(2,3) by (simp add: digit_value_char)
  qed
qed

lemma value_of_show: "2 \<le> radix \<Longrightarrow> radix \<le> 36 \<Longrightarrow> value_of_digits radix 0 (show_digits radix n) = Some n"
  using value_of_show_append [of radix n "[]"] by simp

lemma show_digits_ne [simp]: "2 \<le> radix \<Longrightarrow> show_digits radix n \<noteq> []"
  by (subst show_digits.simps) auto

lemma show_digits_chars:
  "2 \<le> radix \<Longrightarrow> radix \<le> 36 \<Longrightarrow> c \<in> set (show_digits radix n)
     \<Longrightarrow> (of_char c :: nat) \<in> {48..57} \<union> {97..122}"
proof (induction radix n rule: show_digits.induct)
  case (1 radix n)
  show ?case
  proof (cases "n < radix")
    case True
    then show ?thesis using 1(2-) digit_char_neq [of n] by (simp add: show_digits.simps)
  next
    case False
    then have "c \<in> set (show_digits radix (n div radix)) \<or> c = digit_char (n mod radix)"
      using 1(2,4) by (subst (asm) show_digits.simps) auto
    moreover have "n mod radix < radix" using 1(2) by simp
    then have "n mod radix < 36" using 1(3) by simp
    ultimately show ?thesis using 1 False digit_char_neq [of "n mod radix"] by auto
  qed
qed

lemma hd_not_plus:
  assumes "2 \<le> radix" "radix \<le> 36" shows "hd (show_digits radix n) \<noteq> CHR ''+''"
proof
  assume "hd (show_digits radix n) = CHR ''+''"
  then have "CHR ''+'' \<in> set (show_digits radix n)" using assms(1) by (metis hd_in_set show_digits_ne)
  from show_digits_chars [OF assms this] show False by simp
qed

lemma from_str_show:
  assumes "2 \<le> radix" "radix \<le> 36" "n < limit"
  shows "from_str_radix limit radix (show_digits radix n) = Some n"
proof -
  obtain c cs where "show_digits radix n = c # cs" "c \<noteq> CHR ''+''"
    using hd_not_plus [OF assms(1,2), of n] show_digits_ne [OF assms(1), of n]
    by (cases "show_digits radix n") auto
  then show ?thesis using value_of_show [OF assms(1,2), of n] assms(3) by (simp add: from_str_radix_def Let_def)
qed

lemma parse_show_nat: "n < 2 ^ 64 \<Longrightarrow> parse_usize (show_nat n) = Some n"
  unfolding parse_usize_def show_nat_def by (rule from_str_show) auto

end
