(* ===== verification/Json.thy ===== *)
theory Json
  imports Rust_Num
begin

text \<open>
  JSON values as the program reads them through \<open>serde_json\<close>: the tree, and the accessors
  \<open>get\<close>, \<open>as_str\<close>, \<open>as_array\<close>, \<open>as_bool\<close> and \<open>as_u64\<close>. A number keeps its text.
\<close>

datatype json =
    JNull
  | JBool bool
  | JNumber string
  | JString string
  | JArray "json list"
  | JObject "(string \<times> json) list"

fun json_get :: "json \<Rightarrow> string \<Rightarrow> json option" where
  "json_get (JObject fs) k = map_of fs k"
| "json_get _ k = None"

fun json_str :: "json \<Rightarrow> string option" where
  "json_str (JString s) = Some s"
| "json_str _ = None"

fun json_array :: "json \<Rightarrow> json list option" where
  "json_array (JArray xs) = Some xs"
| "json_array _ = None"

fun json_bool :: "json \<Rightarrow> bool option" where
  "json_bool (JBool b) = Some b"
| "json_bool _ = None"

fun json_u64 :: "json \<Rightarrow> nat option" where
  "json_u64 (JNumber s) = from_str_radix (2 ^ 64) 10 s"
| "json_u64 _ = None"

text \<open>\<open>json!(n)\<close> of a machine integer, and \<open>json!\<close> of a list of strings.\<close>

definition json_nat :: "nat \<Rightarrow> json" where
  "json_nat n = JNumber (show_nat n)"

definition json_strings :: "string list \<Rightarrow> json" where
  "json_strings xs = JArray (map JString xs)"

lemma json_u64_nat: "n < 2 ^ 64 \<Longrightarrow> json_u64 (json_nat n) = Some n"
  using parse_show_nat [of n] by (simp add: json_nat_def parse_usize_def)

end
