(* ===== verification/Btree_Map.thy ===== *)
theory Btree_Map
  imports Prelude
begin

text \<open>
  \<open>std::collections::BTreeMap\<close> as the code uses it: \<open>insert\<close>, \<open>get\<close>, and iteration in
  the order of the keys. A map is the sorted list of its entries. The locale \<open>ordered_map\<close>
  is the contract its clients rely on.
\<close>

section \<open>Operations\<close>

type_synonym ('k, 'v) btree = "('k \<times> 'v) list"

fun bt_insert :: "'k::linorder \<Rightarrow> 'v \<Rightarrow> ('k, 'v) btree \<Rightarrow> ('k, 'v) btree" where
  "bt_insert k v [] = [(k, v)]"
| "bt_insert k v ((k', v') # m) =
     (if k < k' then (k, v) # (k', v') # m
      else if k = k' then (k, v) # m
      else (k', v') # bt_insert k v m)"

definition bt_get :: "('k, 'v) btree \<Rightarrow> 'k \<Rightarrow> 'v option" where
  "bt_get m k = map_of m k"

definition bt_ok :: "('k::linorder, 'v) btree \<Rightarrow> bool" where
  "bt_ok m \<longleftrightarrow> sorted_wrt (<) (map fst m)"

lemma bt_get_simps [simp]: "bt_get [] k = None" "bt_get ((k', v) # m) k = (if k = k' then Some v else bt_get m k)"
  by (auto simp: bt_get_def)

lemma bt_ok_simps [simp]:
  "bt_ok []" "bt_ok ((k, v) # m) \<longleftrightarrow> (\<forall>x \<in> set (map fst m). k < x) \<and> bt_ok m"
  by (auto simp: bt_ok_def)

lemma bt_get_insert: "bt_get (bt_insert k v m) k' = (if k' = k then Some v else bt_get m k')"
proof (induction m)
  case (Cons a m)
  then show ?case by (cases a) auto
qed simp

lemma fst_bt_insert: "fst ` set (bt_insert k v m) = insert k (fst ` set m)"
  by (induction m rule: bt_insert.induct) auto

lemma bt_ok_insert: "bt_ok m \<Longrightarrow> bt_ok (bt_insert k v m)"
proof (induction m)
  case (Cons a m)
  then show ?case by (cases a) (auto simp: fst_bt_insert)
qed simp

lemma bt_get_dom: "bt_get m k \<noteq> None \<longleftrightarrow> k \<in> fst ` set m"
  by (induction m) auto

lemma bt_get_in: "bt_ok m \<Longrightarrow> bt_get m k = Some v \<longleftrightarrow> (k, v) \<in> set m"
proof (induction m)
  case (Cons a m)
  then show ?case by (cases a) force
qed simp

lemma bt_ext:
  assumes ok: "bt_ok m" "bt_ok n" and eq: "\<And>k. bt_get m k = bt_get n k"
  shows "m = n"
proof (rule map_sorted_distinct_set_unique [of fst])
  show same: "set m = set n"
  proof (rule set_eqI)
    fix e show "e \<in> set m \<longleftrightarrow> e \<in> set n"
      using bt_get_in [OF ok(1), of "fst e" "snd e"] bt_get_in [OF ok(2), of "fst e" "snd e"] eq by simp
  qed
  show "inj_on fst (set m \<union> set n)"
    using bt_get_in [OF ok(1)] unfolding same by (auto simp: inj_on_def same [symmetric])
      (metis option.inject)
qed (use ok in \<open>auto simp: bt_ok_def strict_sorted_iff\<close>)

section \<open>The contract\<close>

locale ordered_map =
  fixes empty :: 'm and ins :: "'k::linorder \<Rightarrow> 'v \<Rightarrow> 'm \<Rightarrow> 'm" and get :: "'m \<Rightarrow> 'k \<Rightarrow> 'v option"
    and entries :: "'m \<Rightarrow> ('k \<times> 'v) list" and ok :: "'m \<Rightarrow> bool"
  assumes ok_empty: "ok empty" and ok_ins: "ok m \<Longrightarrow> ok (ins k v m)"
    and get_empty: "get empty k = None"
    and get_ins: "get (ins k v m) k' = (if k' = k then Some v else get m k')"
    and entries_get: "ok m \<Longrightarrow> (k, v) \<in> set (entries m) \<longleftrightarrow> get m k = Some v"
    and entries_sorted: "ok m \<Longrightarrow> sorted_wrt (<) (map fst (entries m))"
begin

text \<open>Inserting a list of entries from left to right: the last one of a key counts.\<close>

definition ins_all :: "('k \<times> 'v) list \<Rightarrow> 'm \<Rightarrow> 'm" where
  "ins_all es m = fold (\<lambda>e. ins (fst e) (snd e)) es m"

lemma ins_all_simps [simp]: "ins_all [] m = m" "ins_all (e # es) m = ins_all es (ins (fst e) (snd e) m)"
  by (simp_all add: ins_all_def)

lemma ok_ins_all: "ok m \<Longrightarrow> ok (ins_all es m)"
  by (induction es arbitrary: m) (auto intro: ok_ins)

lemma get_ins_all: "get (ins_all es m) k = (case map_of (rev es) k of Some v \<Rightarrow> Some v | None \<Rightarrow> get m k)"
proof (induction es arbitrary: m)
  case (Cons e es)
  then show ?case by (cases e) (auto simp: map_add_def get_ins split: option.splits)
qed simp

lemma ins_all_append: "ins_all (es @ fs) m = ins_all fs (ins_all es m)"
  by (simp add: ins_all_def)

lemma entries_ins_all:
  "(k, v) \<in> set (entries (ins_all es empty)) \<longleftrightarrow> map_of (rev es) k = Some v"
  by (subst entries_get) (auto simp: ok_ins_all ok_empty get_ins_all get_empty split: option.splits)

end

interpretation bt: ordered_map "[]" bt_insert bt_get "\<lambda>m. m" bt_ok
  by unfold_locales (auto simp: bt_ok_insert bt_get_insert bt_get_in, simp add: bt_ok_def)

end
