(* ===== verification/Merge_Jsonl.thy ===== *)
theory Merge_Jsonl
  imports Btree_Map
begin

text \<open>
  The union-by-id merge of changelogs: \<open>swissarmyhammer-merge/src/jsonl.rs\<close>, with the
  errors of \<open>lib.rs\<close>. \<open>extract\<close> stands for \<open>extract_id\<close>, which asks the JSON library for
  the string field \<open>id\<close> of a line. The two \<open>HashSet\<close>s are sets.
\<close>

section \<open>The merge\<close>

datatype merge_error =
    ParseFailure string
  | Conflict "string list"

text \<open>The lines one of the three loops handles: trimmed, not empty, with an id.\<close>

definition log_lines :: "(string \<Rightarrow> string option) \<Rightarrow> string \<Rightarrow> (string \<times> string) list" where
  "log_lines extract content =
     List.map_filter (\<lambda>l. if trim l = [] then None else map_option (\<lambda>i. (i, trim l)) (extract (trim l)))
       (str_lines content)"

fun insert_lines ::
  "(string \<times> string) list \<Rightarrow> (string, string) btree \<Rightarrow> (string, string) btree" where
  "insert_lines [] m = m"
| "insert_lines ((i, l) # ls) m = insert_lines ls (bt_insert i l m)"

text \<open>The loop over ours: an id that base does not have is new from ours.\<close>

fun ours_loop ::
  "string set \<Rightarrow> (string \<times> string) list \<Rightarrow> string set \<times> (string, string) btree
     \<Rightarrow> string set \<times> (string, string) btree" where
  "ours_loop base_ids [] st = st"
| "ours_loop base_ids ((i, l) # ls) (new_ids, m) =
     ours_loop base_ids ls
       ((if i \<in> base_ids then new_ids else insert i new_ids), bt_insert i l m)"

text \<open>The loop over theirs: a line that differs from one that ours added is a conflict.\<close>

fun theirs_loop ::
  "string set \<Rightarrow> (string \<times> string) list \<Rightarrow> string list \<times> (string, string) btree
     \<Rightarrow> string list \<times> (string, string) btree" where
  "theirs_loop ours_new [] st = st"
| "theirs_loop ours_new ((i, l) # ls) (bad, m) =
     theirs_loop ours_new ls
       ((if i \<in> ours_new
         then case bt_get m i of
                Some existing \<Rightarrow> (if existing \<noteq> l then bad @ [i] else bad)
              | None \<Rightarrow> bad
         else bad), bt_insert i l m)"

definition merge_jsonl ::
  "(string \<Rightarrow> string option) \<Rightarrow> string \<Rightarrow> string \<Rightarrow> string \<Rightarrow> merge_error + string" where
  "merge_jsonl extract base ours theirs =
     (let base_ids = fst ` set (log_lines extract base);
          m0 = insert_lines (log_lines extract base) [];
          (ours_new, m1) = ours_loop base_ids (log_lines extract ours) ({}, m0);
          (bad, m2) = theirs_loop ours_new (log_lines extract theirs) ([], m1)
      in if bad \<noteq> [] then Inl (Conflict (sort bad))
         else if m2 = [] then Inr []
         else Inr (join [NL] (map snd m2) @ [NL]))"

section \<open>What the loops compute\<close>

lemma insert_lines_ins_all: "insert_lines ls m = bt.ins_all ls m"
  by (induction ls m rule: insert_lines.induct) auto

lemma ours_loop_eq:
  "ours_loop base_ids ls (new_ids, m) = (new_ids \<union> (fst ` set ls - base_ids), bt.ins_all ls m)"
  by (induction ls arbitrary: new_ids m) auto

lemma theirs_loop_map: "snd (theirs_loop new_ids ls (bad, m)) = bt.ins_all ls m"
  by (induction ls arbitrary: bad m) auto

text \<open>Without repeated ids in theirs, a line only meets what base and ours left.\<close>

lemma theirs_loop_bad:
  assumes "distinct (map fst ls)"
  shows "fst (theirs_loop new_ids ls (bad, m)) =
     bad @ map fst (filter (\<lambda>e. fst e \<in> new_ids \<and> bt_get m (fst e) \<noteq> None \<and> bt_get m (fst e) \<noteq> Some (snd e)) ls)"
  using assms
proof (induction ls arbitrary: bad m)
  case (Cons e ls)
  obtain i l where e: "e = (i, l)" by (cases e)
  have "filter (\<lambda>e. fst e \<in> new_ids \<and> bt_get (bt_insert i l m) (fst e) \<noteq> None
           \<and> bt_get (bt_insert i l m) (fst e) \<noteq> Some (snd e)) ls
      = filter (\<lambda>e. fst e \<in> new_ids \<and> bt_get m (fst e) \<noteq> None \<and> bt_get m (fst e) \<noteq> Some (snd e)) ls"
    using Cons.prems by (intro filter_cong) (auto simp: e bt_get_insert)
  then show ?case using Cons by (auto simp: e split: option.split)
qed simp

text \<open>The specification of the merge: the last line of an id in theirs, else in ours, else
  in base.\<close>

type_synonym keyed_lines = "(string \<times> string) list"

definition last_line :: "keyed_lines \<Rightarrow> string \<Rightarrow> string option" where
  "last_line ls i = map_of (rev ls) i"

definition union_line :: "keyed_lines \<Rightarrow> keyed_lines \<Rightarrow> keyed_lines \<Rightarrow> string \<Rightarrow> string option" where
  "union_line b o' t i =
     (case last_line t i of
        Some l \<Rightarrow> Some l
      | None \<Rightarrow> (case last_line o' i of Some l \<Rightarrow> Some l | None \<Rightarrow> last_line b i))"

definition merged_map :: "(string \<Rightarrow> string option) \<Rightarrow> string \<Rightarrow> string \<Rightarrow> string \<Rightarrow> (string, string) btree" where
  "merged_map extract base ours theirs =
     bt.ins_all (log_lines extract theirs)
       (bt.ins_all (log_lines extract ours) (bt.ins_all (log_lines extract base) []))"

lemma merged_map_ok: "bt_ok (merged_map extract base ours theirs)"
  by (simp add: merged_map_def bt.ok_ins_all)

lemma merged_map_get:
  "bt_get (merged_map extract base ours theirs) i
     = union_line (log_lines extract base) (log_lines extract ours) (log_lines extract theirs) i"
  by (simp add: merged_map_def bt.get_ins_all union_line_def last_line_def split: option.splits)

definition conflicts :: "(string \<Rightarrow> string option) \<Rightarrow> string \<Rightarrow> string \<Rightarrow> string \<Rightarrow> string list" where
  "conflicts extract base ours theirs =
     fst (theirs_loop (fst ` set (log_lines extract ours) - fst ` set (log_lines extract base))
       (log_lines extract theirs)
       ([], bt.ins_all (log_lines extract ours) (bt.ins_all (log_lines extract base) [])))"

lemma merge_jsonl_eq:
  "merge_jsonl extract base ours theirs =
     (if conflicts extract base ours theirs \<noteq> []
      then Inl (Conflict (sort (conflicts extract base ours theirs)))
      else let m = merged_map extract base ours theirs
           in Inr (if m = [] then [] else join [NL] (map snd m) @ [NL]))"
proof -
  let ?new = "fst ` set (log_lines extract ours) - fst ` set (log_lines extract base)"
  let ?m1 = "bt.ins_all (log_lines extract ours) (bt.ins_all (log_lines extract base) [])"
  obtain bad m2 where p: "theirs_loop ?new (log_lines extract theirs) ([], ?m1) = (bad, m2)"
    by fastforce
  then have "bad = conflicts extract base ours theirs" "m2 = merged_map extract base ours theirs"
    using theirs_loop_map [of ?new "log_lines extract theirs" "[]" ?m1]
    by (simp_all add: conflicts_def merged_map_def)
  note bm = this
  show ?thesis
    unfolding merge_jsonl_def Let_def insert_lines_ins_all ours_loop_eq Un_empty_left prod.case p bm
    by (rule refl | simp only: if_distrib [of Inr] if_not_P refl)+
qed

lemma conflicts_iff:
  assumes "distinct (map fst (log_lines extract theirs))"
  shows "i \<in> set (conflicts extract base ours theirs) \<longleftrightarrow>
     last_line (log_lines extract base) i = None \<and>
     (\<exists>l l'. last_line (log_lines extract ours) i = Some l \<and>
             last_line (log_lines extract theirs) i = Some l' \<and> l \<noteq> l')"
proof -
  let ?b = "log_lines extract base" and ?o = "log_lines extract ours" and ?t = "log_lines extract theirs"
  have none: "last_line ls i = None \<longleftrightarrow> i \<notin> fst ` set ls" for ls
    by (simp add: last_line_def map_of_eq_None_iff)
  have t: "last_line ?t i = Some l \<longleftrightarrow> (i, l) \<in> set ?t" for l
    using assms by (simp add: last_line_def rev_map [symmetric] distinct_rev map_of_eq_Some_iff)
  have m: "bt_get (bt.ins_all ?o (bt.ins_all ?b [])) i
      = (case last_line ?o i of Some l \<Rightarrow> Some l | None \<Rightarrow> last_line ?b i)"
    by (simp add: bt.get_ins_all last_line_def split: option.splits)
  show ?thesis
  proof (cases "last_line ?b i = None \<and> last_line ?o i \<noteq> None")
    case True
    then obtain l where l: "last_line ?o i = Some l" by auto
    have new: "i \<in> fst ` set ?o - fst ` set ?b" using True by (simp only: none Diff_iff not_not) simp
    have "i \<in> set (conflicts extract base ours theirs) \<longleftrightarrow> (\<exists>l'. (i, l') \<in> set ?t \<and> l' \<noteq> l)"
      unfolding conflicts_def theirs_loop_bad [OF assms] using m l new by (auto simp: image_iff)
    then show ?thesis using True l t by auto
  next
    case False
    then have "i \<notin> fst ` set ?o - fst ` set ?b" by (simp only: none Diff_iff not_not de_Morgan_conj) blast
    then have "i \<notin> set (conflicts extract base ours theirs)"
      unfolding conflicts_def theirs_loop_bad [OF assms] by auto
    then show ?thesis using False by auto
  qed
qed

section \<open>Correctness\<close>

text \<open>C6. When the ids of theirs are distinct, the merge fails exactly when both sides added
  some id that base does not have with different lines, and names these ids; otherwise the
  output is the lines of the union, one per id in the order of the ids, where theirs takes
  precedence over ours and ours over base, and each line is ended.\<close>

theorem merge_jsonl_correct:
  assumes "distinct (map fst (log_lines extract theirs))"
  shows "(case merge_jsonl extract base ours theirs of
      Inl err \<Rightarrow> \<exists>ids. err = Conflict ids \<and> ids \<noteq> [] \<and> sorted ids \<and>
        set ids = {i. last_line (log_lines extract base) i = None \<and>
           (\<exists>l l'. last_line (log_lines extract ours) i = Some l \<and>
                   last_line (log_lines extract theirs) i = Some l' \<and> l \<noteq> l')}
    | Inr out \<Rightarrow>
        (\<forall>i. last_line (log_lines extract base) i = None \<longrightarrow>
           last_line (log_lines extract ours) i = None \<or> last_line (log_lines extract theirs) i = None \<or>
           last_line (log_lines extract ours) i = last_line (log_lines extract theirs) i) \<and>
        (\<exists>m. sorted_wrt (<) (map fst m) \<and>
           (\<forall>i. map_of m i = union_line (log_lines extract base) (log_lines extract ours)
                  (log_lines extract theirs) i) \<and>
           out = concat (map (\<lambda>e. snd e @ [NL]) m)))"
proof (cases "conflicts extract base ours theirs = []")
  case False
  let ?ids = "sort (conflicts extract base ours theirs)"
  have "set ?ids = {i. last_line (log_lines extract base) i = None \<and>
           (\<exists>l l'. last_line (log_lines extract ours) i = Some l \<and>
                   last_line (log_lines extract theirs) i = Some l' \<and> l \<noteq> l')}"
    using conflicts_iff [OF assms] by auto
  moreover have "?ids \<noteq> []" using False by (metis set_empty set_sort)
  moreover have "sorted ?ids" by simp
  ultimately have "\<exists>ids. Conflict ?ids = Conflict ids \<and> ids \<noteq> [] \<and> sorted ids \<and>
        set ids = {i. last_line (log_lines extract base) i = None \<and>
           (\<exists>l l'. last_line (log_lines extract ours) i = Some l \<and>
                   last_line (log_lines extract theirs) i = Some l' \<and> l \<noteq> l')}" by blast
  then show ?thesis using False by (simp only: merge_jsonl_eq if_True sum.case not_False_eq_True)
next
  case True
  let ?m = "merged_map extract base ours theirs"
  have "join [NL] ls @ (if ls = [] then [] else [NL]) = concat (map (\<lambda>l. l @ [NL]) ls)" for ls
  proof (induction ls)
    case (Cons l ls)
    then show ?case by (cases ls) auto
  qed simp
  from this [of "map snd ?m"]
  have out: "(if ?m = [] then [] else join [NL] (map snd ?m) @ [NL]) = concat (map (\<lambda>e. snd e @ [NL]) ?m)"
    by (simp add: comp_def split: if_splits)
  have one: "last_line (log_lines extract ours) i = None \<or> last_line (log_lines extract theirs) i = None \<or>
      last_line (log_lines extract ours) i = last_line (log_lines extract theirs) i"
    if "last_line (log_lines extract base) i = None" for i
    using conflicts_iff [OF assms, of i base ours] True that
    by (cases "last_line (log_lines extract ours) i"; cases "last_line (log_lines extract theirs) i") auto
  have r: "merge_jsonl extract base ours theirs = Inr (concat (map (\<lambda>e. snd e @ [NL]) ?m))"
    using out True by (simp add: merge_jsonl_eq Let_def)
  have m: "sorted_wrt (<) (map fst ?m) \<and> (\<forall>i. map_of ?m i = union_line (log_lines extract base)
      (log_lines extract ours) (log_lines extract theirs) i)"
    using merged_map_ok merged_map_get unfolding bt_ok_def bt_get_def by metis
  show ?thesis unfolding r sum.case using one m by (intro conjI allI impI exI [of _ ?m]) auto
qed

text \<open>The id of a line is what stands before its first colon.\<close>

definition colon_id :: "string \<Rightarrow> string option" where
  "colon_id l = (if CHR '':'' \<in> set l then Some (takeWhile (\<lambda>c. c \<noteq> CHR '':'') l) else None)"

theorem merge_jsonl_correct_witness:
  "merge_jsonl colon_id (''a:1'' @ [NL]) (''a:1'' @ NL # ''c:2'' @ [NL]) (''a:1'' @ NL # ''b:3'' @ [NL])
     = Inr (''a:1'' @ NL # ''b:3'' @ NL # ''c:2'' @ [NL])
   \<and> (\<exists>m :: (string, string) btree. sorted_wrt (<) (map fst m) \<and> concat (map (\<lambda>e. snd e @ [NL]) m) = ''a:1'' @ NL # ''b:3'' @ NL # ''c:2'' @ [NL])"
proof -
  let ?t = "''a:1'' @ NL # ''b:3'' @ [NL]"
  have r: "merge_jsonl colon_id (''a:1'' @ [NL]) (''a:1'' @ NL # ''c:2'' @ [NL]) ?t
     = Inr (''a:1'' @ NL # ''b:3'' @ NL # ''c:2'' @ [NL])"
    by code_simp
  have "distinct (map fst (log_lines colon_id ?t))" by code_simp
  from merge_jsonl_correct [OF this, of "''a:1'' @ [NL]" "''a:1'' @ NL # ''c:2'' @ [NL]"]
  have "\<exists>m :: (string, string) btree. sorted_wrt (<) (map fst m) \<and>
     concat (map (\<lambda>e. snd e @ [NL]) m) = ''a:1'' @ NL # ''b:3'' @ NL # ''c:2'' @ [NL]"
    unfolding r sum.case by metis
  with r show ?thesis by (rule conjI)
qed

end
