(* ===== verification/Frontmatter.thy ===== *)
theory Frontmatter
  imports Prelude
begin

text \<open>
  Splitting a markdown document into YAML frontmatter and body and joining it again:
  \<open>swissarmyhammer-merge/src/frontmatter.rs\<close>.
\<close>

record frontmatter_parts =
  fm_frontmatter :: "string option"
  fm_body :: string

definition fence :: string where
  "fence = ''---''"

definition ends_with_nl :: "string \<Rightarrow> bool" where
  "ends_with_nl s \<longleftrightarrow> s \<noteq> [] \<and> last s = NL"

definition split_frontmatter :: "string \<Rightarrow> frontmatter_parts" where
  "split_frontmatter content =
     (let whole = \<lparr>fm_frontmatter = None, fm_body = content\<rparr>
      in case str_lines content of
           [] \<Rightarrow> whole
         | first # rest \<Rightarrow>
             if first = fence
             then case position (\<lambda>l. l = fence) rest of
                    None \<Rightarrow> whole
                  | Some n \<Rightarrow>
                      let body_lines = drop (n + 1) rest
                      in \<lparr>fm_frontmatter = Some (join [NL] (take n rest)),
                          fm_body =
                            (if body_lines = [] then []
                             else join [NL] body_lines @ (if ends_with_nl content then [NL] else []))\<rparr>
             else whole)"

definition join_frontmatter :: "string option \<Rightarrow> string \<Rightarrow> string" where
  "join_frontmatter fm body =
     (case fm of
        None \<Rightarrow> body
      | Some f \<Rightarrow> fence @ [NL] @ f @ [NL] @ fence @ [NL] @ body)"

lemma str_lines_fenced:
  "str_lines (join_frontmatter (Some f) body) = fence # str_lines (f @ [NL]) @ fence # str_lines body"
proof -
  have fence: "NL \<notin> set fence" "CR \<notin> set fence" by (simp_all add: fence_def)
  have "str_lines (f @ NL # fence @ NL # body) = str_lines (f @ [NL]) @ fence # str_lines body"
    using str_lines_append_nl [of f "fence @ NL # body"] str_lines_line [OF fence(1), of body]
      strip_cr_id [OF fence(2)] by simp
  then show ?thesis
    using str_lines_line [OF fence(1), of "f @ NL # fence @ NL # body"] strip_cr_id [OF fence(2)]
    by (simp add: join_frontmatter_def)
qed

text \<open>What \<open>join_frontmatter\<close> fences is what \<open>split_frontmatter\<close> finds again, for texts
  without carriage returns and a frontmatter none of whose lines is itself a fence.\<close>

lemma split_join_frontmatter:
  assumes "CR \<notin> set f" and "CR \<notin> set body" and "fence \<notin> set (str_lines (f @ [NL]))"
  shows "split_frontmatter (join_frontmatter (Some f) body)
           = \<lparr>fm_frontmatter = Some f, fm_body = body\<rparr>"
proof -
  let ?c = "join_frontmatter (Some f) body"
  have pos: "position (\<lambda>l. l = fence) (str_lines (f @ [NL]) @ fence # str_lines body)
      = Some (length (str_lines (f @ [NL])))"
    using assms(3) by (intro position_append) auto
  have f: "join [NL] (str_lines (f @ [NL])) = f"
    using join_str_lines [of "f @ [NL]"] assms(1) by simp
  have b: "join [NL] (str_lines body) @ (if body \<noteq> [] \<and> last body = NL then [NL] else []) = body"
    using join_str_lines [OF assms(2)] .
  have e: "ends_with_nl ?c \<longleftrightarrow> body = [] \<or> last body = NL"
    by (simp add: ends_with_nl_def join_frontmatter_def)
  have "str_lines body = [] \<longleftrightarrow> body = []" by (simp add: str_lines_def)
  then show ?thesis
    using b e f pos by (auto simp: split_frontmatter_def str_lines_fenced Let_def)
qed

text \<open>Conversely the parts of a document join to the document itself, when it has no
  carriage returns and its frontmatter, if any, has a line and is followed by a newline.
  Without these conditions it does not: an empty frontmatter gains an empty line.\<close>

theorem join_split_frontmatter:
  assumes "CR \<notin> set c" and "ends_with_nl c"
    and "\<not> (\<exists>b. c = fence @ [NL] @ fence @ [NL] @ b)"
  shows "join_frontmatter (fm_frontmatter (split_frontmatter c)) (fm_body (split_frontmatter c)) = c"
proof (cases "fm_frontmatter (split_frontmatter c)")
  case None
  then show ?thesis
    by (auto simp: split_frontmatter_def join_frontmatter_def Let_def split: list.splits option.splits if_splits)
next
  case (Some f)
  then obtain rest n where ls: "str_lines c = fence # rest" and n: "position (\<lambda>l. l = fence) rest = Some n"
    and f: "f = join [NL] (take n rest)"
    by (auto simp: split_frontmatter_def Let_def split: list.splits option.splits if_splits)
  have n': "n < length rest" "rest ! n = fence" using position_Some [OF n] by auto
  then have rest: "rest = take n rest @ fence # drop (n + 1) rest"
    by (metis Suc_eq_plus1 id_take_nth_drop)
  have c: "join [NL] (fence # rest) @ [NL] = c"
    using join_str_lines [OF assms(1)] assms(2) by (simp add: ls ends_with_nl_def)
  have "n \<noteq> 0"
  proof
    assume "n = 0"
    with rest obtain r where "rest = fence # r" by (cases rest) auto
    with c have "c = fence @ [NL] @ fence @ [NL] @ (if r = [] then [] else join [NL] r @ [NL])"
      by (cases r) auto
    with assms(3) show False by blast
  qed
  then have ne: "take n rest \<noteq> []" using n'(1) by auto
  let ?b = "if drop (n + 1) rest = [] then [] else join [NL] (drop (n + 1) rest) @ [NL]"
  have "c = fence @ [NL] @ f @ [NL] @ fence @ [NL] @ ?b"
    using c ne n'(1) join_append [OF ne, of "fence # drop (n + 1) rest" "[NL]"]
    by (subst (asm) rest) (auto simp: join_Cons f)
  moreover have "fm_body (split_frontmatter c) = ?b"
    using assms(2) by (simp add: split_frontmatter_def ls n Let_def)
  ultimately show ?thesis using Some by (simp add: join_frontmatter_def)
qed

theorem join_split_frontmatter_witness:
  "join_frontmatter (fm_frontmatter (split_frontmatter (fence @ [NL] @ ''a'' @ [NL] @ fence @ [NL])))
     (fm_body (split_frontmatter (fence @ [NL] @ ''a'' @ [NL] @ fence @ [NL])))
   = fence @ [NL] @ ''a'' @ [NL] @ fence @ [NL]"
  by (rule join_split_frontmatter) (auto simp: fence_def ends_with_nl_def)

lemma empty_frontmatter_grows:
  "let c = fence @ [NL] @ fence @ [NL]
   in join_frontmatter (fm_frontmatter (split_frontmatter c)) (fm_body (split_frontmatter c))
        = fence @ [NL] @ [NL] @ fence @ [NL]"
  by code_simp

end
