(* ===== verification/Merge_Yaml.thy ===== *)
theory Merge_Yaml
  imports Json Merge_Jsonl Frontmatter
begin

text \<open>
  The three-way merge of flat YAML files and of markdown with YAML frontmatter:
  \<open>swissarmyhammer-merge/src/yaml.rs\<close> and \<open>md.rs\<close>. The YAML, JSON and patch libraries are
  the fields of \<open>merge_env\<close>; a changelog path is given by the text read from it (empty when
  it cannot be read).
\<close>

section \<open>Values and options\<close>

datatype yaml =
    YNull
  | YBool bool
  | YNumber string
  | YString string
  | YSequence "yaml list"
  | YMapping "(yaml \<times> yaml) list"
  | YTagged string yaml

datatype precedence = Theirs | Ours

record merge_opts =
  jsonl_text :: "string option"
  fallback_precedence :: precedence

record merge_env =
  me_parse_yaml :: "string \<Rightarrow> string + yaml"
  me_print_yaml :: "yaml \<Rightarrow> string + string"
  me_debug_yaml :: "yaml \<Rightarrow> string"
  me_parse_json :: "string \<Rightarrow> json option"
  me_print_json :: "json \<Rightarrow> string"
  me_merge_text :: "string \<Rightarrow> string \<Rightarrow> string \<Rightarrow> string + string"

section \<open>The changelog\<close>

record field_change =
  fc_field :: string
  fc_new_value :: "json option"

record log_record =
  lr_timestamp :: string
  lr_changes :: "field_change list"

text \<open>A change is an array of the field's name and an object with the new value.\<close>

definition parse_change :: "json \<Rightarrow> field_change option" where
  "parse_change j =
     (case json_array j of
        None \<Rightarrow> None
      | Some [] \<Rightarrow> None
      | Some (x # xs) \<Rightarrow>
          (case json_str x of
             None \<Rightarrow> None
           | Some f \<Rightarrow>
               Some \<lparr>fc_field = f,
                     fc_new_value = (case xs of [] \<Rightarrow> None | y # _ \<Rightarrow> json_get y ''new_value'')\<rparr>))"

definition parse_record :: "merge_env \<Rightarrow> string \<Rightarrow> log_record option" where
  "parse_record env l =
     (if trim l = [] then None
      else case me_parse_json env (trim l) of
             None \<Rightarrow> None
           | Some v \<Rightarrow>
               (case Option.bind (json_get v ''timestamp'') json_str of
                  None \<Rightarrow> None
                | Some ts \<Rightarrow>
                    Some \<lparr>lr_timestamp = ts,
                          lr_changes =
                            (case Option.bind (json_get v ''changes'') json_array of
                               None \<Rightarrow> []
                             | Some arr \<Rightarrow> List.map_filter parse_change arr)\<rparr>))"

definition parse_changelog :: "merge_env \<Rightarrow> string \<Rightarrow> log_record list" where
  "parse_changelog env content = List.map_filter (parse_record env) (str_lines content)"

definition value_text :: "merge_env \<Rightarrow> json \<Rightarrow> string" where
  "value_text env v = (case v of JString s \<Rightarrow> s | _ \<Rightarrow> me_print_json env v)"

text \<open>One round of the two loops of \<open>latest_value_timestamps\<close>. The \<open>HashMap\<close> is a map.\<close>

type_synonym stamps = "string \<Rightarrow> (string \<times> string) option"

definition note_value :: "merge_env \<Rightarrow> string \<Rightarrow> field_change \<Rightarrow> stamps \<Rightarrow> stamps" where
  "note_value env ts c m =
     (case fc_new_value c of
        None \<Rightarrow> m
      | Some v \<Rightarrow>
          let (old_val, old_ts) =
                (case m (fc_field c) of None \<Rightarrow> (value_text env v, ts) | Some x \<Rightarrow> x)
          in m(fc_field c \<mapsto> (if old_ts < ts then (value_text env v, ts) else (old_val, old_ts))))"

definition latest_value_timestamps :: "merge_env \<Rightarrow> log_record list \<Rightarrow> stamps" where
  "latest_value_timestamps env rs =
     fold (\<lambda>r. fold (note_value env (lr_timestamp r)) (lr_changes r)) rs Map.empty"

section \<open>Merging mappings\<close>

definition yaml_val_to_string :: "merge_env \<Rightarrow> yaml \<Rightarrow> string" where
  "yaml_val_to_string env v =
     (case v of
        YString s \<Rightarrow> s
      | YNumber n \<Rightarrow> n
      | YBool b \<Rightarrow> (if b then ''true'' else ''false'')
      | YNull \<Rightarrow> ''null''
      | _ \<Rightarrow> me_debug_yaml env v)"

definition resolve_conflict ::
  "merge_env \<Rightarrow> string \<Rightarrow> yaml \<Rightarrow> yaml \<Rightarrow> stamps \<Rightarrow> precedence \<Rightarrow> yaml" where
  "resolve_conflict env key ours theirs stamps fallback =
     (let prec = (case fallback of Ours \<Rightarrow> ours | Theirs \<Rightarrow> theirs)
      in case stamps key of
           None \<Rightarrow> prec
         | Some (logged, ts) \<Rightarrow>
             let o_matches = (yaml_val_to_string env ours = logged);
                 t_matches = (yaml_val_to_string env theirs = logged)
             in if o_matches \<and> \<not> t_matches then ours
                else if \<not> o_matches \<and> t_matches then theirs
                else prec)"

definition yaml_key :: "merge_env \<Rightarrow> yaml \<Rightarrow> string" where
  "yaml_key env k = (case k of YString s \<Rightarrow> s | _ \<Rightarrow> me_debug_yaml env k)"

definition parse_mapping :: "merge_env \<Rightarrow> string \<Rightarrow> string + (string, yaml) btree" where
  "parse_mapping env s =
     (if trim s = [] then Inr []
      else case me_parse_yaml env (trim s) of
             Inl e \<Rightarrow> Inl (''YAML parse error: '' @ e)
           | Inr (YMapping m) \<Rightarrow> Inr (fold (\<lambda>(k, v). bt_insert (yaml_key env k) v) m [])
           | Inr YNull \<Rightarrow> Inr []
           | Inr other \<Rightarrow> Inl (''expected YAML mapping, got: '' @ me_debug_yaml env other))"

text \<open>The arms of the \<open>match\<close> on the values of the three sides, in their order.\<close>

fun choose_value ::
  "(yaml \<Rightarrow> yaml \<Rightarrow> yaml) \<Rightarrow> yaml option \<Rightarrow> yaml option \<Rightarrow> yaml option \<Rightarrow> yaml option" where
  "choose_value resolve b None None = None"
| "choose_value resolve None (Some v) None = Some v"
| "choose_value resolve None None (Some w) = Some w"
| "choose_value resolve (Some b) None (Some w) = (if w = b then None else Some w)"
| "choose_value resolve (Some b) (Some v) None = (if v = b then None else Some v)"
| "choose_value resolve (Some b) (Some v) (Some w) =
     (if v \<noteq> b \<and> w = b then Some v
      else if v = b \<and> w \<noteq> b then Some w
      else if v = b \<and> w = b then Some b
      else if v = w then Some v
      else Some (resolve v w))"
| "choose_value resolve None (Some v) (Some w) = (if v = w then Some v else Some (resolve v w))"

definition all_keys ::
  "(string, yaml) btree \<Rightarrow> (string, yaml) btree \<Rightarrow> (string, yaml) btree \<Rightarrow> string list" where
  "all_keys b o' t =
     map fst (fold (\<lambda>k. bt_insert k ()) (map fst b @ map fst o' @ map fst t) [])"

definition merge_mappings ::
  "(string \<Rightarrow> yaml \<Rightarrow> yaml \<Rightarrow> yaml) \<Rightarrow> (string, yaml) btree \<Rightarrow> (string, yaml) btree
     \<Rightarrow> (string, yaml) btree \<Rightarrow> (string, yaml) btree" where
  "merge_mappings resolve b o' t =
     fold (\<lambda>k m. case choose_value (resolve k) (bt_get b k) (bt_get o' k) (bt_get t k) of
             None \<Rightarrow> m
           | Some v \<Rightarrow> bt_insert k v m)
       (all_keys b o' t) []"

definition stamps_of :: "merge_env \<Rightarrow> merge_opts \<Rightarrow> stamps" where
  "stamps_of env opts =
     (case jsonl_text opts of
        None \<Rightarrow> Map.empty
      | Some content \<Rightarrow> latest_value_timestamps env (parse_changelog env content))"

definition merge_yaml ::
  "merge_env \<Rightarrow> merge_opts \<Rightarrow> string \<Rightarrow> string \<Rightarrow> string \<Rightarrow> merge_error + string" where
  "merge_yaml env opts base ours theirs =
     (case parse_mapping env base of Inl e \<Rightarrow> Inl (ParseFailure e) | Inr b \<Rightarrow>
     (case parse_mapping env ours of Inl e \<Rightarrow> Inl (ParseFailure e) | Inr o' \<Rightarrow>
     (case parse_mapping env theirs of Inl e \<Rightarrow> Inl (ParseFailure e) | Inr t \<Rightarrow>
        (let st = stamps_of env opts;
             m = merge_mappings (\<lambda>k v w. resolve_conflict env k v w st (fallback_precedence opts)) b o' t
         in if m = [] then Inr []
            else case me_print_yaml env (YMapping (map (\<lambda>(k, v). (YString k, v)) m)) of
                   Inl e \<Rightarrow> Inl (ParseFailure (''YAML serialize error: '' @ e))
                 | Inr s \<Rightarrow> Inr s))))"

section \<open>Merging markdown\<close>

definition merge_frontmatter ::
  "merge_env \<Rightarrow> merge_opts \<Rightarrow> string option \<Rightarrow> string option \<Rightarrow> string option
     \<Rightarrow> merge_error + string option" where
  "merge_frontmatter env opts b o' t =
     (if b = None \<and> o' = None \<and> t = None then Inr None
      else let text = (\<lambda>f. case f of None \<Rightarrow> [] | Some s \<Rightarrow> s)
           in case merge_yaml env opts (text b) (text o') (text t) of
                Inl e \<Rightarrow> Inl e
              | Inr merged \<Rightarrow>
                  Inr (if trim merged = [] then None
                       else Some (trim_end_matches (\<lambda>c. c = NL) merged)))"

definition merge_md ::
  "merge_env \<Rightarrow> merge_opts \<Rightarrow> string \<Rightarrow> string \<Rightarrow> string \<Rightarrow> merge_error + string" where
  "merge_md env opts base ours theirs =
     (let b = split_frontmatter base; o' = split_frontmatter ours; t = split_frontmatter theirs
      in case merge_frontmatter env opts (fm_frontmatter b) (fm_frontmatter o') (fm_frontmatter t) of
           Inl e \<Rightarrow> Inl e
         | Inr fm \<Rightarrow>
             (case me_merge_text env (fm_body b) (fm_body o') (fm_body t) of
                Inl c \<Rightarrow> Inl (Conflict [c])
              | Inr body \<Rightarrow> Inr (join_frontmatter fm body)))"

section \<open>What the merge of mappings computes\<close>

lemma insert_keys: "map_of (fold (\<lambda>k. bt_insert k ()) ks m) i = (if i \<in> set ks then Some () else map_of m i)"
proof (induction ks arbitrary: m)
  case (Cons k ks)
  then show ?case using bt_get_insert [of k "()" m i] by (auto simp: bt_get_def)
qed simp

lemma insert_keys_ok: "bt_ok m \<Longrightarrow> bt_ok (fold (\<lambda>k. bt_insert k ()) ks m)"
  by (induction ks arbitrary: m) (auto simp: bt_ok_insert)

lemma set_all_keys:
  "set (all_keys b o' t) = fst ` set b \<union> fst ` set o' \<union> fst ` set t"
  "distinct (all_keys b o' t)"
proof -
  let ?m = "fold (\<lambda>k. bt_insert k ()) (map fst b @ map fst o' @ map fst t) []"
  have "i \<in> fst ` set ?m \<longleftrightarrow> i \<in> set (map fst b @ map fst o' @ map fst t)" for i
    using insert_keys [of "map fst b @ map fst o' @ map fst t" "[]" i] bt_get_dom [of ?m i]
    by (simp add: bt_get_def split: if_splits)
  then have "fst ` set ?m = set (map fst b @ map fst o' @ map fst t)" by (rule set_eqI)
  then show "set (all_keys b o' t) = fst ` set b \<union> fst ` set o' \<union> fst ` set t"
    by (simp only: all_keys_def set_map set_append Un_assoc)
  show "distinct (all_keys b o' t)"
    using insert_keys_ok [of "[]" "map fst b @ map fst o' @ map fst t"]
    by (simp add: all_keys_def bt_ok_def strict_sorted_iff)
qed

lemma merge_fold_get:
  assumes "distinct ks"
  shows "bt_get (fold (\<lambda>k m. case f k of None \<Rightarrow> m | Some v \<Rightarrow> bt_insert k v m) ks m) i
     = (if i \<in> set ks \<and> f i \<noteq> None then f i else bt_get m i)"
  using assms
proof (induction ks arbitrary: m)
  case (Cons k ks)
  then show ?case by (cases "f k") (auto simp: bt_get_insert)
qed simp

lemma merge_fold_ok:
  "bt_ok m \<Longrightarrow> bt_ok (fold (\<lambda>k m. case f k of None \<Rightarrow> m | Some v \<Rightarrow> bt_insert k v m) ks m)"
  by (induction ks arbitrary: m) (auto simp: bt_ok_insert split: option.split)

lemma merge_mappings_ok: "bt_ok (merge_mappings resolve b o' t)"
  unfolding merge_mappings_def by (rule merge_fold_ok) simp

lemma merge_mappings_get:
  "bt_get (merge_mappings resolve b o' t) i = choose_value (resolve i) (bt_get b i) (bt_get o' i) (bt_get t i)"
proof -
  let ?c = "choose_value (resolve i) (bt_get b i) (bt_get o' i) (bt_get t i)"
  have "bt_get (merge_mappings resolve b o' t) i
      = (if i \<in> set (all_keys b o' t) \<and> ?c \<noteq> None then ?c else None)"
    unfolding merge_mappings_def
    using merge_fold_get [OF set_all_keys(2) [of b o' t],
        where f = "\<lambda>k. choose_value (resolve k) (bt_get b k) (bt_get o' k) (bt_get t k)"
          and i = i and m = "[]"] by simp
  moreover have "?c = None" if "i \<notin> set (all_keys b o' t)"
  proof -
    have "bt_get b i = None" "bt_get o' i = None" "bt_get t i = None"
      using that bt_get_dom unfolding set_all_keys by fastforce+
    then show ?thesis by simp
  qed
  ultimately show ?thesis by auto
qed

lemma parse_mapping_ok: "parse_mapping env s = Inr m \<Longrightarrow> bt_ok m"
proof -
  have "bt_ok (fold (\<lambda>(k, v). bt_insert (yaml_key env k) v) kvs a)" if "bt_ok a" for kvs :: "(yaml \<times> yaml) list" and a
    using that by (induction kvs arbitrary: a) (auto simp: bt_ok_insert)
  then show "parse_mapping env s = Inr m \<Longrightarrow> bt_ok m"
    by (auto simp: parse_mapping_def split: if_splits sum.splits yaml.splits)
qed

text \<open>C7. A field only one side touched has that side's value in the merge, a field both
  sides left or set alike keeps that value, and only a field they set differently is decided
  by the resolution; nothing else is in the merge. So merging with an unchanged side gives
  the other side, and merging a change with itself gives that change.\<close>

theorem merge_mappings_three_way:
  assumes "bt_ok b" and "bt_ok o'" and "bt_ok t"
  shows "merge_mappings resolve b o' b = o' \<and> merge_mappings resolve b b t = t \<and>
     merge_mappings resolve b o' o' = o' \<and>
     (\<forall>k. bt_get o' k = bt_get b k \<longrightarrow> bt_get (merge_mappings resolve b o' t) k = bt_get t k) \<and>
     (\<forall>k. bt_get t k = bt_get b k \<longrightarrow> bt_get (merge_mappings resolve b o' t) k = bt_get o' k) \<and>
     (\<forall>k v w. bt_get o' k = Some v \<longrightarrow> bt_get t k = Some w \<longrightarrow> v \<noteq> w \<longrightarrow>
        bt_get b k \<noteq> Some v \<longrightarrow> bt_get b k \<noteq> Some w \<longrightarrow>
        bt_get (merge_mappings resolve b o' t) k = Some (resolve k v w))"
proof -
  have same: "choose_value r x y x = y" "choose_value r x x y = y" "choose_value r x y y = y" for r x y
    by (cases x; cases y; simp)+
  have "choose_value r x (Some v) (Some w) = Some (r v w)" if "v \<noteq> w" "x \<noteq> Some v" "x \<noteq> Some w" for r x v w
    using that by (cases x) auto
  then show ?thesis
    using assms by (auto intro!: bt_ext simp: merge_mappings_get merge_mappings_ok same)
qed

theorem merge_mappings_three_way_witness:
  "merge_mappings (\<lambda>k v w. v) [(''a'', YNull)] [(''a'', YNull), (''b'', YBool True)] [(''a'', YNull)]
     = [(''a'', YNull), (''b'', YBool True)]"
  using merge_mappings_three_way [of "[(''a'', YNull)]" "[(''a'', YNull), (''b'', YBool True)]" "[(''a'', YNull)]"
      "\<lambda>k v w. v"]
  by simp

lemma merge_mappings_sym:
  "merge_mappings r b o' t = merge_mappings (\<lambda>k v w. r k w v) b t o'"
proof (rule bt_ext)
  fix k
  have "choose_value r' x y z = choose_value (\<lambda>v w. r' w v) x z y" for r' x y z
    by (cases x; cases y; cases z) auto
  then show "bt_get (merge_mappings r b o' t) k = bt_get (merge_mappings (\<lambda>k v w. r k w v) b t o') k"
    by (simp add: merge_mappings_get)
qed (simp_all add: merge_mappings_ok)

text \<open>Without a changelog the two branches are treated alike: exchanging them and the
  fallback precedence gives the same merged text, or the same failure up to which side's
  parse error is reported first.\<close>

theorem merge_yaml_symmetric:
  assumes "is_ok (parse_mapping env ours) \<or> is_ok (parse_mapping env theirs)"
  shows "merge_yaml env \<lparr>jsonl_text = None, fallback_precedence = Ours\<rparr> base ours theirs
       = merge_yaml env \<lparr>jsonl_text = None, fallback_precedence = Theirs\<rparr> base theirs ours"
proof -
  have "merge_mappings (\<lambda>k v w. resolve_conflict env k v w Map.empty Ours) b o' t
      = merge_mappings (\<lambda>k v w. resolve_conflict env k v w Map.empty Theirs) b t o'" for b o' t
    using merge_mappings_sym [of "\<lambda>k v w. resolve_conflict env k v w Map.empty Ours" b o' t]
    by (simp add: resolve_conflict_def)
  then show ?thesis
    using assms by (auto simp: merge_yaml_def stamps_of_def is_ok_def Let_def split: sum.splits)
qed

definition toy_merge_env :: merge_env where
  "toy_merge_env =
     \<lparr>me_parse_yaml = (\<lambda>s. Inr (YMapping [(YString ''k'', YString s)])),
      me_print_yaml = (\<lambda>y. case y of YMapping [(_, YString s)] \<Rightarrow> Inr s | _ \<Rightarrow> Inr []),
      me_debug_yaml = (\<lambda>y. []), me_parse_json = (\<lambda>s. None), me_print_json = (\<lambda>j. []),
      me_merge_text = (\<lambda>b x y. Inr y)\<rparr>"

theorem merge_yaml_symmetric_witness:
  "merge_yaml toy_merge_env \<lparr>jsonl_text = None, fallback_precedence = Ours\<rparr> ''a'' ''b'' ''c''
     = merge_yaml toy_merge_env \<lparr>jsonl_text = None, fallback_precedence = Theirs\<rparr> ''a'' ''c'' ''b''
   \<and> is_ok (parse_mapping toy_merge_env ''b'')"
proof -
  have "is_ok (parse_mapping toy_merge_env ''b'')" by code_simp
  then show ?thesis using merge_yaml_symmetric [of toy_merge_env "''b''" "''c''" "''a''"] by simp
qed

section \<open>Newest wins\<close>

text \<open>The values a changelog says were set: field, text and time, in the order of the file.\<close>

definition noted :: "merge_env \<Rightarrow> log_record list \<Rightarrow> (string \<times> string \<times> string) list" where
  "noted env rs =
     concat (map (\<lambda>r. List.map_filter (\<lambda>c. map_option (\<lambda>v. (fc_field c, value_text env v, lr_timestamp r))
                                           (fc_new_value c)) (lr_changes r)) rs)"

definition note_one :: "string \<times> string \<times> string \<Rightarrow> stamps \<Rightarrow> stamps" where
  "note_one e m =
     (case e of (f, v, ts) \<Rightarrow>
        m(f \<mapsto> (case m f of None \<Rightarrow> (v, ts) | Some (v0, t0) \<Rightarrow> (if t0 < ts then (v, ts) else (v0, t0)))))"

lemma note_value_note:
  "note_value env ts c m =
     (case fc_new_value c of None \<Rightarrow> m | Some v \<Rightarrow> note_one (fc_field c, value_text env v, ts) m)"
  by (auto simp: note_value_def note_one_def Let_def split: option.splits)

lemma stamps_fold: "latest_value_timestamps env rs = fold note_one (noted env rs) Map.empty"
proof -
  have inner: "fold (note_value env ts) cs m
      = fold note_one (List.map_filter (\<lambda>c. map_option (\<lambda>v. (fc_field c, value_text env v, ts)) (fc_new_value c)) cs) m"
    for ts cs m
    by (induction cs arbitrary: m) (auto simp: note_value_note List.map_filter_simps split: option.splits)
  have "fold (\<lambda>r. fold (note_value env (lr_timestamp r)) (lr_changes r)) rs m = fold note_one (noted env rs) m" for m
    by (induction rs arbitrary: m) (simp_all add: noted_def inner)
  then show ?thesis by (simp add: latest_value_timestamps_def)
qed

definition newest_of :: "(string \<times> string \<times> string) list \<Rightarrow> string \<Rightarrow> (string \<times> string) option \<Rightarrow> bool" where
  "newest_of es f r \<longleftrightarrow>
     (case r of
        None \<Rightarrow> f \<notin> fst ` set es
      | Some (v, ts) \<Rightarrow>
          (\<exists>xs ys. es = xs @ (f, v, ts) # ys \<and>
             (\<forall>(g, w, t) \<in> set xs. g = f \<longrightarrow> t < ts) \<and> (\<forall>(g, w, t) \<in> set ys. g = f \<longrightarrow> t \<le> ts)))"

lemma newest_of_snoc:
  assumes "newest_of es f (m f)"
  shows "newest_of (es @ [e]) f (note_one e m f)"
proof (cases "fst e = f")
  case False
  then show ?thesis
    using assms
    by (cases e; cases "m f") (fastforce simp: newest_of_def note_one_def split: option.splits)+
next
  case True
  then obtain v ts where e: "e = (f, v, ts)" by (cases e) auto
  show ?thesis
  proof (cases "m f")
    case None
    then have "note_one e m f = Some (v, ts)" by (simp add: note_one_def e)
    moreover have "\<forall>x \<in> set es. fst x \<noteq> f"
      using assms None by (auto simp: newest_of_def image_iff)
    then have "\<forall>(g, w, t) \<in> set es. g = f \<longrightarrow> t < ts" by auto
    then have "newest_of (es @ [e]) f (Some (v, ts))"
      unfolding newest_of_def option.case prod.case
      by (intro exI [of _ es] exI [of _ "[]"]) (simp add: e)
    ultimately show ?thesis by simp
  next
    case (Some x)
    obtain v0 t0 where x: "x = (v0, t0)" by (cases x)
    obtain xs ys where es: "es = xs @ (f, v0, t0) # ys" "\<forall>(g, w, t) \<in> set xs. g = f \<longrightarrow> t < t0"
      "\<forall>(g, w, t) \<in> set ys. g = f \<longrightarrow> t \<le> t0"
      using assms Some x by (auto simp: newest_of_def)
    show ?thesis
    proof (cases "t0 < ts")
      case True
      then have "note_one e m f = Some (v, ts)" using Some x by (simp add: note_one_def e)
      moreover have "\<forall>(g, w, t) \<in> set es. g = f \<longrightarrow> t < ts"
        using es True by (auto dest: order_le_less_trans order_less_trans)
      then have "newest_of (es @ [e]) f (Some (v, ts))"
        unfolding newest_of_def option.case prod.case
        by (intro exI [of _ es] exI [of _ "[]"]) (simp add: e)
      ultimately show ?thesis by simp
    next
      case False
      then have "note_one e m f = Some (v0, t0)" using Some x by (simp add: note_one_def e)
      moreover have "newest_of (es @ [e]) f (Some (v0, t0))"
        unfolding newest_of_def option.case prod.case
        by (intro exI [of _ xs] exI [of _ "ys @ [e]"]) (use es False in \<open>auto simp: e\<close>)
      ultimately show ?thesis by simp
    qed
  qed
qed

text \<open>A changelog decides a field for the value it records with the greatest timestamp
  (the first of them in the file): the side holding that value wins, whatever the fallback
  precedence.\<close>

lemma newest_value_wins:
  assumes "noted env (parse_changelog env content) = xs @ (k, v, ts) # ys"
    and "\<forall>(g, w, t) \<in> set xs. g = k \<longrightarrow> t < ts" and "\<forall>(g, w, t) \<in> set ys. g = k \<longrightarrow> t \<le> ts"
    and "yaml_val_to_string env winner = v" and "yaml_val_to_string env loser \<noteq> v"
  shows "resolve_conflict env k winner loser (stamps_of env \<lparr>jsonl_text = Some content, fallback_precedence = p\<rparr>) p
           = winner \<and>
         resolve_conflict env k loser winner (stamps_of env \<lparr>jsonl_text = Some content, fallback_precedence = p\<rparr>) p
           = winner"
proof -
  let ?es = "noted env (parse_changelog env content)"
  have inv: "newest_of es k (fold note_one es Map.empty k)" for es
    by (induction es rule: rev_induct) (simp add: newest_of_def, simp add: newest_of_snoc)
  have unique: "v' = v \<and> ts' = ts"
    if "xs @ (k, v, ts) # ys = xs' @ (k, v', ts') # ys'"
      "\<forall>(g, w, t) \<in> set xs'. g = k \<longrightarrow> t < ts'" "\<forall>(g, w, t) \<in> set ys'. g = k \<longrightarrow> t \<le> ts'" for xs' v' ts' ys'
  proof -
    from that(1) obtain us where
      "xs = xs' @ us \<and> us @ (k, v, ts) # ys = (k, v', ts') # ys' \<or>
       xs @ us = xs' \<and> (k, v, ts) # ys = us @ (k, v', ts') # ys'"
      by (auto simp: append_eq_append_conv2)
    then show ?thesis
      using that(2,3) assms(2,3) by (cases us) (fastforce+)
  qed
  have "fold note_one ?es Map.empty k = Some (v, ts)"
    using inv [of ?es] assms(1) unique
    by (cases "fold note_one ?es Map.empty k") (force simp: newest_of_def)+
  then have "stamps_of env \<lparr>jsonl_text = Some content, fallback_precedence = p\<rparr> k = Some (v, ts)"
    by (simp add: stamps_of_def stamps_fold)
  then show ?thesis using assms(4,5) by (simp add: resolve_conflict_def)
qed

definition one_record :: "string \<Rightarrow> json option" where
  "one_record s =
     Some (JObject [(''timestamp'', JString s),
       (''changes'', JArray [JArray [JString ''k'', JObject [(''new_value'', JString s)]]])])"

text \<open>A changelog entry of the store has no \<open>changes\<close>: it decides nothing.\<close>

lemma store_entries_decide_nothing:
  assumes "\<And>l v. me_parse_json env l = Some v \<Longrightarrow> json_get v ''changes'' = None"
  shows "stamps_of env \<lparr>jsonl_text = Some content, fallback_precedence = p\<rparr> = Map.empty"
proof -
  have "\<forall>r \<in> set (parse_changelog env content). lr_changes r = []"
    using assms
    by (auto simp: parse_changelog_def map_filter_def parse_record_def split: if_splits option.splits)
  then have "noted env (parse_changelog env content) = []"
    by (auto simp: noted_def List.map_filter_simps)
  then show ?thesis by (simp add: stamps_of_def stamps_fold)
qed

end
