(* ===== verification/Merge_Driver.thy ===== *)
theory Merge_Driver
  imports Merge_Yaml
begin

text \<open>
  The git merge drivers: \<open>apps/kanban-cli/src/merge.rs\<close>. The files are a map from paths to
  texts; \<open>writable\<close> says which paths the operating system lets the driver write. The argument
  parser is not modelled: a driver gets its name and its three paths.
\<close>

section \<open>Paths\<close>

record file_path =
  parent :: string
  file_name :: string

type_synonym disk = "file_path \<Rightarrow> string option"

text \<open>\<open>Path::file_stem\<close>: the name up to its last dot, unless that dot begins the name.\<close>

definition file_stem :: "string \<Rightarrow> string" where
  "file_stem n =
     (let r = dropWhile (\<lambda>c. c \<noteq> CHR ''.'') (rev n) in if r = [] \<or> tl r = [] then n else rev (tl r))"

definition with_extension :: "string \<Rightarrow> file_path \<Rightarrow> file_path" where
  "with_extension ext p = p\<lparr>file_name := file_stem (file_name p) @ ''.'' @ ext\<rparr>"

definition sibling_jsonl :: "disk \<Rightarrow> file_path \<Rightarrow> file_path option" where
  "sibling_jsonl fs p =
     (let candidate = with_extension ''jsonl'' (p\<lparr>file_name := file_stem (file_name p)\<rparr>)
      in if fs candidate \<noteq> None then Some candidate else None)"

section \<open>The drivers\<close>

record driver_env =
  dr_merge :: merge_env
  dr_extract :: "string \<Rightarrow> string option"
  dr_writable :: "file_path \<Rightarrow> bool"

definition read_three_files ::
  "file_path \<Rightarrow> file_path \<Rightarrow> file_path \<Rightarrow> disk \<Rightarrow> int + string \<times> string \<times> string" where
  "read_three_files base ours theirs fs =
     (case fs base of None \<Rightarrow> Inl 2 | Some b \<Rightarrow>
     (case fs ours of None \<Rightarrow> Inl 2 | Some v \<Rightarrow>
     (case fs theirs of None \<Rightarrow> Inl 2 | Some t \<Rightarrow> Inr (b, v, t))))"

definition write_ours :: "driver_env \<Rightarrow> file_path \<Rightarrow> string \<Rightarrow> disk \<Rightarrow> int \<times> disk" where
  "write_ours env ours content fs =
     (if dr_writable env ours then (0, fs(ours \<mapsto> content)) else (2, fs))"

definition run_jsonl ::
  "driver_env \<Rightarrow> file_path \<Rightarrow> file_path \<Rightarrow> file_path \<Rightarrow> disk \<Rightarrow> int \<times> disk" where
  "run_jsonl env base ours theirs fs =
     (case read_three_files base ours theirs fs of
        Inl e \<Rightarrow> (e, fs)
      | Inr (b, v, t) \<Rightarrow>
          (case merge_jsonl (dr_extract env) b v t of
             Inr merged \<Rightarrow> write_ours env ours merged fs
           | Inl conflict \<Rightarrow> (1, fs)))"

definition driver_opts :: "file_path \<Rightarrow> disk \<Rightarrow> merge_opts" where
  "driver_opts ours fs =
     \<lparr>jsonl_text = (case sibling_jsonl fs ours of None \<Rightarrow> None | Some p \<Rightarrow> fs p),
      fallback_precedence = Theirs\<rparr>"

definition run_yaml ::
  "driver_env \<Rightarrow> file_path \<Rightarrow> file_path \<Rightarrow> file_path \<Rightarrow> disk \<Rightarrow> int \<times> disk" where
  "run_yaml env base ours theirs fs =
     (case read_three_files base ours theirs fs of
        Inl e \<Rightarrow> (e, fs)
      | Inr (b, v, t) \<Rightarrow>
          (case merge_yaml (dr_merge env) (driver_opts ours fs) b v t of
             Inr merged \<Rightarrow> write_ours env ours merged fs
           | Inl (Conflict c) \<Rightarrow> (1, fs)
           | Inl (ParseFailure msg) \<Rightarrow> (2, fs)))"

text \<open>On a conflict \<open>run_md\<close> writes the first string of the conflict over ours; the result of
  that write is ignored.\<close>

definition run_md ::
  "driver_env \<Rightarrow> file_path \<Rightarrow> file_path \<Rightarrow> file_path \<Rightarrow> disk \<Rightarrow> int \<times> disk" where
  "run_md env base ours theirs fs =
     (case read_three_files base ours theirs fs of
        Inl e \<Rightarrow> (e, fs)
      | Inr (b, v, t) \<Rightarrow>
          (case merge_md (dr_merge env) (driver_opts ours fs) b v t of
             Inr merged \<Rightarrow> write_ours env ours merged fs
           | Inl (Conflict ids) \<Rightarrow>
               (1, snd (write_ours env ours (case ids of [] \<Rightarrow> [] | c # _ \<Rightarrow> c) fs))
           | Inl (ParseFailure msg) \<Rightarrow> (2, fs)))"

datatype driver = JsonlDriver | YamlDriver | MdDriver

definition handle_merge ::
  "driver_env \<Rightarrow> driver \<Rightarrow> file_path \<Rightarrow> file_path \<Rightarrow> file_path \<Rightarrow> disk \<Rightarrow> int \<times> disk" where
  "handle_merge env d =
     (case d of JsonlDriver \<Rightarrow> run_jsonl env | YamlDriver \<Rightarrow> run_yaml env | MdDriver \<Rightarrow> run_md env)"

section \<open>What a driver leaves behind\<close>

definition merged_text ::
  "driver_env \<Rightarrow> driver \<Rightarrow> merge_opts \<Rightarrow> string \<Rightarrow> string \<Rightarrow> string \<Rightarrow> merge_error + string" where
  "merged_text env d opts b v t =
     (case d of
        JsonlDriver \<Rightarrow> merge_jsonl (dr_extract env) b v t
      | YamlDriver \<Rightarrow> merge_yaml (dr_merge env) opts b v t
      | MdDriver \<Rightarrow> merge_md (dr_merge env) opts b v t)"

lemma yaml_no_conflict: "merge_yaml env opts b v t \<noteq> Inl (Conflict c)"
  by (simp add: merge_yaml_def Let_def split: sum.split)

lemma md_conflict:
  "merge_md env opts b v t = Inl (Conflict ids) \<longleftrightarrow>
     is_ok (merge_frontmatter env opts (fm_frontmatter (split_frontmatter b))
       (fm_frontmatter (split_frontmatter v)) (fm_frontmatter (split_frontmatter t)))
     \<and> (\<exists>c. me_merge_text env (fm_body (split_frontmatter b)) (fm_body (split_frontmatter v))
              (fm_body (split_frontmatter t)) = Inl c \<and> ids = [c])"
proof -
  have "merge_frontmatter env opts x y z \<noteq> Inl (Conflict ids)" for x y z
    using yaml_no_conflict by (auto simp: merge_frontmatter_def Let_def split: sum.split)
  then show ?thesis by (auto simp: merge_md_def Let_def is_ok_def split: sum.splits)
qed

lemma exit_codes_readable:
  assumes "handle_merge env d base ours theirs fs = (code, fs')"
    and "fs base = Some b" and "fs ours = Some v" and "fs theirs = Some t"
    and "result = merged_text env d (driver_opts ours fs) b v t"
  shows "(\<forall>p. p \<noteq> ours \<longrightarrow> fs' p = fs p)
    \<and> (code = 0 \<longleftrightarrow> is_ok result \<and> dr_writable env ours)
    \<and> (code = 1 \<longleftrightarrow> (\<exists>ids. result = Inl (Conflict ids)))
    \<and> (code = 2 \<longleftrightarrow> (\<exists>msg. result = Inl (ParseFailure msg)) \<or> is_ok result \<and> \<not> dr_writable env ours)
    \<and> (code = 0 \<longrightarrow> result = Inr (the (fs' ours)))
    \<and> (code = 2 \<longrightarrow> fs' = fs)
    \<and> (code = 1 \<longrightarrow> d \<noteq> YamlDriver)
    \<and> (code = 1 \<and> d = JsonlDriver \<longrightarrow> fs' = fs)
    \<and> (code = 1 \<and> d = MdDriver \<and> dr_writable env ours \<longrightarrow>
        is_ok (merge_frontmatter (dr_merge env) (driver_opts ours fs) (fm_frontmatter (split_frontmatter b))
          (fm_frontmatter (split_frontmatter v)) (fm_frontmatter (split_frontmatter t)))
        \<and> (\<exists>c. me_merge_text (dr_merge env) (fm_body (split_frontmatter b)) (fm_body (split_frontmatter v))
              (fm_body (split_frontmatter t)) = Inl c \<and> fs' = fs(ours \<mapsto> c)))"
proof (cases d)
  case JsonlDriver
  have "merge_jsonl e x y z \<noteq> Inl (ParseFailure msg)" for e x y z msg
    by (simp add: merge_jsonl_eq Let_def)
  then have "\<exists>ids. x = Conflict ids" if "merge_jsonl (dr_extract env) b v t = Inl x" for x
    using that by (cases x) auto
  then show ?thesis
    using assms JsonlDriver
    by (auto simp: handle_merge_def run_jsonl_def read_three_files_def merged_text_def write_ours_def is_ok_def
        split: sum.splits if_splits)
next
  case YamlDriver
  then show ?thesis
    using assms yaml_no_conflict
    by (auto simp: handle_merge_def run_yaml_def read_three_files_def merged_text_def write_ours_def is_ok_def
        split: sum.splits if_splits merge_error.splits)
next
  case MdDriver
  have run: "run_md env base ours theirs fs =
      (case merge_md (dr_merge env) (driver_opts ours fs) b v t of
         Inr merged \<Rightarrow> write_ours env ours merged fs
       | Inl (Conflict ids) \<Rightarrow> (1, snd (write_ours env ours (case ids of [] \<Rightarrow> [] | c # _ \<Rightarrow> c) fs))
       | Inl (ParseFailure msg) \<Rightarrow> (2, fs))"
    using assms(2-4) by (simp add: run_md_def read_three_files_def)
  have r: "result = merge_md (dr_merge env) (driver_opts ours fs) b v t"
    using assms(5) MdDriver by (simp add: merged_text_def)
  have h: "run_md env base ours theirs fs = (code, fs')" using assms(1) MdDriver by (simp add: handle_merge_def)
  show ?thesis
  proof (cases result)
    case (Inl e)
    show ?thesis
    proof (cases e)
      case (Conflict ids)
      then have c: "merge_md (dr_merge env) (driver_opts ours fs) b v t = Inl (Conflict ids)" using r Inl by simp
      note md = c [unfolded md_conflict]
      then obtain x where x: "me_merge_text (dr_merge env) (fm_body (split_frontmatter b))
          (fm_body (split_frontmatter v)) (fm_body (split_frontmatter t)) = Inl x" "ids = [x]" by blast
      have "code = 1" "fs' = snd (write_ours env ours x fs)" using h run c x by auto
      then show ?thesis using Conflict Inl MdDriver md x by (auto simp: write_ours_def)
    next
      case (ParseFailure msg)
      then have "merge_md (dr_merge env) (driver_opts ours fs) b v t = Inl (ParseFailure msg)" using r Inl by simp
      then have "code = 2" "fs' = fs" using h run by auto
      then show ?thesis using ParseFailure Inl by simp
    qed
  next
    case (Inr out)
    then have "(code, fs') = write_ours env ours out fs" using h run r by simp
    then show ?thesis using Inr by (auto simp: write_ours_def split: if_splits)
  qed
qed

text \<open>C5. Exit codes of the drivers, whatever the three paths hold. 2 when a file is missing or unreadable, when ours
  is not writable for a successful merge, or when a text does not parse, and then no file has changed. 0 exactly when
  all three are readable, the merge succeeded and ours is writable, and then ours holds its text. 1 exactly when there was
  a conflict, which only the JSONL and the markdown driver report. No file
  but ours ever changes. On a conflict the JSONL driver leaves ours as it was, without conflict markers, and the markdown
  driver writes over ours, if it can, nothing but the conflict text of the bodies, although the frontmatter did merge.\<close>

theorem driver_exit_codes:
  assumes "handle_merge env d base ours theirs fs = (code, fs')"
  shows "(\<forall>p. p \<noteq> ours \<longrightarrow> fs' p = fs p) \<and> (code = 2 \<longrightarrow> fs' = fs) \<and>
    (case (fs base, fs ours, fs theirs) of
       (Some b, Some v, Some t) \<Rightarrow>
         (let result = merged_text env d (driver_opts ours fs) b v t
          in (code = 0 \<longleftrightarrow> is_ok result \<and> dr_writable env ours)
           \<and> (code = 1 \<longleftrightarrow> (\<exists>ids. result = Inl (Conflict ids)))
           \<and> (code = 2 \<longleftrightarrow> (\<exists>msg. result = Inl (ParseFailure msg)) \<or> is_ok result \<and> \<not> dr_writable env ours)
           \<and> (code = 0 \<longrightarrow> result = Inr (the (fs' ours)))
           \<and> (code = 1 \<longrightarrow> d \<noteq> YamlDriver)
           \<and> (code = 1 \<and> (d = JsonlDriver \<or> \<not> dr_writable env ours) \<longrightarrow> fs' = fs)
           \<and> (code = 1 \<and> d = MdDriver \<and> dr_writable env ours \<longrightarrow>
               is_ok (merge_frontmatter (dr_merge env) (driver_opts ours fs) (fm_frontmatter (split_frontmatter b))
                 (fm_frontmatter (split_frontmatter v)) (fm_frontmatter (split_frontmatter t)))
               \<and> (\<exists>c. me_merge_text (dr_merge env) (fm_body (split_frontmatter b)) (fm_body (split_frontmatter v))
                     (fm_body (split_frontmatter t)) = Inl c \<and> fs' = fs(ours \<mapsto> c))))
     | _ \<Rightarrow> code = 2)"
proof (cases "\<exists>b v t. fs base = Some b \<and> fs ours = Some v \<and> fs theirs = Some t")
  case True
  then obtain b v t where f: "fs base = Some b" "fs ours = Some v" "fs theirs = Some t" by blast
  have "code = 1 \<and> \<not> dr_writable env ours \<longrightarrow> fs' = fs"
    using assms f by (auto simp: handle_merge_def run_jsonl_def run_yaml_def run_md_def read_three_files_def write_ours_def
        split: driver.splits sum.splits merge_error.splits if_splits)
  then show ?thesis
    using exit_codes_readable [OF assms f refl] unfolding f prod.case option.case Let_def by blast
next
  case False
  then have "read_three_files base ours theirs fs = Inl 2"
    by (auto simp: read_three_files_def split: option.splits)
  then have "code = 2 \<and> fs' = fs"
    using assms by (auto simp: handle_merge_def run_jsonl_def run_yaml_def run_md_def split: driver.splits)
  then show ?thesis using False by (auto split: option.split)
qed

definition example_driver :: driver_env where
  "example_driver =
     \<lparr>dr_merge = toy_merge_env\<lparr>me_merge_text := (\<lambda>b v t. Inl (''<'' @ v @ ''|'' @ t @ ''>''))\<rparr>,
      dr_extract = colon_id, dr_writable = (\<lambda>p. True)\<rparr>"

definition example_path :: "string \<Rightarrow> file_path" where
  "example_path n = \<lparr>parent = [], file_name = n\<rparr>"

definition example_disk :: disk where
  "example_disk =
     [example_path ''O'' \<mapsto> ''b'', example_path ''A'' \<mapsto> ''---'' @ NL # ''k: 1'' @ NL # ''---'' @ NL # ''v'',
      example_path ''B'' \<mapsto> ''t'']"

theorem driver_exit_codes_witness:
  "\<exists>c. snd (run_md example_driver (example_path ''O'') (example_path ''A'') (example_path ''B'') example_disk)
     = example_disk(example_path ''A'' \<mapsto> c)"
proof -
  let ?O = "example_path ''O''" and ?A = "example_path ''A''" and ?B = "example_path ''B''"
  let ?v = "''---'' @ NL # ''k: 1'' @ NL # ''---'' @ NL # ''v''"
  have code: "fst (run_md example_driver ?O ?A ?B example_disk) = 1" by code_simp
  have f: "example_disk ?O = Some ''b''" "example_disk ?A = Some ?v" "example_disk ?B = Some ''t''"
    by code_simp+
  have h: "handle_merge example_driver MdDriver ?O ?A ?B example_disk
      = (1, snd (run_md example_driver ?O ?A ?B example_disk))"
    using code by (simp add: handle_merge_def prod_eq_iff)
  show ?thesis
    using driver_exit_codes [OF h] unfolding f prod.case option.case Let_def by (auto simp: example_driver_def)
qed

text \<open>The changelog next to \<open>a.b.md\<close> is looked for under the stem of the stem.\<close>

lemma sibling_of_dotted_name:
  "sibling_jsonl fs \<lparr>parent = [], file_name = ''a.b.md''\<rparr>
     = (if fs \<lparr>parent = [], file_name = ''a.jsonl''\<rparr> \<noteq> None
        then Some \<lparr>parent = [], file_name = ''a.jsonl''\<rparr> else None)"
  by (simp add: sibling_jsonl_def with_extension_def file_stem_def)

section \<open>Running the JSONL merge again\<close>

definition log_line :: "(string \<Rightarrow> string option) \<Rightarrow> string \<times> string \<Rightarrow> bool" where
  "log_line extract e \<longleftrightarrow>
     extract (snd e) = Some (fst e) \<and> trim (snd e) = snd e \<and> snd e \<noteq> [] \<and> NL \<notin> set (snd e)"

lemma set_trim: "set (trim s) \<subseteq> set s"
proof -
  have "set (trim_start_matches p x) \<subseteq> set x" for p x
    by (auto simp: trim_start_matches_def dest: set_dropWhileD)
  moreover have "set (trim_end_matches p x) \<subseteq> set x" for p x
    using set_dropWhileD [of _ p "rev x"] by (auto simp: trim_end_matches_def)
  ultimately show ?thesis unfolding trim_def trim_matches_def by blast
qed

lemma nl_pieces_no_nl: "p \<in> set (nl_pieces acc s) \<Longrightarrow> NL \<notin> set acc \<Longrightarrow> NL \<notin> set (fst p)"
  by (induction acc s arbitrary: p rule: nl_pieces.induct) (auto split: if_splits)

lemma str_lines_no_nl: "l \<in> set (str_lines s) \<Longrightarrow> NL \<notin> set l"
  using nl_pieces_no_nl [of _ "[]" s]
  by (auto simp: str_lines_def strip_cr_def split: if_splits dest!: in_set_butlastD)

lemma log_lines_good: "e \<in> set (log_lines extract s) \<Longrightarrow> log_line extract e"
  using set_trim str_lines_no_nl
  by (fastforce simp: log_lines_def log_line_def map_filter_def split: if_splits)

lemma trim_no_cr: "trim l = l \<Longrightarrow> strip_cr (l, True) = l"
proof -
  assume t: "trim l = l"
  have "trim_end_matches p s \<noteq> [] \<Longrightarrow> \<not> p (last (trim_end_matches p s))" for p and s :: string
    using hd_dropWhile [of p "rev s"] by (simp add: trim_end_matches_def last_rev)
  then have "l \<noteq> [] \<Longrightarrow> \<not> is_ws (last l)"
    using t unfolding trim_def trim_matches_def by metis
  then show ?thesis by (auto simp: strip_cr_def is_ws_def)
qed

lemma log_lines_printed:
  "\<forall>e \<in> set m. log_line extract e \<Longrightarrow> log_lines extract (concat (map (\<lambda>e. snd e @ [NL]) m)) = m"
proof (induction m)
  case (Cons e m)
  then have e: "log_line extract e" by simp
  then have "str_lines (snd e @ NL # s) = snd e # str_lines s" for s
    by (simp add: str_lines_line log_line_def trim_no_cr)
  then show ?case using Cons e by (simp add: log_lines_def log_line_def List.map_filter_simps)
qed (simp add: log_lines_def List.map_filter_simps)

text \<open>A merged log merges again to itself: if the driver succeeded and is run once more on
  its own output, with the same base and the same distinct theirs, it succeeds without a
  change.\<close>

lemma merge_jsonl_again:
  assumes "distinct (map fst (log_lines extract theirs))"
    and "merge_jsonl extract base ours theirs = Inr out"
  shows "merge_jsonl extract base out theirs = Inr out"
proof -
  let ?b = "log_lines extract base" and ?o = "log_lines extract ours" and ?t = "log_lines extract theirs"
  let ?m = "merged_map extract base ours theirs"
  have printed: "(if n = [] then [] else join [NL] (map snd n) @ [NL]) = concat (map (\<lambda>e. snd e @ [NL]) n)"
    for n :: "(string, string) btree"
  proof (induction n)
    case (Cons e n)
    then show ?case by (cases n) auto
  qed simp
  have out: "out = concat (map (\<lambda>e. snd e @ [NL]) ?m)"
    using assms(2) by (simp add: merge_jsonl_eq Let_def printed split: if_splits)
  have good: "\<forall>e \<in> set ?m. log_line extract e"
  proof
    fix e assume "e \<in> set ?m"
    then have "bt_get ?m (fst e) = Some (snd e)" using bt_get_in [OF merged_map_ok, where k = "fst e" and v = "snd e"] by simp
    then have "e \<in> set ?t \<union> set ?o \<union> set ?b"
      unfolding merged_map_get union_line_def last_line_def
      by (cases e) (auto split: option.splits dest!: map_of_SomeD)
    then show "log_line extract e" using log_lines_good by blast
  qed
  have o': "log_lines extract out = ?m" unfolding out by (rule log_lines_printed [OF good])
  have last: "last_line ?m i = union_line ?b ?o ?t i" for i
  proof -
    have "distinct (map fst ?m)" using merged_map_ok by (simp add: bt_ok_def strict_sorted_iff)
    then have "last_line ?m i = bt_get ?m i"
      using map_of_inject_set [of "rev ?m" ?m] by (simp add: last_line_def bt_get_def rev_map [symmetric])
    then show ?thesis by (simp add: merged_map_get)
  qed
  have "union_line ?b ?m ?t i = union_line ?b ?o ?t i" for i
    by (simp add: union_line_def last split: option.splits)
  then have m: "merged_map extract base out theirs = ?m"
    by (intro bt_ext) (simp_all add: merged_map_ok merged_map_get o')
  have "i \<notin> set (conflicts extract base out theirs)" for i
    unfolding conflicts_iff [OF assms(1)] o' last by (auto simp: union_line_def)
  then have "conflicts extract base out theirs = []" by (metis last_in_set)
  then show ?thesis unfolding merge_jsonl_eq [of "extract" "base" "out"] m Let_def printed using out by simp
qed

end
