(* ===== verification/Hashline.thy ===== *)
theory Hashline
  imports Rust_Num "HOL-Library.Word"
begin

text \<open>
  Hashline anchors: \<open>swissarmyhammer-hashline/src/lib.rs\<close> and \<open>line_ending.rs\<close>. The CRC of
  the library \<open>crc32fast\<close> is the parameter \<open>crc\<close>. Texts are their bytes. The proximity
  search computes with \<open>isize\<close>; the model computes with \<open>int\<close>, which agrees for line numbers
  below \<open>2 ^ 63 - 50\<close> (beyond, the code's addition overflows).
\<close>

section \<open>Line endings\<close>

datatype line_ending = Lf | CrLf | Cr | Mixed

fun count_crlf :: "string \<Rightarrow> nat" where
  "count_crlf [] = 0"
| "count_crlf [c] = 0"
| "count_crlf (c # d # s) = (if c = CR \<and> d = NL then Suc (count_crlf s) else count_crlf (d # s))"

definition detect :: "string \<Rightarrow> line_ending" where
  "detect s =
     (let crlf = count_crlf s; lf = count_list s NL - crlf; cr = count_list s CR - crlf
      in case (0 < lf, 0 < crlf, 0 < cr) of
           (False, False, False) \<Rightarrow> Lf
         | (True, False, False) \<Rightarrow> Lf
         | (False, True, False) \<Rightarrow> CrLf
         | (False, False, True) \<Rightarrow> Cr
         | _ \<Rightarrow> Mixed)"

definition as_terminator :: "line_ending \<Rightarrow> string" where
  "as_terminator e = (case e of Lf \<Rightarrow> [NL] | CrLf \<Rightarrow> [CR, NL] | Cr \<Rightarrow> [CR] | Mixed \<Rightarrow> [NL])"

section \<open>Lines, hashes, tags\<close>

definition is_blank :: "char \<Rightarrow> bool" where
  "is_blank c \<longleftrightarrow> c = CHR '' '' \<or> c = TAB"

definition hash_line :: "(string \<Rightarrow> 32 word) \<Rightarrow> string \<Rightarrow> 8 word" where
  "hash_line crc l = ucast (and (crc (trim_matches is_blank l)) 0xff)"

definition render_hash :: "8 word \<Rightarrow> string" where
  "render_hash h = [digit_char (unat h div 16), digit_char (unat h mod 16)]"

definition is_break :: "char \<Rightarrow> bool" where
  "is_break c \<longleftrightarrow> c = NL \<or> c = CR"

lemma length_dropWhile_Cons: "dropWhile p xs = y # ys \<Longrightarrow> length ys < length xs"
  by (metis length_dropWhile_le length_Cons Suc_le_eq)

function split_lines :: "string \<Rightarrow> (string \<times> string) list" where
  "split_lines rest =
     (if rest = [] then []
      else let line = takeWhile (\<lambda>c. \<not> is_break c) rest
           in case dropWhile (\<lambda>c. \<not> is_break c) rest of
                [] \<Rightarrow> [(line, [])]
              | c # after \<Rightarrow>
                  if c = CR
                  then (case after of
                          d # after' \<Rightarrow>
                            if d = NL then (line, [CR, NL]) # split_lines after'
                            else (line, [CR]) # split_lines after
                        | [] \<Rightarrow> (line, [CR]) # split_lines [])
                  else (line, [NL]) # split_lines after)"
  by pat_completeness auto

termination
  by (relation "measure length") (auto dest!: sym [of "_ # _" "dropWhile _ _"] length_dropWhile_Cons)

declare split_lines.simps [simp del]

definition tag_line :: "(string \<Rightarrow> 32 word) \<Rightarrow> nat \<Rightarrow> string \<Rightarrow> string" where
  "tag_line crc n l = show_nat n @ '':'' @ render_hash (hash_line crc l) @ ''|'' @ l"

definition tag :: "(string \<Rightarrow> 32 word) \<Rightarrow> string \<Rightarrow> nat \<Rightarrow> string" where
  "tag crc content start =
     concat (map (\<lambda>(offset, l, t). tag_line crc (start + offset) l @ t)
       (zip [0..<length (split_lines content)] (split_lines content)))"

section \<open>Anchors\<close>

definition split_once :: "char \<Rightarrow> string \<Rightarrow> (string \<times> string) option" where
  "split_once c s =
     (if c \<in> set s then Some (takeWhile (\<lambda>x. x \<noteq> c) s, tl (dropWhile (\<lambda>x. x \<noteq> c) s)) else None)"

definition parse_anchor :: "string \<Rightarrow> (nat \<times> 8 word) option" where
  "parse_anchor s =
     (let anchor = (case split_once (CHR ''|'') s of Some (a, _) \<Rightarrow> a | None \<Rightarrow> s)
      in case split_once (CHR '':'') anchor of
           None \<Rightarrow> None
         | Some (num, hex) \<Rightarrow>
             if num = [] \<or> length hex \<noteq> 2 then None
             else case parse_usize num of
                    None \<Rightarrow> None
                  | Some n \<Rightarrow>
                      (case from_str_radix 256 16 hex of
                         None \<Rightarrow> None
                       | Some h \<Rightarrow> Some (n, of_nat h)))"

record anchor_op =
  op_line :: nat
  op_hash :: "8 word"
  op_replacement :: string

datatype hashline_error = Mismatch anchor_op string

definition proximity_window :: nat where
  "proximity_window = 50"

text \<open>The closures \<open>hash_matches\<close> and \<open>text_matches\<close>, and \<open>consider\<close> with its two
  variables.\<close>

definition hash_matches :: "(string \<Rightarrow> 32 word) \<Rightarrow> string list \<Rightarrow> 8 word \<Rightarrow> nat \<Rightarrow> bool" where
  "hash_matches crc ls h i \<longleftrightarrow> i < length ls \<and> hash_line crc (ls ! i) = h"

definition text_matches :: "string list \<Rightarrow> string option \<Rightarrow> nat \<Rightarrow> bool" where
  "text_matches ls text i \<longleftrightarrow>
     (case text of
        None \<Rightarrow> False
      | Some wanted \<Rightarrow> i < length ls \<and> trim_matches is_blank (ls ! i) = trim_matches is_blank wanted)"

definition consider_line ::
  "(string \<Rightarrow> 32 word) \<Rightarrow> string list \<Rightarrow> 8 word \<Rightarrow> string option \<Rightarrow> int
     \<Rightarrow> nat option \<times> nat option \<Rightarrow> nat option \<times> nat option" where
  "consider_line crc ls h text candidate st =
     (let (nearest_hash, nearest_text) = st; i = nat candidate
      in if candidate < 0 \<or> \<not> hash_matches crc ls h i then st
         else (if nearest_hash = None then Some i else nearest_hash,
               if nearest_text = None \<and> text_matches ls text i then Some i else nearest_text))"

definition search_order :: "nat \<Rightarrow> int list" where
  "search_order line =
     (let center = int (line - 1)
      in (if line = 0 then [] else [center])
         @ concat (map (\<lambda>d. [center + int d, center - int d]) [1..<Suc proximity_window]))"

definition resolve_index ::
  "(string \<Rightarrow> 32 word) \<Rightarrow> string list \<Rightarrow> nat \<Rightarrow> 8 word \<Rightarrow> string option \<Rightarrow> nat option" where
  "resolve_index crc ls line h text =
     (case fold (consider_line crc ls h text) (search_order line) (None, None) of
        (nearest_hash, nearest_text) \<Rightarrow> (if nearest_text \<noteq> None then nearest_text else nearest_hash))"

definition resolve_anchor_in ::
  "(string \<Rightarrow> 32 word) \<Rightarrow> string \<Rightarrow> nat \<Rightarrow> 8 word \<Rightarrow> string option \<Rightarrow> nat option" where
  "resolve_anchor_in crc content line h text =
     map_option (\<lambda>i. i + 1) (resolve_index crc (map fst (split_lines content)) line h text)"

fun spans_from :: "nat \<Rightarrow> (string \<times> string) list \<Rightarrow> (nat \<times> string) list" where
  "spans_from off [] = []"
| "spans_from off ((l, t) # ls) = (off, l) # spans_from (off + length l + length t) ls"

definition resolve_anchor_range_in ::
  "(string \<Rightarrow> 32 word) \<Rightarrow> string \<Rightarrow> nat \<Rightarrow> 8 word \<Rightarrow> string option \<Rightarrow> (nat \<times> nat) option" where
  "resolve_anchor_range_in crc content line h text =
     (let spans = spans_from 0 (split_lines content)
      in case resolve_index crc (map snd spans) line h text of
           None \<Rightarrow> None
         | Some i \<Rightarrow> (case spans ! i of (start, l) \<Rightarrow> Some (start, start + length l)))"

section \<open>Applying edits\<close>

definition unlines_with :: "(string \<times> string) list \<Rightarrow> string" where
  "unlines_with ls = concat (map (\<lambda>(l, t). l @ t) ls)"

definition resolve :: "(string \<Rightarrow> 32 word) \<Rightarrow> (string \<times> string) list \<Rightarrow> anchor_op \<Rightarrow> nat option" where
  "resolve crc ls p =
     map_option (\<lambda>line. line - 1)
       (resolve_anchor_in crc (unlines_with ls) (op_line p) (op_hash p) None)"

text \<open>The loop of \<open>apply\<close>. Indexing a line that is not there panics: the outer \<open>None\<close>.\<close>

fun apply_ops ::
  "(string \<Rightarrow> 32 word) \<Rightarrow> string \<Rightarrow> (string \<times> string) list \<Rightarrow> anchor_op list
     \<Rightarrow> (hashline_error + (string \<times> string) list) option" where
  "apply_ops crc content ls [] = Some (Inr ls)"
| "apply_ops crc content ls (p # ps) =
     (case resolve crc ls p of
        None \<Rightarrow> Some (Inl (Mismatch p (tag crc content 1)))
      | Some i \<Rightarrow>
          if i < length ls
          then apply_ops crc content (ls[i := (op_replacement p, snd (ls ! i))]) ps
          else None)"

definition apply_edits ::
  "(string \<Rightarrow> 32 word) \<Rightarrow> string \<Rightarrow> anchor_op list \<Rightarrow> (hashline_error + string) option" where
  "apply_edits crc content ops =
     (case apply_ops crc content (split_lines content) ops of
        None \<Rightarrow> None
      | Some (Inl e) \<Rightarrow> Some (Inl e)
      | Some (Inr ls) \<Rightarrow> Some (Inr (unlines_with ls)))"

section \<open>Splitting and joining lines\<close>

definition no_break :: "string \<Rightarrow> bool" where
  "no_break l \<longleftrightarrow> (\<forall>c \<in> set l. \<not> is_break c)"

lemma no_break_simps [simp]: "no_break []" "no_break (c # l) \<longleftrightarrow> \<not> is_break c \<and> no_break l"
  by (auto simp: no_break_def)

lemma take_line:
  "no_break l \<Longrightarrow> is_break c \<Longrightarrow> takeWhile (\<lambda>c. \<not> is_break c) (l @ c # s) = l"
  "no_break l \<Longrightarrow> is_break c \<Longrightarrow> dropWhile (\<lambda>c. \<not> is_break c) (l @ c # s) = c # s"
  "no_break l \<Longrightarrow> takeWhile (\<lambda>c. \<not> is_break c) l = l"
  "no_break l \<Longrightarrow> dropWhile (\<lambda>c. \<not> is_break c) l = []"
  by (induction l) auto

lemma is_break_simps [simp]: "is_break NL" "is_break CR"
  by (simp_all add: is_break_def)

lemma split_lines_Nil [simp]: "split_lines [] = []"
  by (simp add: split_lines.simps)

lemma split_lines_last: "no_break l \<Longrightarrow> l \<noteq> [] \<Longrightarrow> split_lines l = [(l, [])]"
  by (simp add: split_lines.simps take_line Let_def)

lemma split_lines_nl: "no_break l \<Longrightarrow> split_lines (l @ NL # s) = (l, [NL]) # split_lines s"
  by (subst split_lines.simps) (simp add: take_line Let_def)

lemma split_lines_crlf: "no_break l \<Longrightarrow> split_lines (l @ CR # NL # s) = (l, [CR, NL]) # split_lines s"
  by (subst split_lines.simps) (simp add: take_line Let_def)

lemma split_lines_cr:
  "no_break l \<Longrightarrow> s = [] \<or> hd s \<noteq> NL \<Longrightarrow> split_lines (l @ CR # s) = (l, [CR]) # split_lines s"
  by (subst split_lines.simps) (cases s; simp add: take_line Let_def)

text \<open>Every text is one of the four shapes; the induction follows the code's loop.\<close>

lemma break_cases:
  obtains (empty) "s = []" | (final) "no_break s" "s \<noteq> []"
  | (nl) l r where "s = l @ NL # r" "no_break l"
  | (crlf) l r where "s = l @ CR # NL # r" "no_break l"
  | (cr) l r where "s = l @ CR # r" "no_break l" "r = [] \<or> hd r \<noteq> NL"
proof -
  let ?l = "takeWhile (\<lambda>c. \<not> is_break c) s" and ?d = "dropWhile (\<lambda>c. \<not> is_break c) s"
  have l: "no_break ?l" by (auto simp: no_break_def dest: set_takeWhileD)
  have s: "s = ?l @ ?d" by simp
  show thesis
  proof (cases ?d)
    case Nil
    then have "no_break s" using l s by (metis append_Nil2)
    then show thesis using empty final by blast
  next
    case (Cons c r)
    then have "is_break c" by (metis dropWhile_eq_Cons_conv)
    then consider "c = NL" | "c = CR" "r \<noteq> [] \<and> hd r = NL" | "c = CR" "r = [] \<or> hd r \<noteq> NL"
      by (auto simp: is_break_def)
    then show thesis
    proof cases
      case 2
      then obtain r' where "r = NL # r'" by (cases r) auto
      then show thesis using 2 crlf l s Cons by metis
    qed (use nl cr l s Cons in metis)+
  qed
qed

lemma split_lines_induct [case_names empty final nl crlf cr]:
  assumes "P []" and "\<And>l. no_break l \<Longrightarrow> l \<noteq> [] \<Longrightarrow> P l"
    and "\<And>l r. no_break l \<Longrightarrow> P r \<Longrightarrow> P (l @ NL # r)"
    and "\<And>l r. no_break l \<Longrightarrow> P r \<Longrightarrow> P (l @ CR # NL # r)"
    and "\<And>l r. no_break l \<Longrightarrow> r = [] \<or> hd r \<noteq> NL \<Longrightarrow> P r \<Longrightarrow> P (l @ CR # r)"
  shows "P s"
proof (induction s rule: length_induct)
  case (1 s)
  show ?case by (cases s rule: break_cases) (use 1 assms in auto)
qed

lemma unlines_Cons [simp]: "unlines_with ((l, t) # ls) = l @ t @ unlines_with ls" "unlines_with [] = []"
  by (simp_all add: unlines_with_def)

lemma unlines_split: "unlines_with (split_lines s) = s"
  by (induction s rule: split_lines_induct)
     (simp_all add: split_lines_last split_lines_nl split_lines_crlf split_lines_cr)

text \<open>The lists of lines that \<open>split_lines\<close> produces.\<close>

fun wf_lines :: "(string \<times> string) list \<Rightarrow> bool" where
  "wf_lines [] \<longleftrightarrow> True"
| "wf_lines [(l, t)] \<longleftrightarrow> no_break l \<and> t \<in> {[], [NL], [CR], [CR, NL]} \<and> (t = [] \<longrightarrow> l \<noteq> [])"
| "wf_lines ((l, t) # (l', t') # ls) \<longleftrightarrow>
     no_break l \<and> t \<in> {[NL], [CR], [CR, NL]} \<and> \<not> (t = [CR] \<and> l' = [] \<and> t' = [NL]) \<and>
     wf_lines ((l', t') # ls)"

lemma hd_unlines:
  "wf_lines ((l', t') # ls) \<Longrightarrow> \<not> (l' = [] \<and> t' = [NL])
     \<Longrightarrow> unlines_with ((l', t') # ls) \<noteq> [] \<and> hd (unlines_with ((l', t') # ls)) \<noteq> NL"
  by (cases l'; cases ls) (auto simp: is_break_def)

lemma split_unlines: "wf_lines ls \<Longrightarrow> split_lines (unlines_with ls) = ls"
proof (induction ls rule: wf_lines.induct)
  case (2 l t)
  then show ?case
    using split_lines_nl [of l "[]"] split_lines_crlf [of l "[]"] split_lines_cr [of l "[]"] split_lines_last [of l]
    by auto
next
  case (3 l t l' t' ls)
  let ?r = "unlines_with ((l', t') # ls)"
  have wf: "wf_lines ((l', t') # ls)" "no_break l" and ih: "split_lines ?r = (l', t') # ls"
    using 3 by auto
  consider "t = [NL]" | "t = [CR, NL]" | "t = [CR]" "\<not> (l' = [] \<and> t' = [NL])" using 3(2) by auto
  then show ?case
  proof cases
    case 1 then show ?thesis using split_lines_nl [OF wf(2), of ?r] ih by simp
  next
    case 2 then show ?thesis using split_lines_crlf [OF wf(2), of ?r] ih by simp
  next
    case 3
    then show ?thesis using split_lines_cr [OF wf(2), of ?r] hd_unlines [OF wf(1)] ih by simp
  qed
qed simp

lemma wf_lines_Cons:
  "no_break l \<Longrightarrow> t \<in> {[NL], [CR], [CR, NL]} \<Longrightarrow> wf_lines ls
     \<Longrightarrow> (t = [CR] \<Longrightarrow> ls = [] \<or> \<not> (fst (hd ls) = [] \<and> snd (hd ls) = [NL])) \<Longrightarrow> wf_lines ((l, t) # ls)"
  by (cases ls) auto

lemma wf_split_lines: "wf_lines (split_lines s)"
proof (induction s rule: split_lines_induct)
  case (cr l r)
  have "split_lines r = [] \<or> \<not> (fst (hd (split_lines r)) = [] \<and> snd (hd (split_lines r)) = [NL])"
  proof (cases "split_lines r")
    case (Cons a ls)
    then have "unlines_with (a # ls) = r" using unlines_split [of r] by simp
    then show ?thesis using cr(2) Cons by (cases a) auto
  qed simp
  then show ?case using cr by (simp add: split_lines_cr wf_lines_Cons)
qed (auto simp: split_lines_last split_lines_nl split_lines_crlf intro!: wf_lines_Cons)

lemma wf_lines_iff:
  "wf_lines ((l, t) # ls) \<longleftrightarrow>
     no_break l \<and> wf_lines ls \<and>
     (if ls = [] then t \<in> {[], [NL], [CR], [CR, NL]} \<and> (t = [] \<longrightarrow> l \<noteq> [])
      else t \<in> {[NL], [CR], [CR, NL]} \<and> \<not> (t = [CR] \<and> hd ls = ([], [NL])))"
  by (cases ls) auto

lemma wf_lines_update:
  "wf_lines ls \<Longrightarrow> no_break r \<Longrightarrow> r \<noteq> [] \<Longrightarrow> wf_lines (ls[i := (r, snd (ls ! i))])"
proof (induction ls arbitrary: i)
  case (Cons a ls)
  obtain l t where a: "a = (l, t)" by (cases a)
  show ?case
  proof (cases i)
    case 0
    then show ?thesis using Cons.prems by (simp add: a wf_lines_iff split: if_splits)
  next
    case (Suc j)
    have "hd (ls[j := (r, snd (ls ! j))]) = ([], [NL]) \<Longrightarrow> ls \<noteq> [] \<Longrightarrow> hd ls = ([], [NL])"
      using Cons.prems(3) by (cases ls; cases j) auto
    then show ?thesis
      using Cons.prems Cons.IH [of j] by (auto simp: a Suc wf_lines_iff split: if_splits)
  qed
qed simp

section \<open>The search\<close>

definition first_of :: "(nat \<Rightarrow> bool) \<Rightarrow> int list \<Rightarrow> nat option" where
  "first_of P cs = map_option nat (find (\<lambda>c. 0 \<le> c \<and> P (nat c)) cs)"

lemma fold_consider:
  "fold (consider_line crc ls h text) cs (a, b) =
     (if a \<noteq> None then a else first_of (hash_matches crc ls h) cs,
      if b \<noteq> None then b else first_of (\<lambda>i. hash_matches crc ls h i \<and> text_matches ls text i) cs)"
  by (induction cs arbitrary: a b) (auto simp: first_of_def consider_line_def Let_def)

lemma resolve_index_eq:
  "resolve_index crc ls line h text =
     (case first_of (\<lambda>i. hash_matches crc ls h i \<and> text_matches ls text i) (search_order line) of
        Some i \<Rightarrow> Some i
      | None \<Rightarrow> first_of (hash_matches crc ls h) (search_order line))"
  by (auto simp: resolve_index_def fold_consider split: option.split)

lemma first_of_Some: "first_of P cs = Some i \<Longrightarrow> P i \<and> int i \<in> set cs"
  by (auto simp: first_of_def dest!: find_SomeD)

lemma first_of_None: "first_of P cs = None \<longleftrightarrow> (\<forall>i. int i \<in> set cs \<longrightarrow> \<not> P i)"
  by (auto simp: first_of_def find_None_conv)

text \<open>The order of the search: by distance from the line, the later line first.\<close>

definition visit :: "int \<Rightarrow> int \<Rightarrow> int" where
  "visit center c = (if c \<le> center then 2 * (center - c) else 2 * (c - center) - 1)"

lemma search_sorted:
  "sorted_wrt (\<lambda>a b. visit center a < visit center b)
     (concat (map (\<lambda>d. [center + int d, center - int d]) [1..<Suc n]))"
  by (induction n) (auto simp: sorted_wrt_append visit_def)

lemma search_order_sorted:
  "0 < line \<Longrightarrow> sorted_wrt (\<lambda>a b. visit (int (line - 1)) a < visit (int (line - 1)) b) (search_order line)"
  using search_sorted [of "int (line - 1)" proximity_window]
  by (auto simp: search_order_def Let_def visit_def)

lemma set_search_order_upto:
  "c \<in> set (concat (map (\<lambda>d. [x + int d, x - int d]) [1..<Suc n])) \<longleftrightarrow> c \<noteq> x \<and> \<bar>c - x\<bar> \<le> int n"
  by (induction n) auto

lemma set_search_order:
  "0 < line \<Longrightarrow> c \<in> set (search_order line) \<longleftrightarrow> \<bar>c - int (line - 1)\<bar> \<le> int proximity_window"
  unfolding search_order_def Let_def set_append Un_iff set_search_order_upto by auto

lemma find_least:
  "sorted_wrt (\<lambda>a b. f a < f b) cs \<Longrightarrow> find P cs = Some c \<Longrightarrow> c' \<in> set cs \<Longrightarrow> P c' \<Longrightarrow> c' \<noteq> c
     \<Longrightarrow> f c < (f c' :: int)"
  by (induction cs) (auto split: if_splits dest!: find_SomeD)

lemma first_of_least:
  assumes "0 < line" "first_of P (search_order line) = Some i" "P j" "j \<noteq> i"
    "\<bar>int j - int (line - 1)\<bar> \<le> int proximity_window"
  shows "visit (int (line - 1)) (int i) < visit (int (line - 1)) (int j)"
proof -
  obtain c where c: "find (\<lambda>c. 0 \<le> c \<and> P (nat c)) (search_order line) = Some c" "i = nat c"
    using assms(2) by (auto simp: first_of_def)
  have i: "c = int i" using find_SomeD [OF c(1)] c(2) by auto
  have j: "int j \<in> set (search_order line)" using set_search_order assms(1,5) by blast
  show ?thesis
    using find_least [OF search_order_sorted [OF assms(1)] c(1) j] assms(3,4) unfolding i by simp
qed

lemma resolve_index_sound:
  "resolve_index crc ls line h text = Some i \<Longrightarrow> i < length ls \<and> hash_line crc (ls ! i) = h"
  by (auto simp: resolve_index_eq hash_matches_def dest!: first_of_Some split: option.splits)

section \<open>Correctness of anchors\<close>

text \<open>Resolving an anchor with a line number of at least 1 returns a line within the
  window of 50 whose hash is the anchor's, and fails exactly when there is none. If a text is
  given and some such line also has that text up to blanks, one of those is returned. Among
  the candidates the nearest is taken, and the later of two equally near.\<close>

lemma resolve_nearest:
  assumes "0 < line"
    and "W = {i. hash_matches crc ls h i \<and> \<bar>int i - int (line - 1)\<bar> \<le> 50}"
    and "T = {i \<in> W. text_matches ls text i}"
  shows "(case resolve_index crc ls line h text of
      None \<Rightarrow> W = {}
    | Some i \<Rightarrow> i \<in> (if T = {} then W else T) \<and>
        (\<forall>j \<in> (if T = {} then W else T). j \<noteq> i \<longrightarrow>
           \<bar>int i - int (line - 1)\<bar> < \<bar>int j - int (line - 1)\<bar> \<or>
           \<bar>int i - int (line - 1)\<bar> = \<bar>int j - int (line - 1)\<bar> \<and> j < i))"
proof -
  let ?M = "hash_matches crc ls h" and ?T = "\<lambda>i. hash_matches crc ls h i \<and> text_matches ls text i"
  let ?so = "search_order line"
  have in_so: "int i \<in> set ?so \<longleftrightarrow> \<bar>int i - int (line - 1)\<bar> \<le> 50" for i
    using set_search_order [OF assms(1)] by (simp add: proximity_window_def)
  have W: "W = {i. ?M i \<and> int i \<in> set ?so}" and T: "T = {i. ?T i \<and> int i \<in> set ?so}"
    using assms(2,3) by (auto simp: in_so)
  have near: "\<bar>int i - c\<bar> < \<bar>int j - c\<bar> \<or> \<bar>int i - c\<bar> = \<bar>int j - c\<bar> \<and> j < i"
    if "visit c (int i) < visit c (int j)" for i j c
    using that by (auto simp: visit_def split: if_splits)
  have least: "\<forall>j \<in> {i. P i \<and> int i \<in> set ?so}. j \<noteq> i \<longrightarrow>
           \<bar>int i - int (line - 1)\<bar> < \<bar>int j - int (line - 1)\<bar> \<or>
           \<bar>int i - int (line - 1)\<bar> = \<bar>int j - int (line - 1)\<bar> \<and> j < i"
    if "first_of P ?so = Some i" for P i
    using first_of_least [OF assms(1) that] near set_search_order [OF assms(1)] by blast
  show ?thesis
  proof (cases "first_of ?T ?so")
    case (Some i)
    then have r: "resolve_index crc ls line h text = Some i" by (simp add: resolve_index_eq)
    have "i \<in> T" using first_of_Some [OF Some] unfolding T by blast
    then show ?thesis using least [OF Some] r unfolding T by auto
  next
    case None
    then have "T = {}" and r: "resolve_index crc ls line h text = first_of ?M ?so"
      using first_of_None [of ?T ?so] unfolding T by (auto simp: resolve_index_eq)
    show ?thesis
    proof (cases "first_of ?M ?so")
      case None
      then show ?thesis using r first_of_None [of ?M ?so] unfolding W by auto
    next
      case (Some i)
      then show ?thesis using least [OF Some] first_of_Some [OF Some] r \<open>T = {}\<close> unfolding W by auto
    qed
  qed
qed

text \<open>A checksum for the examples: the sum of the bytes.\<close>

definition byte_sum :: "string \<Rightarrow> 32 word" where
  "byte_sum s = of_nat (sum_list (map of_char s))"

end
