(* ===== verification/Hashline_Edits.thy ===== *)
theory Hashline_Edits
  imports Hashline
begin

text \<open>
  What the anchors of \<open>tag\<close> promise to the edits that quote them: a fresh anchor resolves to
  its own line, its byte range is that line, and \<open>apply\<close> replaces whole lines only.
\<close>

section \<open>Fresh anchors\<close>

lemma split_once_append: "c \<notin> set a \<Longrightarrow> split_once c (a @ c # s) = Some (a, s)"
proof -
  assume "c \<notin> set a"
  then have "takeWhile (\<lambda>x. x \<noteq> c) (a @ c # s) = a" "dropWhile (\<lambda>x. x \<noteq> c) (a @ c # s) = c # s"
    by (induction a) auto
  then show ?thesis by (simp add: split_once_def)
qed

lemma digit_not_sep:
  "d < 36 \<Longrightarrow> digit_char d \<noteq> CHR '':''" "d < 36 \<Longrightarrow> digit_char d \<noteq> CHR ''|''"
  "d < 36 \<Longrightarrow> digit_char d \<noteq> CHR ''+''"
  using digit_char_neq [of d] by auto

lemma show_nat_no_sep: "CHR '':'' \<notin> set (show_nat n)" "CHR ''|'' \<notin> set (show_nat n)"
  using show_digits_chars [of 10 "CHR '':''" n] show_digits_chars [of 10 "CHR ''|''" n]
  by (auto simp: show_nat_def)

lemma unat_byte: "unat (h :: 8 word) < 256"
  by (rule order_less_le_trans [OF unsigned_less]) simp

lemma parse_render_hash: "from_str_radix 256 16 (render_hash h) = Some (unat h)"
proof -
  have d: "unat h div 16 < 16" "unat h mod 16 < 16" using unat_byte [of h] by auto
  have "unat h div 16 * 16 + unat h mod 16 = unat h" by simp
  then show ?thesis
    using d digit_not_sep [of "unat h div 16"] unat_byte [of h]
    by (simp add: from_str_radix_def render_hash_def digit_value_char)
qed

lemma render_hash_no_sep: "CHR ''|'' \<notin> set (render_hash h)" "length (render_hash h) = 2"
proof -
  have d: "unat h div 16 < 36" "unat h mod 16 < 36" using unat_byte [of h] by auto
  show "CHR ''|'' \<notin> set (render_hash h)" "length (render_hash h) = 2"
    using digit_not_sep(2) [OF d(1)] digit_not_sep(2) [OF d(2)] by (auto simp: render_hash_def)
qed

lemma parse_tag_line: "n < 2 ^ 64 \<Longrightarrow> parse_anchor (tag_line crc n l) = Some (n, hash_line crc l)"
proof -
  assume "n < 2 ^ 64"
  moreover have "split_once (CHR ''|'') (tag_line crc n l)
      = Some (show_nat n @ CHR '':'' # render_hash (hash_line crc l), l)"
    using split_once_append [of "CHR ''|''" "show_nat n @ CHR '':'' # render_hash (hash_line crc l)" l]
      show_nat_no_sep(2) [of n] render_hash_no_sep
    by (simp add: tag_line_def)
  moreover have "split_once (CHR '':'') (show_nat n @ CHR '':'' # render_hash (hash_line crc l))
      = Some (show_nat n, render_hash (hash_line crc l))"
    using split_once_append show_nat_no_sep(1) by blast
  ultimately show ?thesis
    using parse_show_nat [of n] parse_render_hash [of "hash_line crc l"] render_hash_no_sep(2)
    by (simp add: parse_anchor_def show_nat_def)
qed

lemma resolve_own_line:
  assumes "i < length ls" and "text \<in> {None, Some (ls ! i)}"
  shows "resolve_index crc ls (i + 1) (hash_line crc (ls ! i)) text = Some i"
proof -
  obtain cs where so: "search_order (Suc i) = int i # cs"
    by (auto simp: search_order_def Let_def)
  have m: "hash_matches crc ls (hash_line crc (ls ! i)) i" using assms(1) by (simp add: hash_matches_def)
  show ?thesis
  proof (cases "text")
    case None
    then have "first_of (\<lambda>j. hash_matches crc ls h j \<and> text_matches ls text j) cs = None" for h cs
      by (simp add: first_of_None text_matches_def)
    then show ?thesis using m by (simp add: resolve_index_eq so first_of_def)
  next
    case (Some t)
    then have "text_matches ls text i" using assms by (simp add: text_matches_def)
    then show ?thesis using m by (simp add: resolve_index_eq so first_of_def)
  qed
qed

text \<open>C8. The anchor that \<open>tag\<close> prints in front of a line parses to that line's number
  and hash, and resolves, in the same content, to that very line, whether the caller passes no
  text or the line's own text.\<close>

theorem fresh_anchor_resolves:
  assumes "i < length (split_lines content)" and "i + 1 < 2 ^ 64"
    and "l = fst (split_lines content ! i)" and "text \<in> {None, Some l}"
  shows "\<exists>n h. parse_anchor (tag_line crc (i + 1) l) = Some (n, h)
    \<and> resolve_anchor_in crc content n h text = Some (i + 1)"
proof -
  have "resolve_index crc (map fst (split_lines content)) (i + 1) (hash_line crc l) text = Some i"
    using resolve_own_line [of i "map fst (split_lines content)" "text" crc] assms by simp
  then have "resolve_anchor_in crc content (i + 1) (hash_line crc l) text = Some (i + 1)"
    by (simp add: resolve_anchor_in_def)
  with parse_tag_line [OF assms(2)] show ?thesis by blast
qed

theorem fresh_anchor_resolves_witness:
  "split_lines [CHR ''a'', NL, CHR ''b'', CR, NL, CHR ''c''] ! 1 = (''b'', [CR, NL])
   \<and> tag_line byte_sum 2 ''b'' = ''2:62|b''
   \<and> (\<exists>n h. parse_anchor ''2:62|b'' = Some (n, h)
        \<and> resolve_anchor_in byte_sum [CHR ''a'', NL, CHR ''b'', CR, NL, CHR ''c''] n h None = Some 2)"
proof -
  let ?c = "[CHR ''a'', NL, CHR ''b'', CR, NL, CHR ''c'']"
  have s: "split_lines ?c = [(''a'', [NL]), (''b'', [CR, NL]), (''c'', [])]" by code_simp
  have t: "tag_line byte_sum 2 ''b'' = ''2:62|b''" by code_simp
  have l: "''b'' = fst (split_lines ?c ! 1)" "1 < length (split_lines ?c)" by (simp_all add: s)
  have "\<exists>n h. parse_anchor (tag_line byte_sum (1 + 1) ''b'') = Some (n, h)
      \<and> resolve_anchor_in byte_sum ?c n h None = Some (1 + 1)"
    by (rule fresh_anchor_resolves [OF l(2) _ l(1)]) simp_all
  then show ?thesis unfolding one_add_one t using s by simp
qed

section \<open>Byte ranges\<close>

lemma map_snd_spans: "map snd (spans_from off ls) = map fst ls"
  by (induction off ls rule: spans_from.induct) simp_all

lemma nth_spans:
  "i < length ls \<Longrightarrow> spans_from off ls ! i = (off + length (unlines_with (take i ls)), fst (ls ! i))"
proof (induction off ls arbitrary: i rule: spans_from.induct)
  case (2 off l t ls)
  then show ?case by (cases i) auto
qed simp

lemma unlines_at:
  "i < length ls \<Longrightarrow>
     unlines_with ls = unlines_with (take i ls) @ fst (ls ! i) @ snd (ls ! i) @ unlines_with (drop (Suc i) ls)"
proof (induction ls arbitrary: i)
  case (Cons a ls)
  then show ?case by (cases i; cases a) auto
qed simp

text \<open>The byte range of an anchor exists exactly when the anchor resolves, and the bytes
  of the content in that range are exactly the resolved line, without its terminator.\<close>

lemma anchor_range_is_line:
  "(case (resolve_anchor_in crc content line h wanted, resolve_anchor_range_in crc content line h wanted) of
      (Some n, Some (a, b)) \<Rightarrow>
        1 \<le> n \<and> n \<le> length (split_lines content) \<and> a \<le> b \<and> b \<le> length content
        \<and> take (b - a) (drop a content) = fst (split_lines content ! (n - 1))
        \<and> length (unlines_with (take (n - 1) (split_lines content))) = a
    | (None, None) \<Rightarrow> True
    | _ \<Rightarrow> False)"
proof -
  let ?ls = "split_lines content"
  show ?thesis
  proof (cases "resolve_index crc (map fst ?ls) line h wanted")
    case None
    then show ?thesis
      by (simp add: resolve_anchor_in_def resolve_anchor_range_in_def map_snd_spans)
  next
    case (Some i)
    then have i: "i < length ?ls" using resolve_index_sound [OF Some] by simp
    let ?a = "length (unlines_with (take i ?ls))"
    have c: "content = unlines_with (take i ?ls) @ fst (?ls ! i) @ snd (?ls ! i) @ unlines_with (drop (Suc i) ?ls)"
      using unlines_at [OF i] by (simp add: unlines_split)
    have "take (length (fst (?ls ! i))) (drop ?a content) = fst (?ls ! i)" by (subst c) simp
    moreover have "?a + length (fst (?ls ! i)) \<le> length content" by (subst c) simp
    ultimately show ?thesis
      using i Some
      by (simp add: resolve_anchor_in_def resolve_anchor_range_in_def map_snd_spans nth_spans)
  qed
qed

section \<open>Applying edits\<close>

definition good_op :: "anchor_op \<Rightarrow> bool" where
  "good_op p \<longleftrightarrow> op_replacement p \<noteq> [] \<and> no_break (op_replacement p)"

lemma resolve_bound: "wf_lines ls \<Longrightarrow> resolve crc ls p = Some i \<Longrightarrow> i < length ls"
  by (auto simp: resolve_def resolve_anchor_in_def split_unlines dest!: resolve_index_sound)

lemma resolve_wf:
  "wf_lines ls \<Longrightarrow> resolve crc ls p = resolve_index crc (map fst ls) (op_line p) (op_hash p) None"
  by (simp add: resolve_def resolve_anchor_in_def split_unlines option.map_comp o_def option.map_ident)

text \<open>What a run of \<open>apply\<close> does: each operation in turn replaces the line its anchor resolves
  to among the lines as they are by then.\<close>

inductive edit_run :: "(string \<Rightarrow> 32 word) \<Rightarrow> (string \<times> string) list \<Rightarrow> anchor_op list \<Rightarrow> (string \<times> string) list \<Rightarrow> bool"
  for crc where
  finish: "edit_run crc ls [] ls"
| step: "resolve_index crc (map fst ls) (op_line p) (op_hash p) None = Some i \<Longrightarrow> i < length ls
     \<Longrightarrow> edit_run crc (ls[i := (op_replacement p, snd (ls ! i))]) ps ls' \<Longrightarrow> edit_run crc ls (p # ps) ls'"

inductive_cases edit_run_ConsE: "edit_run crc ls (p # ps) ls'"
inductive_simps edit_run_Nil: "edit_run crc ls [] ls'"

lemma edit_run_terminators: "edit_run crc ls ps ls' \<Longrightarrow> map snd ls' = map snd ls"
proof (induction rule: edit_run.induct)
  case (step ls p i ps ls')
  have "map snd (ls[i := (op_replacement p, snd (ls ! i))]) = map snd ls"
    by (simp add: map_update list_update_same_conv step(2))
  then show ?case using step(4) by simp
qed simp

lemma edit_run_lines:
  "edit_run crc ls ps ls' \<Longrightarrow> k < length ls
     \<Longrightarrow> fst (ls' ! k) = fst (ls ! k) \<or> fst (ls' ! k) \<in> op_replacement ` set ps"
  by (induction arbitrary: k rule: edit_run.induct) (fastforce simp: nth_list_update split: if_splits)+

lemma apply_ops_run:
  assumes "wf_lines ls" and "\<forall>p \<in> set ps. good_op p"
  shows "(case apply_ops crc content ls ps of
      None \<Rightarrow> False
    | Some (Inr ls') \<Rightarrow> edit_run crc ls ps ls'
    | Some (Inl (Mismatch p retagged)) \<Rightarrow>
        retagged = tag crc content 1
        \<and> (\<exists>before after ls'. ps = before @ p # after \<and> edit_run crc ls before ls'
             \<and> resolve_index crc (map fst ls') (op_line p) (op_hash p) None = None))"
  using assms
proof (induction ps arbitrary: ls)
  case Nil
  then show ?case by (simp add: edit_run.intros)
next
  case (Cons p ps)
  show ?case
  proof (cases "resolve_index crc (map fst ls) (op_line p) (op_hash p) None")
    case None
    then show ?thesis using Cons.prems(1)
      by (fastforce simp: resolve_wf intro: edit_run.finish)
  next
    case (Some i)
    let ?ls = "ls[i := (op_replacement p, snd (ls ! i))]"
    have i: "resolve crc ls p = Some i" "i < length ls"
      using Some resolve_wf [OF Cons.prems(1)] resolve_bound [OF Cons.prems(1)] by auto
    have "wf_lines ?ls" using Cons.prems by (auto simp: good_op_def intro: wf_lines_update)
    from Cons.IH [OF this] have ih: "(case apply_ops crc content ?ls ps of
        None \<Rightarrow> False
      | Some (Inr ls') \<Rightarrow> edit_run crc ?ls ps ls'
      | Some (Inl (Mismatch p retagged)) \<Rightarrow>
          retagged = tag crc content 1
          \<and> (\<exists>before after ls'. ps = before @ p # after \<and> edit_run crc ?ls before ls'
               \<and> resolve_index crc (map fst ls') (op_line p) (op_hash p) None = None))"
      using Cons.prems(2) by simp
    have cons: "edit_run crc ls (p # qs) ls'" if "edit_run crc ?ls qs ls'" for qs ls'
      using edit_run.step [OF Some i(2) that] .
    show ?thesis using ih i
      by (auto split: option.splits sum.splits hashline_error.splits)
         (metis append_Cons cons)+
  qed
qed

text \<open>C9. Replacements that are not empty and hold no line break: \<open>apply\<close> never panics; when it
  succeeds, every operation in turn replaced the line its anchor resolves to, each line keeps
  its terminator (so CRLF files stay CRLF) and is either untouched or one of the replacements;
  when it fails, it reports the first operation whose anchor resolves nowhere, with the
  original content tagged afresh.\<close>

theorem apply_edits_correct:
  assumes "\<forall>p \<in> set ops. good_op p"
  shows "(case apply_edits crc content ops of
      None \<Rightarrow> False
    | Some (Inr out) \<Rightarrow>
        edit_run crc (split_lines content) ops (split_lines out)
        \<and> map snd (split_lines out) = map snd (split_lines content)
        \<and> (\<forall>k < length (split_lines content).
             fst (split_lines out ! k) = fst (split_lines content ! k)
             \<or> fst (split_lines out ! k) \<in> op_replacement ` set ops)
    | Some (Inl (Mismatch p retagged)) \<Rightarrow>
        retagged = tag crc content 1
        \<and> (\<exists>before after ls. ops = before @ p # after \<and> edit_run crc (split_lines content) before ls
             \<and> resolve_index crc (map fst ls) (op_line p) (op_hash p) None = None))"
proof -
  have wf: "wf_lines ls'" if "edit_run crc ls ps ls'" "wf_lines ls" "\<forall>p \<in> set ps. good_op p" for ls ps ls'
    using that by (induction rule: edit_run.induct) (auto simp: good_op_def intro: wf_lines_update)
  from apply_ops_run [OF wf_split_lines assms, of crc content content] show ?thesis
    using wf [OF _ wf_split_lines assms] edit_run_terminators edit_run_lines
    by (auto simp: apply_edits_def split_unlines split: option.splits sum.splits hashline_error.splits)
qed

theorem apply_edits_correct_witness:
  "apply_edits byte_sum [CHR ''a'', CR, NL, CHR ''b''] [\<lparr>op_line = 1, op_hash = 0x61, op_replacement = ''x''\<rparr>]
     = Some (Inr [CHR ''x'', CR, NL, CHR ''b''])
   \<and> map snd (split_lines [CHR ''x'', CR, NL, CHR ''b'']) = map snd (split_lines [CHR ''a'', CR, NL, CHR ''b''])"
proof -
  let ?c = "[CHR ''a'', CR, NL, CHR ''b'']" and ?p = "\<lparr>op_line = 1, op_hash = 0x61, op_replacement = ''x''\<rparr>"
  have e: "apply_edits byte_sum ?c [?p] = Some (Inr [CHR ''x'', CR, NL, CHR ''b''])" by code_simp
  have g: "\<forall>p \<in> set [?p]. good_op p" by (simp add: good_op_def is_break_def)
  show ?thesis using apply_edits_correct [OF g, of byte_sum ?c] e by simp
qed

text \<open>A replacement of two lines is put back as one element: the next operation counts
  the lines of the text, indexes the elements, and panics.\<close>

lemma multi_line_replacement_panics:
  "apply_edits byte_sum ''a''
     [\<lparr>op_line = 1, op_hash = 0x61, op_replacement = [CHR ''x'', NL, CHR ''y'']\<rparr>,
      \<lparr>op_line = 2, op_hash = 0x79, op_replacement = ''z''\<rparr>] = None"
  by code_simp

text \<open>An anchor with line 0 is searched from line 2 on: the first line is never tried.\<close>

lemma line_zero_skips_first_line:
  "resolve_anchor_in byte_sum ''a'' 0 (hash_line byte_sum ''a'') None = None"
  by code_simp

section \<open>Detecting the line ending\<close>

lemma count_crlf_no_break: "no_break l \<Longrightarrow> count_crlf (l @ s) = count_crlf s"
proof (induction l)
  case (Cons c l)
  then show ?case by (cases "l @ s") (auto simp: is_break_def)
qed simp

lemma count_list_no_break: "no_break l \<Longrightarrow> count_list l NL = 0 \<and> count_list l CR = 0"
  by (induction l) (auto simp: is_break_def)

lemma count_crlf_cr: "s = [] \<or> hd s \<noteq> NL \<Longrightarrow> count_crlf (CR # s) = count_crlf s"
  by (cases s) auto

lemma count_crlf_nl: "count_crlf (NL # s) = count_crlf s"
  by (cases s) auto

lemma count_split:
  "count_crlf s = count_list (map snd (split_lines s)) [CR, NL]
   \<and> count_list s NL = count_list (map snd (split_lines s)) [NL] + count_crlf s
   \<and> count_list s CR = count_list (map snd (split_lines s)) [CR] + count_crlf s"
  by (induction s rule: split_lines_induct)
     (auto simp: split_lines_last split_lines_nl split_lines_crlf split_lines_cr count_crlf_no_break
       count_list_no_break count_crlf_cr count_crlf_nl
       count_crlf_no_break [of _ "[]", simplified])

lemma detect_cases:
  assumes "x \<noteq> y" "x \<noteq> z" "y \<noteq> z" and "T \<subseteq> {x, z, y}"
  shows "(case (x \<in> T, z \<in> T, y \<in> T) of
           (False, False, False) \<Rightarrow> Lf | (True, False, False) \<Rightarrow> Lf | (False, True, False) \<Rightarrow> CrLf
         | (False, False, True) \<Rightarrow> Cr | _ \<Rightarrow> Mixed)
     = (if T = {} then Lf else if T = {x} then Lf else if T = {z} then CrLf else if T = {y} then Cr else Mixed)"
proof -
  have "T \<in> Pow {x, z, y}" using assms(4) by blast
  then consider "T = {}" | "T = {x}" | "T = {z}" | "T = {y}" | "T = {x, z}" | "T = {x, y}"
    | "T = {z, y}" | "T = {x, z, y}"
    unfolding Pow_insert by auto
  then show ?thesis by cases (use assms(1-3) in \<open>simp_all add: doubleton_eq_iff insert_eq_iff\<close>)
qed

text \<open>\<open>LineEnding::detect\<close> agrees with the terminators that \<open>split_lines\<close> finds: it names
  the one terminator that occurs, \<open>Lf\<close> when there is none, and \<open>Mixed\<close> exactly when two
  different ones occur.\<close>

theorem detect_terminators:
  "detect content =
     (let T = set (map snd (split_lines content)) - {[]}
      in if T = {} then Lf else if T = {[NL]} then Lf else if T = {[CR, NL]} then CrLf
         else if T = {[CR]} then Cr else Mixed)"
proof -
  let ?t = "map snd (split_lines content)"
  have "wf_lines ls \<Longrightarrow> set (map snd ls) \<subseteq> {[], [NL], [CR], [CR, NL]}" for ls
    by (induction ls rule: wf_lines.induct) auto
  then have sub: "set ?t - {[]} \<subseteq> {[NL], [CR, NL], [CR]}" using wf_split_lines by blast
  have c: "0 < count_list ?t x \<longleftrightarrow> x \<in> set ?t - {[]}" if "x \<noteq> []" for x
    using that by (metis Diff_iff count_list_0_iff gr0I less_numeral_extra(3) singletonD)
  have d: "detect content = (case (0 < count_list ?t [NL], 0 < count_list ?t [CR, NL], 0 < count_list ?t [CR]) of
           (False, False, False) \<Rightarrow> Lf | (True, False, False) \<Rightarrow> Lf | (False, True, False) \<Rightarrow> CrLf
         | (False, False, True) \<Rightarrow> Cr | _ \<Rightarrow> Mixed)"
    using count_split [of content] unfolding detect_def Let_def by simp
  have neq: "[NL] \<noteq> [CR]" "[NL] \<noteq> [CR, NL]" "[CR] \<noteq> [CR, NL]" by auto
  show ?thesis
    unfolding d c [OF not_Cons_self2] Let_def using detect_cases [OF neq sub] by (simp add: c)
qed

end
