(* ===== verification/Entity.thy ===== *)
theory Entity
  imports Json
begin

text \<open>
  Entities, the bags of named fields that the kanban board keeps for tasks, columns, tags and
  projects: \<open>swissarmyhammer-entity/src/entity.rs\<close>. The \<open>HashMap\<close> of fields is a map.
\<close>

datatype entity_location = LiveLocation | ArchiveLocation | TrashLocation

record entity =
  entity_type :: string
  entity_id :: string
  field_values :: "string \<Rightarrow> json option"
  location :: entity_location

definition new_entity :: "string \<Rightarrow> string \<Rightarrow> entity" where
  "new_entity ty i = \<lparr>entity_type = ty, entity_id = i, field_values = Map.empty, location = LiveLocation\<rparr>"

definition moniker :: "entity \<Rightarrow> string" where
  "moniker e =
     (case location e of
        LiveLocation \<Rightarrow> entity_type e @ '':'' @ entity_id e
      | ArchiveLocation \<Rightarrow> entity_type e @ '':'' @ entity_id e @ '':archive''
      | TrashLocation \<Rightarrow> entity_type e @ '':'' @ entity_id e @ '':trash'')"

definition get_field :: "entity \<Rightarrow> string \<Rightarrow> json option" where
  "get_field e k = field_values e k"

definition get_str :: "entity \<Rightarrow> string \<Rightarrow> string option" where
  "get_str e k = Option.bind (field_values e k) json_str"

definition get_bool :: "entity \<Rightarrow> string \<Rightarrow> bool option" where
  "get_bool e k = Option.bind (field_values e k) json_bool"

definition get_string_list :: "entity \<Rightarrow> string \<Rightarrow> string list" where
  "get_string_list e k =
     (case Option.bind (field_values e k) json_array of
        None \<Rightarrow> []
      | Some arr \<Rightarrow> List.map_filter json_str arr)"

definition set_field :: "string \<Rightarrow> json \<Rightarrow> entity \<Rightarrow> entity" where
  "set_field k v e = e\<lparr>field_values := (field_values e)(k \<mapsto> v)\<rparr>"

definition remove_field :: "string \<Rightarrow> entity \<Rightarrow> entity" where
  "remove_field k e = e\<lparr>field_values := (field_values e)(k := None)\<rparr>"

named_theorems field_simps \<open>reading a field after setting one\<close>

lemma get_set [simp, field_simps]:
  "get_field (set_field k v e) k' = (if k' = k then Some v else get_field e k')"
  "get_str (set_field k v e) k' = (if k' = k then json_str v else get_str e k')"
  "get_bool (set_field k v e) k' = (if k' = k then json_bool v else get_bool e k')"
  "entity_id (set_field k v e) = entity_id e"
  "entity_type (set_field k v e) = entity_type e"
  "location (set_field k v e) = location e"
  by (simp_all add: get_field_def get_str_def get_bool_def set_field_def)

lemma map_filter_json_str [simp]: "List.map_filter json_str (map JString xs) = xs"
  by (induction xs) (simp_all add: List.map_filter_simps)

lemma get_string_list_set [simp, field_simps]:
  "k' \<noteq> k \<Longrightarrow> get_string_list (set_field k v e) k' = get_string_list e k'"
  "get_string_list (set_field k (json_strings xs) e) k = xs"
  by (simp_all add: get_string_list_def set_field_def json_strings_def)

lemma fields_set [simp]: "field_values (set_field k v e) = (field_values e)(k \<mapsto> v)"
  by (simp add: set_field_def)

lemma new_entity_simps [simp]:
  "entity_id (new_entity ty i) = i" "entity_type (new_entity ty i) = ty" "field_values (new_entity ty i) = Map.empty"
  by (simp_all add: new_entity_def)

lemma entity_eqI:
  "entity_type a = entity_type b \<Longrightarrow> entity_id a = entity_id b \<Longrightarrow> location a = location b
     \<Longrightarrow> field_values a = field_values b \<Longrightarrow> a = (b :: entity)"
  by simp

lemma set_field_commute: "k \<noteq> k' \<Longrightarrow> set_field k v (set_field k' w e) = set_field k' w (set_field k v e)"
  by (simp add: set_field_def fun_upd_twist)

text \<open>Entities are told apart by their id within their type.\<close>

definition with_id :: "string \<Rightarrow> entity list \<Rightarrow> entity option" where
  "with_id i es = find (\<lambda>e. entity_id e = i) es"

lemma with_id_Some: "with_id i es = Some e \<Longrightarrow> e \<in> set es \<and> entity_id e = i"
  unfolding with_id_def by (drule find_SomeD) simp

lemma with_id_None: "with_id i es = None \<longleftrightarrow> (\<forall>e \<in> set es. entity_id e \<noteq> i)"
  by (simp add: with_id_def find_None_conv)

lemma with_id_in:
  "distinct (map entity_id es) \<Longrightarrow> e \<in> set es \<Longrightarrow> with_id (entity_id e) es = Some e"
  by (induction es) (auto simp: with_id_def image_iff)

end
