(* ===== verification/Short_Ref.thy ===== *)
theory Short_Ref
  imports Prelude
begin

text \<open>
  Short task ids: \<open>swissarmyhammer-kanban/src/types/short_id.rs\<close>. Ids are ASCII, so bytes are
  characters and lowercasing touches the letters A to Z only. The order of the collisions, a
  hash map's in the code, is the order in which the short ids first occur.
\<close>

section \<open>Deriving and resolving\<close>

definition lower_char :: "char \<Rightarrow> char" where
  "lower_char c = (let n = of_char c :: nat in if 65 \<le> n \<and> n \<le> 90 then char_of (n + 32) else c)"

definition lowercase :: "string \<Rightarrow> string" where
  "lowercase s = map lower_char s"

definition short_id_len :: nat where "short_id_len = 7"

definition ulid_len :: nat where "ulid_len = 26"

definition short_id :: "string \<Rightarrow> string" where
  "short_id ulid = lowercase (drop (length ulid - short_id_len) ulid)"

datatype resolve_result = Found string | NotFound | Ambiguous "string list"

definition starts_with :: "string \<Rightarrow> string \<Rightarrow> bool" where
  "starts_with s p \<longleftrightarrow> take (length p) s = p"

definition reference_needle :: "string \<Rightarrow> string" where
  "reference_needle input =
     lowercase (case strip_prefix_char (CHR ''^'') (trim input) of Some r \<Rightarrow> r | None \<Rightarrow> trim input)"

definition resolve_short_ref :: "string list \<Rightarrow> string \<Rightarrow> resolve_result" where
  "resolve_short_ref ids input =
     (let needle = reference_needle input;
          full = (if length needle = ulid_len then find (\<lambda>i. lowercase i = needle) ids else None);
          short = (if length needle = short_id_len then find (\<lambda>i. short_id i = needle) ids else None);
          matches = filter (\<lambda>i. starts_with (lowercase i) needle) ids
      in if needle = [] then NotFound
         else case full of
                Some i \<Rightarrow> Found i
              | None \<Rightarrow>
                  (case short of
                     Some i \<Rightarrow> Found i
                   | None \<Rightarrow>
                       (case matches of [] \<Rightarrow> NotFound | [i] \<Rightarrow> Found i | _ \<Rightarrow> Ambiguous matches)))"

definition find_short_id_collisions :: "string list \<Rightarrow> (string \<times> string list) list" where
  "find_short_id_collisions ids =
     filter (\<lambda>(s, members). 1 < length members)
       (map (\<lambda>s. (s, filter (\<lambda>i. short_id i = s) ids)) (remdups (map short_id ids)))"

text \<open>The loop may run forever; \<open>mint n\<close> is what the generator answers on its call \<open>n\<close>.\<close>

partial_function (option) mint_unique_short_id ::
  "string set \<Rightarrow> (nat \<Rightarrow> string) \<Rightarrow> nat \<Rightarrow> string option" where
  "mint_unique_short_id existing mint n =
     (if short_id (mint n) \<notin> existing then Some (mint n)
      else mint_unique_short_id existing mint (Suc n))"

section \<open>Lowercasing\<close>

lemma lower_char_idem [simp]: "lower_char (lower_char c) = lower_char c"
proof (cases "65 \<le> (of_char c :: nat) \<and> (of_char c :: nat) \<le> 90")
  case True
  then show ?thesis by (simp add: lower_char_def Let_def)
next
  case False
  then have "lower_char c = c" unfolding lower_char_def Let_def by auto
  then show ?thesis by simp
qed

lemma lowercase_simps [simp]:
  "lowercase (lowercase s) = lowercase s" "length (lowercase s) = length s" "lowercase [] = []"
  "lowercase s = [] \<longleftrightarrow> s = []" "lowercase (a @ b) = lowercase a @ lowercase b"
  by (simp_all add: lowercase_def o_def)

lemma lower_short_id [simp]: "lowercase (short_id i) = short_id i"
  by (simp add: short_id_def)

lemma length_short_id: "length (short_id i) = min short_id_len (length i)"
  by (auto simp: short_id_def)

section \<open>Correctness\<close>

text \<open>What a reference resolves to. \<open>Found\<close> is one of the ids, and the reference is its
  full id, its short id or a prefix no other id shares; \<open>Ambiguous\<close> lists all ids with that
  prefix, at least two; \<open>NotFound\<close> means the reference is empty or fits no id at all.\<close>

theorem resolve_short_ref_sound:
  "(let needle = reference_needle input;
        prefixed = filter (\<lambda>i. starts_with (lowercase i) needle) ids
    in case resolve_short_ref ids input of
      Found i \<Rightarrow> i \<in> set ids \<and> needle \<noteq> [] \<and>
        (lowercase i = needle \<or> short_id i = needle \<or> prefixed = [i])
    | Ambiguous is \<Rightarrow> is = prefixed \<and> 2 \<le> length is
    | NotFound \<Rightarrow> needle = [] \<or> prefixed = [] \<and>
        (\<forall>i \<in> set ids. lowercase i \<noteq> needle \<and> (short_id i \<noteq> needle \<or> length needle \<noteq> short_id_len)))"
proof -
  let ?n = "reference_needle input"
  let ?p = "filter (\<lambda>i. starts_with (lowercase i) ?n) ids"
  let ?f = "if length ?n = ulid_len then find (\<lambda>i. lowercase i = ?n) ids else None"
  let ?s = "if length ?n = short_id_len then find (\<lambda>i. short_id i = ?n) ids else None"
  have r: "resolve_short_ref ids input =
      (if ?n = [] then NotFound
       else case ?f of Some i \<Rightarrow> Found i
          | None \<Rightarrow> (case ?s of Some i \<Rightarrow> Found i
          | None \<Rightarrow> (case ?p of [] \<Rightarrow> NotFound | [i] \<Rightarrow> Found i | _ \<Rightarrow> Ambiguous ?p)))"
    by (simp add: resolve_short_ref_def Let_def)
  have whole: "i \<in> set ?p" if "i \<in> set ids" "lowercase i = ?n" for i
    using that by (simp add: starts_with_def)
  consider "?n = []" | i where "?n \<noteq> []" "?f = Some i" | i where "?n \<noteq> []" "?f = None" "?s = Some i"
    | "?n \<noteq> []" "?f = None" "?s = None" by (metis option.exhaust)
  then show ?thesis
  proof cases
    case 1
    then show ?thesis by (simp add: r)
  next
    case 2
    then have "i \<in> set ids" "lowercase i = ?n" by (auto split: if_splits dest!: find_SomeD)
    moreover have "resolve_short_ref ids input = Found i" unfolding r using 2 by simp
    ultimately show ?thesis using 2(1) by (simp add: Let_def)
  next
    case 3
    then have "i \<in> set ids" "short_id i = ?n" by (auto split: if_splits dest!: find_SomeD)
    moreover have "resolve_short_ref ids input = Found i" unfolding r 3(2,3) using 3(1) by simp
    ultimately show ?thesis using 3(1) by (simp add: Let_def)
  next
    case 4
    then have r': "resolve_short_ref ids input = (case ?p of [] \<Rightarrow> NotFound | [i] \<Rightarrow> Found i | _ \<Rightarrow> Ambiguous ?p)"
      unfolding r 4(2,3) by simp
    show ?thesis
    proof (cases ?p)
      case Nil
      have "lowercase i \<noteq> ?n" if "i \<in> set ids" for i using whole [OF that] Nil by auto
      moreover have "\<forall>i \<in> set ids. short_id i \<noteq> ?n \<or> length ?n \<noteq> short_id_len"
        using 4(3) by (auto simp: find_None_conv split: if_splits)
      moreover have "resolve_short_ref ids input = NotFound" unfolding r' Nil by simp
      ultimately show ?thesis using Nil by (simp add: Let_def)
    next
      case (Cons i rest)
      then have "i \<in> set ids" by (metis filter_is_subset list.set_intros(1) subsetD)
      show ?thesis
      proof (cases rest)
        case Nil
        then have "resolve_short_ref ids input = Found i" unfolding r' Cons by simp
        then show ?thesis using 4(1) Cons Nil \<open>i \<in> set ids\<close> by (simp add: Let_def)
      next
        case (Cons j js)
        then have "resolve_short_ref ids input = Ambiguous ?p"
          unfolding r' by (simp only: \<open>?p = i # rest\<close> list.case)
        then show ?thesis using \<open>?p = i # rest\<close> Cons by (simp add: Let_def)
      qed
    qed
  qed
qed

theorem resolve_short_ref_sound_witness:
  "resolve_short_ref [''01KT6R6HR3KJT6JVNDRAJV8V4T'', ''01KT6R6HR3KJT6JVNDRAJV8V4S''] '' ^01kt ''
     = Ambiguous [''01KT6R6HR3KJT6JVNDRAJV8V4T'', ''01KT6R6HR3KJT6JVNDRAJV8V4S'']
   \<and> 2 \<le> length [''01KT6R6HR3KJT6JVNDRAJV8V4T'', ''01KT6R6HR3KJT6JVNDRAJV8V4S'']"
proof -
  let ?ids = "[''01KT6R6HR3KJT6JVNDRAJV8V4T'', ''01KT6R6HR3KJT6JVNDRAJV8V4S'']"
  have r: "resolve_short_ref ?ids '' ^01kt '' = Ambiguous ?ids" by code_simp
  have "2 \<le> length ?ids"
    using resolve_short_ref_sound [of "'' ^01kt ''" ?ids] unfolding r Let_def resolve_result.case
    by (rule conjunct2)
  with r show ?thesis by (rule conjI)
qed

definition plain_id :: "string \<Rightarrow> bool" where
  "plain_id i \<longleftrightarrow> length i = ulid_len \<and> (\<forall>c \<in> set i. \<not> is_ws c \<and> c \<noteq> CHR ''^'')"

lemma trim_plain: "\<forall>c \<in> set s. \<not> is_ws c \<Longrightarrow> trim s = s"
proof -
  assume s: "\<forall>c \<in> set s. \<not> is_ws c"
  have d: "dropWhile is_ws x = x" if "\<forall>c \<in> set x. \<not> is_ws c" for x using that by (cases x) auto
  have "dropWhile is_ws (rev s) = rev s" using s by (intro d) auto
  then show ?thesis
    using d [OF s] by (simp add: trim_def trim_matches_def trim_start_matches_def trim_end_matches_def)
qed

lemma needle_plain:
  assumes "\<forall>c \<in> set s. \<not> is_ws c \<and> c \<noteq> CHR ''^''"
  shows "reference_needle s = lowercase s" "reference_needle (CHR ''^'' # s) = lowercase s"
proof -
  have "\<not> is_ws (CHR ''^'')" by (simp add: is_ws_def)
  then have "\<forall>c \<in> set s. \<not> is_ws c" "\<forall>c \<in> set (CHR ''^'' # s). \<not> is_ws c" using assms by auto
  note this [THEN trim_plain]
  then show "reference_needle s = lowercase s" "reference_needle (CHR ''^'' # s) = lowercase s"
    using assms by (cases s; simp add: reference_needle_def strip_prefix_char_def)+
qed

lemma is_ws_code: "is_ws c \<Longrightarrow> (of_char c :: nat) \<le> 32"
  by (auto simp: is_ws_def)

lemma distinct_count: "distinct xs \<Longrightarrow> count_list xs x \<le> 1"
  by (induction xs) (auto simp: count_list_0_iff)

lemma lower_char_plain: "\<not> is_ws c \<Longrightarrow> c \<noteq> CHR ''^'' \<Longrightarrow> \<not> is_ws (lower_char c) \<and> lower_char c \<noteq> CHR ''^''"
proof (cases "65 \<le> (of_char c :: nat) \<and> (of_char c :: nat) \<le> 90")
  case True
  then have l: "(of_char (lower_char c) :: nat) = of_char c + 32" by (simp add: lower_char_def Let_def)
  have "lower_char c \<noteq> CHR ''^''"
  proof
    assume "lower_char c = CHR ''^''"
    then have "(of_char (lower_char c) :: nat) = 94" by simp
    with l True show False by simp
  qed
  then show ?thesis using is_ws_code [of "lower_char c"] l True by auto
next
  case False
  then have "lower_char c = c" unfolding lower_char_def Let_def by auto
  moreover assume "\<not> is_ws c" "c \<noteq> CHR ''^''"
  ultimately show ?thesis by simp
qed

lemma needle_short_id:
  assumes "plain_id i"
  shows "reference_needle (short_id i) = short_id i" "reference_needle (CHR ''^'' # short_id i) = short_id i"
proof -
  have "\<forall>c \<in> set (short_id i). \<not> is_ws c \<and> c \<noteq> CHR ''^''"
    using assms lower_char_plain in_set_dropD
    by (fastforce simp: plain_id_def short_id_def lowercase_def)
  from needle_plain [OF this]
  show "reference_needle (short_id i) = short_id i" "reference_needle (CHR ''^'' # short_id i) = short_id i"
    by simp_all
qed

lemma no_collisions: "find_short_id_collisions ids = [] \<longleftrightarrow> distinct (map short_id ids)"
proof -
  have "find_short_id_collisions ids = [] \<longleftrightarrow> (\<forall>s \<in> set (map short_id ids). length (filter (\<lambda>i. short_id i = s) ids) \<le> 1)"
    by (auto simp: find_short_id_collisions_def filter_empty_conv)
  also have "\<dots> \<longleftrightarrow> (\<forall>s \<in> set (map short_id ids). count_list (map short_id ids) s \<le> 1)"
    by (simp add: count_list_eq_length_filter filter_map o_def eq_commute)
  also have "\<dots> \<longleftrightarrow> distinct (map short_id ids)"
  proof
    assume a: "\<forall>s \<in> set (map short_id ids). count_list (map short_id ids) s \<le> 1"
    show "distinct (map short_id ids)"
    proof (rule ccontr)
      assume "\<not> distinct (map short_id ids)"
      then obtain xs s ys zs where "map short_id ids = xs @ [s] @ ys @ [s] @ zs" using not_distinct_decomp by blast
      then show False using a [rule_format, of s] by simp
    qed
  next
    show "distinct (map short_id ids) \<Longrightarrow> \<forall>s \<in> set (map short_id ids). count_list (map short_id ids) s \<le> 1"
      by (simp add: distinct_count del: One_nat_def)
  qed
  finally show ?thesis .
qed

text \<open>C10. On a board without short-id collisions every task is reached by its full id and by
  its short id, with or without the caret, whatever ids other tasks have.\<close>

theorem short_ref_roundtrip:
  assumes "find_short_id_collisions ids = []" and "\<forall>i \<in> set ids. plain_id i" and "i \<in> set ids"
  shows "resolve_short_ref ids i = Found i \<and> resolve_short_ref ids (CHR ''^'' # i) = Found i \<and>
     resolve_short_ref ids (short_id i) = Found i \<and>
     resolve_short_ref ids (CHR ''^'' # short_id i) = Found i"
proof -
  have d: "distinct (map short_id ids)" using assms(1) by (simp add: no_collisions)
  have inj: "j = i" if "j \<in> set ids" "short_id j = short_id i" for j
    using d that assms(3) by (auto simp: distinct_map inj_on_def)
  have plain: "plain_id i" using assms by blast
  then have len: "length i = ulid_len" "length (short_id i) = short_id_len"
    by (simp_all add: plain_id_def length_short_id ulid_len_def short_id_len_def)
  have one: "find P ids = Some i" if "P i" "\<And>j. j \<in> set ids \<Longrightarrow> P j \<Longrightarrow> j = i" for P
  proof (cases "find P ids")
    case None
    then show ?thesis using that(1) assms(3) by (simp add: find_None_conv)
  next
    case (Some j)
    then show ?thesis using that(2) find_SomeD [OF Some] by blast
  qed
  have "lowercase j = lowercase i \<Longrightarrow> short_id j = short_id i" for j
    by (metis drop_map length_map lowercase_def short_id_def)
  then have full: "find (\<lambda>j. lowercase j = lowercase i) ids = Some i" by (intro one) (auto dest: inj)
  have short: "find (\<lambda>j. short_id j = short_id i) ids = Some i" by (intro one) (auto dest: inj)
  have n: "reference_needle i = lowercase i" "reference_needle (CHR ''^'' # i) = lowercase i"
    using plain needle_plain [of i] by (simp_all add: plain_id_def)
  have "lowercase i \<noteq> []" "short_id i \<noteq> []" using len by (auto simp: ulid_len_def short_id_len_def)
  then show ?thesis
    using n needle_short_id [OF plain] len full short
    by (simp add: resolve_short_ref_def Let_def ulid_len_def short_id_len_def)
qed

theorem short_ref_roundtrip_witness:
  "resolve_short_ref [''01KT6R6HR3KJT6JVNDRAJV8V4T'', ''01KT6R6HR3KJT6JVNDRAJV8V4S''] ''^ajv8v4t''
     = Found ''01KT6R6HR3KJT6JVNDRAJV8V4T''"
proof -
  let ?ids = "[''01KT6R6HR3KJT6JVNDRAJV8V4T'', ''01KT6R6HR3KJT6JVNDRAJV8V4S'']"
  have c: "find_short_id_collisions ?ids = []" by code_simp
  have p: "\<forall>i \<in> set ?ids. plain_id i" by code_simp
  have s: "short_id ''01KT6R6HR3KJT6JVNDRAJV8V4T'' = ''ajv8v4t''" by code_simp
  show ?thesis using short_ref_roundtrip [OF c p, of "''01KT6R6HR3KJT6JVNDRAJV8V4T''"] s by simp
qed

lemma mint_first:
  assumes "short_id (mint (n + k)) \<notin> existing" "\<forall>j < k. short_id (mint (n + j)) \<in> existing"
  shows "mint_unique_short_id existing mint n = Some (mint (n + k))"
  using assms
proof (induction k arbitrary: n)
  case 0
  then show ?case by (simp add: mint_unique_short_id.simps)
next
  case (Suc k)
  have "\<forall>j < k. short_id (mint (Suc n + j)) \<in> existing"
    using Suc.prems(2) by (metis Suc_less_eq add_Suc add_Suc_right)
  then have "mint_unique_short_id existing mint (Suc n) = Some (mint (Suc n + k))"
    using Suc.prems(1) by (intro Suc.IH) simp_all
  moreover have "short_id (mint n) \<in> existing" using Suc.prems(2) by (auto dest: spec [of _ 0])
  ultimately show ?case by (subst mint_unique_short_id.simps) simp
qed

lemma mint_result:
  "mint_unique_short_id existing mint n = Some i
     \<Longrightarrow> \<exists>k. i = mint (n + k) \<and> short_id i \<notin> existing \<and> (\<forall>j < k. short_id (mint (n + j)) \<in> existing)"
proof (erule mint_unique_short_id.raw_induct [of
      "\<lambda>e m n i. \<exists>k. i = m (n + k) \<and> short_id i \<notin> e \<and> (\<forall>j < k. short_id (m (n + j)) \<in> e)", rotated])
  fix f e m n i
  assume ih: "\<And>e m n i. f e m n = Some i
      \<Longrightarrow> \<exists>k. i = m (n + k) \<and> short_id i \<notin> e \<and> (\<forall>j < k. short_id (m (n + j)) \<in> e)"
    and b: "(if short_id (m n) \<notin> e then Some (m n) else f e m (Suc n)) = Some i"
  show "\<exists>k. i = m (n + k) \<and> short_id i \<notin> e \<and> (\<forall>j < k. short_id (m (n + j)) \<in> e)"
  proof (cases "short_id (m n) \<in> e")
    case False
    then show ?thesis using b by (intro exI [of _ 0]) simp
  next
    case True
    then have "f e m (Suc n) = Some i" using b by simp
    from ih [OF this] obtain k where
      "i = m (Suc n + k)" "short_id i \<notin> e" "\<forall>j < k. short_id (m (Suc n + j)) \<in> e" by blast
    then show ?thesis
      using True by (intro exI [of _ "Suc k"]) (auto simp: less_Suc_eq_0_disj)
  qed
qed

text \<open>Minting ends exactly when the generator at some point answers an id whose short id
  the board does not have; the result is the first such id, and with it the board still has
  no collisions.\<close>

lemma mint_keeps_short_ids_unique:
  assumes "find_short_id_collisions ids = []"
  shows "(case mint_unique_short_id (short_id ` set ids) mint 0 of
      None \<Rightarrow> \<forall>n. short_id (mint n) \<in> short_id ` set ids
    | Some i \<Rightarrow> find_short_id_collisions (i # ids) = [] \<and>
        (\<exists>k. i = mint k \<and> (\<forall>j < k. short_id (mint j) \<in> short_id ` set ids)))"
proof (cases "mint_unique_short_id (short_id ` set ids) mint 0")
  case None
  have False if "short_id (mint n) \<notin> short_id ` set ids" for n
  proof -
    let ?k = "LEAST n. short_id (mint n) \<notin> short_id ` set ids"
    have "short_id (mint (0 + ?k)) \<notin> short_id ` set ids" using LeastI [of _ n] that by simp
    moreover have "\<forall>j < ?k. short_id (mint (0 + j)) \<in> short_id ` set ids" using not_less_Least by auto
    ultimately have "mint_unique_short_id (short_id ` set ids) mint 0 = Some (mint (0 + ?k))"
      by (rule mint_first)
    then show False using None by simp
  qed
  then show ?thesis using None by auto
next
  case (Some i)
  from mint_result [OF Some] show ?thesis using assms Some by (auto simp: no_collisions)
qed

end
