(* ===== verification/Task_Graph.thy ===== *)
theory Task_Graph
  imports Complex_Main Entity Short_Ref
begin

text \<open>
  The computed fields of a task: readiness, blockers, dependents and virtual tags. Models
  \<open>swissarmyhammer-kanban/src/task_helpers.rs\<close> (one task at a time and the batch with its
  indexes) and \<open>virtual_tags.rs\<close>. The argument \<open>number\<close> is the JSON number that a progress
  fraction is printed as (the nearest double).
\<close>

section \<open>Dependencies of one task\<close>

text \<open>\<open>all_tasks.iter().find(|t| t.id == dep)\<close>: in the terminal column; a missing task is not.\<close>

definition dep_done :: "entity list \<Rightarrow> string \<Rightarrow> string \<Rightarrow> bool" where
  "dep_done all terminal d =
     (case with_id d all of
        None \<Rightarrow> False
      | Some t \<Rightarrow> get_str t ''position_column'' = Some terminal)"

definition task_is_ready :: "entity \<Rightarrow> entity list \<Rightarrow> string \<Rightarrow> bool" where
  "task_is_ready e all terminal \<longleftrightarrow> list_all (dep_done all terminal) (get_string_list e ''depends_on'')"

definition task_blocked_by :: "entity \<Rightarrow> entity list \<Rightarrow> string \<Rightarrow> string list" where
  "task_blocked_by e all terminal = filter (\<lambda>d. \<not> dep_done all terminal d) (get_string_list e ''depends_on'')"

definition find_dependent_task_ids :: "string \<Rightarrow> entity list \<Rightarrow> string list" where
  "find_dependent_task_ids i all =
     map entity_id (filter (\<lambda>t. i \<in> set (get_string_list t ''depends_on'')) all)"

definition task_blocks :: "entity \<Rightarrow> entity list \<Rightarrow> string list" where
  "task_blocks e all = find_dependent_task_ids (entity_id e) all"

definition task_progress :: "entity \<Rightarrow> rat" where
  "task_progress e =
     (case get_field e ''progress'' of
        None \<Rightarrow> 0
      | Some p \<Rightarrow>
          let field = (\<lambda>k. case Option.bind (json_get p k) json_u64 of None \<Rightarrow> 0 | Some n \<Rightarrow> n);
              total = field ''total''
          in if total = 0 then 0 else of_nat (field ''completed'') / of_nat total)"

section \<open>Virtual tags\<close>

record filter_context =
  fc_entity :: "entity option"
  fc_entities :: "entity list"
  fc_terminal :: "string option"

record strategy =
  slug :: string
  matches :: "filter_context \<Rightarrow> bool"

record tag_registry =
  strategies :: "string \<Rightarrow> strategy option"
  order :: "string list"

definition empty_registry :: tag_registry where
  "empty_registry = \<lparr>strategies = Map.empty, order = []\<rparr>"

definition register_strategy :: "strategy \<Rightarrow> tag_registry \<Rightarrow> tag_registry" where
  "register_strategy s r =
     \<lparr>strategies = (strategies r)(slug s \<mapsto> s),
      order = (if strategies r (slug s) = None then order r @ [slug s] else order r)\<rparr>"

definition evaluate_registry :: "tag_registry \<Rightarrow> filter_context \<Rightarrow> string list" where
  "evaluate_registry r cx =
     filter (\<lambda>g. case strategies r g of None \<Rightarrow> False | Some s \<Rightarrow> matches s cx) (order r)"

definition terminal_of :: "filter_context \<Rightarrow> string" where
  "terminal_of cx = (case fc_terminal cx of Some t \<Rightarrow> t | None \<Rightarrow> ''done'')"

definition column_or_empty :: "entity \<Rightarrow> string" where
  "column_or_empty e = (case get_str e ''position_column'' of Some c \<Rightarrow> c | None \<Rightarrow> [])"

definition ready_matches :: "filter_context \<Rightarrow> bool" where
  "ready_matches cx \<longleftrightarrow>
     (case fc_entity cx of
        None \<Rightarrow> False
      | Some e \<Rightarrow>
          column_or_empty e \<noteq> terminal_of cx
          \<and> list_all (dep_done (fc_entities cx) (terminal_of cx)) (get_string_list e ''depends_on''))"

definition blocking_matches :: "filter_context \<Rightarrow> bool" where
  "blocking_matches cx \<longleftrightarrow>
     (case fc_entity cx of
        None \<Rightarrow> False
      | Some e \<Rightarrow>
          column_or_empty e \<noteq> terminal_of cx
          \<and> list_ex (\<lambda>t. entity_id e \<in> set (get_string_list t ''depends_on'')) (fc_entities cx))"

definition blocked_matches :: "filter_context \<Rightarrow> bool" where
  "blocked_matches cx \<longleftrightarrow>
     (case fc_entity cx of
        None \<Rightarrow> False
      | Some e \<Rightarrow>
          get_string_list e ''depends_on'' \<noteq> []
          \<and> list_ex (\<lambda>d. \<not> dep_done (fc_entities cx) (terminal_of cx) d) (get_string_list e ''depends_on''))"

definition default_registry :: tag_registry where
  "default_registry =
     register_strategy \<lparr>slug = ''BLOCKING'', matches = blocking_matches\<rparr>
       (register_strategy \<lparr>slug = ''BLOCKED'', matches = blocked_matches\<rparr>
         (register_strategy \<lparr>slug = ''READY'', matches = ready_matches\<rparr> empty_registry))"

section \<open>Enriching one task\<close>

text \<open>The union of the body's tags and the virtual tags.\<close>

definition tag_union :: "string list \<Rightarrow> string list \<Rightarrow> string list" where
  "tag_union body virtual = body @ filter (\<lambda>s. s \<notin> set body) virtual"

definition set_task_short_id :: "entity \<Rightarrow> entity" where
  "set_task_short_id e = set_field ''short_id'' (JString (short_id (entity_id e))) e"

definition set_virtual_tags :: "tag_registry \<Rightarrow> entity list \<Rightarrow> string \<Rightarrow> entity \<Rightarrow> entity" where
  "set_virtual_tags registry all terminal e =
     (let slugs = evaluate_registry registry
            \<lparr>fc_entity = Some e, fc_entities = all, fc_terminal = Some terminal\<rparr>;
          e = set_field ''virtual_tags'' (json_strings slugs) e
      in set_field ''filter_tags'' (json_strings (tag_union (get_string_list e ''tags'') slugs)) e)"

definition enrich_task_entity ::
  "(rat \<Rightarrow> json) \<Rightarrow> tag_registry \<Rightarrow> entity list \<Rightarrow> string \<Rightarrow> entity \<Rightarrow> entity" where
  "enrich_task_entity number registry all terminal e =
     (let e = set_task_short_id e;
          e = set_field ''progress_fraction'' (number (task_progress e)) e;
          e = set_field ''ready'' (JBool (task_is_ready e all terminal)) e;
          e = set_field ''blocked_by'' (json_strings (task_blocked_by e all terminal)) e;
          e = set_field ''blocks'' (json_strings (task_blocks e all)) e
      in set_virtual_tags registry all terminal e)"

section \<open>Enriching all tasks at once\<close>

record dependency_indexes =
  ix_blocks :: "string \<Rightarrow> string list option"
  ix_depends_on :: "string \<Rightarrow> string list option"
  ix_positions :: "string \<Rightarrow> string option"
  ix_stubs :: "entity list"

definition push_block :: "string \<Rightarrow> string \<Rightarrow> (string \<Rightarrow> string list option) \<Rightarrow> string \<Rightarrow> string list option" where
  "push_block i d m = m(d \<mapsto> (case m d of None \<Rightarrow> [] | Some l \<Rightarrow> l) @ [i])"

definition index_blocks :: "entity list \<Rightarrow> string \<Rightarrow> string list option" where
  "index_blocks es =
     fold (\<lambda>e m. fold (push_block (entity_id e)) (get_string_list e ''depends_on'') m) es Map.empty"

definition stub :: "entity \<Rightarrow> entity" where
  "stub e =
     (let s = new_entity (entity_type e) (entity_id e);
          s = (case get_field e ''position_column'' of Some c \<Rightarrow> set_field ''position_column'' c s | None \<Rightarrow> s)
      in case get_field e ''depends_on'' of Some d \<Rightarrow> set_field ''depends_on'' d s | None \<Rightarrow> s)"

definition build_dependency_indexes :: "entity list \<Rightarrow> dependency_indexes" where
  "build_dependency_indexes es =
     \<lparr>ix_blocks = index_blocks es,
      ix_depends_on = fold (\<lambda>e m. m(entity_id e \<mapsto> get_string_list e ''depends_on'')) es Map.empty,
      ix_positions = fold (\<lambda>e m. m(entity_id e \<mapsto> column_or_empty e)) es Map.empty,
      ix_stubs = map stub es\<rparr>"

definition enrich_task_from_indexes ::
  "(rat \<Rightarrow> json) \<Rightarrow> tag_registry \<Rightarrow> dependency_indexes \<Rightarrow> string \<Rightarrow> entity \<Rightarrow> entity" where
  "enrich_task_from_indexes number registry ix terminal e =
     (let e = set_task_short_id e;
          e = set_field ''progress_fraction'' (number (task_progress e)) e;
          deps = (case ix_depends_on ix (entity_id e) of None \<Rightarrow> [] | Some d \<Rightarrow> d);
          blocked_by = filter (\<lambda>d. case ix_positions ix d of None \<Rightarrow> True | Some col \<Rightarrow> col \<noteq> terminal) deps;
          e = set_field ''ready'' (JBool (blocked_by = [])) e;
          e = set_field ''blocked_by'' (json_strings blocked_by) e;
          blocks = (case ix_blocks ix (entity_id e) of None \<Rightarrow> [] | Some l \<Rightarrow> l);
          e = set_field ''blocks'' (json_strings blocks) e
      in set_virtual_tags registry (ix_stubs ix) terminal e)"

definition enrich_all_task_entities ::
  "(rat \<Rightarrow> json) \<Rightarrow> tag_registry \<Rightarrow> string \<Rightarrow> entity list \<Rightarrow> entity list" where
  "enrich_all_task_entities number registry terminal es =
     map (enrich_task_from_indexes number registry (build_dependency_indexes es) terminal) es"

section \<open>The indexes\<close>

lemma fold_insert_map:
  "distinct (map entity_id es) \<Longrightarrow>
     fold (\<lambda>e m. m(entity_id e \<mapsto> f e)) es m i
       = (case with_id i es of Some e \<Rightarrow> Some (f e) | None \<Rightarrow> m i)"
proof (induction es arbitrary: m)
  case (Cons e es)
  then have "with_id (entity_id e) es = None" by (auto simp: with_id_None image_iff)
  then show ?case using Cons by (auto simp: with_id_def split: option.splits)
qed (simp add: with_id_def)

text \<open>The dependents of a task, each as often as it names the task.\<close>

definition named_by :: "string \<Rightarrow> entity list \<Rightarrow> string list" where
  "named_by d es = concat (map (\<lambda>t. replicate (count_list (get_string_list t ''depends_on'') d) (entity_id t)) es)"

lemma push_blocks_deps:
  "(case fold (push_block i) ds m d of None \<Rightarrow> [] | Some l \<Rightarrow> l)
     = (case m d of None \<Rightarrow> [] | Some l \<Rightarrow> l) @ replicate (count_list ds d) i"
  by (induction ds arbitrary: m) (auto simp: push_block_def)

lemma index_blocks_eq: "(case index_blocks es d of None \<Rightarrow> [] | Some l \<Rightarrow> l) = named_by d es"
proof -
  have "(case fold (\<lambda>e m. fold (push_block (entity_id e)) (get_string_list e ''depends_on'') m) es m d of
           None \<Rightarrow> [] | Some l \<Rightarrow> l)
      = (case m d of None \<Rightarrow> [] | Some l \<Rightarrow> l) @ named_by d es" for m
    by (induction es arbitrary: m) (simp_all add: named_by_def push_blocks_deps)
  from this [of Map.empty] show ?thesis by (simp add: index_blocks_def)
qed

lemma count_list_distinct: "distinct xs \<Longrightarrow> count_list xs x = (if x \<in> set xs then 1 else 0)"
  by (induction xs) (auto simp: count_notin)

lemma named_by_distinct:
  "\<forall>e \<in> set es. distinct (get_string_list e ''depends_on'') \<Longrightarrow> named_by d es = find_dependent_task_ids d es"
  by (induction es) (auto simp: named_by_def find_dependent_task_ids_def count_list_distinct)

lemma stub_simps [simp]:
  "entity_id (stub e) = entity_id e"
  "get_str (stub e) ''position_column'' = get_str e ''position_column''"
  "get_string_list (stub e) ''depends_on'' = get_string_list e ''depends_on''"
  by (auto simp: stub_def get_field_def get_str_def get_string_list_def Let_def split: option.splits)

lemma with_id_map: "(\<And>e. entity_id (f e) = entity_id e) \<Longrightarrow> with_id i (map f es) = map_option f (with_id i es)"
  by (induction es) (auto simp: with_id_def)

lemma dep_done_cong:
  "(\<And>e. entity_id (f e) = entity_id e) \<Longrightarrow>
   (\<And>e. get_str (f e) ''position_column'' = get_str e ''position_column'')
     \<Longrightarrow> dep_done (map f es) terminal d = dep_done es terminal d"
  by (simp add: dep_done_def with_id_map split: option.split)

lemma dep_done_stubs: "dep_done (map stub es) = dep_done es"
  by (intro ext dep_done_cong) simp_all

lemma evaluate_default:
  "evaluate_registry default_registry cx =
     (if ready_matches cx then [''READY''] else []) @ (if blocked_matches cx then [''BLOCKED''] else [])
       @ (if blocking_matches cx then [''BLOCKING''] else [])"
  by (simp add: evaluate_registry_def default_registry_def register_strategy_def empty_registry_def)

lemma evaluate_default_stubs:
  "evaluate_registry default_registry \<lparr>fc_entity = e, fc_entities = map stub es, fc_terminal = t\<rparr>
     = evaluate_registry default_registry \<lparr>fc_entity = e, fc_entities = es, fc_terminal = t\<rparr>"
  by (simp add: evaluate_default ready_matches_def blocked_matches_def blocking_matches_def terminal_of_def
      dep_done_stubs list_ex_iff split: option.split)

lemma indexed_dep_done:
  assumes "distinct (map entity_id es)" and "terminal \<noteq> []"
  shows "(case ix_positions (build_dependency_indexes es) d of None \<Rightarrow> True | Some col \<Rightarrow> col \<noteq> terminal)
     \<longleftrightarrow> \<not> dep_done es terminal d"
  using assms
  by (auto simp: build_dependency_indexes_def fold_insert_map dep_done_def column_or_empty_def split: option.splits)

lemma ready_iff_not_blocked: "task_is_ready e all terminal \<longleftrightarrow> task_blocked_by e all terminal = []"
  by (auto simp: task_is_ready_def task_blocked_by_def filter_empty_conv list_all_iff)

lemma set_virtual_tags_blocks:
  "set_virtual_tags default_registry es terminal (set_field ''blocks'' v e)
     = set_field ''blocks'' v (set_virtual_tags default_registry es terminal (set_field ''blocks'' w e))"
  by (simp add: set_virtual_tags_def Let_def evaluate_default ready_matches_def blocked_matches_def blocking_matches_def
      terminal_of_def column_or_empty_def set_field_def get_str_def get_string_list_def get_field_def fun_upd_twist)

section \<open>Correctness\<close>

text \<open>C11. On a board whose tasks have different ids, the batch computes for every task what enriching the task
  alone computes in every field but \<open>blocks\<close>, where a dependent stands as often as it names the task; so
  the two agree in all fields when no task names a dependency twice. The name of the terminal column is not
  empty.\<close>

theorem batch_equals_single:
  assumes "distinct (map entity_id es)" and "terminal \<noteq> []"
  shows "enrich_all_task_entities number default_registry terminal es
       = map (\<lambda>e. set_field ''blocks'' (json_strings (named_by (entity_id e) es))
                (enrich_task_entity number default_registry es terminal e)) es
     \<and> ((\<forall>e \<in> set es. distinct (get_string_list e ''depends_on''))
         \<longrightarrow> enrich_all_task_entities number default_registry terminal es
           = map (enrich_task_entity number default_registry es terminal) es)"
proof -
  let ?batch = "enrich_task_from_indexes number default_registry (build_dependency_indexes es) terminal"
  let ?single = "enrich_task_entity number default_registry es terminal"
  have each: "?batch e = set_field ''blocks'' (json_strings (named_by (entity_id e) es)) (?single e)
      \<and> (named_by (entity_id e) es = find_dependent_task_ids (entity_id e) es \<longrightarrow> ?batch e = ?single e)"
    if e: "e \<in> set es" for e
  proof -
    have deps: "ix_depends_on (build_dependency_indexes es) (entity_id e) = Some (get_string_list e ''depends_on'')"
      using with_id_in [OF assms(1) e] by (simp add: build_dependency_indexes_def fold_insert_map [OF assms(1)])
    have stubs: "set_virtual_tags default_registry (ix_stubs (build_dependency_indexes es)) terminal a
        = set_virtual_tags default_registry es terminal a" for a
      by (simp add: set_virtual_tags_def build_dependency_indexes_def evaluate_default_stubs)
    have blocks: "(case ix_blocks (build_dependency_indexes es) i of None \<Rightarrow> [] | Some l \<Rightarrow> l) = named_by i es" for i
      using index_blocks_eq by (simp add: build_dependency_indexes_def)
    show ?thesis
      unfolding enrich_task_from_indexes_def enrich_task_entity_def Let_def stubs set_task_short_id_def
      by (simp add: deps blocks indexed_dep_done [OF assms] task_blocks_def ready_iff_not_blocked task_blocked_by_def
          set_virtual_tags_blocks)
  qed
  have "map ?batch es = map (\<lambda>e. set_field ''blocks'' (json_strings (named_by (entity_id e) es)) (?single e)) es"
    using each by simp
  moreover have "\<forall>e \<in> set es. distinct (get_string_list e ''depends_on'') \<Longrightarrow> map ?batch es = map ?single es"
    using each named_by_distinct [of es] by (intro map_cong refl) blast
  ultimately show ?thesis unfolding enrich_all_task_entities_def by blast
qed

definition example_task :: "string \<Rightarrow> string \<Rightarrow> string list \<Rightarrow> entity" where
  "example_task i col deps =
     set_field ''depends_on'' (json_strings deps) (set_field ''position_column'' (JString col) (new_entity ''task'' i))"

theorem batch_equals_single_witness:
  "enrich_all_task_entities (\<lambda>q. JNull) default_registry ''done'' [example_task ''a'' ''done'' [], example_task ''b'' ''todo'' [''a'']]
     = map (enrich_task_entity (\<lambda>q. JNull) default_registry
         [example_task ''a'' ''done'' [], example_task ''b'' ''todo'' [''a'']] ''done'')
         [example_task ''a'' ''done'' [], example_task ''b'' ''todo'' [''a'']]"
  by (rule batch_equals_single [THEN conjunct2, THEN mp]) (simp_all add: example_task_def)

text \<open>A dependency named twice: the batch lists the dependent twice.\<close>

lemma repeated_dependency_listed_twice:
  "(case ix_blocks (build_dependency_indexes [example_task ''b'' ''todo'' [''a'', ''a'']]) ''a'' of None \<Rightarrow> [] | Some l \<Rightarrow> l)
     = [''b'', ''b'']
   \<and> find_dependent_task_ids ''a'' [example_task ''b'' ''todo'' [''a'', ''a'']] = [''b'']"
  by (simp add: build_dependency_indexes_def index_blocks_def push_block_def find_dependent_task_ids_def example_task_def)

definition virtual_slugs :: "entity list \<Rightarrow> string \<Rightarrow> entity \<Rightarrow> string list" where
  "virtual_slugs all terminal e =
     evaluate_registry default_registry \<lparr>fc_entity = Some e, fc_entities = all, fc_terminal = Some terminal\<rparr>"

text \<open>C12. The three views of a task's readiness agree: it is ready when nothing blocks it, its
  blockers are its dependencies that are missing or not in the terminal column, BLOCKED says
  it is not ready, READY that it is and is not finished, so that an unfinished task has exactly
  one of the two; BLOCKING says it is unfinished and some task depends on it, and blocking is
  the converse of depending.\<close>

theorem readiness_consistent:
  "(let deps = set (get_string_list e ''depends_on'');
        finished = (column_or_empty e = terminal);
        tags = set (virtual_slugs all terminal e)
    in set (task_blocked_by e all terminal)
         = {d \<in> deps. \<nexists>t. with_id d all = Some t \<and> get_str t ''position_column'' = Some terminal}
     \<and> (task_is_ready e all terminal \<longleftrightarrow> task_blocked_by e all terminal = [])
     \<and> (''BLOCKED'' \<in> tags \<longleftrightarrow> \<not> task_is_ready e all terminal)
     \<and> (''READY'' \<in> tags \<longleftrightarrow> task_is_ready e all terminal \<and> \<not> finished)
     \<and> (''BLOCKING'' \<in> tags \<longleftrightarrow> \<not> finished \<and> task_blocks e all \<noteq> [])
     \<and> set (task_blocks e all) = {entity_id t | t. t \<in> set all \<and> entity_id e \<in> set (get_string_list t ''depends_on'')})"
proof -
  have ready: "list_all (dep_done all terminal) (get_string_list e ''depends_on'') = task_is_ready e all terminal"
    by (simp add: task_is_ready_def)
  have blocked: "get_string_list e ''depends_on'' \<noteq> []
      \<and> list_ex (\<lambda>d. \<not> dep_done all terminal d) (get_string_list e ''depends_on'') \<longleftrightarrow> \<not> task_is_ready e all terminal"
    by (auto simp: task_is_ready_def list_all_iff list_ex_iff)
  have blocking: "list_ex (\<lambda>t. entity_id e \<in> set (get_string_list t ''depends_on'')) all \<longleftrightarrow> task_blocks e all \<noteq> []"
    by (auto simp: task_blocks_def find_dependent_task_ids_def list_ex_iff filter_empty_conv)
  have "set (task_blocked_by e all terminal) = {d \<in> set (get_string_list e ''depends_on'').
      \<nexists>t. with_id d all = Some t \<and> get_str t ''position_column'' = Some terminal}"
    by (auto simp: task_blocked_by_def dep_done_def split: option.splits)
  moreover have "set (task_blocks e all)
      = {entity_id t | t. t \<in> set all \<and> entity_id e \<in> set (get_string_list t ''depends_on'')}"
    by (auto simp: task_blocks_def find_dependent_task_ids_def)
  moreover let ?cx = "\<lparr>fc_entity = Some e, fc_entities = all, fc_terminal = Some terminal\<rparr>"
  have "ready_matches ?cx \<longleftrightarrow> task_is_ready e all terminal \<and> column_or_empty e \<noteq> terminal"
    "blocked_matches ?cx \<longleftrightarrow> \<not> task_is_ready e all terminal"
    "blocking_matches ?cx \<longleftrightarrow> column_or_empty e \<noteq> terminal \<and> task_blocks e all \<noteq> []"
    using ready blocked blocking
    by (auto simp: ready_matches_def blocked_matches_def blocking_matches_def terminal_of_def)
  then have "set (virtual_slugs all terminal e) =
      (if task_is_ready e all terminal \<and> column_or_empty e \<noteq> terminal then {''READY''} else {})
      \<union> (if task_is_ready e all terminal then {} else {''BLOCKED''})
      \<union> (if column_or_empty e \<noteq> terminal \<and> task_blocks e all \<noteq> [] then {''BLOCKING''} else {})"
    by (simp add: virtual_slugs_def evaluate_default)
  ultimately show ?thesis by (simp add: Let_def ready_iff_not_blocked)
qed

text \<open>When only task \<open>x\<close> changes column, the computed fields of another task can change
  only if it is one of \<open>find_dependent_task_ids\<close>: re-enriching the task and those is enough.\<close>

lemma fan_out_is_enough:
  assumes "\<And>t. moved (t :: entity) = (if entity_id t = x then set_field ''position_column'' v t else t)"
    and "e \<in> set all" and "entity_id e \<noteq> x" and "entity_id e \<notin> set (find_dependent_task_ids x all)"
  shows "enrich_task_entity number default_registry (map moved all) terminal e
       = enrich_task_entity number default_registry all terminal e"
proof -
  have id: "entity_id (moved t) = entity_id t"
    and deps: "get_string_list (moved t) ''depends_on'' = get_string_list t ''depends_on''" for t
    by (simp_all add: assms(1))
  have x: "x \<notin> set (get_string_list e ''depends_on'')"
    using assms(2,4) by (auto simp: find_dependent_task_ids_def)
  have unmoved: "dep_done (map moved all) terminal d = dep_done all terminal d" if "d \<noteq> x" for d
    using that with_id_Some [of d all]
    by (auto simp: dep_done_def with_id_map id assms(1) split: option.split)
  have same: "\<forall>d \<in> set (get_string_list e ''depends_on''). dep_done (map moved all) terminal d = dep_done all terminal d"
    using unmoved x by metis
  have "find_dependent_task_ids i (map moved all) = find_dependent_task_ids i all" for i
    by (simp add: find_dependent_task_ids_def filter_map o_def id deps)
  moreover have "filter (\<lambda>d. \<not> dep_done (map moved all) terminal d) (get_string_list e ''depends_on'')
      = filter (\<lambda>d. \<not> dep_done all terminal d) (get_string_list e ''depends_on'')"
    using same by (intro filter_cong) auto
  moreover have "list_all (dep_done (map moved all) terminal) (get_string_list e ''depends_on'')
      = list_all (dep_done all terminal) (get_string_list e ''depends_on'')"
    "list_ex (\<lambda>d. \<not> dep_done (map moved all) terminal d) (get_string_list e ''depends_on'')
      = list_ex (\<lambda>d. \<not> dep_done all terminal d) (get_string_list e ''depends_on'')"
    using same by (auto simp: list_all_iff list_ex_iff)
  moreover have "list_ex (\<lambda>t. i \<in> set (get_string_list t ''depends_on'')) (map moved all)
      = list_ex (\<lambda>t. i \<in> set (get_string_list t ''depends_on'')) all" for i
    by (simp add: list_ex_iff deps)
  ultimately show ?thesis
    by (simp add: enrich_task_entity_def set_task_short_id_def set_virtual_tags_def task_is_ready_def
        task_blocked_by_def task_blocks_def evaluate_default ready_matches_def blocked_matches_def
        blocking_matches_def terminal_of_def column_or_empty_def Let_def)
qed

end
