(* ===== verification/Ordinal.thy ===== *)
theory Ordinal
  imports Entity
begin

text \<open>
  The order of the tasks in a column: \<open>swissarmyhammer-kanban/src/types/position.rs\<close> and the
  placement functions of \<open>task_helpers.rs\<close>. An \<open>Ordinal\<close> is its cached string, which is what
  the code compares. The crate \<open>fractional_index\<close> is the record \<open>fractions\<close>; \<open>fractions_ok\<close>
  is what its documentation promises: parsing is idempotent on its own output, a new key is
  after, before or strictly between the keys it was made from, and \<open>new_between\<close> fails
  exactly on keys that are equal or out of order.
\<close>

section \<open>Ordinals\<close>

record fractions =
  fr_parse :: "string \<Rightarrow> string option"
  fr_default :: string
  fr_after :: "string \<Rightarrow> string"
  fr_before :: "string \<Rightarrow> string"
  fr_between :: "string \<Rightarrow> string \<Rightarrow> string option"

definition is_valid :: "fractions \<Rightarrow> string \<Rightarrow> bool" where
  "is_valid fr s \<longleftrightarrow> fr_parse fr s \<noteq> None"

definition default_str :: string where "default_str = ''80''"

definition ord_first :: "fractions \<Rightarrow> string" where "ord_first fr = fr_default fr"

definition ord_after :: "fractions \<Rightarrow> string \<Rightarrow> string" where "ord_after fr x = fr_after fr x"

definition ord_before :: "fractions \<Rightarrow> string \<Rightarrow> string" where "ord_before fr x = fr_before fr x"

definition ord_between :: "fractions \<Rightarrow> string \<Rightarrow> string \<Rightarrow> string" where
  "ord_between fr x y = (case fr_between fr x y of Some z \<Rightarrow> z | None \<Rightarrow> ord_before fr y)"

definition ord_from_string :: "fractions \<Rightarrow> string \<Rightarrow> string" where
  "ord_from_string fr s = (case fr_parse fr s of Some x \<Rightarrow> x | None \<Rightarrow> ord_first fr)"

fun compute_ordinal_for_neighbors :: "fractions \<Rightarrow> string option \<Rightarrow> string option \<Rightarrow> string" where
  "compute_ordinal_for_neighbors fr None None = ord_first fr"
| "compute_ordinal_for_neighbors fr None (Some y) = ord_before fr y"
| "compute_ordinal_for_neighbors fr (Some x) None = ord_after fr x"
| "compute_ordinal_for_neighbors fr (Some x) (Some y) = ord_between fr x y"

definition compute_ordinal_for_drop :: "fractions \<Rightarrow> entity list \<Rightarrow> nat \<Rightarrow> string" where
  "compute_ordinal_for_drop fr tasks drop_index =
     (let get_ordinal = (\<lambda>e. case get_str e ''position_ordinal'' of
                               Some s \<Rightarrow> ord_from_string fr s | None \<Rightarrow> ord_first fr)
      in if tasks = [] then ord_first fr
         else if length tasks \<le> drop_index then ord_after fr (get_ordinal (tasks ! (length tasks - 1)))
         else if drop_index = 0 then ord_before fr (get_ordinal (tasks ! 0))
         else ord_between fr (get_ordinal (tasks ! (drop_index - 1))) (get_ordinal (tasks ! drop_index)))"

section \<open>What the crate promises\<close>

definition canonical :: "fractions \<Rightarrow> string \<Rightarrow> bool" where
  "canonical fr s \<longleftrightarrow> fr_parse fr s = Some s"

definition fractions_ok :: "fractions \<Rightarrow> bool" where
  "fractions_ok fr \<longleftrightarrow>
     fr_default fr = default_str \<and> canonical fr default_str
     \<and> (\<forall>s x. fr_parse fr s = Some x \<longrightarrow> canonical fr x)
     \<and> (\<forall>x. canonical fr x \<longrightarrow> canonical fr (fr_after fr x) \<and> x < fr_after fr x
            \<and> canonical fr (fr_before fr x) \<and> fr_before fr x < x)
     \<and> (\<forall>x y. canonical fr x \<longrightarrow> canonical fr y \<longrightarrow>
            (case fr_between fr x y of
               None \<Rightarrow> \<not> x < y
             | Some z \<Rightarrow> x < y \<and> canonical fr z \<and> x < z \<and> z < y))"

lemma fractions_okD:
  assumes "fractions_ok fr"
  shows "canonical fr (ord_first fr)" "ord_first fr = default_str"
    "canonical fr x \<Longrightarrow> canonical fr (ord_after fr x)" "canonical fr x \<Longrightarrow> x < ord_after fr x"
    "canonical fr x \<Longrightarrow> canonical fr (ord_before fr x)" "canonical fr x \<Longrightarrow> ord_before fr x < x"
    "canonical fr (ord_from_string fr s)"
  using assms
  by (auto simp: fractions_ok_def ord_first_def ord_after_def ord_before_def ord_from_string_def
      split: option.split)

lemma ord_from_canonical [simp]: "canonical fr x \<Longrightarrow> ord_from_string fr x = x"
  by (simp add: canonical_def ord_from_string_def)

lemma ord_between_ok:
  assumes "fractions_ok fr" "canonical fr x" "canonical fr y"
  shows "canonical fr (ord_between fr x y)" "ord_between fr x y < y" "x < y \<Longrightarrow> x < ord_between fr x y"
proof -
  have b: "case fr_between fr x y of None \<Rightarrow> \<not> x < y | Some z \<Rightarrow> x < y \<and> canonical fr z \<and> x < z \<and> z < y"
    using assms by (simp add: fractions_ok_def)
  show "canonical fr (ord_between fr x y)" "ord_between fr x y < y" "x < y \<Longrightarrow> x < ord_between fr x y"
    using b fractions_okD(5,6) [OF assms(1,3)]
    by (auto simp: ord_between_def split: option.splits)
qed

text \<open>An ordinal for two neighbours is after the one and before the other; between two equal
  neighbours it is only before.\<close>

lemma neighbors_ok:
  assumes "fractions_ok fr" "\<forall>x \<in> set_option a. canonical fr x" "\<forall>y \<in> set_option b. canonical fr y"
  shows "canonical fr (compute_ordinal_for_neighbors fr a b)"
    "\<forall>y \<in> set_option b. compute_ordinal_for_neighbors fr a b < y"
    "\<forall>x \<in> set_option a. (\<forall>y \<in> set_option b. x < y) \<longrightarrow> x < compute_ordinal_for_neighbors fr a b"
  using assms fractions_okD [OF assms(1)] ord_between_ok [OF assms(1)]
  by (cases a; cases b; simp)+

section \<open>A toy instance\<close>

text \<open>Keys are paths in a binary tree: a step down to the left is \<open>7f\<close>, to the right \<open>81\<close>, and
  a key ends with \<open>80\<close>, so that the order of the strings is the order of the tree.\<close>

fun path_key :: "bool list \<Rightarrow> string" where
  "path_key [] = ''80''"
| "path_key (b # bs) = (if b then ''81'' else ''7f'') @ path_key bs"

fun key_path :: "string \<Rightarrow> bool list option" where
  "key_path (c # d # s) =
     (if c = CHR ''8'' \<and> d = CHR ''0'' then (if s = [] then Some [] else None)
      else if c = CHR ''8'' \<and> d = CHR ''1'' then map_option (Cons True) (key_path s)
      else if c = CHR ''7'' \<and> d = CHR ''f'' then map_option (Cons False) (key_path s)
      else None)"
| "key_path _ = None"

definition tree_fractions :: fractions where
  "tree_fractions =
     \<lparr>fr_parse = (\<lambda>s. if key_path s = None then None else Some s),
      fr_default = ''80'',
      fr_after = (\<lambda>s. path_key (the (key_path s) @ [True])),
      fr_before = (\<lambda>s. path_key (the (key_path s) @ [False])),
      fr_between = (\<lambda>x y. let p = the (key_path x); q = the (key_path y)
        in if x < y then Some (path_key (if take (length p) q = p then q @ [False] else p @ [True])) else None)\<rparr>"

lemma key_path_key [simp]: "key_path (path_key p) = Some p"
  by (induction p) auto

lemma path_key_path: "key_path s = Some p \<Longrightarrow> path_key p = s"
  by (induction s arbitrary: p rule: key_path.induct) (auto split: if_splits)

lemma less_append_same [simp]: "(a @ x < a @ y) = (x < (y :: string))"
  by (induction a) auto

lemma path_less:
  "path_key p < path_key (p @ [True])" "path_key (p @ [False]) < path_key p"
  by (induction p) simp_all

lemma path_between:
  "path_key p < path_key q \<Longrightarrow>
     (let r = (if take (length p) q = p then q @ [False] else p @ [True])
      in path_key p < path_key r \<and> path_key r < path_key q)"
proof (induction p arbitrary: q)
  case Nil
  then obtain q' where "q = True # q'" by (cases q) (auto split: if_splits)
  then show ?case using path_less(2) [of q] by simp
next
  case (Cons b p)
  show ?case
  proof (cases q)
    case Nil
    then show ?thesis using Cons.prems path_less(1) [of p] by (auto split: if_splits)
  next
    case (Cons c q')
    show ?thesis
    proof (cases "b = c")
      case True
      then show ?thesis using Cons Cons.IH [of q'] Cons.prems by (auto simp: Let_def split: if_splits)
    next
      case False
      then show ?thesis using Cons Cons.prems path_less(1) [of p] by (auto simp: Let_def split: if_splits)
    qed
  qed
qed

lemma tree_between:
  assumes "path_key p < path_key q"
  shows "take (length p) q = p \<Longrightarrow> path_key p < path_key (q @ [False])"
    "take (length p) q \<noteq> p \<Longrightarrow> path_key (p @ [True]) < path_key q"
  using path_between [OF assms] by (auto simp: Let_def)

lemma tree_fractions_ok: "fractions_ok tree_fractions"
proof -
  have c: "canonical tree_fractions s \<longleftrightarrow> (\<exists>p. s = path_key p)" for s
    using path_key_path by (auto simp: canonical_def tree_fractions_def split: if_splits)
  have "fr_parse tree_fractions s = Some x \<Longrightarrow> \<exists>p. x = path_key p" for s x
    using path_key_path [of s] by (auto simp: tree_fractions_def split: if_splits)
  then show ?thesis
    unfolding fractions_ok_def c
    using path_less tree_between
    by (auto simp: tree_fractions_def default_str_def Let_def intro: exI [of _ "[]"] split: if_splits)
qed

end
