(* ===== verification/Task_Ops.thy ===== *)
theory Task_Ops
  imports Task_Graph Ordinal
begin

text \<open>
  The operations of the board on tasks: \<open>swissarmyhammer-kanban/src/task/mv.rs\<close>,
  \<open>complete.rs\<close>, \<open>delete.rs\<close> and \<open>entity/position.rs\<close>. The entity context is the board: its
  columns and its tasks in the order \<open>list\<close> answers them, which the code does not fix. A write
  replaces the entity with the same id or adds it; a delete removes it. The events, the
  changelog and the derived fields of the entity layer are not part of this state.
\<close>

section \<open>The board\<close>

record board =
  columns :: "entity list"
  tasks :: "entity list"

datatype kanban_error =
    EntityNotFound string string
  | TaskNotFound string
  | ColumnNotFound string
  | ActorNotFound string
  | ProjectNotFound string
  | TagNotFound string
  | CommentNotFound string
  | ResourceNotFound string string
  | ColumnNotEmpty string nat
  | ProjectHasTasks string nat
  | DuplicateId string string
  | DependencyCycle string
  | InvalidOperation string string
  | ParseError string
  | MissingField string
  | InvalidValue string string
  | EntityInvalid string string
  | StoreFailed string

type_synonym 'a board_op = "(board, kanban_error, 'a) action"

definition put_entity :: "entity \<Rightarrow> entity list \<Rightarrow> entity list" where
  "put_entity e es =
     (if with_id (entity_id e) es = None then es @ [e]
      else map (\<lambda>t. if entity_id t = entity_id e then e else t) es)"

definition task_mutation_ack :: "entity \<Rightarrow> json" where
  "task_mutation_ack e =
     JObject [(''ok'', JBool True), (''id'', JString (entity_id e)), (''short_id'', JString (short_id (entity_id e)))]"

definition order_of :: "entity \<Rightarrow> nat option" where
  "order_of c = Option.bind (get_field c ''order'') json_u64"

text \<open>\<open>max_by_key\<close> keeps the last of several maxima, \<open>min_by_key\<close> the first minimum.\<close>

fun max_by_key :: "('a \<Rightarrow> nat) \<Rightarrow> 'a list \<Rightarrow> 'a option" where
  "max_by_key f [] = None"
| "max_by_key f (x # xs) =
     (case max_by_key f xs of None \<Rightarrow> Some x | Some y \<Rightarrow> (if f y < f x then Some x else Some y))"

fun min_by_key :: "('a \<Rightarrow> nat) \<Rightarrow> 'a list \<Rightarrow> 'a option" where
  "min_by_key f [] = None"
| "min_by_key f (x # xs) =
     (case min_by_key f xs of None \<Rightarrow> Some x | Some y \<Rightarrow> (if f y < f x then Some y else Some x))"

definition order_or_0 :: "entity \<Rightarrow> nat" where
  "order_or_0 c = (case order_of c of Some n \<Rightarrow> n | None \<Rightarrow> 0)"

definition terminal_column :: "board \<Rightarrow> entity option" where
  "terminal_column b = max_by_key order_or_0 (columns b)"

section \<open>Placing a task\<close>

definition raw_ordinal :: "entity \<Rightarrow> string" where
  "raw_ordinal t = (case get_str t ''position_ordinal'' of Some s \<Rightarrow> s | None \<Rightarrow> default_str)"

definition task_ordinal :: "fractions \<Rightarrow> entity \<Rightarrow> string" where
  "task_ordinal fr t = ord_from_string fr (raw_ordinal t)"

definition set_position :: "string \<Rightarrow> string \<Rightarrow> entity \<Rightarrow> entity" where
  "set_position column ordinal e =
     set_field ''position_ordinal'' (JString ordinal) (set_field ''position_column'' (JString column) e)"

text \<open>The loop that keeps the greatest ordinal, and what follows it.\<close>

definition last_ordinal :: "string list \<Rightarrow> string option" where
  "last_ordinal os =
     fold (\<lambda>x last. case last of None \<Rightarrow> Some x | Some y \<Rightarrow> (if y < x then Some x else Some y)) os None"

definition end_ordinal :: "fractions \<Rightarrow> string list \<Rightarrow> string" where
  "end_ordinal fr os = (case last_ordinal os of Some x \<Rightarrow> ord_after fr x | None \<Rightarrow> ord_first fr)"

text \<open>The tasks of the column without the moved one, sorted by their raw ordinals.\<close>

definition column_tasks :: "string \<Rightarrow> string \<Rightarrow> entity list \<Rightarrow> entity list" where
  "column_tasks column moved ts =
     sort_key raw_ordinal
       (filter (\<lambda>t. get_str t ''position_column'' = Some column \<and> entity_id t \<noteq> moved) ts)"

definition append_placement :: "fractions \<Rightarrow> entity list \<Rightarrow> string" where
  "append_placement fr ts =
     compute_ordinal_for_neighbors fr (if ts = [] then None else Some (task_ordinal fr (last ts))) None"

definition place_before :: "fractions \<Rightarrow> string \<Rightarrow> entity list \<Rightarrow> string" where
  "place_before fr ref ts =
     (case position (\<lambda>t. entity_id t = ref) ts of
        None \<Rightarrow> append_placement fr ts
      | Some i \<Rightarrow>
          compute_ordinal_for_neighbors fr
            (if i = 0 then None else Some (task_ordinal fr (ts ! (i - 1)))) (Some (task_ordinal fr (ts ! i))))"

definition place_after :: "fractions \<Rightarrow> string \<Rightarrow> entity list \<Rightarrow> string" where
  "place_after fr ref ts =
     (case position (\<lambda>t. entity_id t = ref) ts of
        None \<Rightarrow> append_placement fr ts
      | Some i \<Rightarrow>
          compute_ordinal_for_neighbors fr (Some (task_ordinal fr (ts ! i)))
            (if i = length ts - 1 then None else Some (task_ordinal fr (ts ! (i + 1)))))"

section \<open>Moving a task\<close>

record move_task =
  mv_id :: string
  mv_column :: string
  mv_ordinal :: "string option"
  mv_before :: "string option"
  mv_after :: "string option"

fun split_words :: "string \<Rightarrow> string list" where
  "split_words [] = [[]]"
| "split_words (c # s) =
     (if c = CHR ''-'' \<or> c = CHR ''_'' then [] # split_words s
      else (c # hd (split_words s)) # tl (split_words s))"

definition upper_char :: "char \<Rightarrow> char" where
  "upper_char c = (let n = of_char c :: nat in if 97 \<le> n \<and> n \<le> 122 then char_of (n - 32) else c)"

definition slug_to_name :: "string \<Rightarrow> string" where
  "slug_to_name s =
     join '' '' (map (\<lambda>w. case w of [] \<Rightarrow> [] | c # cs \<Rightarrow> upper_char c # cs) (split_words s))"

definition new_column :: "string \<Rightarrow> entity list \<Rightarrow> entity" where
  "new_column column cols =
     (let orders = List.map_filter order_of cols;
          n = (if orders = [] then 0 else Max (set orders) + 1)
      in set_field ''order'' (json_nat n)
           (set_field ''name'' (JString (slug_to_name column)) (new_entity ''column'' column)))"

definition ensure_column :: "string \<Rightarrow> board \<Rightarrow> board" where
  "ensure_column column b =
     (if with_id column (columns b) = None
      then b\<lparr>columns := put_entity (new_column column (columns b)) (columns b)\<rparr> else b)"

definition move_ordinal :: "fractions \<Rightarrow> move_task \<Rightarrow> entity list \<Rightarrow> string" where
  "move_ordinal fr op ts =
     (case mv_ordinal op of
        Some s \<Rightarrow> ord_from_string fr s
      | None \<Rightarrow>
          (case (mv_before op, mv_after op) of
             (Some ref, _) \<Rightarrow> place_before fr ref (column_tasks (mv_column op) (mv_id op) ts)
           | (None, Some ref) \<Rightarrow> place_after fr ref (column_tasks (mv_column op) (mv_id op) ts)
           | (None, None) \<Rightarrow>
               end_ordinal fr
                 (map (task_ordinal fr)
                   (filter (\<lambda>t. entity_id t \<noteq> mv_id op \<and> column_or_empty t = mv_column op) ts))))"

definition execute_move :: "fractions \<Rightarrow> move_task \<Rightarrow> json board_op" where
  "execute_move fr op b =
     (case with_id (mv_id op) (tasks b) of
        None \<Rightarrow> (Inl (EntityNotFound ''task'' (mv_id op)), b)
      | Some e \<Rightarrow>
          let b = ensure_column (mv_column op) b;
              e' = set_position (mv_column op) (move_ordinal fr op (tasks b)) e
          in (Inr (task_mutation_ack e'), b\<lparr>tasks := put_entity e' (tasks b)\<rparr>))"

section \<open>Completing and deleting a task\<close>

definition execute_complete :: "fractions \<Rightarrow> string \<Rightarrow> json board_op" where
  "execute_complete fr i b =
     (case with_id i (tasks b) of
        None \<Rightarrow> (Inl (EntityNotFound ''task'' i), b)
      | Some e \<Rightarrow>
          (case terminal_column b of
             None \<Rightarrow> (Inl (ColumnNotFound ''done''), b)
           | Some c \<Rightarrow>
               let os = map (task_ordinal fr)
                     (filter (\<lambda>t. entity_id t \<noteq> i \<and> get_str t ''position_column'' = Some (entity_id c)) (tasks b));
                   e' = set_position (entity_id c) (end_ordinal fr os) e
               in (Inr (task_mutation_ack e'), b\<lparr>tasks := put_entity e' (tasks b)\<rparr>)))"

text \<open>The loop of the delete writes back every other task that names the deleted one.\<close>

definition drop_dependency :: "string \<Rightarrow> entity \<Rightarrow> entity" where
  "drop_dependency i t =
     set_field ''depends_on'' (json_strings (filter (\<lambda>d. d \<noteq> i) (get_string_list t ''depends_on''))) t"

definition execute_delete :: "string \<Rightarrow> json board_op" where
  "execute_delete i b =
     (case with_id i (tasks b) of
        None \<Rightarrow> (Inl (TaskNotFound i), b)
      | Some e \<Rightarrow>
          let ts = fold (\<lambda>t. if entity_id t \<noteq> i \<and> i \<in> set (get_string_list t ''depends_on'')
                              then put_entity (drop_dependency i t) else (\<lambda>ts. ts))
                     (tasks b) (tasks b)
          in (Inr (case task_mutation_ack e of JObject fs \<Rightarrow> JObject (fs @ [(''deleted'', JBool True)]) | j \<Rightarrow> j),
              b\<lparr>tasks := filter (\<lambda>t. entity_id t \<noteq> i) ts\<rparr>))"

section \<open>Where a new entity goes\<close>

abbreviation QUOTE :: char where "QUOTE \<equiv> CHR 0x27"

abbreviation EM_DASH :: string where "EM_DASH \<equiv> [CHR 0xE2, CHR 0x80, CHR 0x94]"

definition resolve_column :: "string option \<Rightarrow> string \<Rightarrow> board \<Rightarrow> kanban_error + string" where
  "resolve_column explicit ty b =
     (case explicit of
        Some col \<Rightarrow>
          if with_id col (columns b) = None
          then Inl (ParseError (''column '' @ [QUOTE] @ col @ [QUOTE] @ '' does not exist on this board''))
          else Inr col
      | None \<Rightarrow>
          (case min_by_key order_or_0 (columns b) of
             None \<Rightarrow> Inl (ParseError (''board has no columns '' @ EM_DASH @ '' cannot add '' @ ty @ '' with position_column''))
           | Some c \<Rightarrow> Inr (entity_id c)))"

definition resolve_ordinal ::
  "fractions \<Rightarrow> string \<Rightarrow> string option \<Rightarrow> board \<Rightarrow> kanban_error + string" where
  "resolve_ordinal fr column explicit b =
     (case explicit of
        Some s \<Rightarrow>
          if is_valid fr s then Inr s
          else Inl (ParseError (''ordinal '' @ [QUOTE] @ s @ [QUOTE] @ '' is not a valid FractionalIndex encoding''))
      | None \<Rightarrow>
          Inr (end_ordinal fr
            (List.map_filter (\<lambda>t. map_option (ord_from_string fr) (get_str t ''position_ordinal''))
              (filter (\<lambda>t. column_or_empty t = column) (tasks b)))))"

end
