(* ===== verification/Task_Claims.thy ===== *)
theory Task_Claims
  imports Task_Ops
begin

text \<open>
  What the operations of the board achieve: a moved task lands where the caller put it, a
  completed task unblocks exactly its dependents, a deleted task leaves no reference behind.
\<close>

section \<open>Boards\<close>

lemma with_id_put:
  "with_id (entity_id e) (put_entity e es) = Some e"
  "i \<noteq> entity_id e \<Longrightarrow> with_id i (put_entity e es) = with_id i es"
proof -
  have snoc: "with_id i (es @ [e]) = (case with_id i es of None \<Rightarrow> if entity_id e = i then Some e else None | r \<Rightarrow> r)" for i
    by (induction es) (auto simp: with_id_def)
  have upd: "with_id i (map (\<lambda>t. if entity_id t = entity_id e then e else t) es)
      = (if i = entity_id e \<and> with_id i es \<noteq> None then Some e else with_id i es)" for i
    by (induction es) (auto simp: with_id_def)
  show "with_id (entity_id e) (put_entity e es) = Some e"
    "i \<noteq> entity_id e \<Longrightarrow> with_id i (put_entity e es) = with_id i es"
    by (auto simp: put_entity_def snoc upd split: option.split)
qed

lemma put_existing:
  "with_id (entity_id e) es \<noteq> None \<Longrightarrow>
     put_entity e es = map (\<lambda>t. if entity_id t = entity_id e then e else t) es"
  by (simp add: put_entity_def)

lemma map_id_put: "with_id (entity_id e) es \<noteq> None \<Longrightarrow> map entity_id (put_entity e es) = map entity_id es"
  by (auto simp: put_existing)

lemma set_put_existing:
  "with_id (entity_id e) es \<noteq> None \<Longrightarrow> set (put_entity e es) = insert e {t \<in> set es. entity_id t \<noteq> entity_id e}"
  by (auto simp: put_existing with_id_None)

lemma set_position_simps [simp]:
  "entity_id (set_position c x e) = entity_id e"
  "get_str (set_position c x e) ''position_column'' = Some c"
  "get_str (set_position c x e) ''position_ordinal'' = Some x"
  "raw_ordinal (set_position c x e) = x"
  "get_string_list (set_position c x e) ''depends_on'' = get_string_list e ''depends_on''"
  by (simp_all add: set_position_def raw_ordinal_def)

lemma last_ordinal_Max: "last_ordinal os = (if os = [] then None else Some (Max (set os)))"
proof -
  have "fold (\<lambda>x last. case last of None \<Rightarrow> Some x | Some y \<Rightarrow> (if y < x then Some x else Some y)) os (Some m)
      = Some (fold max os m)" for os and m :: string
    by (induction os arbitrary: m) (auto simp: max_def)
  then show ?thesis by (cases os) (simp_all add: last_ordinal_def Max.set_eq_fold [symmetric])
qed

lemma end_ordinal_ok:
  assumes "fractions_ok fr" "\<forall>x \<in> set os. canonical fr x"
  shows "canonical fr (end_ordinal fr os)" "x \<in> set os \<Longrightarrow> x < end_ordinal fr os"
proof -
  have m: "canonical fr (Max (set os))" if "os \<noteq> []" using assms(2) that by simp
  show "canonical fr (end_ordinal fr os)"
    using fractions_okD [OF assms(1)] m by (auto simp: end_ordinal_def last_ordinal_Max)
  assume x: "x \<in> set os"
  then have "x \<le> Max (set os)" "os \<noteq> []" by auto
  moreover have "end_ordinal fr os = ord_after fr (Max (set os))"
    using \<open>os \<noteq> []\<close> by (simp add: end_ordinal_def last_ordinal_Max)
  ultimately show "x < end_ordinal fr os"
    using fractions_okD(4) [OF assms(1) m] by (metis order_le_less_trans)
qed

section \<open>Moving\<close>

text \<open>The ids of the tasks of a column in the order the board shows them.\<close>

definition column_ids :: "board \<Rightarrow> string \<Rightarrow> string list" where
  "column_ids b c =
     map entity_id (sort_key raw_ordinal (filter (\<lambda>t. get_str t ''position_column'' = Some c) (tasks b)))"

definition column_ok :: "fractions \<Rightarrow> string \<Rightarrow> string \<Rightarrow> board \<Rightarrow> bool" where
  "column_ok fr c i b \<longleftrightarrow>
     distinct (map entity_id (tasks b))
     \<and> distinct (map raw_ordinal (column_tasks c i (tasks b)))
     \<and> list_all (\<lambda>t. canonical fr (raw_ordinal t)) (column_tasks c i (tasks b))"

lemma set_column_tasks:
  "set (column_tasks c i ts) = {t \<in> set ts. get_str t ''position_column'' = Some c \<and> entity_id t \<noteq> i}"
  by (simp add: column_tasks_def)

lemma column_after_put:
  assumes ok: "column_ok fr c i b" and e: "with_id i (tasks b) = Some e"
    and split: "column_tasks c i (tasks b) = us @ vs"
    and lo: "\<forall>t \<in> set us. raw_ordinal t < x" and hi: "\<forall>t \<in> set vs. x < raw_ordinal t"
  shows "column_ids (b\<lparr>tasks := put_entity (set_position c x e) (tasks b)\<rparr>) c
     = map entity_id us @ i # map entity_id vs"
proof -
  let ?e = "set_position c x e" and ?xs = "column_tasks c i (tasks b)"
  let ?F = "filter (\<lambda>t. get_str t ''position_column'' = Some c) (put_entity ?e (tasks b))"
  have i: "entity_id e = i" using with_id_Some [OF e] by simp
  have put: "with_id (entity_id ?e) (tasks b) \<noteq> None" using e i by simp
  have sorted: "sorted (map raw_ordinal (us @ vs))" "distinct (map raw_ordinal (us @ vs))"
    using ok unfolding column_ok_def split [symmetric] by (simp_all add: column_tasks_def)
  have "set (sort_key raw_ordinal ?F) = insert ?e (set ?xs)"
    using set_put_existing [OF put] i by (auto simp: set_column_tasks)
  then have same: "set (sort_key raw_ordinal ?F) = set (us @ ?e # vs)" unfolding split by auto
  have keys: "sorted (map raw_ordinal (us @ ?e # vs))" "distinct (map raw_ordinal (us @ ?e # vs))"
    using sorted lo hi by (auto simp: sorted_append less_imp_le)
  have "distinct ?F"
    using ok map_id_put [OF put] by (metis column_ok_def distinct_filter distinct_map)
  then have "distinct (sort_key raw_ordinal ?F)" by simp
  moreover have inj: "inj_on raw_ordinal (set (us @ ?e # vs))" using keys(2) by (metis distinct_map)
  ultimately have "distinct (map raw_ordinal (sort_key raw_ordinal ?F))"
    unfolding distinct_map same by blast
  then have "sort_key raw_ordinal ?F = us @ ?e # vs"
    using keys same inj by (intro map_sorted_distinct_set_unique [of raw_ordinal]) auto
  then show ?thesis by (simp add: column_ids_def i)
qed

lemma position_split:
  assumes "position P xs = Some n"
  shows "n < length xs" "P (xs ! n)" "\<forall>j < n. \<not> P (xs ! j)"
  using assms by (induction xs arbitrary: n) (auto split: if_splits simp: nth_Cons' less_Suc_eq_0_disj)

lemma position_found: "x \<in> set xs \<Longrightarrow> P x \<Longrightarrow> \<exists>n. position P xs = Some n"
  by (induction xs) auto

lemma sorted_parts:
  assumes "sorted (map f xs)" "distinct (map f xs)" "n < length xs"
  shows "\<forall>t \<in> set (take n xs). f t < (f (xs ! n) :: 'b::linorder)"
    "\<forall>t \<in> set (drop (Suc n) xs). f (xs ! n) < f t"
proof -
  have s: "sorted_wrt (<) (map f xs)" using assms(1,2) by (simp add: strict_sorted_iff)
  have "map f xs = map f (take n xs) @ f (xs ! n) # map f (drop (Suc n) xs)"
    using assms(3) by (metis id_take_nth_drop list.simps(9) map_append)
  then show "\<forall>t \<in> set (take n xs). f t < f (xs ! n)" "\<forall>t \<in> set (drop (Suc n) xs). f (xs ! n) < f t"
    using s by (auto simp: sorted_wrt_append)
qed

lemma sorted_nth:
  "sorted (map f xs) \<Longrightarrow> distinct (map f xs) \<Longrightarrow> i < j \<Longrightarrow> j < length xs \<Longrightarrow> f (xs ! i) < (f (xs ! j) :: 'b::linorder)"
  using sorted_wrt_nth_less [of "(<)" "map f xs" i j] by (simp add: strict_sorted_iff)

text \<open>The ordinal of each placement lies between those of the two tasks it goes between.\<close>

lemma place_before_bounds:
  assumes "fractions_ok fr" "sorted (map raw_ordinal xs)" "distinct (map raw_ordinal xs)"
    "list_all (\<lambda>t. canonical fr (raw_ordinal t)) xs" "position (\<lambda>t. entity_id t = ref) xs = Some n"
  shows "\<forall>t \<in> set (take n xs). raw_ordinal t < place_before fr ref xs"
    "\<forall>t \<in> set (drop n xs). place_before fr ref xs < raw_ordinal t"
proof -
  have n: "n < length xs" using position_split(1) [OF assms(5)] .
  have can: "task_ordinal fr t = raw_ordinal t" "canonical fr (raw_ordinal t)" if "t \<in> set xs" for t
    using assms(4) that by (simp_all add: task_ordinal_def list_all_iff)
  let ?a = "if n = 0 then None else Some (raw_ordinal (xs ! (n - 1)))" and ?b = "Some (raw_ordinal (xs ! n))"
  have "place_before fr ref xs = compute_ordinal_for_neighbors fr ?a ?b"
    using n can assms(5) by (simp add: place_before_def)
  note p = this
  have "\<forall>x \<in> set_option ?a. canonical fr x" "\<forall>y \<in> set_option ?b. canonical fr y" using n can by auto
  note nb = neighbors_ok [OF assms(1) this, folded p]
  have prev: "raw_ordinal (xs ! (n - 1)) < raw_ordinal (xs ! n)" if "0 < n"
    using sorted_nth [OF assms(2,3)] that n by simp
  show "\<forall>t \<in> set (drop n xs). place_before fr ref xs < raw_ordinal t"
    using nb(2) sorted_parts(2) [OF assms(2,3) n] n by (auto simp: Cons_nth_drop_Suc [symmetric] dest: less_trans)
  show "\<forall>t \<in> set (take n xs). raw_ordinal t < place_before fr ref xs"
  proof (cases n)
    case (Suc m)
    then have m: "raw_ordinal (xs ! m) < place_before fr ref xs" using nb(3) prev by simp
    have "take n xs = take m xs @ [xs ! m]" using Suc n by (simp add: take_Suc_conv_app_nth)
    then show ?thesis using m sorted_parts(1) [OF assms(2,3), of m] Suc n by (auto dest: less_trans)
  qed simp
qed

lemma place_after_bounds:
  assumes "fractions_ok fr" "sorted (map raw_ordinal xs)" "distinct (map raw_ordinal xs)"
    "list_all (\<lambda>t. canonical fr (raw_ordinal t)) xs" "position (\<lambda>t. entity_id t = ref) xs = Some n"
  shows "\<forall>t \<in> set (take (Suc n) xs). raw_ordinal t < place_after fr ref xs"
    "\<forall>t \<in> set (drop (Suc n) xs). place_after fr ref xs < raw_ordinal t"
proof -
  have n: "n < length xs" using position_split(1) [OF assms(5)] .
  have can: "task_ordinal fr t = raw_ordinal t" "canonical fr (raw_ordinal t)" if "t \<in> set xs" for t
    using assms(4) that by (simp_all add: task_ordinal_def list_all_iff)
  let ?a = "Some (raw_ordinal (xs ! n))"
    and ?b = "if n = length xs - 1 then None else Some (raw_ordinal (xs ! (n + 1)))"
  have p: "place_after fr ref xs = compute_ordinal_for_neighbors fr ?a ?b"
    using n can assms(5) by (auto simp: place_after_def)
  have "\<forall>x \<in> set_option ?a. canonical fr x" "\<forall>y \<in> set_option ?b. canonical fr y" using n can by auto
  note nb = neighbors_ok [OF assms(1) this, folded p]
  have succ: "raw_ordinal (xs ! n) < raw_ordinal (xs ! Suc n)" if "Suc n < length xs"
    using sorted_nth [OF assms(2,3)] that by simp
  have "raw_ordinal (xs ! n) < place_after fr ref xs" using nb(3) succ n by (auto split: if_splits)
  then show "\<forall>t \<in> set (take (Suc n) xs). raw_ordinal t < place_after fr ref xs"
    using sorted_parts(1) [OF assms(2,3) n] n by (auto simp: take_Suc_conv_app_nth dest: less_trans)
  show "\<forall>t \<in> set (drop (Suc n) xs). place_after fr ref xs < raw_ordinal t"
  proof (cases "Suc n < length xs")
    case True
    then have "place_after fr ref xs < raw_ordinal (xs ! Suc n)" using nb(2) by auto
    then show ?thesis
      using sorted_parts(2) [OF assms(2,3) True] True by (auto simp: Cons_nth_drop_Suc [symmetric] dest: less_trans)
  qed simp
qed

lemma execute_move_eq:
  "with_id (mv_id op) (tasks b) = Some e \<Longrightarrow>
     tasks (snd (execute_move fr op b))
       = put_entity (set_position (mv_column op) (move_ordinal fr op (tasks b)) e) (tasks b)
     \<and> columns (snd (execute_move fr op b)) = columns (ensure_column (mv_column op) b)
     \<and> is_ok (fst (execute_move fr op b))"
  by (simp add: execute_move_def ensure_column_def Let_def)

lemma moved_column:
  assumes "fractions_ok fr" and "column_ok fr c i b" and "with_id i (tasks b) = Some e"
    and "map entity_id (column_tasks c i (tasks b)) = us @ vs"
    and "op = \<lparr>mv_id = i, mv_column = c, mv_ordinal = None, mv_before = before, mv_after = after\<rparr>"
    and "(before = None \<and> after = None \<and> vs = []) \<or> (\<exists>vs'. before \<noteq> None \<and> vs = the before # vs')
       \<or> (\<exists>us'. before = None \<and> after \<noteq> None \<and> us = us' @ [the after])"
  shows "column_ids (snd (execute_move fr op b)) c = us @ i # vs"
proof -
  let ?xs = "column_tasks c i (tasks b)" and ?x = "move_ordinal fr op (tasks b)"
  let ?n = "length us"
  have s: "sorted (map raw_ordinal ?xs)" by (simp add: column_tasks_def)
  have d: "distinct (map raw_ordinal ?xs)" "list_all (\<lambda>t. canonical fr (raw_ordinal t)) ?xs"
    using assms(2) by (simp_all add: column_ok_def)
  have len: "length ?xs = length us + length vs" using assms(4) by (metis length_append length_map)
  have ids: "map entity_id (take ?n ?xs) = us" "map entity_id (drop ?n ?xs) = vs"
    using assms(4) by (simp_all add: take_map [symmetric] drop_map [symmetric])
  have dist: "distinct (map entity_id ?xs)"
    using assms(2) by (auto simp: column_ok_def column_tasks_def distinct_map inj_on_def)
  have pos: "position (\<lambda>t. entity_id t = r) ?xs = Some k" if k: "k < length ?xs" "map entity_id ?xs ! k = r" for r k
  proof -
    have "entity_id (?xs ! k) = r" using k by simp
    then obtain n where n: "position (\<lambda>t. entity_id t = r) ?xs = Some n"
      using position_found [OF nth_mem [OF k(1)], of "\<lambda>t. entity_id t = r"] by blast
    from position_split [OF n] k have "map entity_id ?xs ! n = map entity_id ?xs ! k" "n < length ?xs" by auto
    then have "n = k" using dist k(1) by (metis length_map nth_eq_iff_index_eq)
    then show ?thesis using n by simp
  qed
  have bounds: "(\<forall>t \<in> set (take ?n ?xs). raw_ordinal t < ?x) \<and> (\<forall>t \<in> set (drop ?n ?xs). ?x < raw_ordinal t)"
    using assms(6)
  proof (elim disjE exE conjE)
    assume a: "before = None" "after = None" "vs = []"
    let ?G = "filter (\<lambda>t. entity_id t \<noteq> i \<and> column_or_empty t = c) (tasks b)"
    have x: "?x = end_ordinal fr (map (task_ordinal fr) ?G)" using a assms(5) by (simp add: move_ordinal_def)
    have "raw_ordinal t < ?x" if "t \<in> set ?xs" for t
    proof -
      have "t \<in> set ?G" using that by (auto simp: set_column_tasks column_or_empty_def)
      then have "task_ordinal fr t \<in> set (map (task_ordinal fr) ?G)" by simp
      moreover have "task_ordinal fr t = raw_ordinal t" using d(2) that by (simp add: task_ordinal_def list_all_iff)
      moreover have can: "\<forall>y \<in> set (map (task_ordinal fr) ?G). canonical fr y"
        using fractions_okD(7) [OF assms(1)] by (simp add: task_ordinal_def)
      ultimately show ?thesis unfolding x using end_ordinal_ok(2) [OF assms(1) can] by simp
    qed
    then show ?thesis using len a(3) by (auto dest: in_set_takeD)
  next
    fix vs' assume a: "before \<noteq> None" "vs = the before # vs'"
    then have x: "?x = place_before fr (the before) ?xs" using assms(5) by (auto simp: move_ordinal_def)
    have "position (\<lambda>t. entity_id t = the before) ?xs = Some ?n"
      using a len assms(4) by (intro pos) auto
    then show ?thesis unfolding x using place_before_bounds [OF assms(1) s d] by blast
  next
    fix us' assume a: "before = None" "after \<noteq> None" "us = us' @ [the after]"
    then have x: "?x = place_after fr (the after) ?xs" using assms(5) by (auto simp: move_ordinal_def)
    have "position (\<lambda>t. entity_id t = the after) ?xs = Some (length us')"
      using a len assms(4) by (intro pos) (auto simp: nth_append)
    then show ?thesis unfolding x using place_after_bounds [OF assms(1) s d] a(3) by auto
  qed
  have xs: "?xs = take ?n ?xs @ drop ?n ?xs" by simp
  have "column_ids (b\<lparr>tasks := put_entity (set_position c ?x e) (tasks b)\<rparr>) c = us @ i # vs"
    using column_after_put [OF assms(2,3) xs] bounds unfolding ids by blast
  then have "column_ids b' c = us @ i # vs"
    if "tasks b' = put_entity (set_position c ?x e) (tasks b)" for b'
    using that by (simp add: column_ids_def)
  then show ?thesis using execute_move_eq [of op b e fr] assms(3,5) by simp
qed

text \<open>An entity of which nothing but its place on the board has changed.\<close>

definition repositioned :: "entity \<Rightarrow> entity \<Rightarrow> bool" where
  "repositioned e e' \<longleftrightarrow> entity_id e' = entity_id e \<and> entity_type e' = entity_type e \<and> location e' = location e
     \<and> (\<forall>k. k \<noteq> ''position_column'' \<and> k \<noteq> ''position_ordinal'' \<longrightarrow> get_field e' k = get_field e k)"

lemma set_position_repositioned: "repositioned e (set_position c x e)"
  by (simp add: repositioned_def set_position_def)

lemma column_ids_elsewhere:
  assumes "with_id i (tasks b) = Some e" and "c' \<noteq> c" and "tasks b' = put_entity (set_position c x e) (tasks b)"
  shows "column_ids b' c' = filter (\<lambda>j. j \<noteq> i) (column_ids b c')"
proof -
  have i: "entity_id e = i" using with_id_Some [OF assms(1)] by simp
  let ?put = "\<lambda>t. if entity_id t = i then set_position c x e else t"
  have ts: "tasks b' = map ?put (tasks b)" using assms(1,3) put_existing [of "set_position c x e" "tasks b"] i by simp
  have "filter (\<lambda>t. get_str t ''position_column'' = Some c') (map ?put ts)
      = filter (\<lambda>t. entity_id t \<noteq> i) (filter (\<lambda>t. get_str t ''position_column'' = Some c') ts)" for ts
    using assms(2) by (induction ts) auto
  then show ?thesis by (simp add: column_ids_def ts filter_map o_def filter_sort)
qed

text \<open>C13. Let the other tasks of the target column have valid ordinals, all different. Moving a task before or after
  another one of that column puts it directly there, and moving it without a target puts it at the end; the other
  tasks of the column keep their order around it, the other columns lose at most the moved task, no
  other task changes in any field, and of the moved task only its place does. With two equal ordinals in the column the
  task may land elsewhere, see below.\<close>

theorem move_lands_there:
  assumes "fractions_ok fr" and "column_ok fr c i b" and "with_id i (tasks b) = Some e"
    and "map entity_id (column_tasks c i (tasks b)) = us @ vs"
    and "op = \<lparr>mv_id = i, mv_column = c, mv_ordinal = None, mv_before = before, mv_after = after\<rparr>"
    and "(before = None \<and> after = None \<and> vs = []) \<or> (\<exists>vs'. before \<noteq> None \<and> vs = the before # vs')
       \<or> (\<exists>us'. before = None \<and> after \<noteq> None \<and> us = us' @ [the after])"
  shows "(case execute_move fr op b of (r, b') \<Rightarrow>
      r = Inr (task_mutation_ack e)
      \<and> column_ids b' c = us @ i # vs
      \<and> (\<forall>c'. c' \<noteq> c \<longrightarrow> column_ids b' c' = filter (\<lambda>j. j \<noteq> i) (column_ids b c'))
      \<and> (\<forall>j. j \<noteq> i \<longrightarrow> with_id j (tasks b') = with_id j (tasks b))
      \<and> (\<exists>e'. with_id i (tasks b') = Some e' \<and> repositioned e e')
      \<and> (with_id c (columns b) \<noteq> None \<longrightarrow> columns b' = columns b))"
proof -
  let ?e = "set_position c (move_ordinal fr op (tasks b)) e"
  obtain b' where x: "execute_move fr op b = (Inr (task_mutation_ack ?e), b')"
    and ts: "tasks b' = put_entity ?e (tasks b)" "columns b' = columns (ensure_column c b)"
  proof -
    have "tasks (ensure_column c b) = tasks b" by (simp add: ensure_column_def)
    then show thesis
      using that [of "(ensure_column c b)\<lparr>tasks := put_entity ?e (tasks b)\<rparr>"] assms(3,5) by (simp add: execute_move_def Let_def)
  qed
  have i: "entity_id e = i" using with_id_Some [OF assms(3)] by simp
  have "with_id i (tasks b') = Some ?e" "j \<noteq> i \<Longrightarrow> with_id j (tasks b') = with_id j (tasks b)" for j
    using with_id_put(1) [of ?e "tasks b"] with_id_put(2) [of j ?e "tasks b"] i by (simp_all add: ts)
  moreover have "column_ids b' c = us @ i # vs" using moved_column [OF assms] by (simp add: x)
  moreover have "\<forall>c'. c' \<noteq> c \<longrightarrow> column_ids b' c' = filter (\<lambda>j. j \<noteq> i) (column_ids b c')"
    using column_ids_elsewhere [OF assms(3) _ ts(1)] by blast
  moreover have "task_mutation_ack ?e = task_mutation_ack e" by (simp add: task_mutation_ack_def)
  moreover have "with_id c (columns b) \<noteq> None \<longrightarrow> columns b' = columns b" by (simp add: ts(2) ensure_column_def)
  ultimately show ?thesis unfolding x prod.case using set_position_repositioned by blast
qed

definition placed_task :: "string \<Rightarrow> string \<Rightarrow> string \<Rightarrow> entity" where
  "placed_task i col ord = set_position col ord (new_entity ''task'' i)"

definition example_board :: board where
  "example_board =
     \<lparr>columns = [set_field ''order'' (json_nat 0) (new_entity ''column'' ''todo''),
                 set_field ''order'' (json_nat 1) (new_entity ''column'' ''done'')],
      tasks = [placed_task ''b'' ''todo'' ''81'', placed_task ''a'' ''todo'' ''80'', placed_task ''c'' ''done'' ''80'']\<rparr>"

lemma placed_task_simps [simp]:
  "entity_id (placed_task i c x) = i"
  "get_str (placed_task i c x) ''position_column'' = Some c"
  "raw_ordinal (placed_task i c x) = x"
  "get_string_list (placed_task i c x) ''depends_on'' = []"
  by (simp_all add: placed_task_def) (simp add: set_position_def get_string_list_def)

lemma example_column:
  "column_tasks ''todo'' ''b'' (tasks example_board) = [placed_task ''a'' ''todo'' ''80'']"
  "with_id ''b'' (tasks example_board) = Some (placed_task ''b'' ''todo'' ''81'')"
  by (simp_all add: example_board_def column_tasks_def with_id_def)

theorem move_lands_there_witness:
  "column_ids (snd (execute_move tree_fractions
     \<lparr>mv_id = ''b'', mv_column = ''todo'', mv_ordinal = None, mv_before = Some ''a'', mv_after = None\<rparr>
     example_board)) ''todo'' = [''b'', ''a'']"
proof -
  have "canonical tree_fractions ''80''" by (simp add: canonical_def tree_fractions_def)
  then have ok: "column_ok tree_fractions ''todo'' ''b'' example_board"
    by (simp add: column_ok_def example_column) (simp add: example_board_def)
  have "map entity_id (column_tasks ''todo'' ''b'' (tasks example_board)) = [] @ [''a'']" by (simp add: example_column)
  from move_lands_there [OF tree_fractions_ok ok example_column(2) this refl] show ?thesis by (simp add: split_beta)
qed

text \<open>Between two equal ordinals there is no room: moving after the first goes before both.\<close>

lemma after_equal_ordinals_goes_first:
  assumes "fractions_ok fr"
  shows "place_after fr ''p'' [placed_task ''p'' ''todo'' ''80'', placed_task ''q'' ''todo'' ''80''] < ''80''"
proof -
  have "canonical fr ''80''" using fractions_okD(1,2) [OF assms] by (simp add: default_str_def)
  then show ?thesis
    using ord_between_ok(2) [OF assms, of "''80''" "''80''"] by (simp add: place_after_def task_ordinal_def)
qed

section \<open>A new column\<close>

lemma max_by_key_last: "\<forall>y \<in> set xs. f y \<le> f x \<Longrightarrow> max_by_key f (xs @ [x]) = Some x"
  by (induction xs) (auto split: option.split)

text \<open>Moving a task into a column that does not exist makes that column the last one, and
  the last column is the one that counts as done: the moved task is finished at once, and no
  task that was finished before still counts as finished.\<close>

lemma new_column_becomes_terminal:
  assumes "with_id (mv_id op) (tasks b) = Some e" and "with_id (mv_column op) (columns b) = None"
    and "\<forall>c \<in> set (columns b). order_or_0 c + 1 < 2 ^ 64"
  shows "(let b' = snd (execute_move fr op b)
    in map_option entity_id (terminal_column b') = Some (mv_column op)
     \<and> dep_done (tasks b') (mv_column op) (mv_id op)
     \<and> (\<forall>i. i \<noteq> mv_id op \<longrightarrow> (\<forall>t. with_id i (tasks b) = Some t \<longrightarrow> get_str t ''position_column'' \<noteq> Some (mv_column op))
          \<longrightarrow> \<not> dep_done (tasks b') (mv_column op) i))"
proof -
  let ?c = "new_column (mv_column op) (columns b)" and ?b = "snd (execute_move fr op b)"
  let ?orders = "List.map_filter order_of (columns b)"
  let ?n = "if ?orders = [] then 0 else Max (set ?orders) + 1"
  have orders: "set ?orders = {n. \<exists>c \<in> set (columns b). order_of c = Some n}"
    by (force simp: map_filter_def image_iff)
  have bound: "\<forall>n \<in> set ?orders. n + 1 < 2 ^ 64" using assms(3) unfolding orders by (force simp: order_or_0_def)
  then have "?n < 2 ^ 64" using Max_in [of "set ?orders"] by auto
  then have order: "order_of ?c = Some ?n"
    by (simp add: new_column_def order_of_def Let_def json_u64_nat)
  have "\<forall>c \<in> set (columns b). order_or_0 c \<le> order_or_0 ?c"
  proof
    fix c assume c: "c \<in> set (columns b)"
    show "order_or_0 c \<le> order_or_0 ?c"
    proof (cases "order_of c")
      case (Some n)
      then have "n \<in> set ?orders" using c by (auto simp: orders)
      then have "n \<le> Max (set ?orders)" "?orders \<noteq> []" by auto
      then show ?thesis using Some order by (simp add: order_or_0_def)
    qed (simp add: order_or_0_def)
  qed
  then have "max_by_key order_or_0 (columns b @ [?c]) = Some ?c" by (rule max_by_key_last)
  moreover have id: "entity_id ?c = mv_column op" by (simp add: new_column_def Let_def)
  moreover have "columns ?b = columns b @ [?c]"
    using execute_move_eq [OF assms(1), of fr] assms(2) id by (simp add: ensure_column_def put_entity_def)
  ultimately have t: "map_option entity_id (terminal_column ?b) = Some (mv_column op)"
    by (simp add: terminal_column_def)
  let ?e = "set_position (mv_column op) (move_ordinal fr op (tasks b)) e"
  have ts: "tasks ?b = put_entity ?e (tasks b)" and e: "entity_id ?e = mv_id op"
    using execute_move_eq [OF assms(1), of fr] with_id_Some [OF assms(1)] by simp_all
  have "dep_done (tasks ?b) (mv_column op) (mv_id op)"
    using with_id_put(1) [of ?e "tasks b"] unfolding ts e by (simp add: dep_done_def)
  moreover have "dep_done (tasks ?b) (mv_column op) i = dep_done (tasks b) (mv_column op) i" if "i \<noteq> mv_id op" for i
    using with_id_put(2) [of i ?e "tasks b"] that unfolding ts e by (simp add: dep_done_def)
  ultimately show ?thesis using t by (auto simp: Let_def dep_done_def split: option.splits)
qed

section \<open>Completing\<close>

text \<open>C14. Completing a task succeeds on a board with columns and puts it at the end of the last
  column. No other task changes, nor do the columns, the order of the list or any field of the task besides its
  place; and exactly this task is taken off every list of blockers.\<close>

theorem complete_unblocks:
  assumes "fractions_ok fr" and "with_id i (tasks b) = Some e" and "terminal_column b = Some c"
  shows "(case execute_complete fr i b of (r, b') \<Rightarrow>
      r = Inr (task_mutation_ack e)
      \<and> columns b' = columns b \<and> map entity_id (tasks b') = map entity_id (tasks b)
      \<and> (\<forall>j. j \<noteq> i \<longrightarrow> with_id j (tasks b') = with_id j (tasks b))
      \<and> (\<exists>e'. with_id i (tasks b') = Some e' \<and> repositioned e e' \<and> get_str e' ''position_column'' = Some (entity_id c)
          \<and> (\<forall>t \<in> set (tasks b). entity_id t \<noteq> i \<longrightarrow> get_str t ''position_column'' = Some (entity_id c)
                \<longrightarrow> task_ordinal fr t < raw_ordinal e'))
      \<and> (\<forall>t. task_blocked_by t (tasks b') (entity_id c)
             = filter (\<lambda>d. d \<noteq> i) (task_blocked_by t (tasks b) (entity_id c))))"
proof -
  let ?os = "map (task_ordinal fr)
      (filter (\<lambda>t. entity_id t \<noteq> i \<and> get_str t ''position_column'' = Some (entity_id c)) (tasks b))"
  let ?e = "set_position (entity_id c) (end_ordinal fr ?os) e"
  have i: "entity_id e = i" using with_id_Some [OF assms(2)] by simp
  have x: "execute_complete fr i b = (Inr (task_mutation_ack ?e), b\<lparr>tasks := put_entity ?e (tasks b)\<rparr>)"
    by (simp add: execute_complete_def assms(2,3) Let_def)
  have can: "\<forall>y \<in> set ?os. canonical fr y" using fractions_okD(7) [OF assms(1)] by (simp add: task_ordinal_def)
  have put: "with_id i (put_entity ?e (tasks b)) = Some ?e"
    "j \<noteq> i \<Longrightarrow> with_id j (put_entity ?e (tasks b)) = with_id j (tasks b)" for j
    using with_id_put(1) [of ?e "tasks b"] with_id_put(2) [of j ?e "tasks b"] i by simp_all
  have "dep_done (put_entity ?e (tasks b)) (entity_id c) d \<longleftrightarrow> d = i \<or> dep_done (tasks b) (entity_id c) d" for d
    using put by (cases "d = i") (simp_all add: dep_done_def)
  then have "task_blocked_by t (put_entity ?e (tasks b)) (entity_id c)
      = filter (\<lambda>d. d \<noteq> i) (task_blocked_by t (tasks b) (entity_id c))" for t
    unfolding task_blocked_by_def filter_filter by (intro filter_cong) auto
  moreover have "\<forall>t \<in> set (tasks b). entity_id t \<noteq> i \<longrightarrow> get_str t ''position_column'' = Some (entity_id c)
      \<longrightarrow> task_ordinal fr t < raw_ordinal ?e"
    using end_ordinal_ok(2) [OF assms(1) can] by simp
  moreover have "task_mutation_ack ?e = task_mutation_ack e" by (simp add: task_mutation_ack_def)
  moreover have "map entity_id (put_entity ?e (tasks b)) = map entity_id (tasks b)"
    using map_id_put [of ?e "tasks b"] assms(2) i by simp
  ultimately show ?thesis unfolding x prod.case using put set_position_repositioned by simp
qed

theorem complete_unblocks_witness:
  "\<exists>b'. execute_complete tree_fractions ''a'' example_board
       = (Inr (task_mutation_ack (placed_task ''a'' ''todo'' ''80'')), b')
     \<and> task_blocked_by (example_task ''x'' ''todo'' [''a'', ''b'']) (tasks b') ''done'' = [''b'']"
proof -
  have e: "with_id ''a'' (tasks example_board) = Some (placed_task ''a'' ''todo'' ''80'')"
    by (simp add: example_board_def with_id_def)
  have c: "terminal_column example_board = Some (set_field ''order'' (json_nat 1) (new_entity ''column'' ''done''))"
    by (simp add: terminal_column_def example_board_def order_or_0_def order_of_def json_u64_nat)
  have before: "task_blocked_by (example_task ''x'' ''todo'' [''a'', ''b'']) (tasks example_board) ''done'' = [''a'', ''b'']"
    by (simp add: task_blocked_by_def example_task_def dep_done_def example_board_def with_id_def)
  obtain r b' where x: "execute_complete tree_fractions ''a'' example_board = (r, b')" by fastforce
  show ?thesis
    using complete_unblocks [OF tree_fractions_ok e c] before unfolding x prod.case by auto
qed

section \<open>Deleting\<close>

lemma with_id_ids: "with_id i es = None \<longleftrightarrow> i \<notin> set (map entity_id es)"
  by (auto simp: with_id_None)

lemma drop_dependency_id [simp]: "entity_id (drop_dependency i t) = entity_id t"
  by (simp add: drop_dependency_def)

lemma delete_loop:
  assumes "distinct (map entity_id ts)"
  shows "fold (\<lambda>t. if P t then put_entity (drop_dependency i t) else (\<lambda>ts. ts)) ts ts
     = map (\<lambda>t. if P t then drop_dependency i t else t) ts"
proof -
  define R where "R S t = (if entity_id t \<in> S \<and> P t then drop_dependency i t else t)" for S t
  have id: "entity_id (R S t) = entity_id t" for S t by (simp add: R_def)
  have step: "put_entity (drop_dependency i y) (map (R S) ts) = map (R (insert (entity_id y) S)) ts"
    if "y \<in> set ts" "P y" for y S
  proof -
    have eq: "t = y" if "t \<in> set ts" "entity_id t = entity_id y" for t
      using assms that \<open>y \<in> set ts\<close> by (auto simp: distinct_map inj_on_def)
    have "with_id (entity_id y) (map (R S) ts) \<noteq> None" using that(1) by (auto simp: with_id_None id)
    then have "put_entity (drop_dependency i y) (map (R S) ts)
        = map (\<lambda>t. if entity_id t = entity_id y then drop_dependency i y else R S t) ts"
      by (simp add: put_existing id)
    then show ?thesis using eq that(2) by (auto simp: R_def)
  qed
  have "fold (\<lambda>t. if P t then put_entity (drop_dependency i t) else (\<lambda>ts. ts)) ys (map (R S) ts)
      = map (R (S \<union> entity_id ` set ys)) ts" if "set ys \<subseteq> set ts" for ys S
    using that
  proof (induction ys arbitrary: S)
    case (Cons y ys)
    have "map (R (insert (entity_id y) S)) ts = map (R S) ts" if "\<not> P y" for S
    proof (rule map_cong [OF refl])
      fix t assume "t \<in> set ts"
      then have "entity_id t = entity_id y \<Longrightarrow> t = y" using assms Cons.prems by (auto simp: distinct_map inj_on_def)
      then show "R (insert (entity_id y) S) t = R S t" using that by (auto simp: R_def)
    qed
    then show ?case using Cons step [of y S] by (cases "P y") simp_all
  qed simp
  from this [of ts "{}"] show ?thesis by (simp add: R_def cong: map_cong)
qed

text \<open>C15. Deleting a task removes it and its id from every list of dependencies, keeps
  everything else of the other tasks, and so unblocks what it blocked; deleting a task that is
  not there fails and changes nothing.\<close>

theorem delete_leaves_no_reference:
  assumes "distinct (map entity_id (tasks b))"
  shows "(case execute_delete i b of
      (Inl err, b') \<Rightarrow> err = TaskNotFound i \<and> b' = b \<and> with_id i (tasks b) = None
    | (Inr r, b') \<Rightarrow>
        columns b' = columns b \<and> with_id i (tasks b) \<noteq> None \<and> with_id i (tasks b') = None
        \<and> map entity_id (tasks b') = filter (\<lambda>j. j \<noteq> i) (map entity_id (tasks b))
        \<and> (\<forall>t' \<in> set (tasks b'). \<exists>t. with_id (entity_id t') (tasks b) = Some t
             \<and> get_string_list t' ''depends_on'' = filter (\<lambda>d. d \<noteq> i) (get_string_list t ''depends_on'')
             \<and> (\<forall>k. k \<noteq> ''depends_on'' \<longrightarrow> get_field t' k = get_field t k)
             \<and> task_blocked_by t' (tasks b') terminal = filter (\<lambda>d. d \<noteq> i) (task_blocked_by t (tasks b) terminal)))"
proof (cases "with_id i (tasks b)")
  case None
  then show ?thesis by (simp add: execute_delete_def)
next
  case (Some e)
  let ?P = "\<lambda>t. entity_id t \<noteq> i \<and> i \<in> set (get_string_list t ''depends_on'')"
  let ?f = "\<lambda>t. if ?P t then drop_dependency i t else t"
  let ?ts = "map ?f (filter (\<lambda>t. entity_id t \<noteq> i) (tasks b))"
  have f: "entity_id (?f t) = entity_id t" "get_str (?f t) ''position_column'' = get_str t ''position_column''"
    "k \<noteq> ''depends_on'' \<Longrightarrow> get_field (?f t) k = get_field t k" for t k
    by (simp_all add: drop_dependency_def)
  have deps: "get_string_list (?f t) ''depends_on'' = filter (\<lambda>d. d \<noteq> i) (get_string_list t ''depends_on'')"
    if "entity_id t \<noteq> i" for t
    using that by (auto simp: drop_dependency_def intro!: filter_True [symmetric])
  have ts: "tasks (snd (execute_delete i b)) = ?ts"
    using Some
    by (simp add: execute_delete_def Let_def delete_loop [OF assms] filter_map o_def)
      (intro map_cong filter_cong refl; auto)
  have without: "with_id d (filter (\<lambda>t. entity_id t \<noteq> i) (tasks b)) = (if d = i then None else with_id d (tasks b))" for d
    unfolding with_id_def by (auto simp: find_filter_imp) (simp add: find_None_conv)
  have dd: "dep_done ?ts terminal d \<longleftrightarrow> d \<noteq> i \<and> dep_done (tasks b) terminal d" for d
    using dep_done_cong [of ?f "filter (\<lambda>t. entity_id t \<noteq> i) (tasks b)" terminal d] f(1,2)
    by (simp add: dep_done_def without)
  have "\<exists>t. with_id (entity_id t') (tasks b) = Some t
             \<and> get_string_list t' ''depends_on'' = filter (\<lambda>d. d \<noteq> i) (get_string_list t ''depends_on'')
             \<and> (\<forall>k. k \<noteq> ''depends_on'' \<longrightarrow> get_field t' k = get_field t k)
             \<and> task_blocked_by t' ?ts terminal = filter (\<lambda>d. d \<noteq> i) (task_blocked_by t (tasks b) terminal)"
    if mem: "t' \<in> set ?ts" for t'
  proof -
    obtain t where t: "t \<in> set (tasks b)" "entity_id t \<noteq> i" "t' = ?f t" using mem by auto
    have "task_blocked_by t' ?ts terminal = filter (\<lambda>d. d \<noteq> i) (task_blocked_by t (tasks b) terminal)"
      unfolding task_blocked_by_def t(3) deps [OF t(2)] filter_filter dd by (intro filter_cong) auto
    then show ?thesis
      using with_id_in [OF assms t(1)] deps [OF t(2)] f(1,3) t(3) by (intro exI [of _ t]) simp
  qed
  moreover have ids: "map entity_id ?ts = filter (\<lambda>j. j \<noteq> i) (map entity_id (tasks b))"
    by (simp add: filter_map o_def f(1))
  moreover have "with_id i ?ts = None"
  proof -
    have "i \<notin> set (map entity_id ?ts)" unfolding ids by simp
    then show ?thesis unfolding with_id_ids .
  qed
  moreover obtain r b' where x: "execute_delete i b = (Inr r, b')" and cols: "columns b' = columns b"
    using Some by (simp add: execute_delete_def Let_def)
  ultimately show ?thesis using Some ts unfolding x sum.case prod.case snd_conv by simp
qed

theorem delete_leaves_no_reference_witness:
  "with_id ''a'' (tasks (snd (execute_delete ''a'' example_board))) = None
   \<and> map entity_id (tasks (snd (execute_delete ''a'' example_board))) = [''b'', ''c'']"
proof -
  have d: "distinct (map entity_id (tasks example_board))" by (simp add: example_board_def)
  obtain r b' where x: "execute_delete ''a'' example_board = (Inr r, b')"
    by (simp add: execute_delete_def Let_def example_board_def with_id_def)
  show ?thesis
    using delete_leaves_no_reference [OF d, of "''a''"] unfolding x by (simp add: example_board_def)
qed

end
