(* ===== verification/Guarded_Walk.thy ===== *)
theory Guarded_Walk
  imports Main
begin

text \<open>
  A walk along parent links that keeps the set of keys it has visited and stops at a key it has seen,
  at a missing key, or where there is no parent. The kernel walks the parent zones of a snapshot and
  the parents of a layer this way. The laws are the equations of the loop; the lemmas say that the
  guard costs nothing: the walk yields exactly the keys that are reachable, each once.
\<close>

locale guarded_walk =
  fixes walk :: "'k option \<Rightarrow> 'k set \<Rightarrow> 'k list"
    and parent :: "'k \<Rightarrow> 'k option option"
  assumes finite_keys: "finite (dom parent)"
    and walk_None: "walk None visited = []"
    and walk_Some: "walk (Some k) visited =
      (if k \<in> visited then [] else case parent k of None \<Rightarrow> [] | Some n \<Rightarrow> k # walk n (insert k visited))"
begin

definition edges :: "('k \<times> 'k) set" where
  "edges = {(a, b). parent a = Some (Some b) \<and> parent b \<noteq> None}"

lemma edges_unique: "(a, b) \<in> edges \<Longrightarrow> (a, c) \<in> edges \<Longrightarrow> b = c"
  by (auto simp: edges_def)

lemma fewer_keys: "parent k \<noteq> None \<Longrightarrow> k \<notin> visited \<Longrightarrow> card (dom parent - insert k visited) < card (dom parent - visited)"
  by (rule psubset_card_mono) (auto simp: finite_keys)

lemma walk_induct [case_names None Seen Missing Step]:
  assumes "\<And>visited. P None visited"
    and "\<And>k visited. k \<in> visited \<Longrightarrow> P (Some k) visited"
    and "\<And>k visited. k \<notin> visited \<Longrightarrow> parent k = None \<Longrightarrow> P (Some k) visited"
    and "\<And>k visited n. k \<notin> visited \<Longrightarrow> parent k = Some n \<Longrightarrow> P n (insert k visited) \<Longrightarrow> P (Some k) visited"
  shows "P n visited"
proof (induction "card (dom parent - visited)" arbitrary: n visited rule: less_induct)
  case less
  show ?case
  proof (cases n)
    case (Some k)
    show ?thesis
    proof (cases "k \<in> visited \<or> parent k = None")
      case False
      then obtain m where "parent k = Some m" by blast
      then show ?thesis using False less [of "insert k visited" m] fewer_keys [of k visited] assms(4) Some by auto
    qed (use assms(2,3) Some in auto)
  qed (use assms(1) in simp)
qed

lemma walk_keys: "a \<in> set (walk n visited) \<Longrightarrow> parent a \<noteq> None \<and> a \<notin> visited"
  by (induction n visited rule: walk_induct) (auto simp: walk_None walk_Some split: if_splits)

lemma walk_distinct: "distinct (walk n visited)"
proof (induction n visited rule: walk_induct)
  case (Step k visited n)
  then show ?case using walk_keys [of k n "insert k visited"] by (auto simp: walk_Some)
qed (simp_all add: walk_None walk_Some)

lemma walk_sound: "b \<in> set (walk n visited) \<Longrightarrow> \<exists>a. n = Some a \<and> (a, b) \<in> edges\<^sup>*"
proof (induction n visited rule: walk_induct)
  case (Step k visited n)
  show ?case
  proof (cases "b = k")
    case False
    then have b: "b \<in> set (walk n (insert k visited))" using Step by (simp add: walk_Some)
    then obtain p where p: "n = Some p" "(p, b) \<in> edges\<^sup>*" using Step.IH by blast
    have "parent p \<noteq> None"
      using b p(1) by (cases "parent p") (auto simp: walk_Some split: if_splits)
    then have "(k, p) \<in> edges" using Step.hyps(2) p(1) by (simp add: edges_def)
    then show ?thesis using p(2) by (auto intro: converse_rtrancl_into_rtrancl)
  qed auto
qed (simp_all add: walk_None walk_Some)

lemma walk_closed:
  assumes "parent a \<noteq> None" "\<And>u v. u \<in> visited \<Longrightarrow> (u, v) \<in> edges \<Longrightarrow> v \<in> insert a visited"
  defines "R \<equiv> set (walk (Some a) visited) \<union> visited"
  shows "a \<in> R \<and> (\<forall>u v. u \<in> R \<longrightarrow> (u, v) \<in> edges \<longrightarrow> v \<in> R)"
  unfolding R_def using assms(1,2)
proof (induction "Some a" visited arbitrary: a rule: walk_induct)
  case (Step a visited n)
  have w: "walk (Some a) visited = a # walk n (insert a visited)"
    using Step.hyps by (simp add: walk_Some)
  show ?case
  proof (cases "\<exists>p. n = Some p \<and> parent p \<noteq> None")
    case True
    then obtain p where p: "n = Some p" "parent p \<noteq> None" by blast
    have "v \<in> insert p (insert a visited)" if "u \<in> insert a visited" "(u, v) \<in> edges" for u v
      using that Step.prems(2) Step.hyps(2) p(1) by (auto simp: edges_def)
    then have "p \<in> set (walk n (insert a visited)) \<union> insert a visited
        \<and> (\<forall>u v. u \<in> set (walk n (insert a visited)) \<union> insert a visited \<longrightarrow> (u, v) \<in> edges
            \<longrightarrow> v \<in> set (walk n (insert a visited)) \<union> insert a visited)"
      using Step.hyps(3) [OF p(1) p(2)] p(1) by blast
    then show ?thesis unfolding w by simp
  next
    case False
    then have "walk n (insert a visited) = []"
      by (cases n) (auto simp: walk_None walk_Some)
    moreover have "(a, v) \<notin> edges" for v using False Step.hyps(2) by (auto simp: edges_def)
    ultimately show ?thesis unfolding w using Step.prems(2) by auto
  qed
qed (auto simp: insert_absorb walk_Some)

text \<open>The visited set cuts nothing off: whatever is reachable is reached, cycle or not.\<close>

lemma walk_reaches: "parent a \<noteq> None \<Longrightarrow> set (walk (Some a) {}) = {b. (a, b) \<in> edges\<^sup>*}"
proof -
  assume a: "parent a \<noteq> None"
  have "b \<in> set (walk (Some a) {})" if "(a, b) \<in> edges\<^sup>*" for b
    using that walk_closed [of a "{}"] a by (induction rule: rtrancl_induct) auto
  then show ?thesis using walk_sound [of _ "Some a" "{}"] by auto
qed

lemma walk_from_parent:
  "set (walk (case parent k of None \<Rightarrow> None | Some n \<Rightarrow> n) {}) = {b. (k, b) \<in> edges\<^sup>+}"
proof (cases "\<exists>p. (k, p) \<in> edges")
  case True
  then obtain p where p: "(k, p) \<in> edges" by blast
  then have "(k, b) \<in> edges\<^sup>+ \<longleftrightarrow> (p, b) \<in> edges\<^sup>*" for b
    by (auto dest!: tranclD intro: rtrancl_into_trancl2 dest: edges_unique)
  then show ?thesis using p walk_reaches [of p] by (auto simp: edges_def)
next
  case False
  then have "walk (case parent k of None \<Rightarrow> None | Some n \<Rightarrow> n) {} = []"
    by (cases "parent k"; cases "the (parent k)") (auto simp: edges_def walk_None walk_Some)
  moreover have "(k, b) \<notin> edges\<^sup>+" for b using False by (auto dest: tranclD)
  ultimately show ?thesis by simp
qed

end

end
