(* ===== verification/Focus_Snapshot.thy ===== *)
theory Focus_Snapshot
  imports Prelude Guarded_Walk "HOL-Library.AList" "Complex_Main"
begin

text \<open>
  The data of the spatial navigation kernel (\<open>src/crates/swissarmyhammer-focus/src/types.rs\<close> and
  \<open>snapshot.rs\<close>): monikers, rectangles, the snapshot of one layer, its index by moniker and the walk
  up the parent zones. A coordinate is a rational: the wire format has no NaN and no infinity, and
  the kernel only compares sums, differences, halves and squares of coordinates; rounding is left out.
\<close>

section \<open>Monikers\<close>

definition fq_separator :: char where
  "fq_separator = CHR ''/''"

definition fq_root :: "string \<Rightarrow> string" where
  "fq_root segment = fq_separator # segment"

definition compose :: "string \<Rightarrow> string \<Rightarrow> string" where
  "compose parent segment = parent @ [fq_separator] @ segment"

text \<open>\<open>rsplit\<close> yields what follows the last separator first, the whole string when there is none.\<close>

definition last_segment :: "string \<Rightarrow> string" where
  "last_segment s = rev (takeWhile (\<lambda>c. c \<noteq> fq_separator) (rev s))"

lemma last_segment_compose: "fq_separator \<notin> set seg \<Longrightarrow> last_segment (compose p seg) = seg"
  using takeWhile_sep [of fq_separator "rev seg" "rev p"] by (simp add: last_segment_def compose_def)

section \<open>Rectangles\<close>

type_synonym pixels = rat

record rect =
  x :: pixels
  y :: pixels
  width :: pixels
  height :: pixels

definition top_edge :: "rect \<Rightarrow> pixels" where
  "top_edge r = y r"

definition left_edge :: "rect \<Rightarrow> pixels" where
  "left_edge r = x r"

definition bottom_edge :: "rect \<Rightarrow> pixels" where
  "bottom_edge r = y r + height r"

definition right_edge :: "rect \<Rightarrow> pixels" where
  "right_edge r = x r + width r"

lemmas edge_defs = top_edge_def left_edge_def bottom_edge_def right_edge_def

section \<open>Snapshots\<close>

datatype direction = Up | Down | Left | Right | First | Last | RowStart | RowEnd

record scope =
  scope_fq :: string
  scope_rect :: rect
  parent_zone :: "string option"
  nav_override :: "direction \<Rightarrow> string option option"

record snapshot =
  snap_layer :: string
  scopes :: "scope list"

text \<open>The index: later scopes replace earlier ones with the same moniker.\<close>

definition by_fq :: "snapshot \<Rightarrow> string \<Rightarrow> scope option" where
  "by_fq snap = fold (\<lambda>s m. m(scope_fq s \<mapsto> s)) (scopes snap) Map.empty"

definition get_scope :: "snapshot \<Rightarrow> string \<Rightarrow> scope option" where
  "get_scope snap fq = by_fq snap fq"

definition scope_fqs :: "snapshot \<Rightarrow> string set" where
  "scope_fqs snap = set (map scope_fq (scopes snap))"

lemma index_fold:
  "fold (\<lambda>s m. m(scope_fq s \<mapsto> s)) ss m fq = (case find (\<lambda>s. scope_fq s = fq) (rev ss) of None \<Rightarrow> m fq | Some s \<Rightarrow> Some s)"
proof (induction ss arbitrary: m)
  case (Cons s ss)
  then show ?case by (cases "find (\<lambda>s. scope_fq s = fq) (rev ss)") (auto simp: find_in_append)
qed simp

lemma get_scope_find: "get_scope snap fq = find (\<lambda>s. scope_fq s = fq) (rev (scopes snap))"
  by (simp add: get_scope_def by_fq_def index_fold split: option.split)

lemma get_scope_Some: "get_scope snap fq = Some s \<Longrightarrow> scope_fq s = fq \<and> s \<in> set (scopes snap)"
  unfolding get_scope_find by (drule find_SomeD) simp

lemma get_scope_None: "get_scope snap fq = None \<longleftrightarrow> fq \<notin> scope_fqs snap"
  by (auto simp: get_scope_find find_None_conv scope_fqs_def)

lemma get_scope_in: "fq \<in> scope_fqs snap \<Longrightarrow> \<exists>s. get_scope snap fq = Some s"
  using get_scope_None [of snap fq] by auto

lemma scope_fqs_get: "get_scope snap fq = Some s \<Longrightarrow> fq \<in> scope_fqs snap"
  using get_scope_None [of snap fq] by auto

lemma finite_scope_fqs [simp]: "finite (scope_fqs snap)"
  by (simp add: scope_fqs_def)

lemma get_scope_distinct:
  assumes "distinct (map scope_fq (scopes snap))" "s \<in> set (scopes snap)"
  shows "get_scope snap (scope_fq s) = Some s"
proof -
  obtain t where t: "get_scope snap (scope_fq s) = Some t"
    using get_scope_in [of "scope_fq s" snap] assms(2) by (auto simp: scope_fqs_def)
  then have "t = s" using get_scope_Some [OF t] assms by (auto simp: distinct_map dest: inj_onD)
  then show ?thesis using t by simp
qed

section \<open>The walk up the parent zones\<close>

function zone_walk :: "snapshot \<Rightarrow> string option \<Rightarrow> string set \<Rightarrow> scope list" where
  "zone_walk snap None visited = []"
| "zone_walk snap (Some fq) visited =
     (if fq \<in> visited then []
      else case get_scope snap fq of
             None \<Rightarrow> []
           | Some s \<Rightarrow> s # zone_walk snap (parent_zone s) (insert fq visited))"
  by pat_completeness auto
termination
proof (relation "measure (\<lambda>(snap, n, visited). card (scope_fqs snap - visited))")
  fix snap :: snapshot and fq :: string and visited :: "string set" and s :: scope
  assume "fq \<notin> visited" "get_scope snap fq = Some s"
  then have "fq \<in> scope_fqs snap - visited" by (auto dest: scope_fqs_get)
  then have "scope_fqs snap - insert fq visited \<subset> scope_fqs snap - visited" by auto
  then show "((snap, parent_zone s, insert fq visited), (snap, Some fq, visited))
      \<in> measure (\<lambda>(snap, n, visited). card (scope_fqs snap - visited))"
    by (simp add: psubset_card_mono)
qed simp

definition parent_zone_chain :: "snapshot \<Rightarrow> string \<Rightarrow> scope list" where
  "parent_zone_chain snap fq =
     zone_walk snap (case get_scope snap fq of None \<Rightarrow> None | Some s \<Rightarrow> parent_zone s) {}"

text \<open>The parent edges of the snapshot that lead to a scope of the snapshot.\<close>

definition zone_edges :: "snapshot \<Rightarrow> (string \<times> string) set" where
  "zone_edges snap =
     {(a, b). \<exists>s t. get_scope snap a = Some s \<and> parent_zone s = Some b \<and> get_scope snap b = Some t}"

abbreviation zone_parent :: "snapshot \<Rightarrow> string \<Rightarrow> string option option" where
  "zone_parent snap fq \<equiv> map_option parent_zone (get_scope snap fq)"

interpretation zones: guarded_walk "\<lambda>n visited. map scope_fq (zone_walk snap n visited)" "zone_parent snap" for snap
proof
  have "dom (zone_parent snap) \<subseteq> scope_fqs snap" by (auto dest: scope_fqs_get)
  then show "finite (dom (zone_parent snap))" by (rule finite_subset) simp
  show "map scope_fq (zone_walk snap (Some k) visited) =
    (if k \<in> visited then [] else case zone_parent snap k of None \<Rightarrow> []
     | Some n \<Rightarrow> k # map scope_fq (zone_walk snap n (insert k visited)))" for k visited
    by (cases "get_scope snap k") (auto dest: get_scope_Some)
qed simp

lemma zone_edges_eq: "zones.edges snap = zone_edges snap"
  by (auto simp: zones.edges_def zone_edges_def)

lemma zone_walk_scopes: "s \<in> set (zone_walk snap n visited) \<Longrightarrow> get_scope snap (scope_fq s) = Some s"
proof (induction snap n visited rule: zone_walk.induct)
  case (2 snap fq visited)
  then show ?case by (cases "get_scope snap fq") (auto split: if_splits dest: get_scope_Some)
qed simp

lemma distinct_chain: "distinct (map scope_fq (parent_zone_chain snap fq))"
  unfolding parent_zone_chain_def by (rule zones.walk_distinct)

lemma chain_fqs: "scope_fq ` set (parent_zone_chain snap fq) = {a. (fq, a) \<in> (zone_edges snap)\<^sup>+}"
  using zones.walk_from_parent [of snap fq]
  by (cases "get_scope snap fq") (simp_all add: parent_zone_chain_def zone_edges_eq)

end
