(* ===== verification/Focus_Registry.thy ===== *)
theory Focus_Registry
  imports Focus_Snapshot
begin

text \<open>
  The layer store and the focus memory (\<open>src/crates/swissarmyhammer-focus/src/layer.rs\<close> and
  \<open>registry.rs\<close>). The layers are an association list, whose order stands for the order in which the
  hash map happens to iterate; lookups go through \<open>map_of\<close>.
\<close>

section \<open>Layers and the registry\<close>

record layer =
  layer_fq :: string
  layer_segment :: string
  layer_name :: string
  layer_parent :: "string option"
  window_label :: string
  last_focused :: "string option"

record registry =
  layers :: "(string \<times> layer) list"
  last_focused_by_fq :: "string \<Rightarrow> string option"

definition new_registry :: registry where
  "new_registry = \<lparr>layers = [], last_focused_by_fq = Map.empty\<rparr>"

definition get_layer :: "registry \<Rightarrow> string \<Rightarrow> layer option" where
  "get_layer reg fq = map_of (layers reg) fq"

definition push_layer :: "layer \<Rightarrow> registry \<Rightarrow> registry" where
  "push_layer l reg =
     (let l' = (if last_focused l = None
                then case get_layer reg (layer_fq l) of
                       Some existing \<Rightarrow> l\<lparr>last_focused := last_focused existing\<rparr>
                     | None \<Rightarrow> l
                else l)
      in reg\<lparr>layers := AList.update (layer_fq l) l' (layers reg)\<rparr>)"

definition remove_layer :: "string \<Rightarrow> registry \<Rightarrow> registry" where
  "remove_layer fq reg = reg\<lparr>layers := AList.delete fq (layers reg)\<rparr>"

definition children_of_layer :: "string \<Rightarrow> registry \<Rightarrow> layer list" where
  "children_of_layer fq reg = filter (\<lambda>l. layer_parent l = Some fq) (map snd (layers reg))"

definition root_for_window :: "string \<Rightarrow> registry \<Rightarrow> layer option" where
  "root_for_window label reg =
     (let roots = filter (\<lambda>l. layer_parent l = None \<and> window_label l = label) (map snd (layers reg))
      in if roots = [] then None else Some (hd roots))"

section \<open>Recording the focus\<close>

function layer_walk :: "string \<Rightarrow> string option \<Rightarrow> string set \<Rightarrow> (string \<times> layer) list \<Rightarrow> (string \<times> layer) list" where
  "layer_walk fq None visited ls = ls"
| "layer_walk fq (Some l) visited ls =
     (if l \<in> visited then ls
      else case map_of ls l of
             None \<Rightarrow> ls
           | Some ly \<Rightarrow> layer_walk fq (layer_parent ly) (insert l visited)
                          (AList.update l (ly\<lparr>last_focused := Some fq\<rparr>) ls))"
  by pat_completeness auto
termination
proof (relation "measure (\<lambda>(fq, n, visited, ls). card (fst ` set ls - visited))", goal_cases)
  case (2 fq l visited ls ly)
  then have l: "l \<in> fst ` set ls - visited" by (auto dest: map_of_SomeD intro: rev_image_eqI)
  then have "fst ` set (AList.update l (ly\<lparr>last_focused := Some fq\<rparr>) ls) - insert l visited \<subset> fst ` set ls - visited"
    by (auto simp: dom_update [unfolded dom_map_of_conv_image_fst])
  then show ?case by (simp add: psubset_card_mono)
qed simp

definition record_focus :: "string \<Rightarrow> snapshot \<Rightarrow> registry \<Rightarrow> registry" where
  "record_focus fq snap reg =
     reg\<lparr>last_focused_by_fq :=
           fold (\<lambda>ancestor m. m(scope_fq ancestor \<mapsto> fq)) (parent_zone_chain snap fq) (last_focused_by_fq reg),
         layers := layer_walk fq (Some (snap_layer snap)) {} (layers reg)\<rparr>"

text \<open>The walk up from a layer without a guard: it need not end.\<close>

partial_function (option) layer_chain :: "registry \<Rightarrow> string option \<Rightarrow> layer list \<Rightarrow> layer list option" where
  "layer_chain reg n chain =
     (case n of
        None \<Rightarrow> Some chain
      | Some l \<Rightarrow>
          (case get_layer reg l of
             None \<Rightarrow> Some chain
           | Some parent \<Rightarrow> layer_chain reg (layer_parent parent) (chain @ [parent])))"

definition ancestors_of_layer :: "registry \<Rightarrow> string \<Rightarrow> layer list option" where
  "ancestors_of_layer reg fq =
     (case get_layer reg fq of
        None \<Rightarrow> Some []
      | Some start \<Rightarrow> layer_chain reg (layer_parent start) [])"

section \<open>What recording changes\<close>

text \<open>The layers the walk visits, by the layers as they were before it.\<close>

function layer_path :: "(string \<times> layer) list \<Rightarrow> string option \<Rightarrow> string set \<Rightarrow> string list" where
  "layer_path ls None visited = []"
| "layer_path ls (Some l) visited =
     (if l \<in> visited then []
      else case map_of ls l of
             None \<Rightarrow> []
           | Some ly \<Rightarrow> l # layer_path ls (layer_parent ly) (insert l visited))"
  by pat_completeness auto
termination
proof (relation "measure (\<lambda>(ls, n, visited). card (fst ` set ls - visited))", goal_cases)
  case (2 ls l visited ly)
  then have "l \<in> fst ` set ls - visited" by (auto dest: map_of_SomeD intro: rev_image_eqI)
  then have "fst ` set ls - insert l visited \<subset> fst ` set ls - visited" by auto
  then show ?case by (simp add: psubset_card_mono)
qed simp

abbreviation layer_parent_of :: "(string \<times> layer) list \<Rightarrow> string \<Rightarrow> string option option" where
  "layer_parent_of ls l \<equiv> map_option layer_parent (map_of ls l)"

interpretation layers: guarded_walk "layer_path ls" "layer_parent_of ls" for ls
proof
  have "dom (layer_parent_of ls) = dom (map_of ls)" by auto
  then show "finite (dom (layer_parent_of ls))" by (simp add: finite_dom_map_of)
  show "layer_path ls (Some k) visited =
    (if k \<in> visited then [] else case layer_parent_of ls k of None \<Rightarrow> []
     | Some n \<Rightarrow> k # layer_path ls n (insert k visited))" for k visited
    by (simp split: option.split)
qed simp

definition layer_edges :: "registry \<Rightarrow> (string \<times> string) set" where
  "layer_edges reg =
     {(a, b). \<exists>l m. get_layer reg a = Some l \<and> layer_parent l = Some b \<and> get_layer reg b = Some m}"

lemma layer_edges_eq: "layers.edges (layers reg) = layer_edges reg"
  by (auto simp: layers.edges_def layer_edges_def get_layer_def)

lemma layer_path_cong:
  "(\<And>l. layer_parent_of ls l = layer_parent_of ls' l) \<Longrightarrow> layer_path ls n visited = layer_path ls' n visited"
proof (induction ls n visited rule: layer_path.induct)
  case (2 ls l visited)
  have eq: "layer_parent_of ls l = layer_parent_of ls' l" by (rule "2.prems")
  show ?case
  proof (cases "map_of ls l")
    case None
    then show ?thesis using eq by simp
  next
    case (Some ly)
    then obtain ly' where "map_of ls' l = Some ly'" "layer_parent ly' = layer_parent ly"
      using eq by (cases "map_of ls' l") auto
    then show ?thesis using Some "2.IH" "2.prems" by simp
  qed
qed simp

lemma map_of_layer_walk:
  "map_of (layer_walk fq n visited ls) l =
     map_option (\<lambda>ly. if l \<in> set (layer_path ls n visited) then ly\<lparr>last_focused := Some fq\<rparr> else ly) (map_of ls l)"
proof (induction fq n visited ls rule: layer_walk.induct)
  case (2 fq k visited ls)
  show ?case
  proof (cases "k \<in> visited \<or> map_of ls k = None")
    case False
    then obtain ly where ly: "map_of ls k = Some ly" "k \<notin> visited" by blast
    let ?ls = "AList.update k (ly\<lparr>last_focused := Some fq\<rparr>) ls"
    have "layer_path ?ls (layer_parent ly) (insert k visited) = layer_path ls (layer_parent ly) (insert k visited)"
      by (rule layer_path_cong) (simp add: update_conv' ly)
    moreover have "k \<notin> set (layer_path ls (layer_parent ly) (insert k visited))"
      using layers.walk_keys [of k ls "layer_parent ly" "insert k visited"] by auto
    ultimately show ?thesis using "2.IH" [OF ly(2,1)] ly by (auto simp: update_conv')
  qed (auto simp: option.map_ident)
qed (simp add: option.map_ident)

lemma fold_memory: "fold (\<lambda>s m. m(scope_fq s \<mapsto> fq)) ss m a = (if a \<in> scope_fq ` set ss then Some fq else m a)"
  by (induction ss arbitrary: m) auto

lemma record_focus_memory:
  "last_focused_by_fq (record_focus fq snap reg) a =
     (if (fq, a) \<in> (zone_edges snap)\<^sup>+ then Some fq else last_focused_by_fq reg a)"
  by (simp add: record_focus_def fold_memory chain_fqs)

lemma record_focus_layer:
  "get_layer (record_focus fq snap reg) l =
     map_option (\<lambda>ly. if (snap_layer snap, l) \<in> (layer_edges reg)\<^sup>* then ly\<lparr>last_focused := Some fq\<rparr> else ly)
       (get_layer reg l)"
proof (cases "get_layer reg (snap_layer snap)")
  case None
  then have "layer_path (layers reg) (Some (snap_layer snap)) {} = []" by (simp add: get_layer_def)
  moreover have "l = snap_layer snap" if "(snap_layer snap, l) \<in> (layer_edges reg)\<^sup>*"
    using that None by (auto simp: layer_edges_def elim: converse_rtranclE)
  ultimately show ?thesis
    using None
    by (cases "map_of (layers reg) l") (auto simp: record_focus_def get_layer_def map_of_layer_walk)
next
  case (Some m)
  then have "layer_parent_of (layers reg) (snap_layer snap) \<noteq> None" by (simp add: get_layer_def)
  from layers.walk_reaches [OF this] show ?thesis
    by (simp add: record_focus_def get_layer_def map_of_layer_walk layer_edges_eq
        del: layer_path.simps layer_walk.simps)
qed

lemma record_focus_shape [simp]:
  "map_option layer_parent (get_layer (record_focus fq snap reg) l) = map_option layer_parent (get_layer reg l)"
  "map_option window_label (get_layer (record_focus fq snap reg) l) = map_option window_label (get_layer reg l)"
  by (simp_all add: record_focus_layer option.map_comp comp_def if_distrib cong: if_cong)

lemma push_layer_get:
  "get_layer (push_layer l reg) k =
     (if k = layer_fq l
      then Some (if last_focused l = None
                 then l\<lparr>last_focused := Option.bind (get_layer reg k) last_focused\<rparr> else l)
      else get_layer reg k)"
  by (auto simp: push_layer_def get_layer_def update_conv' Let_def split: option.split)

section \<open>When the unguarded walk ends\<close>

lemma layer_chain_acyclic:
  assumes "wf ((layer_edges reg)\<inverse>)"
  shows "\<exists>ls. layer_chain reg n chain = Some ls"
proof -
  have "\<exists>ls. layer_chain reg (Some l) chain = Some ls" for l chain
    using assms
  proof (induction l arbitrary: chain rule: wf_induct_rule)
    case (less l)
    show ?case
    proof (cases "get_layer reg l")
      case None
      then show ?thesis by (simp add: layer_chain.simps)
    next
      case (Some ly)
      show ?thesis
      proof (cases "\<exists>p. layer_parent ly = Some p \<and> get_layer reg p \<noteq> None")
        case True
        then obtain p where p: "layer_parent ly = Some p" "get_layer reg p \<noteq> None" by blast
        then have "(p, l) \<in> (layer_edges reg)\<inverse>" using Some by (auto simp: layer_edges_def)
        from less.IH [OF this] obtain ls where "layer_chain reg (Some p) (chain @ [ly]) = Some ls" by blast
        then show ?thesis using Some p(1) by (subst layer_chain.simps) simp
      next
        case False
        then have "layer_chain reg (layer_parent ly) (chain @ [ly]) = Some (chain @ [ly])"
          by (subst layer_chain.simps) (auto split: option.split)
        then show ?thesis using Some by (subst layer_chain.simps) simp
      qed
    qed
  qed
  then show ?thesis by (cases n) (auto simp: layer_chain.simps)
qed

text \<open>On a cycle it never ends.\<close>

definition on_cycle :: "registry \<Rightarrow> string set \<Rightarrow> bool" where
  "on_cycle reg C \<longleftrightarrow> (\<forall>k \<in> C. \<exists>ly p. get_layer reg k = Some ly \<and> layer_parent ly = Some p \<and> p \<in> C)"

lemma layer_chain_cycle: "layer_chain reg n chain = Some ls \<Longrightarrow> on_cycle reg C \<longrightarrow> n \<notin> Some ` C"
proof (erule layer_chain.raw_induct [of "\<lambda>reg n chain ls. on_cycle reg C \<longrightarrow> n \<notin> Some ` C", rotated])
  fix f :: "registry \<Rightarrow> string option \<Rightarrow> layer list \<Rightarrow> layer list option" and reg n chain r
  assume ih: "\<And>reg n chain r. f reg n chain = Some r \<Longrightarrow> on_cycle reg C \<longrightarrow> n \<notin> Some ` C"
    and b: "(case n of None \<Rightarrow> Some chain
             | Some l \<Rightarrow> (case get_layer reg l of None \<Rightarrow> Some chain
                          | Some parent \<Rightarrow> f reg (layer_parent parent) (chain @ [parent]))) = Some r"
  show "on_cycle reg C \<longrightarrow> n \<notin> Some ` C"
  proof (intro impI notI)
    assume c: "on_cycle reg C" and "n \<in> Some ` C"
    then obtain l ly p where l: "n = Some l" "get_layer reg l = Some ly" "layer_parent ly = Some p" "p \<in> C"
      unfolding on_cycle_def by blast
    then have "f reg (Some p) (chain @ [ly]) = Some r" using b by simp
    then show False using ih c l(4) by blast
  qed
qed

text \<open>So two layers that name each other as parents make it run forever.\<close>

lemma ancestors_of_layer_diverge:
  assumes "on_cycle reg C" "l \<in> C"
  shows "ancestors_of_layer reg l = None"
proof -
  obtain ly p where l: "get_layer reg l = Some ly" "layer_parent ly = Some p" "p \<in> C"
    using assms unfolding on_cycle_def by blast
  then have "layer_chain reg (Some p) [] \<noteq> Some ls" for ls
    using layer_chain_cycle [of reg "Some p" "[]" ls C] assms(1) by auto
  then have "layer_chain reg (Some p) [] = None" by (meson not_Some_eq)
  then show ?thesis using l by (simp add: ancestors_of_layer_def)
qed

end
