(* ===== verification/Rust_Iter.thy ===== *)
theory Rust_Iter
  imports Complex_Main
begin

text \<open>
  \<open>std::cmp::Ordering\<close> and the iterator methods \<open>min_by\<close> and \<open>max_by\<close>, which take a comparison
  function: the first of several minima and the last of several maxima. The laws of a comparison are
  those of a total preorder; \<open>then\<close> of two comparisons keeps them.
\<close>

datatype ordering = Less | Equal | Greater

fun then_cmp :: "ordering \<Rightarrow> ordering \<Rightarrow> ordering" where
  "then_cmp Equal o2 = o2"
| "then_cmp o1 o2 = o1"

definition cmp_of :: "'a::linorder \<Rightarrow> 'a \<Rightarrow> ordering" where
  "cmp_of a b = (if a < b then Less else if a = b then Equal else Greater)"

fun min_from :: "('a \<Rightarrow> 'a \<Rightarrow> ordering) \<Rightarrow> 'a \<Rightarrow> 'a list \<Rightarrow> 'a" where
  "min_from cmp m [] = m"
| "min_from cmp m (x # xs) = min_from cmp (if cmp m x = Greater then x else m) xs"

fun max_from :: "('a \<Rightarrow> 'a \<Rightarrow> ordering) \<Rightarrow> 'a \<Rightarrow> 'a list \<Rightarrow> 'a" where
  "max_from cmp m [] = m"
| "max_from cmp m (x # xs) = max_from cmp (if cmp m x = Greater then m else x) xs"

fun min_by :: "('a \<Rightarrow> 'a \<Rightarrow> ordering) \<Rightarrow> 'a list \<Rightarrow> 'a option" where
  "min_by cmp [] = None"
| "min_by cmp (x # xs) = Some (min_from cmp x xs)"

fun max_by :: "('a \<Rightarrow> 'a \<Rightarrow> ordering) \<Rightarrow> 'a list \<Rightarrow> 'a option" where
  "max_by cmp [] = None"
| "max_by cmp (x # xs) = Some (max_from cmp x xs)"

text \<open>\<open>sort_by\<close> is stable.\<close>

fun insert_by :: "('a \<Rightarrow> 'a \<Rightarrow> ordering) \<Rightarrow> 'a \<Rightarrow> 'a list \<Rightarrow> 'a list" where
  "insert_by cmp x [] = [x]"
| "insert_by cmp x (y # ys) = (if cmp x y = Greater then y # insert_by cmp x ys else x # y # ys)"

fun sort_by :: "('a \<Rightarrow> 'a \<Rightarrow> ordering) \<Rightarrow> 'a list \<Rightarrow> 'a list" where
  "sort_by cmp [] = []"
| "sort_by cmp (x # xs) = insert_by cmp x (sort_by cmp xs)"

lemma insert_by_not_Nil [simp]: "insert_by cmp x xs \<noteq> []"
  by (cases xs) simp_all

lemma sort_by_Nil [simp]: "sort_by cmp xs = [] \<longleftrightarrow> xs = []"
  by (cases xs) simp_all

lemma min_by_None [simp]: "min_by cmp xs = None \<longleftrightarrow> xs = []" "max_by cmp xs = None \<longleftrightarrow> xs = []"
  by (cases xs; simp)+

lemma then_cmp_eq [simp]:
  "then_cmp a b = Less \<longleftrightarrow> a = Less \<or> a = Equal \<and> b = Less"
  "then_cmp a b = Equal \<longleftrightarrow> a = Equal \<and> b = Equal"
  "then_cmp a b = Greater \<longleftrightarrow> a = Greater \<or> a = Equal \<and> b = Greater"
  by (cases a; simp)+

lemma cmp_of_eq [simp]:
  "cmp_of a b = Less \<longleftrightarrow> a < b" "cmp_of a b = Equal \<longleftrightarrow> a = b" "cmp_of a b = Greater \<longleftrightarrow> b < a"
  by (auto simp: cmp_of_def)

locale comparison =
  fixes cmp :: "'a \<Rightarrow> 'a \<Rightarrow> ordering"
  assumes swap: "cmp a b = Greater \<longleftrightarrow> cmp b a = Less"
    and trans: "cmp a b \<noteq> Greater \<Longrightarrow> cmp b c \<noteq> Greater \<Longrightarrow> cmp a c \<noteq> Greater"
begin

lemma self [simp]: "cmp a a = Equal"
  using swap [of a a] by (cases "cmp a a") auto

lemma flip: "cmp a b = Greater \<Longrightarrow> cmp b a \<noteq> Greater"
  using swap [of a b] by simp

lemma Equal_iff: "cmp a b = Equal \<longleftrightarrow> cmp a b \<noteq> Greater \<and> cmp b a \<noteq> Greater"
  using swap [of a b] swap [of b a] by (cases "cmp a b") auto

lemma Less_iff: "cmp a b = Less \<longleftrightarrow> cmp b a = Greater"
  using swap [of b a] by simp

lemma min_from_le: "x \<in> insert m (set xs) \<Longrightarrow> cmp (min_from cmp m xs) x \<noteq> Greater"
proof (induction xs arbitrary: m x)
  case (Cons y ys)
  let ?m = "if cmp m y = Greater then y else m"
  have "cmp (min_from cmp ?m ys) ?m \<noteq> Greater" by (rule Cons.IH) simp
  moreover have "cmp ?m m \<noteq> Greater" "cmp ?m y \<noteq> Greater" using flip [of m y] by auto
  ultimately have "cmp (min_from cmp ?m ys) m \<noteq> Greater" "cmp (min_from cmp ?m ys) y \<noteq> Greater"
    using trans by blast+
  then show ?case using Cons.prems Cons.IH [of x ?m] by auto
qed simp

lemma max_from_ge: "x \<in> insert m (set xs) \<Longrightarrow> cmp x (max_from cmp m xs) \<noteq> Greater"
proof (induction xs arbitrary: m x)
  case (Cons y ys)
  let ?m = "if cmp m y = Greater then m else y"
  have "cmp ?m (max_from cmp ?m ys) \<noteq> Greater" by (rule Cons.IH) simp
  moreover have "cmp m ?m \<noteq> Greater" "cmp y ?m \<noteq> Greater" using flip [of m y] by auto
  ultimately have "cmp m (max_from cmp ?m ys) \<noteq> Greater" "cmp y (max_from cmp ?m ys) \<noteq> Greater"
    using trans by blast+
  then show ?case using Cons.prems Cons.IH [of x ?m] by auto
qed simp

lemma min_from_in: "min_from cmp m xs \<in> insert m (set xs)"
  by (induction xs arbitrary: m) (auto split: if_splits)

lemma max_from_in: "max_from cmp m xs \<in> insert m (set xs)"
  by (induction xs arbitrary: m) (auto split: if_splits)

lemma min_by_Some: "min_by cmp xs = Some m \<Longrightarrow> m \<in> set xs \<and> (\<forall>x \<in> set xs. cmp m x \<noteq> Greater)"
  using min_from_le min_from_in by (cases xs) fastforce+

text \<open>The head of the sorted list is the first of the minima.\<close>

lemma sort_by_head:
  "sort_by cmp xs = y # ys \<Longrightarrow>
     \<exists>us vs. xs = us @ y # vs \<and> (\<forall>u \<in> set us. cmp y u = Less) \<and> (\<forall>v \<in> set vs. cmp y v \<noteq> Greater)"
proof (induction xs arbitrary: y ys)
  case (Cons x xs)
  show ?case
  proof (cases "sort_by cmp xs")
    case Nil
    then show ?thesis using Cons.prems by (intro exI [of _ "[]"]) auto
  next
    case (Cons z zs)
    obtain us vs where split: "xs = us @ z # vs" "\<forall>u \<in> set us. cmp z u = Less" "\<forall>v \<in> set vs. cmp z v \<noteq> Greater"
      using Cons.IH [OF Cons] by blast
    show ?thesis
    proof (cases "cmp x z = Greater")
      case True
      then have "y = z" using Cons.prems Cons by simp
      then show ?thesis using split True Less_iff [of z x] by (intro exI [of _ "x # us"] exI [of _ vs]) auto
    next
      case False
      then have "y = x" using Cons.prems Cons by simp
      moreover have "cmp z v \<noteq> Greater" if "v \<in> set xs" for v using that split by auto
      ultimately show ?thesis using False trans by (intro exI [of _ "[]"] exI [of _ xs]) auto
    qed
  qed
qed simp

lemma max_by_Some: "max_by cmp xs = Some m \<Longrightarrow> m \<in> set xs \<and> (\<forall>x \<in> set xs. cmp x m \<noteq> Greater)"
  using max_from_ge max_from_in by (cases xs) fastforce+

end

lemma comparison_then:
  assumes "comparison c1" "comparison c2"
  shows "comparison (\<lambda>a b. then_cmp (c1 a b) (c2 a b))"
proof
  note e = comparison.Equal_iff [OF assms(1)] comparison.Less_iff [OF assms(1)] comparison.Less_iff [OF assms(2)]
  show "then_cmp (c1 a b) (c2 a b) = Greater \<longleftrightarrow> then_cmp (c1 b a) (c2 b a) = Less" for a b
    by (auto simp: e)
  fix a b c
  assume ab: "then_cmp (c1 a b) (c2 a b) \<noteq> Greater" and bc: "then_cmp (c1 b c) (c2 b c) \<noteq> Greater"
  then have 1: "c1 a b \<noteq> Greater" "c1 b c \<noteq> Greater" by simp_all
  then have ac: "c1 a c \<noteq> Greater" using comparison.trans [OF assms(1)] by blast
  have "c2 a c \<noteq> Greater" if "c1 a c = Equal"
  proof -
    have ca: "c1 c a \<noteq> Greater" using that e(1) by blast
    have "c1 b a \<noteq> Greater" "c1 c b \<noteq> Greater"
      using comparison.trans [OF assms(1)] 1 ca by blast+
    then have "c1 a b = Equal" "c1 b c = Equal" using 1 e(1) by blast+
    then have "c2 a b \<noteq> Greater" "c2 b c \<noteq> Greater" using ab bc by simp_all
    then show ?thesis using comparison.trans [OF assms(2)] by blast
  qed
  then show "then_cmp (c1 a c) (c2 a c) \<noteq> Greater" using ac by simp
qed

lemma comparison_key: "comparison (\<lambda>a b. cmp_of (f a) (f b))"
  by unfold_locales auto

end
