(* ===== verification/Focus_Navigate.thy ===== *)
theory Focus_Navigate
  imports Focus_Registry Rust_Iter
begin

text \<open>
  Picking the next focus (\<open>src/crates/swissarmyhammer-focus/src/navigate.rs\<close>): drilling in and out,
  the overrides of a scope, the first and last child, and the geometric pick of the arrow keys. The
  properties say which candidate an arrow key lands on, and that holding the key comes to rest.
\<close>

section \<open>Drilling\<close>

definition top_left_cmp :: "scope \<Rightarrow> scope \<Rightarrow> ordering" where
  "top_left_cmp a b =
     then_cmp (cmp_of (top_edge (scope_rect a)) (top_edge (scope_rect b)))
              (cmp_of (left_edge (scope_rect a)) (left_edge (scope_rect b)))"

definition bottom_right_cmp :: "scope \<Rightarrow> scope \<Rightarrow> ordering" where
  "bottom_right_cmp a b =
     then_cmp (cmp_of (bottom_edge (scope_rect a)) (bottom_edge (scope_rect b)))
              (cmp_of (right_edge (scope_rect a)) (right_edge (scope_rect b)))"

definition children :: "snapshot \<Rightarrow> string \<Rightarrow> scope list" where
  "children view fq = filter (\<lambda>s. parent_zone s = Some fq) (scopes view)"

definition drill_in :: "snapshot \<Rightarrow> registry \<Rightarrow> string \<Rightarrow> string \<Rightarrow> string" where
  "drill_in view reg fq focused_fq =
     (if get_scope view fq = None then focused_fq
      else case (case last_focused_by_fq reg fq of
                   Some remembered \<Rightarrow> (if get_scope view remembered \<noteq> None then Some remembered else None)
                 | None \<Rightarrow> None) of
             Some remembered \<Rightarrow> remembered
           | None \<Rightarrow> (case min_by top_left_cmp (children view fq) of
                       Some s \<Rightarrow> scope_fq s
                     | None \<Rightarrow> focused_fq))"

definition drill_out :: "snapshot \<Rightarrow> string \<Rightarrow> string \<Rightarrow> string" where
  "drill_out view fq focused_fq =
     (case get_scope view fq of
        None \<Rightarrow> focused_fq
      | Some entry \<Rightarrow>
          (case parent_zone entry of
             None \<Rightarrow> focused_fq
           | Some p \<Rightarrow> (if get_scope view p = None then focused_fq else p)))"

section \<open>Overrides and edge commands\<close>

definition check_override :: "snapshot \<Rightarrow> scope \<Rightarrow> direction \<Rightarrow> string option option" where
  "check_override view focused d =
     (case nav_override focused d of
        None \<Rightarrow> None
      | Some None \<Rightarrow> Some None
      | Some (Some target) \<Rightarrow> (if get_scope view target \<noteq> None then Some (Some target) else None))"

definition edge_command :: "snapshot \<Rightarrow> scope \<Rightarrow> string \<Rightarrow> direction \<Rightarrow> string" where
  "edge_command view focused focused_fq d =
     (let pick =
        (if d \<in> {First, RowStart} then map_option scope_fq (min_by top_left_cmp (children view (scope_fq focused)))
         else if d \<in> {Last, RowEnd} then map_option scope_fq (max_by bottom_right_cmp (children view (scope_fq focused)))
         else None)
      in case pick of Some fq \<Rightarrow> fq | None \<Rightarrow> focused_fq)"

section \<open>The geometric pick\<close>

definition in_strict_half_plane :: "rect \<Rightarrow> rect \<Rightarrow> direction \<Rightarrow> bool" where
  "in_strict_half_plane r c d =
     (case d of
        Down \<Rightarrow> top_edge c \<ge> bottom_edge r
      | Up \<Rightarrow> bottom_edge c \<le> top_edge r
      | Right \<Rightarrow> left_edge c \<ge> right_edge r
      | Left \<Rightarrow> right_edge c \<le> left_edge r
      | _ \<Rightarrow> False)"

definition horizontal_overlap :: "rect \<Rightarrow> rect \<Rightarrow> bool" where
  "horizontal_overlap a b \<longleftrightarrow> left_edge a < right_edge b \<and> left_edge b < right_edge a"

definition vertical_overlap :: "rect \<Rightarrow> rect \<Rightarrow> bool" where
  "vertical_overlap a b \<longleftrightarrow> top_edge a < bottom_edge b \<and> top_edge b < bottom_edge a"

definition center_x :: "rect \<Rightarrow> pixels" where
  "center_x r = left_edge r + width r / 2"

definition center_y :: "rect \<Rightarrow> pixels" where
  "center_y r = top_edge r + height r / 2"

datatype minor_axis = Horizontal | Vertical

definition cross_axis_minor :: "rect \<Rightarrow> rect \<Rightarrow> minor_axis \<Rightarrow> pixels" where
  "cross_axis_minor r c axis =
     (case axis of
        Horizontal \<Rightarrow> \<bar>center_x r - center_x c\<bar>
      | Vertical \<Rightarrow> \<bar>center_y r - center_y c\<bar>)"

text \<open>
  The four arms compute the gap along the major axis, give up when the candidate does not even reach
  beyond the focused rectangle, and take the distance of the centres when the two overlap.
\<close>

definition major_axis :: "pixels \<Rightarrow> bool \<Rightarrow> pixels \<Rightarrow> pixels option" where
  "major_axis gap beyond center_distance =
     (if gap < 0 \<and> \<not> beyond then None else Some (if gap \<ge> 0 then gap else center_distance))"

definition score_candidate :: "rect \<Rightarrow> rect \<Rightarrow> direction \<Rightarrow> (bool \<times> rat) option" where
  "score_candidate r c d =
     map_option (\<lambda>(major, minor, in_beam). (in_beam, 13 * max major 0 * max major 0 + minor * minor))
       (case d of
          Down \<Rightarrow> map_option (\<lambda>major. (major, cross_axis_minor r c Horizontal, horizontal_overlap r c))
                    (major_axis (top_edge c - bottom_edge r) (bottom_edge c > bottom_edge r) (center_y c - center_y r))
        | Up \<Rightarrow> map_option (\<lambda>major. (major, cross_axis_minor r c Horizontal, horizontal_overlap r c))
                    (major_axis (top_edge r - bottom_edge c) (top_edge c < top_edge r) (center_y r - center_y c))
        | Right \<Rightarrow> map_option (\<lambda>major. (major, cross_axis_minor r c Vertical, vertical_overlap r c))
                    (major_axis (left_edge c - right_edge r) (right_edge c > right_edge r) (center_x c - center_x r))
        | Left \<Rightarrow> map_option (\<lambda>major. (major, cross_axis_minor r c Vertical, vertical_overlap r c))
                    (major_axis (left_edge r - right_edge c) (left_edge c < left_edge r) (center_x r - center_x c))
        | _ \<Rightarrow> None)"

record best_candidate =
  best_fq :: string
  score :: rat
  has_children :: bool

definition better_candidate :: "best_candidate option \<Rightarrow> best_candidate \<Rightarrow> bool" where
  "better_candidate current cand =
     (case current of
        None \<Rightarrow> True
      | Some cur \<Rightarrow>
          if score cand < score cur then True
          else if score cand > score cur then False
          else \<not> has_children cand \<and> has_children cur)"

definition parent_fqs :: "snapshot \<Rightarrow> string list" where
  "parent_fqs view = List.map_filter parent_zone (scopes view)"

text \<open>The summary of a candidate that passes the tests of the loop body.\<close>

definition candidate :: "snapshot \<Rightarrow> scope \<Rightarrow> direction \<Rightarrow> scope \<Rightarrow> best_candidate option" where
  "candidate view focused d cand =
     (if scope_fq cand = scope_fq focused then None
      else if \<not> in_strict_half_plane (scope_rect focused) (scope_rect cand) d then None
      else case score_candidate (scope_rect focused) (scope_rect cand) d of
             None \<Rightarrow> None
           | Some (in_beam, sc) \<Rightarrow>
               if \<not> in_beam then None
               else Some \<lparr>best_fq = scope_fq cand, score = sc,
                          has_children = scope_fq cand \<in> set (parent_fqs view)\<rparr>)"

definition geometric_step :: "snapshot \<Rightarrow> scope \<Rightarrow> direction \<Rightarrow> scope \<Rightarrow> best_candidate option \<Rightarrow> best_candidate option" where
  "geometric_step view focused d cand best =
     (case candidate view focused d cand of
        None \<Rightarrow> best
      | Some c \<Rightarrow> (if better_candidate best c then Some c else best))"

definition geometric_pick :: "snapshot \<Rightarrow> scope \<Rightarrow> string \<Rightarrow> direction \<Rightarrow> string" where
  "geometric_pick view focused focused_fq d =
     (case fold (geometric_step view focused d) (scopes view) None of
        Some b \<Rightarrow> best_fq b
      | None \<Rightarrow> focused_fq)"

section \<open>Picking the target\<close>

definition pick_target :: "snapshot \<Rightarrow> string \<Rightarrow> direction \<Rightarrow> string" where
  "pick_target view focused_fq d =
     (case get_scope view focused_fq of
        None \<Rightarrow> focused_fq
      | Some focused \<Rightarrow>
          (case check_override view focused d of
             Some (Some target) \<Rightarrow> target
           | Some None \<Rightarrow> focused_fq
           | None \<Rightarrow>
               if d \<in> {Up, Down, Left, Right} then geometric_pick view focused focused_fq d
               else edge_command view focused focused_fq d))"

section \<open>The score of a candidate\<close>

text \<open>The distance from edge to edge and from centre to centre.\<close>

definition gap :: "rect \<Rightarrow> rect \<Rightarrow> direction \<Rightarrow> pixels" where
  "gap r c d =
     (case d of
        Down \<Rightarrow> top_edge c - bottom_edge r
      | Up \<Rightarrow> top_edge r - bottom_edge c
      | Right \<Rightarrow> left_edge c - right_edge r
      | Left \<Rightarrow> left_edge r - right_edge c
      | _ \<Rightarrow> 0)"

definition offset :: "rect \<Rightarrow> rect \<Rightarrow> direction \<Rightarrow> pixels" where
  "offset r c d = (if d \<in> {Up, Down} then center_x r - center_x c else center_y r - center_y c)"

definition in_beam :: "rect \<Rightarrow> rect \<Rightarrow> direction \<Rightarrow> bool" where
  "in_beam r c d = (if d \<in> {Up, Down} then horizontal_overlap r c else vertical_overlap r c)"

definition beam_score :: "rect \<Rightarrow> rect \<Rightarrow> direction \<Rightarrow> rat" where
  "beam_score r c d = 13 * (gap r c d)\<^sup>2 + (offset r c d)\<^sup>2"

abbreviation cardinal :: "direction \<Rightarrow> bool" where
  "cardinal d \<equiv> d \<in> {Up, Down, Left, Right}"

lemma half_plane_gap: "cardinal d \<Longrightarrow> in_strict_half_plane r c d \<longleftrightarrow> gap r c d \<ge> 0"
  by (auto simp: in_strict_half_plane_def gap_def)

lemma minor_square: "cross_axis_minor r c a * cross_axis_minor r c a =
    (case a of Horizontal \<Rightarrow> (center_x r - center_x c)\<^sup>2 | Vertical \<Rightarrow> (center_y r - center_y c)\<^sup>2)"
  by (simp add: cross_axis_minor_def power2_eq_square split: minor_axis.split)

text \<open>Behind the half-plane test the overlap arms of the score are never taken.\<close>

lemma score_in_half_plane:
  "cardinal d \<Longrightarrow> in_strict_half_plane r c d \<Longrightarrow> score_candidate r c d = Some (in_beam r c d, beam_score r c d)"
  unfolding score_candidate_def in_beam_def beam_score_def gap_def offset_def half_plane_gap
  by (cases d) (simp_all add: major_axis_def minor_square, simp_all add: power2_eq_square max_def)

lemma candidate_eq:
  "cardinal d \<Longrightarrow> candidate view focused d cand =
     (if scope_fq cand \<noteq> scope_fq focused \<and> gap (scope_rect focused) (scope_rect cand) d \<ge> 0
         \<and> in_beam (scope_rect focused) (scope_rect cand) d
      then Some \<lparr>best_fq = scope_fq cand, score = beam_score (scope_rect focused) (scope_rect cand) d,
                 has_children = scope_fq cand \<in> set (parent_fqs view)\<rparr>
      else None)"
  using score_in_half_plane [of d "scope_rect focused" "scope_rect cand"]
  by (simp add: candidate_def half_plane_gap)

section \<open>What the arrow keys do\<close>

definition candidate_cmp :: "best_candidate \<Rightarrow> best_candidate \<Rightarrow> ordering" where
  "candidate_cmp a b = then_cmp (cmp_of (score a) (score b)) (cmp_of (has_children a) (has_children b))"

interpretation top_left: comparison top_left_cmp
  unfolding top_left_cmp_def [abs_def] by (intro comparison_then comparison_key)

interpretation bottom_right: comparison bottom_right_cmp
  unfolding bottom_right_cmp_def [abs_def] by (intro comparison_then comparison_key)

interpretation candidates: comparison candidate_cmp
  unfolding candidate_cmp_def [abs_def] by (intro comparison_then comparison_key)

lemma better_cmp: "better_candidate (Some cur) c \<longleftrightarrow> candidate_cmp cur c = Greater"
  by (auto simp: better_candidate_def candidate_cmp_def)

lemma geometric_fold_Some:
  "fold (geometric_step view focused d) ss (Some b) =
     Some (min_from candidate_cmp b (List.map_filter (candidate view focused d) ss))"
proof (induction ss arbitrary: b)
  case (Cons s ss)
  then show ?case
    by (cases "candidate view focused d s") (simp_all add: geometric_step_def better_cmp map_filter_simps)
qed (simp add: map_filter_simps)

lemma geometric_first: "geometric_step view focused d s None = candidate view focused d s"
  by (simp add: geometric_step_def better_candidate_def split: option.split)

text \<open>The loop computes a minimum by score, leaves before containers.\<close>

lemma geometric_fold:
  "fold (geometric_step view focused d) ss None =
     min_by candidate_cmp (List.map_filter (candidate view focused d) ss)"
proof (induction ss)
  case (Cons s ss)
  then show ?case
    by (cases "candidate view focused d s")
      (simp_all add: geometric_first geometric_fold_Some map_filter_simps)
qed (simp add: map_filter_simps)

text \<open>What lies beyond the focused rectangle in the direction of the key and in its beam.\<close>

definition reachable :: "snapshot \<Rightarrow> scope \<Rightarrow> direction \<Rightarrow> scope set" where
  "reachable view s d =
     {c \<in> set (scopes view). scope_fq c \<noteq> scope_fq s \<and> gap (scope_rect s) (scope_rect c) d \<ge> 0
        \<and> in_beam (scope_rect s) (scope_rect c) d}"

definition best_reachable :: "snapshot \<Rightarrow> scope \<Rightarrow> direction \<Rightarrow> scope \<Rightarrow> bool" where
  "best_reachable view s d c \<longleftrightarrow>
     c \<in> reachable view s d
     \<and> (\<forall>c' \<in> reachable view s d.
          let best = beam_score (scope_rect s) (scope_rect c) d; other = beam_score (scope_rect s) (scope_rect c') d
          in best < other
             \<or> best = other \<and> (scope_fq c \<in> set (parent_fqs view) \<longrightarrow> scope_fq c' \<in> set (parent_fqs view)))"

lemma geometric_pick_cases:
  assumes "cardinal d"
  shows "reachable view s d = {} \<and> geometric_pick view s f d = f
    \<or> (\<exists>c. best_reachable view s d c \<and> geometric_pick view s f d = scope_fq c)"
proof -
  let ?cand = "candidate view s d" and ?cs = "List.map_filter (candidate view s d) (scopes view)"
  note eq = candidate_eq [OF assms, of view s]
  show ?thesis
  proof (cases "min_by candidate_cmp ?cs")
    case None
    then have "?cs = []" by simp
    then have "reachable view s d = {}"
      by (auto simp: map_filter_def filter_empty_conv reachable_def eq split: if_splits)
    then show ?thesis using None by (simp add: geometric_pick_def geometric_fold)
  next
    case (Some b)
    from candidates.min_by_Some [OF this]
    have b: "b \<in> set ?cs" and least: "\<And>b'. b' \<in> set ?cs \<Longrightarrow> candidate_cmp b b' \<noteq> Greater" by blast+
    from b obtain c where c: "c \<in> set (scopes view)" "?cand c = Some b"
      by (auto simp: map_filter_def)
    have r: "c \<in> reachable view s d" using c by (auto simp: reachable_def eq split: if_splits)
    have "candidate_cmp b b' \<noteq> Greater" if "c' \<in> reachable view s d" "?cand c' = Some b'" for c' b'
      using that by (intro least) (force simp: reachable_def map_filter_def)
    then have "candidate_cmp (the (?cand c)) (the (?cand c')) \<noteq> Greater" if "c' \<in> reachable view s d" for c'
      using that c by (auto simp: reachable_def eq)
    then have "best_reachable view s d c"
      using r by (auto simp: best_reachable_def reachable_def eq candidate_cmp_def not_less le_less Let_def)
    moreover have "geometric_pick view s f d = scope_fq c"
      using Some c by (auto simp: geometric_pick_def geometric_fold eq split: if_splits)
    ultimately show ?thesis by blast
  qed
qed

text \<open>C23. Without an override, an arrow key moves to the scope ahead and in the beam whose score is
  least, a leaf before a container on a tie, and stays put exactly when nothing is ahead.\<close>

theorem arrow_picks_best:
  assumes "cardinal d" "get_scope view f = Some s" "check_override view s d = None"
  shows "reachable view s d = {} \<and> pick_target view f d = f
    \<or> (\<exists>c. best_reachable view s d c \<and> pick_target view f d = scope_fq c \<and> pick_target view f d \<noteq> f)"
proof -
  have "pick_target view f d = geometric_pick view s f d" using assms by (simp add: pick_target_def)
  moreover have "scope_fq s = f" using get_scope_Some [OF assms(2)] by blast
  then have "scope_fq c \<noteq> f" if "best_reachable view s d c" for c
    using that by (simp add: best_reachable_def reachable_def)
  ultimately show ?thesis using geometric_pick_cases [OF assms(1), of view s f] by auto
qed

definition sample_rect :: "rat \<Rightarrow> rat \<Rightarrow> rect" where
  "sample_rect l t = \<lparr>x = l, y = t, width = 10, height = 10\<rparr>"

definition sample_scope :: "string \<Rightarrow> string option \<Rightarrow> rat \<Rightarrow> rat \<Rightarrow> scope" where
  "sample_scope fq zone l t =
     \<lparr>scope_fq = fq, scope_rect = sample_rect l t, parent_zone = zone, nav_override = Map.empty\<rparr>"

definition sample_view :: snapshot where
  "sample_view = \<lparr>snap_layer = ''/w'',
     scopes = [sample_scope ''/w/a'' None 0 0, sample_scope ''/w/c'' None 0 40,
               sample_scope ''/w/b'' (Some ''/w/c'') 0 20]\<rparr>"

lemma sample_get: "get_scope sample_view ''/w/a'' = Some (sample_scope ''/w/a'' None 0 0)"
  by (simp add: get_scope_def by_fq_def sample_view_def sample_scope_def)

theorem arrow_picks_best_witness:
  "\<not> (reachable sample_view (sample_scope ''/w/a'' None 0 0) Down = {}) \<and> pick_target sample_view ''/w/a'' Down \<noteq> ''/w/a''"
proof -
  have "check_override sample_view (sample_scope ''/w/a'' None 0 0) Down = None"
    by (simp add: check_override_def sample_scope_def)
  from arrow_picks_best [OF _ sample_get this]
  have "reachable sample_view (sample_scope ''/w/a'' None 0 0) Down = {} \<or> pick_target sample_view ''/w/a'' Down \<noteq> ''/w/a''"
    by auto
  moreover have "sample_scope ''/w/b'' (Some ''/w/c'') 0 20 \<in> reachable sample_view (sample_scope ''/w/a'' None 0 0) Down"
    by (simp add: reachable_def sample_view_def sample_scope_def sample_rect_def gap_def in_beam_def
        horizontal_overlap_def edge_defs)
  ultimately show ?thesis by auto
qed

section \<open>Holding an arrow key\<close>

text \<open>Iterating a function that moves up a measure on a finite set comes to rest.\<close>

lemma iterate_rests:
  fixes m :: "'a \<Rightarrow> 'b::linorder"
  assumes "finite A" "a \<in> A"
    and "\<And>a. a \<in> A \<Longrightarrow> f a \<in> A" "\<And>a. a \<in> A \<Longrightarrow> f a \<noteq> a \<Longrightarrow> m a < m (f a)"
  shows "\<exists>n < card A. f ((f ^^ n) a) = (f ^^ n) a"
proof -
  have "\<exists>n \<le> card {b \<in> A. m a < m b}. f ((f ^^ n) a) = (f ^^ n) a"
    using assms(2)
  proof (induction "card {b \<in> A. m a < m b}" arbitrary: a rule: less_induct)
    case less
    show ?case
    proof (cases "f a = a")
      case True
      then show ?thesis by (intro exI [of _ 0]) simp
    next
      case False
      then have fa: "f a \<in> A" "m a < m (f a)" using less.prems assms(3,4) by auto
      have "{b \<in> A. m (f a) < m b} \<subset> {b \<in> A. m a < m b}" using fa by (force intro: less_trans)
      then have c: "card {b \<in> A. m (f a) < m b} < card {b \<in> A. m a < m b}"
        using assms(1) by (intro psubset_card_mono) auto
      then obtain n where "n \<le> card {b \<in> A. m (f a) < m b}" "f ((f ^^ n) (f a)) = (f ^^ n) (f a)"
        using less.hyps fa(1) by blast
      then show ?thesis using c by (intro exI [of _ "Suc n"]) (simp add: funpow_swap1)
    qed
  qed
  moreover have "card {b \<in> A. m a < m b} < card A"
    using assms(1,2) by (intro psubset_card_mono) auto
  ultimately show ?thesis by (meson le_less_trans)
qed

text \<open>How far along the direction a rectangle lies.\<close>

definition progress :: "rect \<Rightarrow> direction \<Rightarrow> rat" where
  "progress r d =
     (case d of Down \<Rightarrow> top_edge r | Up \<Rightarrow> - bottom_edge r | Right \<Rightarrow> left_edge r | Left \<Rightarrow> - right_edge r | _ \<Rightarrow> 0)"

lemma gap_progress:
  "cardinal d \<Longrightarrow> 0 < width r \<Longrightarrow> 0 < height r \<Longrightarrow> gap r c d \<ge> 0 \<Longrightarrow> progress r d < progress c d"
  by (auto simp: gap_def progress_def edge_defs)

definition no_override :: "snapshot \<Rightarrow> direction \<Rightarrow> bool" where
  "no_override view d \<longleftrightarrow> (\<forall>s \<in> set (scopes view). nav_override s d = None)"

definition visible_rects :: "snapshot \<Rightarrow> bool" where
  "visible_rects view \<longleftrightarrow> (\<forall>s \<in> set (scopes view). 0 < width (scope_rect s) \<and> 0 < height (scope_rect s))"

text \<open>C24. Holding an arrow key comes to rest in a snapshot where every scope has a rectangle of positive width and
  height, the full monikers are distinct and no scope has an override for the direction: from any of its n scopes,
  fewer than n presses reach a scope where the key stays put. Overrides may lead in a circle, and rectangles without
  extent may answer for each other; neither is covered.\<close>

theorem arrow_comes_to_rest:
  assumes "cardinal d" "distinct (map scope_fq (scopes view))" "visible_rects view" "no_override view d"
    and "f \<in> scope_fqs view"
  shows "\<exists>n < length (scopes view).
    pick_target view (((\<lambda>f. pick_target view f d) ^^ n) f) d = ((\<lambda>f. pick_target view f d) ^^ n) f"
proof -
  let ?f = "\<lambda>f. pick_target view f d" and ?m = "\<lambda>f. progress (scope_rect (the (get_scope view f))) d"
  have step: "?f f \<in> scope_fqs view \<and> (?f f \<noteq> f \<longrightarrow> ?m f < ?m (?f f))" if f: "f \<in> scope_fqs view" for f
  proof -
    obtain s where s: "get_scope view f = Some s" "scope_fq s = f" "s \<in> set (scopes view)"
      using get_scope_in [OF f] get_scope_Some by blast
    have "?f f = geometric_pick view s f d"
      using s assms(1,4) by (auto simp: pick_target_def check_override_def no_override_def)
    then consider "?f f = f" | c where "c \<in> reachable view s d" "?f f = scope_fq c"
      using geometric_pick_cases [OF assms(1), of view s f] by (auto simp: best_reachable_def)
    then show ?thesis
    proof cases
      case 2
      then have c: "c \<in> set (scopes view)" "gap (scope_rect s) (scope_rect c) d \<ge> 0" by (auto simp: reachable_def)
      moreover have "get_scope view (scope_fq c) = Some c" by (rule get_scope_distinct [OF assms(2) c(1)])
      ultimately show ?thesis
        using 2 s assms(1,3) gap_progress [of d "scope_rect s" "scope_rect c"]
        by (auto simp: visible_rects_def scope_fqs_def)
    qed (use f in simp)
  qed
  have "\<exists>n < card (scope_fqs view). ?f ((?f ^^ n) f) = (?f ^^ n) f"
    using step by (intro iterate_rests [where m = ?m] assms(5)) auto
  moreover have "card (scope_fqs view) = length (scopes view)"
    using distinct_card [OF assms(2)] by (simp add: scope_fqs_def)
  ultimately show ?thesis by simp
qed

theorem arrow_comes_to_rest_witness:
  "\<exists>n < 3. pick_target sample_view (((\<lambda>f. pick_target sample_view f Down) ^^ n) ''/w/a'') Down
     = ((\<lambda>f. pick_target sample_view f Down) ^^ n) ''/w/a''"
proof -
  have "distinct (map scope_fq (scopes sample_view))" "visible_rects sample_view" "no_override sample_view Down"
    "''/w/a'' \<in> scope_fqs sample_view" "length (scopes sample_view) = 3"
    by (simp_all add: sample_view_def sample_scope_def sample_rect_def visible_rects_def no_override_def scope_fqs_def)
  then show ?thesis using arrow_comes_to_rest [of Down sample_view "''/w/a''"] by simp
qed

end
