(* ===== verification/Focus_State.thy ===== *)
theory Focus_State
  imports Focus_Navigate
begin

text \<open>
  The focus of each window (\<open>src/crates/swissarmyhammer-focus/src/state.rs\<close>): moving it, clearing it,
  and finding a replacement when the focused scope goes away. The two walks of the fallback have no
  guard against cycles in the source; the model is a partial function, and the properties say when
  they return.
\<close>

section \<open>State, events and resolutions\<close>

record focus_event =
  ev_window :: string
  prev_fq :: "string option"
  next_fq :: "string option"
  next_segment :: "string option"

datatype fallback =
    FallbackSiblingInZone string string
  | FallbackParentZoneLastFocused string string
  | FallbackParentZoneNearest string string
  | FallbackParentLayerLastFocused string string
  | FallbackParentLayerNearest string string
  | NoFocus

record lost_focus =
  lost_layer_fq :: string
  lost_parent_zone :: "string option"
  lost_rect :: rect

type_synonym focus_state = "(string \<times> string) list"

definition focused_in :: "focus_state \<Rightarrow> string \<Rightarrow> string option" where
  "focused_in st window = map_of st window"

section \<open>Moving the focus\<close>

definition focus :: "registry \<Rightarrow> snapshot \<Rightarrow> string \<Rightarrow> focus_state \<Rightarrow> focus_event option \<times> registry \<times> focus_state" where
  "focus reg snap fq st =
     (case get_layer reg (snap_layer snap) of
        None \<Rightarrow> (None, reg, st)
      | Some layer \<Rightarrow>
          let window = window_label layer; prev = focused_in st window
          in if get_scope snap fq = None \<or> prev = Some fq then (None, reg, st)
             else (Some \<lparr>ev_window = window, prev_fq = prev, next_fq = Some fq, next_segment = Some (last_segment fq)\<rparr>,
                   record_focus fq snap reg, AList.update window fq st))"

definition navigate :: "registry \<Rightarrow> snapshot \<Rightarrow> string \<Rightarrow> direction \<Rightarrow> focus_state \<Rightarrow> focus_event option \<times> registry \<times> focus_state" where
  "navigate reg snap fq d st =
     (let target = pick_target snap fq d
      in if get_scope snap target = None then (None, reg, st) else focus reg snap target st)"

definition clear_focus :: "string \<Rightarrow> focus_state \<Rightarrow> focus_event option \<times> focus_state" where
  "clear_focus window st =
     (case focused_in st window of
        None \<Rightarrow> (None, st)
      | Some prev \<Rightarrow>
          (Some \<lparr>ev_window = window, prev_fq = Some prev, next_fq = None, next_segment = None\<rparr>,
           AList.delete window st))"

section \<open>The fallback\<close>

definition squared_distance :: "rect \<Rightarrow> rect \<Rightarrow> pixels" where
  "squared_distance a b = (let dx = x a - x b; dy = y a - y b in dx * dx + dy * dy)"

definition nearest_cmp :: "rect \<Rightarrow> scope \<Rightarrow> scope \<Rightarrow> ordering" where
  "nearest_cmp r a b =
     then_cmp (then_cmp (cmp_of (squared_distance r (scope_rect a)) (squared_distance r (scope_rect b)))
                        (cmp_of (top_edge (scope_rect a)) (top_edge (scope_rect b))))
              (cmp_of (left_edge (scope_rect a)) (left_edge (scope_rect b)))"

definition nearest_in_zone_view :: "snapshot \<Rightarrow> string option \<Rightarrow> string \<Rightarrow> rect \<Rightarrow> string option" where
  "nearest_in_zone_view view zone lost origin =
     map_option scope_fq
       (min_by (nearest_cmp origin) (filter (\<lambda>s. scope_fq s \<noteq> lost \<and> parent_zone s = zone) (scopes view)))"

definition parent_zone_of :: "snapshot \<Rightarrow> string \<Rightarrow> string option" where
  "parent_zone_of view fq = (case get_scope view fq of None \<Rightarrow> None | Some s \<Rightarrow> parent_zone s)"

definition remembered_in_zone :: "registry \<Rightarrow> snapshot \<Rightarrow> string \<Rightarrow> string option \<Rightarrow> string option" where
  "remembered_in_zone reg view lost zone =
     (case zone of
        None \<Rightarrow> None
      | Some z \<Rightarrow>
          (case last_focused_by_fq reg z of
             None \<Rightarrow> None
           | Some r \<Rightarrow> (if r \<noteq> lost then map_option scope_fq (get_scope view r) else None)))"

text \<open>The outer option is whether the walk ends, the inner one whether it found a target.\<close>

partial_function (option) zone_phase ::
  "registry \<Rightarrow> snapshot \<Rightarrow> string \<Rightarrow> rect \<Rightarrow> string option \<Rightarrow> bool \<Rightarrow> fallback option option" where
  "zone_phase reg view lost origin zone on_lost_zone =
     (case (if on_lost_zone then None else remembered_in_zone reg view lost zone) of
        Some r \<Rightarrow> Some (Some (FallbackParentZoneLastFocused r (last_segment r)))
      | None \<Rightarrow>
          (case nearest_in_zone_view view zone lost origin of
             Some n \<Rightarrow>
               Some (Some (if on_lost_zone then FallbackSiblingInZone n (last_segment n)
                           else FallbackParentZoneNearest n (last_segment n)))
           | None \<Rightarrow>
               (case zone of
                  None \<Rightarrow> Some None
                | Some z \<Rightarrow> zone_phase reg view lost origin (parent_zone_of view z) False)))"

partial_function (option) layer_phase ::
  "registry \<Rightarrow> snapshot \<Rightarrow> string \<Rightarrow> string \<Rightarrow> string option \<Rightarrow> fallback option" where
  "layer_phase reg view lost window n =
     (case n of
        None \<Rightarrow> Some NoFocus
      | Some l \<Rightarrow>
          (case get_layer reg l of
             None \<Rightarrow> Some NoFocus
           | Some parent \<Rightarrow>
               if window_label parent \<noteq> window then Some NoFocus
               else (case (case last_focused parent of
                             None \<Rightarrow> None
                           | Some r \<Rightarrow> (if r \<noteq> lost then map_option scope_fq (get_scope view r) else None)) of
                       Some r \<Rightarrow> Some (FallbackParentLayerLastFocused r (last_segment r))
                     | None \<Rightarrow> layer_phase reg view lost window (layer_parent parent))))"

definition resolve_fallback :: "registry \<Rightarrow> snapshot \<Rightarrow> string \<Rightarrow> lost_focus \<Rightarrow> fallback option" where
  "resolve_fallback reg view lost cx =
     (case get_layer reg (lost_layer_fq cx) of
        None \<Rightarrow> Some NoFocus
      | Some layer \<Rightarrow>
          (case zone_phase reg view lost (lost_rect cx) (lost_parent_zone cx) True of
             None \<Rightarrow> None
           | Some (Some r) \<Rightarrow> Some r
           | Some None \<Rightarrow> layer_phase reg view lost (window_label layer) (layer_parent layer)))"

fun fallback_target :: "fallback \<Rightarrow> (string \<times> string) option" where
  "fallback_target NoFocus = None"
| "fallback_target (FallbackSiblingInZone fq seg) = Some (fq, seg)"
| "fallback_target (FallbackParentZoneLastFocused fq seg) = Some (fq, seg)"
| "fallback_target (FallbackParentZoneNearest fq seg) = Some (fq, seg)"
| "fallback_target (FallbackParentLayerLastFocused fq seg) = Some (fq, seg)"
| "fallback_target (FallbackParentLayerNearest fq seg) = Some (fq, seg)"

definition commit_fallback ::
  "registry \<Rightarrow> string \<Rightarrow> string \<Rightarrow> fallback \<Rightarrow> snapshot \<Rightarrow> focus_state \<Rightarrow> focus_event \<times> registry \<times> focus_state" where
  "commit_fallback reg window prev resolution view st =
     (case fallback_target resolution of
        None \<Rightarrow> (\<lparr>ev_window = window, prev_fq = Some prev, next_fq = None, next_segment = None\<rparr>,
                 reg, AList.delete window st)
      | Some (fq, seg) \<Rightarrow>
          (\<lparr>ev_window = window, prev_fq = Some prev, next_fq = Some fq, next_segment = Some seg\<rparr>,
           record_focus fq view reg, AList.update window fq st))"

text \<open>\<open>None\<close> is the call that does not return.\<close>

definition focus_lost ::
  "registry \<Rightarrow> snapshot \<Rightarrow> string \<Rightarrow> lost_focus \<Rightarrow> focus_state
     \<Rightarrow> (focus_event option \<times> registry \<times> focus_state) option" where
  "focus_lost reg snap lost cx st =
     (case find (\<lambda>(_, focused). focused = lost) st of
        None \<Rightarrow> Some (None, reg, st)
      | Some (window, _) \<Rightarrow>
          (case resolve_fallback reg snap lost cx of
             None \<Rightarrow> None
           | Some resolution \<Rightarrow>
               (case commit_fallback reg window lost resolution snap st of
                  (e, reg', st') \<Rightarrow> Some (Some e, reg', st'))))"

section \<open>The fallback returns\<close>

interpretation nearest: comparison "nearest_cmp r" for r
  unfolding nearest_cmp_def [abs_def] by (intro comparison_then comparison_key)

lemma nearest_None: "nearest_in_zone_view view zone lost r = None
    \<longleftrightarrow> (\<forall>s \<in> set (scopes view). scope_fq s \<noteq> lost \<longrightarrow> parent_zone s \<noteq> zone)"
  by (auto simp: nearest_in_zone_view_def filter_empty_conv)

lemma nearest_Some:
  assumes "nearest_in_zone_view view zone lost r = Some fq"
  shows "\<exists>s \<in> set (scopes view). scope_fq s = fq \<and> fq \<noteq> lost \<and> parent_zone s = zone
    \<and> (\<forall>t \<in> set (scopes view). scope_fq t \<noteq> lost \<and> parent_zone t = zone
         \<longrightarrow> squared_distance r (scope_rect s) \<le> squared_distance r (scope_rect t))"
proof -
  obtain s where s: "min_by (nearest_cmp r) (filter (\<lambda>s. scope_fq s \<noteq> lost \<and> parent_zone s = zone) (scopes view)) = Some s"
    "scope_fq s = fq" using assms by (auto simp: nearest_in_zone_view_def)
  from nearest.min_by_Some [OF s(1)] s(2) show ?thesis
    by (force simp: nearest_cmp_def not_less)
qed

text \<open>
  One step up is enough: a scope of the snapshot is itself a candidate of its parent zone, so the walk
  cannot leave that zone empty-handed unless it stands on the lost scope itself.
\<close>

lemma zone_phase_top: "\<exists>r. zone_phase reg view lost origin None b = Some r"
  by (subst zone_phase.simps) (auto simp: remembered_in_zone_def split: option.split)

lemma zone_phase_returns:
  assumes "lost \<notin> scope_fqs view"
  shows "\<exists>r. zone_phase reg view lost origin zone b = Some r"
proof (cases zone)
  case (Some z)
  have up: "\<exists>r. zone_phase reg view lost origin (parent_zone_of view z) False = Some r"
  proof (cases "parent_zone_of view z")
    case None
    then show ?thesis using zone_phase_top by metis
  next
    case p: (Some p)
    then obtain s where s: "get_scope view z = Some s" "parent_zone s = Some p"
      by (auto simp: parent_zone_of_def split: option.splits)
    then have "s \<in> set (scopes view)" "scope_fq s \<noteq> lost"
      using get_scope_Some [OF s(1)] assms by (auto simp: scope_fqs_def)
    then obtain n where "nearest_in_zone_view view (Some p) lost origin = Some n"
      using s(2) nearest_None [of view "Some p" lost origin] by (cases "nearest_in_zone_view view (Some p) lost origin") auto
    then show ?thesis unfolding p by (subst zone_phase.simps) (simp split: option.split)
  qed
  then show ?thesis unfolding Some by (subst zone_phase.simps) (simp split: option.split)
qed (use zone_phase_top in simp)

end
