(* ===== verification/Sneak.thy ===== *)
theory Sneak
  imports Prelude "HOL-Library.Sublist"
begin

text \<open>
  The key codes of the Jump-To overlay (\<open>src/crates/swissarmyhammer-focus/src/sneak.rs\<close>): the
  alphabet in its priority order, the number of letters given up as prefixes, and the two loops that
  push codes until the requested count is reached. The property gives the codes' shape and says that
  no other prefix-free choice of codes is shorter to type.
\<close>

section \<open>The generator\<close>

definition sneak_alphabet :: string where
  "sneak_alphabet = ''asdfjkghwerupqtyzxcvnmb''"

datatype sneak_error = TooManyTargets (requested: nat) (capacity: nat)

definition max_sneak_codes :: nat where
  "max_sneak_codes = length sneak_alphabet * length sneak_alphabet"

definition div_ceil :: "nat \<Rightarrow> nat \<Rightarrow> nat" where
  "div_ceil a b = (if a mod b = 0 then a div b else a div b + 1)"

definition pick_two_letter_prefix_count :: "nat \<Rightarrow> nat \<Rightarrow> nat" where
  "pick_two_letter_prefix_count count alphabet_len =
     (if count \<le> alphabet_len then 0 else div_ceil (count - alphabet_len) (alphabet_len - 1))"

text \<open>A loop that pushes codes; the flag says that it returned early, with the count reached.\<close>

fun push_codes :: "nat \<Rightarrow> string list \<Rightarrow> string list \<Rightarrow> string list \<times> bool" where
  "push_codes count [] codes = (codes, False)"
| "push_codes count (s # ss) codes =
     (if length codes = count then (codes, True) else push_codes count ss (codes @ [s]))"

definition single_codes :: "nat \<Rightarrow> string list" where
  "single_codes single_count = map (\<lambda>letter. [letter]) (take single_count sneak_alphabet)"

definition pair_codes :: "nat \<Rightarrow> string list" where
  "pair_codes single_count =
     concat (map (\<lambda>prefix. map (\<lambda>second. [prefix, second]) sneak_alphabet) (drop single_count sneak_alphabet))"

definition generate_sneak_codes :: "nat \<Rightarrow> sneak_error + string list" where
  "generate_sneak_codes count =
     (if count = 0 then Inr []
      else if count > max_sneak_codes then Inl (TooManyTargets count max_sneak_codes)
      else
        let alphabet_len = length sneak_alphabet;
            k = pick_two_letter_prefix_count count alphabet_len;
            single_count = alphabet_len - k
        in case push_codes count (single_codes single_count) [] of
             (codes, True) \<Rightarrow> Inr codes
           | (codes, False) \<Rightarrow> Inr (fst (push_codes count (pair_codes single_count) codes)))"

section \<open>What the loops produce\<close>

lemma alphabet_simps [simp]: "length sneak_alphabet = 23" "distinct sneak_alphabet" "max_sneak_codes = 529"
  by (simp_all add: sneak_alphabet_def max_sneak_codes_def)

lemma push_codes_take:
  "length codes \<le> n \<Longrightarrow>
   push_codes n ss codes = (codes @ take (n - length codes) ss, n < length codes + length ss)"
proof (induction n ss codes rule: push_codes.induct)
  case (2 n s ss codes)
  then show ?case by (cases "n - length codes") (auto simp: diff_Suc)
qed simp

lemma generate_take:
  assumes "n \<le> 529"
  defines "k \<equiv> pick_two_letter_prefix_count n 23"
  shows "generate_sneak_codes n = Inr (take n (single_codes (23 - k) @ pair_codes (23 - k)))"
proof (cases "n = 0")
  case False
  then show ?thesis
    using assms(1)
    by (cases "n < length (single_codes (23 - k))")
      (simp_all add: generate_sneak_codes_def Let_def push_codes_take k_def min_def)
qed (simp add: generate_sneak_codes_def)

lemma length_single_codes [simp]: "m \<le> 23 \<Longrightarrow> length (single_codes m) = m"
  by (simp add: single_codes_def)

lemma length_pair_codes [simp]: "length (pair_codes m) = (23 - m) * 23"
  by (simp add: pair_codes_def length_concat comp_def sum_list_triv)

lemma prefix_count_bounds:
  assumes "n \<le> 529"
  defines "k \<equiv> pick_two_letter_prefix_count n 23"
  shows "k \<le> 23" "n \<le> (23 - k) + k * 23" "\<And>j. n \<le> 23 + j * 22 \<Longrightarrow> k \<le> j"
proof -
  define q where "q = (n - 23) div 22"
  have n: "n - 23 = q * 22 + (n - 23) mod 22" by (simp add: q_def)
  have k: "k = (if n \<le> 23 then 0 else if (n - 23) mod 22 = 0 then q else q + 1)"
    by (simp add: k_def pick_two_letter_prefix_count_def div_ceil_def q_def)
  have m: "(n - 23) mod 22 < 22" by simp
  show "k \<le> 23" "n \<le> (23 - k) + k * 23" "\<And>j. n \<le> 23 + j * 22 \<Longrightarrow> k \<le> j"
    using assms(1) n m unfolding k by (auto split: if_splits)
qed

section \<open>Valid codes\<close>

text \<open>A set of labels the overlay can tell apart while they are typed.\<close>

definition valid_codes :: "string set \<Rightarrow> bool" where
  "valid_codes C \<longleftrightarrow>
     (\<forall>c \<in> C. c \<noteq> [] \<and> length c \<le> 2 \<and> set c \<subseteq> set sneak_alphabet)
     \<and> (\<forall>c \<in> C. \<forall>d \<in> C. prefix c d \<longrightarrow> c = d)"

lemma set_single_codes: "set (single_codes m) = (\<lambda>a. [a]) ` set (take m sneak_alphabet)"
  by (simp add: single_codes_def)

lemma set_pair_codes: "set (pair_codes m) = {[a, b] |a b. a \<in> set (drop m sneak_alphabet) \<and> b \<in> set sneak_alphabet}"
  by (auto simp: pair_codes_def)

lemma take_drop_disjoint: "distinct xs \<Longrightarrow> a \<in> set (take m xs) \<Longrightarrow> a \<notin> set (drop m xs)"
  by (metis append_take_drop_id disjoint_iff distinct_append)

lemma distinct_all_codes: "distinct (single_codes m @ pair_codes m)"
proof -
  have "distinct (concat (map (\<lambda>a. map (\<lambda>b. [a, b]) sneak_alphabet) xs))" if "distinct xs" for xs
    using that by (induction xs) (auto simp: distinct_map inj_on_def)
  then have "distinct (pair_codes m)" by (simp add: pair_codes_def)
  then show ?thesis
    by (auto simp: set_single_codes set_pair_codes) (simp add: single_codes_def distinct_map inj_on_def)
qed

lemma valid_all_codes: "valid_codes (set (single_codes m @ pair_codes m))"
  unfolding valid_codes_def set_append set_single_codes set_pair_codes
  using take_drop_disjoint [OF alphabet_simps(2)]
  by (auto dest: in_set_takeD in_set_dropD simp: prefix_Cons)

lemma take_lengths:
  assumes "\<And>c. c \<in> set xs \<Longrightarrow> length c = 1" "\<And>c. c \<in> set ys \<Longrightarrow> length c \<noteq> 1"
  shows "{c \<in> set (take n (xs @ ys)). length c = 1} = set (take n xs)"
  using assms by (auto dest: in_set_takeD)

lemma card_singles:
  "m \<le> 23 \<Longrightarrow> card {c \<in> set (take n (single_codes m @ pair_codes m)). length c = 1} = min n m"
proof -
  assume m: "m \<le> 23"
  have "{c \<in> set (take n (single_codes m @ pair_codes m)). length c = 1} = set (take n (single_codes m))"
    by (rule take_lengths) (auto simp: set_pair_codes set_single_codes)
  moreover have "distinct (take n (single_codes m))"
    using distinct_all_codes [of m] by simp
  ultimately show ?thesis using m by (simp add: distinct_card min.commute)
qed

lemma valid_codes_mono: "valid_codes C \<Longrightarrow> D \<subseteq> C \<Longrightarrow> valid_codes D"
  unfolding valid_codes_def by blast

text \<open>Giving up prefixes is the only way to more codes: a valid set cannot have more one-letter codes.\<close>

lemma singles_bound:
  assumes C: "valid_codes C" and fin: "finite C"
  defines "S \<equiv> {c \<in> C. length c = 1}"
  shows "card S \<le> 23" "card C \<le> 23 + (23 - card S) * 22"
proof -
  let ?A = "set sneak_alphabet" and ?L = "hd ` S"
  have len: "length c = 1 \<or> length c = 2" if "c \<in> C" for c
  proof -
    have "c \<noteq> []" "length c \<le> 2" using C that unfolding valid_codes_def by auto
    then show ?thesis by (cases c) (auto simp: le_Suc_eq)
  qed
  have cA: "card ?A = 23" by (simp add: distinct_card)
  have inj: "inj_on hd S" by (auto simp: inj_on_def S_def length_Suc_conv)
  have L: "?L \<subseteq> ?A" using C by (auto simp: S_def valid_codes_def length_Suc_conv)
  have cL: "card ?L = card S" by (rule card_image [OF inj])
  show s: "card S \<le> 23" using card_mono [OF _ L] cA cL by simp
  have D: "C - S \<subseteq> (\<lambda>(a, b). [a, b]) ` ((?A - ?L) \<times> ?A)"
  proof
    fix c assume c: "c \<in> C - S"
    then obtain a b where ab: "c = [a, b]" using len [of c] by (auto simp: S_def length_Suc_conv numeral_2_eq_2)
    have "a \<notin> ?L"
    proof
      assume "a \<in> ?L"
      then have "[a] \<in> C" by (auto simp: S_def length_Suc_conv)
      moreover have "prefix [a] c" by (simp add: ab)
      ultimately have "[a] = c" using C c unfolding valid_codes_def by blast
      then show False using ab by simp
    qed
    moreover have "a \<in> ?A \<and> b \<in> ?A" using C c ab unfolding valid_codes_def by auto
    ultimately show "c \<in> (\<lambda>(a, b). [a, b]) ` ((?A - ?L) \<times> ?A)" using ab by auto
  qed
  have "card (C - S) \<le> card ((?A - ?L) \<times> ?A)"
    by (rule order_trans [OF card_mono [OF _ D] card_image_le]) simp_all
  also have "\<dots> = (23 - card S) * 23" using L by (simp add: card_cartesian_product card_Diff_subset finite_subset cA cL)
  finally have "card (C - S) \<le> (23 - card S) * 23" .
  moreover have "card C = card S + card (C - S)"
    using card_Un_disjoint [of S "C - S"] fin by (simp add: S_def Un_absorb1)
  ultimately show "card C \<le> 23 + (23 - card S) * 22" using s by simp
qed

lemma total_length:
  assumes "valid_codes C" "finite C"
  shows "(\<Sum>c \<in> C. length c) + card {c \<in> C. length c = 1} = 2 * card C"
proof -
  have "length c + (if length c = 1 then 1 else 0) = 2" if "c \<in> C" for c
  proof -
    have "c \<noteq> []" "length c \<le> 2" using assms(1) that unfolding valid_codes_def by auto
    then show ?thesis by (cases c) (auto simp: le_Suc_eq)
  qed
  then have "(\<Sum>c \<in> C. length c + (if length c = 1 then 1 else 0)) = 2 * card C" by simp
  then show ?thesis using assms(2) by (simp add: sum.distrib sum.If_cases Int_def)
qed

section \<open>The codes are right\<close>

text \<open>C22. Up to 529 targets get exactly that many distinct codes of one or two letters of the
  alphabet, none a prefix of another; more targets are an error. No other valid set of as many codes
  takes fewer keystrokes in total.\<close>

theorem sneak_codes_correct:
  "case generate_sneak_codes n of
     Inl e \<Rightarrow> n > 529 \<and> e = TooManyTargets n 529
   | Inr codes \<Rightarrow>
       n \<le> 529 \<and> length codes = n \<and> distinct codes \<and> valid_codes (set codes)
       \<and> (\<forall>C. valid_codes C \<and> card C = n \<longrightarrow> sum_list (map length codes) \<le> (\<Sum>c \<in> C. length c))"
proof (cases "n \<le> 529")
  case n: True
  let ?k = "pick_two_letter_prefix_count n 23"
  define cs where "cs = take n (single_codes (23 - ?k) @ pair_codes (23 - ?k))"
  note k = prefix_count_bounds [OF n]
  have len: "length cs = n" using k(1,2) by (simp add: cs_def)
  have dist: "distinct cs" unfolding cs_def by (rule distinct_take [OF distinct_all_codes])
  have valid: "valid_codes (set cs)"
    unfolding cs_def by (rule valid_codes_mono [OF valid_all_codes set_take_subset])
  have ones: "card {c \<in> set cs. length c = 1} = min n (23 - ?k)"
    unfolding cs_def by (rule card_singles) simp
  have "sum_list (map length cs) \<le> (\<Sum>c \<in> C. length c)" if C: "valid_codes C" "card C = n" for C
  proof (cases "n = 0")
    case False
    then have fin: "finite C" using C(2) card_ge_0_finite by blast
    let ?s = "card {c \<in> C. length c = 1}"
    have "?k \<le> 23 - ?s" using singles_bound(2) [OF C(1) fin] k(3) C(2) by simp
    then have "?s \<le> min n (23 - ?k)"
      using singles_bound(1) [OF C(1) fin] k(1) card_mono [of C "{c \<in> C. length c = 1}"] fin C(2) by auto
    moreover have "sum_list (map length cs) = (\<Sum>c \<in> set cs. length c)"
      by (simp add: sum_list_distinct_conv_sum_set dist)
    ultimately show ?thesis
      using total_length [OF C(1) fin] total_length [OF valid finite_set] ones distinct_card [OF dist] len C(2) by linarith
  qed (use len in simp)
  moreover have "generate_sneak_codes n = Inr cs" unfolding cs_def by (rule generate_take [OF n])
  ultimately show ?thesis using n len dist valid by simp
qed (simp add: generate_sneak_codes_def)

theorem sneak_codes_correct_witness:
  "generate_sneak_codes 2 = Inr [''a'', ''s''] \<and> (2::nat) \<le> (\<Sum>c \<in> {''zx'', ''zb''}. length c)"
proof -
  have g: "generate_sneak_codes 2 = Inr [''a'', ''s'']"
    by (simp add: generate_take single_codes_def pick_two_letter_prefix_count_def sneak_alphabet_def
        numeral_2_eq_2)
  have "valid_codes {''zx'', ''zb''}" by (simp add: valid_codes_def sneak_alphabet_def)
  then show ?thesis using sneak_codes_correct [of 2] g by (auto dest!: spec [of _ "{''zx'', ''zb''}"])
qed

end
