(* ===== verification/Focus_Claims.thy ===== *)
theory Focus_Claims
  imports Focus_State Sneak
begin

text \<open>
  The properties of the focus state: the fallback returns and finds what there is to find, drilling
  out and in again comes back, and a listener that follows the events knows the focus of every window.
\<close>

section \<open>The fallback\<close>

lemma get_scope_seen: "get_scope view fq = Some s \<Longrightarrow> scope_fq s = fq \<and> fq \<in> scope_fqs view"
  using get_scope_Some scope_fqs_get by blast

lemma layer_phase_returns:
  assumes "wf ((layer_edges reg)\<inverse>)"
  shows "\<exists>r. layer_phase reg view lost window n = Some r"
proof -
  have "\<exists>r. layer_phase reg view lost window (Some l) = Some r" for l
    using assms
  proof (induction l rule: wf_induct_rule)
    case (less l)
    show ?case
    proof (cases "get_layer reg l")
      case (Some ly)
      have "\<exists>r. layer_phase reg view lost window (layer_parent ly) = Some r"
      proof (cases "\<exists>p. layer_parent ly = Some p \<and> get_layer reg p \<noteq> None")
        case True
        then obtain p where p: "layer_parent ly = Some p" "get_layer reg p \<noteq> None" by blast
        then have "(p, l) \<in> (layer_edges reg)\<inverse>" using Some by (auto simp: layer_edges_def)
        then show ?thesis using less.IH p(1) by simp
      qed (subst layer_phase.simps, auto split: option.split)
      then show ?thesis using Some by (subst layer_phase.simps) (auto split: option.split)
    qed (subst layer_phase.simps, simp)
  qed
  then show ?thesis by (cases n) (auto simp: layer_phase.simps)
qed

lemma remembered_Some:
  "remembered_in_zone reg view lost zone = Some r \<Longrightarrow> r \<in> scope_fqs view \<and> r \<noteq> lost"
  by (auto simp: remembered_in_zone_def split: option.splits if_splits dest: get_scope_Some scope_fqs_get)

definition good_target :: "snapshot \<Rightarrow> string \<Rightarrow> fallback \<Rightarrow> bool" where
  "good_target view lost r \<longleftrightarrow>
     (case fallback_target r of
        None \<Rightarrow> True
      | Some (fq, seg) \<Rightarrow> fq \<in> scope_fqs view \<and> fq \<noteq> lost \<and> seg = last_segment fq)"

lemma good_target_simps [simp]:
  "good_target view lost NoFocus"
  "good_target view lost (FallbackParentLayerLastFocused fq seg)
     \<longleftrightarrow> fq \<in> scope_fqs view \<and> fq \<noteq> lost \<and> seg = last_segment fq"
  by (simp_all add: good_target_def)

definition found :: "snapshot \<Rightarrow> string \<Rightarrow> fallback option \<Rightarrow> bool" where
  "found view lost out \<longleftrightarrow> (\<forall>res. out = Some res \<longrightarrow> good_target view lost res \<and> fallback_target res \<noteq> None)"

lemma good_zone_target: "zone_phase reg view lost r zone b = Some out \<Longrightarrow> found view lost out"
proof (erule zone_phase.raw_induct [of "\<lambda>reg view lost r zone b out. found view lost out", rotated])
  fix f :: "registry \<Rightarrow> snapshot \<Rightarrow> string \<Rightarrow> rect \<Rightarrow> string option \<Rightarrow> bool \<Rightarrow> fallback option option"
    and reg view lost r zone b out
  assume ih: "\<And>reg view lost r zone b out. f reg view lost r zone b = Some out \<Longrightarrow> found view lost out"
    and body: "(case (if b then None else remembered_in_zone reg view lost zone) of
        Some m \<Rightarrow> Some (Some (FallbackParentZoneLastFocused m (last_segment m)))
      | None \<Rightarrow>
          (case nearest_in_zone_view view zone lost r of
             Some n \<Rightarrow>
               Some (Some (if b then FallbackSiblingInZone n (last_segment n)
                           else FallbackParentZoneNearest n (last_segment n)))
           | None \<Rightarrow>
               (case zone of
                  None \<Rightarrow> Some None
                | Some z \<Rightarrow> f reg view lost r (parent_zone_of view z) False))) = Some out"
  show "found view lost out"
  proof (cases "if b then None else remembered_in_zone reg view lost zone")
    case None
    show ?thesis
    proof (cases "nearest_in_zone_view view zone lost r")
      case none: None
      then show ?thesis using body ih None by (cases zone) (auto simp: found_def)
    next
      case (Some n)
      then show ?thesis
        using body None nearest_Some [OF Some] by (auto simp: found_def good_target_def scope_fqs_def)
    qed
  next
    case (Some m)
    then show ?thesis
      using body remembered_Some [of reg view lost zone m]
      by (auto simp: found_def good_target_def split: if_splits)
  qed
qed

lemma good_layer_target: "layer_phase reg view lost window n = Some res \<Longrightarrow> good_target view lost res"
proof (erule layer_phase.raw_induct [of "\<lambda>reg view lost window n res. good_target view lost res", rotated])
  fix f :: "registry \<Rightarrow> snapshot \<Rightarrow> string \<Rightarrow> string \<Rightarrow> string option \<Rightarrow> fallback option" and reg view lost window n res
  assume ih: "\<And>reg view lost window n res. f reg view lost window n = Some res \<Longrightarrow> good_target view lost res"
    and body: "(case n of None \<Rightarrow> Some NoFocus
      | Some l \<Rightarrow> (case get_layer reg l of None \<Rightarrow> Some NoFocus
          | Some parent \<Rightarrow>
               if window_label parent \<noteq> window then Some NoFocus
               else (case (case last_focused parent of
                             None \<Rightarrow> None
                           | Some r \<Rightarrow> (if r \<noteq> lost then map_option scope_fq (get_scope view r) else None)) of
                       Some r \<Rightarrow> Some (FallbackParentLayerLastFocused r (last_segment r))
                     | None \<Rightarrow> f reg view lost window (layer_parent parent)))) = Some res"
  then show "good_target view lost res"
    by (auto split: option.splits if_splits dest: get_scope_seen)
qed

lemma zone_phase_fails:
  assumes "zone_phase reg view lost r zone b = Some None" "lost \<notin> scope_fqs view" "s \<in> set (scopes view)"
  shows "parent_zone s \<noteq> None \<and> parent_zone s \<noteq> zone"
proof -
  have other: "scope_fq t \<noteq> lost" if "t \<in> set (scopes view)" for t using assms(2) that by (auto simp: scope_fqs_def)
  have none: "parent_zone s \<noteq> z" if "zone_phase reg view lost r z c = Some None" for z c
    using that other [OF assms(3)] assms(3) nearest_None [of view z lost r]
    by (subst (asm) zone_phase.simps) (auto split: option.splits if_splits)
  have "parent_zone s \<noteq> None"
  proof (cases zone)
    case None
    then show ?thesis using none assms(1) by metis
  next
    case (Some z)
    then have up: "zone_phase reg view lost r (parent_zone_of view z) False = Some None"
      using assms(1) by (subst (asm) zone_phase.simps) (auto split: option.splits if_splits)
    have "parent_zone_of view z = None"
    proof (rule ccontr)
      assume "parent_zone_of view z \<noteq> None"
      then obtain p t where t: "get_scope view z = Some t" "parent_zone t = Some p" "parent_zone_of view z = Some p"
        by (auto simp: parent_zone_of_def split: option.splits)
      have "nearest_in_zone_view view (Some p) lost r = None"
        using up unfolding t(3) by (subst (asm) zone_phase.simps) (auto split: option.splits)
      then show False using t(2) get_scope_Some [OF t(1)] other nearest_None [of view "Some p" lost r] by blast
    qed
    then show ?thesis using none up by metis
  qed
  then show ?thesis using none assms(1) by blast
qed

lemma registered_fallback:
  assumes "lost \<notin> scope_fqs view" "wf ((layer_edges reg)\<inverse>)"
    and "get_layer reg (lost_layer_fq cx) = Some layer"
  defines "siblings \<equiv> {s \<in> set (scopes view). parent_zone s = lost_parent_zone cx}"
  shows "\<exists>r. resolve_fallback reg view lost cx = Some r \<and> good_target view lost r
    \<and> (siblings \<noteq> {} \<longrightarrow> (\<exists>s \<in> siblings. r = FallbackSiblingInZone (scope_fq s) (last_segment (scope_fq s))
         \<and> (\<forall>t \<in> siblings. squared_distance (lost_rect cx) (scope_rect s) \<le> squared_distance (lost_rect cx) (scope_rect t))))
    \<and> (r = NoFocus \<longrightarrow> siblings = {} \<and> (\<forall>s \<in> set (scopes view). parent_zone s \<noteq> None))"
proof -
  let ?zone = "lost_parent_zone cx" and ?r = "lost_rect cx"
  have other: "scope_fq s \<noteq> lost" if "s \<in> set (scopes view)" for s using assms(1) that by (auto simp: scope_fqs_def)
  obtain out where out: "zone_phase reg view lost ?r ?zone True = Some out"
    using zone_phase_returns [OF assms(1)] by metis
  show ?thesis
  proof (cases "nearest_in_zone_view view ?zone lost ?r")
    case (Some n)
    then have r: "resolve_fallback reg view lost cx = Some (FallbackSiblingInZone n (last_segment n))"
      using assms(3) by (simp add: resolve_fallback_def) (subst zone_phase.simps, simp)
    obtain s where s: "s \<in> siblings" "scope_fq s = n"
      "\<forall>t \<in> set (scopes view). scope_fq t \<noteq> lost \<and> parent_zone t = ?zone \<longrightarrow>
         squared_distance ?r (scope_rect s) \<le> squared_distance ?r (scope_rect t)"
      using nearest_Some [OF Some] by (auto simp: siblings_def)
    then show ?thesis
      using r other by (auto simp: good_target_def siblings_def scope_fqs_def intro!: bexI [of _ s])
  next
    case None
    then have empty: "siblings = {}" using other by (auto simp: siblings_def nearest_None)
    show ?thesis
    proof (cases out)
      case None
      obtain r where r: "layer_phase reg view lost (window_label layer) (layer_parent layer) = Some r"
        using layer_phase_returns [OF assms(2)] by blast
      have "\<forall>s \<in> set (scopes view). parent_zone s \<noteq> None"
        using zone_phase_fails [OF _ assms(1)] out None by blast
      then show ?thesis using r out None assms(3) empty good_layer_target [OF r] by (simp add: resolve_fallback_def)
    next
      case (Some r)
      then show ?thesis
        using out assms(3) empty good_zone_target [OF out]
        by (auto simp: resolve_fallback_def found_def)
    qed
  qed
qed

text \<open>C25. Let the lost scope be gone from the snapshot and no layer be its own ancestor. Then the fallback
  returns. When the layer of the lost scope is not registered (any more), the focus is given up whatever siblings are
  left. When it is registered, the target is another scope of the snapshot, with its last segment; with a sibling
  left it is the nearest one by squared distance; and the focus is given up only when neither a sibling nor a
  scope at the top of the layer is left.\<close>

theorem fallback_correct:
  fixes view :: snapshot and cx :: lost_focus
  assumes "lost \<notin> scope_fqs view" "wf ((layer_edges reg)\<inverse>)"
  defines "siblings \<equiv> {s \<in> set (scopes view). parent_zone s = lost_parent_zone cx}"
  shows "case get_layer reg (lost_layer_fq cx) of
      None \<Rightarrow> resolve_fallback reg view lost cx = Some NoFocus
    | Some layer \<Rightarrow> (\<exists>r. resolve_fallback reg view lost cx = Some r \<and> good_target view lost r
        \<and> (siblings \<noteq> {} \<longrightarrow> (\<exists>s \<in> siblings. r = FallbackSiblingInZone (scope_fq s) (last_segment (scope_fq s))
             \<and> (\<forall>t \<in> siblings. squared_distance (lost_rect cx) (scope_rect s) \<le> squared_distance (lost_rect cx) (scope_rect t))))
        \<and> (r = NoFocus \<longrightarrow> siblings = {} \<and> (\<forall>s \<in> set (scopes view). parent_zone s \<noteq> None)))"
proof (cases "get_layer reg (lost_layer_fq cx)")
  case None
  then show ?thesis by (simp add: resolve_fallback_def)
next
  case (Some layer)
  then show ?thesis
    using registered_fallback [OF assms(1,2) Some] unfolding siblings_def by simp
qed

definition sample_registry :: registry where
  "sample_registry = push_layer
     \<lparr>layer_fq = ''/w'', layer_segment = ''w'', layer_name = ''window'', layer_parent = None,
      window_label = ''main'', last_focused = None\<rparr> new_registry"

lemma sample_layer: "get_layer sample_registry k =
    (if k = ''/w'' then Some \<lparr>layer_fq = ''/w'', layer_segment = ''w'', layer_name = ''window'', layer_parent = None,
      window_label = ''main'', last_focused = None\<rparr> else None)"
  by (simp add: sample_registry_def push_layer_get) (simp add: new_registry_def get_layer_def)

lemma sample_layer_edges: "layer_edges sample_registry = {}"
  by (auto simp: layer_edges_def sample_layer split: if_splits)

theorem fallback_correct_witness:
  "\<exists>r. resolve_fallback sample_registry sample_view ''/w/x''
        \<lparr>lost_layer_fq = ''/w'', lost_parent_zone = None, lost_rect = sample_rect 0 30\<rparr> = Some r
     \<and> good_target sample_view ''/w/x'' r \<and> r \<noteq> NoFocus"
proof -
  have "''/w/x'' \<notin> scope_fqs sample_view" by (simp add: scope_fqs_def sample_view_def sample_scope_def)
  moreover have "wf ((layer_edges sample_registry)\<inverse>)" by (simp add: sample_layer_edges)
  moreover have "\<not> (\<forall>s \<in> set (scopes sample_view). parent_zone s \<noteq> None)"
    by (simp add: sample_view_def sample_scope_def)
  ultimately show ?thesis
    using fallback_correct [of "''/w/x''" sample_view sample_registry
        "\<lparr>lost_layer_fq = ''/w'', lost_parent_zone = None, lost_rect = sample_rect 0 30\<rparr>"]
    by (auto simp: sample_layer)
qed

text \<open>Without the guard that \<open>record_focus\<close> has, layers that are their own ancestors hang the fallback.\<close>

lemma layer_phase_cycle:
  "layer_phase reg view lost window n = Some r \<Longrightarrow>
   (\<forall>k \<in> C. \<exists>ly p. get_layer reg k = Some ly \<and> window_label ly = window \<and> last_focused ly = None
      \<and> layer_parent ly = Some p \<and> p \<in> C) \<longrightarrow> n \<notin> Some ` C"
proof (erule layer_phase.raw_induct [of "\<lambda>reg view lost window n r.
    (\<forall>k \<in> C. \<exists>ly p. get_layer reg k = Some ly \<and> window_label ly = window \<and> last_focused ly = None
      \<and> layer_parent ly = Some p \<and> p \<in> C) \<longrightarrow> n \<notin> Some ` C", rotated], intro impI notI, goal_cases)
  case (1 f reg view lost window n r)
  then obtain k where k: "n = Some k" "k \<in> C" by blast
  with 1(3) obtain ly p where l: "get_layer reg k = Some ly" "window_label ly = window" "last_focused ly = None"
      "layer_parent ly = Some p" "p \<in> C" by blast
  have "f reg view lost window (Some p) = Some r" using 1(2) k l by simp
  from 1(1) [OF this] 1(3) l(5) show False by blast
qed

lemma cyclic_layers_hang:
  assumes "get_layer reg (lost_layer_fq cx) = Some ly" "layer_parent ly = Some p" "p \<in> C"
    and "scopes view = []" "lost_parent_zone cx = None"
    and "\<forall>k \<in> C. \<exists>m q. get_layer reg k = Some m \<and> window_label m = window_label ly \<and> last_focused m = None
      \<and> layer_parent m = Some q \<and> q \<in> C"
  shows "resolve_fallback reg view lost cx = None"
proof -
  have "zone_phase reg view lost (lost_rect cx) None True = Some None"
    using assms(4) by (subst zone_phase.simps) (simp add: nearest_in_zone_view_def)
  moreover have "layer_phase reg view lost (window_label ly) (Some p) \<noteq> Some r" for r
    using layer_phase_cycle [of reg view lost "window_label ly" "Some p" r C] assms(3,6) by blast
  then have "layer_phase reg view lost (window_label ly) (Some p) = None" by (meson not_Some_eq)
  ultimately show ?thesis using assms(1,2,5) by (simp add: resolve_fallback_def)
qed

section \<open>Drilling out and in again\<close>

lemma focus_event:
  assumes "focus reg snap fq st = (Some ev, reg', st')"
  shows "fq \<in> scope_fqs snap" "reg' = record_focus fq snap reg"
    "\<exists>layer. get_layer reg (snap_layer snap) = Some layer \<and> ev_window ev = window_label layer
       \<and> prev_fq ev = focused_in st (window_label layer) \<and> prev_fq ev \<noteq> Some fq
       \<and> next_fq ev = Some fq \<and> next_segment ev = Some (last_segment fq)
       \<and> st' = AList.update (window_label layer) fq st"
  using assms by (auto simp: focus_def Let_def get_scope_None split: option.splits if_splits)

lemma drill_in_remembered:
  assumes "fq \<in> scope_fqs snap" "(fq, z) \<in> (zone_edges snap)\<^sup>+" "last_focused_by_fq reg z = Some fq"
  shows "drill_in snap reg z cur = fq"
proof -
  have "get_scope snap z \<noteq> None" using assms(2) by (auto simp: zone_edges_def elim: trancl.cases)
  moreover have "get_scope snap fq \<noteq> None" using assms(1) get_scope_in by blast
  ultimately show ?thesis using assms(3) by (auto simp: drill_in_def)
qed

text \<open>After the focus moved to a scope, drilling into any zone around it comes back to it; and when
  the focus has moved on to the enclosing zone by drilling out, drilling in still comes back.\<close>

lemma drill_out_then_in:
  assumes "focus reg snap fq st = (Some ev, reg1, st1)"
    and "drill_out snap fq fq = p" "p \<noteq> fq" "(p, p) \<notin> (zone_edges snap)\<^sup>+"
    and "focus reg1 snap p st1 = (ev2, reg2, st2)"
  shows "drill_in snap reg2 p p = fq \<and> (\<forall>z cur. (fq, z) \<in> (zone_edges snap)\<^sup>+ \<longrightarrow> drill_in snap reg1 z cur = fq)"
proof -
  note f = focus_event [OF assms(1)]
  have edge: "(fq, p) \<in> zone_edges snap"
    using assms(2,3) by (auto simp: drill_out_def zone_edges_def split: option.splits if_splits)
  have "last_focused_by_fq reg1 z = Some fq" if "(fq, z) \<in> (zone_edges snap)\<^sup>+" for z
    using that f(2) by (simp add: record_focus_memory)
  moreover from this [OF r_into_trancl [OF edge]] have "last_focused_by_fq reg2 p = Some fq"
    using assms(4,5)
    by (auto simp: focus_def Let_def record_focus_memory split: option.splits if_splits)
  ultimately show ?thesis using drill_in_remembered f(1) edge by blast
qed

lemma sample_zone_edges: "zone_edges sample_view = {(''/w/b'', ''/w/c'')}"
proof -
  have "get_scope sample_view k =
    (if k = ''/w/b'' then Some (sample_scope ''/w/b'' (Some ''/w/c'') 0 20)
     else if k = ''/w/c'' then Some (sample_scope ''/w/c'' None 0 40)
     else if k = ''/w/a'' then Some (sample_scope ''/w/a'' None 0 0) else None)" for k
    by (auto simp: get_scope_def by_fq_def sample_view_def sample_scope_def)
  then show ?thesis by (auto simp: zone_edges_def sample_scope_def split: if_splits)
qed

section \<open>Following the events\<close>

text \<open>The calls of the adapter, each with the event it emits.\<close>

inductive focus_step :: "registry \<times> focus_state \<Rightarrow> focus_event option \<Rightarrow> registry \<times> focus_state \<Rightarrow> bool" where
  step_focus: "focus reg snap fq st = (e, reg', st') \<Longrightarrow> focus_step (reg, st) e (reg', st')"
| step_navigate: "navigate reg snap fq d st = (e, reg', st') \<Longrightarrow> focus_step (reg, st) e (reg', st')"
| step_lost: "focus_lost reg snap lost cx st = Some (e, reg', st') \<Longrightarrow> focus_step (reg, st) e (reg', st')"
| step_clear: "clear_focus window st = (e, st') \<Longrightarrow> focus_step (reg, st) e (reg, st')"
| step_push: "focus_step (reg, st) None (push_layer l reg, st)"
| step_remove: "focus_step (reg, st) None (remove_layer fq reg, st)"

inductive focus_run :: "registry \<times> focus_state \<Rightarrow> focus_event list \<Rightarrow> registry \<times> focus_state \<Rightarrow> bool" where
  run_done: "focus_run s [] s"
| run_quiet: "focus_run s evs s' \<Longrightarrow> focus_step s' None s'' \<Longrightarrow> focus_run s evs s''"
| run_event: "focus_run s evs s' \<Longrightarrow> focus_step s' (Some ev) s'' \<Longrightarrow> focus_run s (evs @ [ev]) s''"

text \<open>What a listener does with an event.\<close>

definition apply_event :: "focus_event \<Rightarrow> (string \<Rightarrow> string option) \<Rightarrow> string \<Rightarrow> string option" where
  "apply_event ev m = m(ev_window ev := next_fq ev)"

text \<open>An event tells what was focused, what is focused now, and that the two differ.\<close>

definition truthful :: "focus_state \<Rightarrow> focus_event option \<Rightarrow> focus_state \<Rightarrow> bool" where
  "truthful st e st' \<longleftrightarrow>
     (case e of
        None \<Rightarrow> st' = st
      | Some ev \<Rightarrow>
          focused_in st' = apply_event ev (focused_in st)
          \<and> prev_fq ev = focused_in st (ev_window ev) \<and> prev_fq ev \<noteq> next_fq ev
          \<and> next_segment ev = map_option last_segment (next_fq ev))"

lemma focused_in_update [simp]: "focused_in (AList.update w fq st) = (focused_in st)(w \<mapsto> fq)"
  by (rule ext) (simp add: focused_in_def update_conv')

lemma focused_in_delete [simp]: "focused_in (AList.delete w st) = (focused_in st)(w := None)"
  by (rule ext) (simp add: focused_in_def delete_conv')

lemma truthful_focus: "focus reg snap fq st = (e, reg', st') \<Longrightarrow> truthful st e st'"
  by (auto simp: focus_def Let_def truthful_def apply_event_def split: option.splits if_splits)

lemma good_fallback:
  assumes "resolve_fallback reg view lost cx = Some r"
  shows "good_target view lost r"
  using assms good_zone_target good_layer_target
  by (fastforce simp: resolve_fallback_def found_def split: option.splits)

lemma truthful_lost:
  assumes "focus_lost reg snap lost cx st = Some (e, reg', st')" "distinct (map fst st)"
  shows "truthful st e st'"
proof (cases "find (\<lambda>(_, focused). focused = lost) st")
  case None
  then show ?thesis using assms(1) by (simp add: focus_lost_def truthful_def)
next
  case (Some wf)
  obtain window where w: "wf = (window, lost)" "(window, lost) \<in> set st"
    using find_SomeD [OF Some] by (cases wf) auto
  then have prev: "focused_in st window = Some lost" using assms(2) by (simp add: focused_in_def)
  from assms(1) Some w(1) obtain r ev where r: "resolve_fallback reg snap lost cx = Some r"
    "commit_fallback reg window lost r snap st = (ev, reg', st')" "e = Some ev"
    by (auto simp: focus_lost_def split: option.splits prod.splits)
  show ?thesis
    using r(2) good_fallback [OF r(1)] prev unfolding r(3)
    by (auto simp: commit_fallback_def good_target_def truthful_def apply_event_def split: option.splits)
qed

lemma focus_step_truthful:
  assumes "focus_step s e s'" "distinct (map fst (snd s))"
  shows "truthful (snd s) e (snd s') \<and> distinct (map fst (snd s'))"
proof -
  have "truthful (snd s) e (snd s')"
    using assms
  proof cases
    case (step_focus reg snap fq st reg' st')
    then show ?thesis using truthful_focus by simp
  next
    case (step_navigate reg snap fq d st reg' st')
    then show ?thesis
      using truthful_focus by (auto simp: navigate_def Let_def truthful_def split: if_splits)
  next
    case (step_lost reg snap lost cx st reg' st')
    then show ?thesis using truthful_lost assms(2) by simp
  qed (auto simp: clear_focus_def truthful_def apply_event_def split: option.splits)
  moreover have "distinct (map fst (snd s'))"
    using assms
    by cases (auto simp: focus_def navigate_def focus_lost_def commit_fallback_def clear_focus_def Let_def
        distinct_update distinct_delete split: option.splits if_splits prod.splits)
  ultimately show ?thesis by blast
qed

text \<open>C26. A listener that starts with the focus of every window and applies the emitted events in
  order knows the focus of every window after any sequence of calls.\<close>

theorem listener_in_sync:
  assumes "focus_run s evs s'" "distinct (map fst (snd s))"
  shows "focused_in (snd s') = fold apply_event evs (focused_in (snd s))"
proof -
  have "focused_in (snd s') = fold apply_event evs (focused_in (snd s)) \<and> distinct (map fst (snd s'))"
    using assms
  proof (induction rule: focus_run.induct)
    case (run_quiet s evs s' s'')
    then show ?case using focus_step_truthful [of s' None s''] by (simp add: truthful_def)
  next
    case (run_event s evs s' ev s'')
    then show ?case using focus_step_truthful [of s' "Some ev" s''] by (simp add: truthful_def)
  qed simp
  then show ?thesis by blast
qed

theorem listener_in_sync_witness:
  "\<exists>evs s'. focus_run (sample_registry, []) evs s' \<and> length evs = 1
     \<and> focused_in (snd s') = fold apply_event evs (focused_in [])"
proof -
  have "snap_layer sample_view = ''/w''" by (simp add: sample_view_def)
  then obtain ev reg1 st1 where "focus sample_registry sample_view ''/w/a'' [] = (Some ev, reg1, st1)"
    by (simp add: focus_def Let_def sample_layer sample_get focused_in_def)
  then have r: "focus_run (sample_registry, []) ([] @ [ev]) (reg1, st1)"
    by (blast intro: run_event [OF run_done] step_focus)
  from listener_in_sync [OF r] r show ?thesis by (intro exI conjI) auto
qed

end
