(* ===== verification/Entity_Io.thy ===== *)
theory Entity_Io
  imports Entity Frontmatter
begin

text \<open>
  Entities as texts: \<open>swissarmyhammer-entity/src/io.rs\<close>, with the delimiter rule of
  \<open>swissarmyhammer-common/src/frontmatter.rs\<close>. The YAML library is the record \<open>yaml_lib\<close>: it parses a
  mapping into the pairs of a \<open>HashMap\<close>, in the order in which that map iterates, and prints one.
\<close>

section \<open>Delimiter lines\<close>

definition line_content :: "string \<Rightarrow> string" where
  "line_content raw = strip_suffix_char CR (strip_suffix_char NL raw)"

definition is_delimiter_line :: "string \<Rightarrow> bool" where
  "is_delimiter_line raw \<longleftrightarrow> line_content raw = ''---''"

fun find_closing :: "string list \<Rightarrow> string \<Rightarrow> (string \<times> string) option" where
  "find_closing [] before = None"
| "find_closing (raw # ls) before =
     (if is_delimiter_line raw then Some (before, concat ls) else find_closing ls (before @ raw))"

definition split_frontmatter_body :: "string \<Rightarrow> (string \<times> string) option" where
  "split_frontmatter_body content =
     (case split_inclusive content of
        [] \<Rightarrow> None
      | opening # ls \<Rightarrow> (if \<not> is_delimiter_line opening then None else find_closing ls []))"

lemma find_closing_skip:
  "\<forall>l \<in> set ls. \<not> is_delimiter_line l \<Longrightarrow> find_closing (ls @ ms) before = find_closing ms (before @ concat ls)"
  by (induction ls arbitrary: before) auto

text \<open>Nothing is lost and nothing is added: the parts are slices of the text between its delimiters.\<close>

lemma split_frontmatter_body_slices:
  assumes "split_frontmatter_body content = Some (fm, body)"
  shows "\<exists>before after. content = before @ fm @ after @ body \<and> is_delimiter_line before \<and> is_delimiter_line after"
proof -
  have closing: "\<exists>c. before @ concat ls = fm @ c @ body \<and> is_delimiter_line c"
    if "find_closing ls before = Some (fm, body)" for ls before
    using that by (induction ls before rule: find_closing.induct) (auto split: if_splits)
  obtain l ls where ls: "split_inclusive content = l # ls" "is_delimiter_line l"
    "find_closing ls [] = Some (fm, body)"
    using assms by (auto simp: split_frontmatter_body_def split: list.splits if_splits)
  moreover have "content = l @ concat ls" using ls(1) concat_split_inclusive [of content] by simp
  ultimately show ?thesis using closing [OF ls(3)] by auto
qed

section \<open>Definitions and errors\<close>

record entity_def =
  body_field :: "string option"

datatype entity_error =
    InvalidFrontmatter
  | Yaml string
  | UnknownEntityType string
  | ValidationFailed string string
  | ComputeError string string
  | PatchApply string
  | StaleChange string json json

record yaml_lib =
  yl_parse :: "string \<Rightarrow> string + (string \<times> json) list"
  yl_print :: "(string \<Rightarrow> json option) \<Rightarrow> string + string"

definition entity_extension :: "entity_def \<Rightarrow> string" where
  "entity_extension d = (if body_field d \<noteq> None then ''md'' else ''yaml'')"

definition sanitize_id :: "string \<Rightarrow> string" where
  "sanitize_id i =
     (if i = ''..'' \<or> i = ''.'' then ''_invalid_''
      else filter (\<lambda>c. c \<noteq> CHR ''/'' \<and> c \<noteq> CHR 0x5C \<and> c \<noteq> CHR 0x00) i)"

definition entity_file_name :: "string \<Rightarrow> entity_def \<Rightarrow> string" where
  "entity_file_name i d = sanitize_id i @ ''.'' @ entity_extension d"

section \<open>Reading\<close>

definition flatten_into :: "string \<Rightarrow> json \<Rightarrow> entity \<Rightarrow> entity" where
  "flatten_into key v e =
     (case v of
        JObject m \<Rightarrow> fold (\<lambda>(sub, w). set_field (key @ ''_'' @ sub) w) m e
      | _ \<Rightarrow> set_field key v e)"

definition build_entity_from_yaml :: "string \<Rightarrow> string \<Rightarrow> (string \<times> json) list \<Rightarrow> entity" where
  "build_entity_from_yaml ty i m = fold (\<lambda>(k, v). flatten_into k v) m (new_entity ty i)"

definition parse_frontmatter_body :: "yaml_lib \<Rightarrow> string \<Rightarrow> string \<Rightarrow> string \<Rightarrow> string \<Rightarrow> entity_error + entity" where
  "parse_frontmatter_body yl content ty i body_name =
     (case split_frontmatter_body content of
        None \<Rightarrow> Inl InvalidFrontmatter
      | Some (frontmatter, body) \<Rightarrow>
          (case yl_parse yl frontmatter of
             Inl m \<Rightarrow> Inl (Yaml m)
           | Inr m \<Rightarrow> Inr (set_field body_name (JString body) (build_entity_from_yaml ty i m))))"

definition parse_plain_yaml :: "yaml_lib \<Rightarrow> string \<Rightarrow> string \<Rightarrow> string \<Rightarrow> entity_error + entity" where
  "parse_plain_yaml yl content ty i =
     (case yl_parse yl content of Inl m \<Rightarrow> Inl (Yaml m) | Inr m \<Rightarrow> Inr (build_entity_from_yaml ty i m))"

definition parse_entity_text :: "yaml_lib \<Rightarrow> entity_def \<Rightarrow> string \<Rightarrow> string \<Rightarrow> string \<Rightarrow> entity_error + entity" where
  "parse_entity_text yl d txt ty i =
     (if txt = [] then Inr (new_entity ty i)
      else case body_field d of
             Some b \<Rightarrow> parse_frontmatter_body yl txt ty i b
           | None \<Rightarrow> parse_plain_yaml yl txt ty i)"

section \<open>Writing\<close>

definition format_frontmatter_body :: "yaml_lib \<Rightarrow> entity \<Rightarrow> string \<Rightarrow> entity_error + string" where
  "format_frontmatter_body yl e body_name =
     (let body = (case get_str e body_name of Some s \<Rightarrow> s | None \<Rightarrow> [])
      in case yl_print yl ((field_values e)(body_name := None)) of
           Inl m \<Rightarrow> Inl (Yaml m)
         | Inr y \<Rightarrow> Inr (''---'' @ [NL] @ y @ ''---'' @ [NL] @ body))"

definition format_plain_yaml :: "yaml_lib \<Rightarrow> entity \<Rightarrow> entity_error + string" where
  "format_plain_yaml yl e =
     (case yl_print yl (field_values e) of Inl m \<Rightarrow> Inl (Yaml m) | Inr y \<Rightarrow> Inr y)"

definition format_entity :: "yaml_lib \<Rightarrow> entity_def \<Rightarrow> entity \<Rightarrow> entity_error + string" where
  "format_entity yl d e =
     (case body_field d of Some b \<Rightarrow> format_frontmatter_body yl e b | None \<Rightarrow> format_plain_yaml yl e)"

section \<open>Round trip\<close>

definition plain_value :: "json \<Rightarrow> bool" where
  "plain_value v \<longleftrightarrow> (\<forall>m. v \<noteq> JObject m)"

lemma flatten_plain: "plain_value v \<Longrightarrow> flatten_into k v e = set_field k v e"
  by (cases v) (auto simp: flatten_into_def plain_value_def)

lemma build_plain:
  "\<forall>v \<in> set (map snd m). plain_value v \<Longrightarrow> distinct (map fst m)
   \<Longrightarrow> field_values (fold (\<lambda>(k, v). flatten_into k v) m e) = field_values e ++ map_of m
     \<and> entity_id (fold (\<lambda>(k, v). flatten_into k v) m e) = entity_id e
     \<and> entity_type (fold (\<lambda>(k, v). flatten_into k v) m e) = entity_type e
     \<and> location (fold (\<lambda>(k, v). flatten_into k v) m e) = location e"
proof (induction m arbitrary: e)
  case (Cons p m)
  obtain k v where p: "p = (k, v)" by (cases p)
  have m: "map_of m k = None" using Cons.prems p by (simp add: map_of_eq_None_iff)
  have "field_values e ++ map_of ((k, v) # m) = (field_values e)(k \<mapsto> v) ++ map_of m"
    using m by (intro ext) (auto simp: map_add_def split: option.split)
  moreover have "flatten_into k v e = set_field k v e"
    using Cons.prems p by (intro flatten_plain) simp
  ultimately show ?case using Cons.IH [of "set_field k v e"] Cons.prems unfolding p
    by (simp add: fun_upd_def del: map_of.simps)
qed simp

lemma built_fields:
  assumes "\<forall>v \<in> set (map snd m). plain_value v" "distinct (map fst m)"
  shows "build_entity_from_yaml ty i m = \<lparr>entity_type = ty, entity_id = i, field_values = map_of m, location = LiveLocation\<rparr>"
  using build_plain [OF assms, of "new_entity ty i"]
  by (intro entity_eqI) (simp_all add: build_entity_from_yaml_def, simp add: new_entity_def)

lemma plain_values:
  assumes "distinct (map fst kvs)" "\<And>k v. map_of kvs k = Some v \<Longrightarrow> plain_value v"
  shows "\<forall>v \<in> set (map snd kvs). plain_value v"
  using assms by (auto simp: map_of_eq_Some_iff)

text \<open>
  What the code relies on of the YAML library for one mapping: printing it and parsing the print
  gives it back, the print is empty or ends a line, and none of its lines is a delimiter.
\<close>

definition yaml_keeps :: "yaml_lib \<Rightarrow> (string \<Rightarrow> json option) \<Rightarrow> bool" where
  "yaml_keeps yl m \<longleftrightarrow>
     (\<exists>y kvs. yl_print yl m = Inr y \<and> yl_parse yl y = Inr kvs \<and> distinct (map fst kvs) \<and> map_of kvs = m
        \<and> y \<noteq> [] \<and> last y = NL \<and> (\<forall>l \<in> set (split_inclusive y). \<not> is_delimiter_line l))"

text \<open>C27. An entity whose fields hold no nested objects is read back from its text unchanged: a body
  field keeps every byte, whatever delimiter lines it contains.\<close>

theorem entity_text_roundtrip:
  assumes "\<forall>k v. field_values e k = Some v \<longrightarrow> plain_value v" and "location e = LiveLocation"
    and "case body_field d of
           None \<Rightarrow> yaml_keeps yl (field_values e)
         | Some b \<Rightarrow> get_str e b \<noteq> None \<and> yaml_keeps yl ((field_values e)(b := None))"
  shows "\<exists>txt. format_entity yl d e = Inr txt \<and> parse_entity_text yl d txt (entity_type e) (entity_id e) = Inr e"
proof (cases "body_field d")
  case None
  then obtain y kvs where y: "yl_print yl (field_values e) = Inr y" "yl_parse yl y = Inr kvs" "distinct (map fst kvs)"
    "map_of kvs = field_values e" "y \<noteq> []" using assms(3) by (auto simp: yaml_keeps_def)
  then have "\<forall>v \<in> set (map snd kvs). plain_value v"
    using assms(1) plain_values [OF y(3)] by simp
  then show ?thesis
    using None y assms(2)
    by (simp add: format_entity_def format_plain_yaml_def parse_entity_text_def parse_plain_yaml_def built_fields)
next
  case (Some b)
  then obtain y kvs where y: "yl_print yl ((field_values e)(b := None)) = Inr y" "yl_parse yl y = Inr kvs"
    "distinct (map fst kvs)" "map_of kvs = (field_values e)(b := None)" "last y = NL"
    "\<forall>l \<in> set (split_inclusive y). \<not> is_delimiter_line l" using assms(3) by (auto simp: yaml_keeps_def)
  obtain body where body: "field_values e b = Some (JString body)"
    using assms(3) Some by (auto simp: get_str_def bind_eq_Some_conv elim: json_str.elims)
  have plain: "\<forall>v \<in> set (map snd kvs). plain_value v"
    by (rule plain_values [OF y(3)]) (use assms(1) y(4) in \<open>auto split: if_splits\<close>)
  let ?txt = "''---'' @ [NL] @ y @ ''---'' @ [NL] @ body"
  have "split_inclusive ?txt = (''---'' @ [NL]) # split_inclusive (y @ ''---'' @ [NL] @ body)"
    using split_inclusive_nl [of "''---''" "y @ ''---'' @ [NL] @ body"] by simp
  moreover have "split_inclusive (y @ ''---'' @ [NL] @ body) = split_inclusive y @ (''---'' @ [NL]) # split_inclusive body"
    using split_inclusive_append [of y "''---'' @ [NL] @ body"] split_inclusive_nl [of "''---''" body] y(5) by simp
  moreover have "is_delimiter_line (''---'' @ [NL])"
    by (simp add: is_delimiter_line_def line_content_def strip_suffix_char_def)
  ultimately have "split_frontmatter_body ?txt = Some (y, body)"
    using find_closing_skip [OF y(6)] by (simp add: split_frontmatter_body_def)
  moreover have "(field_values e)(b := None, b \<mapsto> JString body) = field_values e" using body by auto
  ultimately show ?thesis
    using Some y body assms(2) plain
    by (simp add: format_entity_def format_frontmatter_body_def parse_entity_text_def parse_frontmatter_body_def
        built_fields get_str_def set_field_def)
qed

definition sample_yaml :: yaml_lib where
  "sample_yaml =
     \<lparr>yl_parse = (\<lambda>s. Inr [(''title'', JString ''x'')]), yl_print = (\<lambda>m. Inr (''title: x'' @ [NL]))\<rparr>"

definition sample_entity :: entity where
  "sample_entity =
     set_field ''body'' (JString (''a'' @ [NL] @ ''---'' @ [NL]))
       (set_field ''title'' (JString ''x'') (new_entity ''task'' ''1''))"

theorem entity_text_roundtrip_witness:
  "\<exists>txt. format_entity sample_yaml \<lparr>body_field = Some ''body''\<rparr> sample_entity = Inr txt
     \<and> parse_entity_text sample_yaml \<lparr>body_field = Some ''body''\<rparr> txt ''task'' ''1'' = Inr sample_entity"
proof -
  have "yaml_keeps sample_yaml ((field_values sample_entity)(''body'' := None))"
    by (auto simp: yaml_keeps_def sample_yaml_def sample_entity_def is_delimiter_line_def line_content_def
        strip_suffix_char_def)
  moreover have "\<forall>k v. field_values sample_entity k = Some v \<longrightarrow> plain_value v"
    by (simp add: sample_entity_def plain_value_def)
  moreover have "location sample_entity = LiveLocation" by (simp add: sample_entity_def) (simp add: new_entity_def)
  moreover have "get_str sample_entity ''body'' \<noteq> None" by (simp add: sample_entity_def)
  ultimately show ?thesis
    using entity_text_roundtrip [of sample_entity sample_yaml "\<lparr>body_field = Some ''body''\<rparr>"]
    by (simp add: sample_entity_def)
qed

text \<open>A nested object does not survive: its entries come back as fields of their own.\<close>

lemma nested_object_flattened:
  "field_values (build_entity_from_yaml ''task'' ''1'' [(''due'', JObject [(''by'', JString ''x'')])])
     = [''due_by'' \<mapsto> JString ''x'']"
  by (simp add: build_entity_from_yaml_def flatten_into_def)

end
