(* ===== verification/Entity_Changelog.thy ===== *)
theory Entity_Changelog
  imports Entity_Io Store_Handle
begin

text \<open>
  The field-level history of an entity: \<open>swissarmyhammer-entity/src/changelog.rs\<close>. Differences of two
  entities, their inversion and application, and the replay of the text patches that the store logs.
  \<open>text_patches\<close> is the patch library \<open>diffy\<close>; \<open>iter\<close> is the order in which a \<open>HashMap\<close> iterates.
\<close>

section \<open>Changes of fields\<close>

datatype entity_field_change =
    Set json
  | Removed json
  | Changed json json
  | TextDiff string string

type_synonym changes = "(string \<times> entity_field_change) list"
type_synonym map_order = "(string \<Rightarrow> json option) \<Rightarrow> (string \<times> json) list"

record 'p text_patches =
  tp_create :: "string \<Rightarrow> string \<Rightarrow> string"
  tp_parse :: "string \<Rightarrow> string + 'p"
  tp_apply :: "string \<Rightarrow> 'p \<Rightarrow> string + string"

text \<open>The change of one field of the new entity, and the removal of one of the old.\<close>

definition field_diff :: "'p text_patches \<Rightarrow> entity \<Rightarrow> string \<times> json \<Rightarrow> (string \<times> entity_field_change) option" where
  "field_diff tp old kv =
     (case kv of (key, new_val) \<Rightarrow>
        (case get_field old key of
           Some old_val \<Rightarrow>
             (if old_val = new_val then None
              else case (json_str old_val, json_str new_val) of
                     (Some old_str, Some new_str) \<Rightarrow>
                       Some (key, TextDiff (tp_create tp old_str new_str) (tp_create tp new_str old_str))
                   | _ \<Rightarrow> Some (key, Changed old_val new_val))
         | None \<Rightarrow> Some (key, Set new_val)))"

definition field_removed :: "entity \<Rightarrow> string \<times> json \<Rightarrow> (string \<times> entity_field_change) option" where
  "field_removed new kv =
     (case kv of (key, old_val) \<Rightarrow> (if get_field new key = None then Some (key, Removed old_val) else None))"

definition diff_entities :: "'p text_patches \<Rightarrow> map_order \<Rightarrow> entity \<Rightarrow> entity \<Rightarrow> changes" where
  "diff_entities tp iter old new =
     sort_key fst
       (List.map_filter (field_diff tp old) (iter (field_values new))
        @ List.map_filter (field_removed new) (iter (field_values old)))"

fun reverse_change :: "entity_field_change \<Rightarrow> entity_field_change" where
  "reverse_change (Set v) = Removed v"
| "reverse_change (Removed v) = Set v"
| "reverse_change (Changed a b) = Changed b a"
| "reverse_change (TextDiff f r) = TextDiff r f"

definition reverse_changes :: "changes \<Rightarrow> changes" where
  "reverse_changes cs = map (\<lambda>(key, c). (key, reverse_change c)) cs"

definition apply_one :: "'p text_patches \<Rightarrow> string \<times> entity_field_change \<Rightarrow> (entity, entity_error, unit) action" where
  "apply_one tp kc e =
     (case kc of (key, c) \<Rightarrow>
        (case c of
           Set v \<Rightarrow> (Inr (), set_field key v e)
         | Removed v \<Rightarrow> (Inr (), remove_field key e)
         | Changed old_value new_value \<Rightarrow>
             (case get_field e key of
                Some current \<Rightarrow>
                  (if current \<noteq> old_value then (Inl (StaleChange key old_value current), e)
                   else (Inr (), set_field key new_value e))
              | None \<Rightarrow> (Inr (), set_field key new_value e))
         | TextDiff forward_patch r \<Rightarrow>
             (let current = (case get_str e key of Some s \<Rightarrow> s | None \<Rightarrow> [])
              in case tp_parse tp forward_patch of
                   Inl m \<Rightarrow> (Inl (PatchApply (''failed to parse patch for field '' @ [CHR 0x27] @ key @ [CHR 0x27] @ '': '' @ m)), e)
                 | Inr p \<Rightarrow>
                     (case tp_apply tp current p of
                        Inl m \<Rightarrow> (Inl (PatchApply (''failed to apply patch to field '' @ [CHR 0x27] @ key @ [CHR 0x27] @ '': '' @ m)), e)
                      | Inr r \<Rightarrow> (Inr (), set_field key (JString r) e)))))"

text \<open>An error leaves the changes before it applied.\<close>

fun apply_changes :: "'p text_patches \<Rightarrow> changes \<Rightarrow> (entity, entity_error, unit) action" where
  "apply_changes tp [] e = (Inr (), e)"
| "apply_changes tp (kc # cs) e =
     (case apply_one tp kc e of (Inl err, e') \<Rightarrow> (Inl err, e') | (Inr u, e') \<Rightarrow> apply_changes tp cs e')"

section \<open>Inversion\<close>

definition patches_ok :: "'p text_patches \<Rightarrow> bool" where
  "patches_ok tp \<longleftrightarrow> (\<forall>a b. \<exists>p. tp_parse tp (tp_create tp a b) = Inr p \<and> tp_apply tp a p = Inr b)"

definition order_ok :: "map_order \<Rightarrow> bool" where
  "order_ok iter \<longleftrightarrow> (\<forall>m. finite (dom m) \<longrightarrow> distinct (map fst (iter m)) \<and> map_of (iter m) = m)"

lemma order_okD:
  "order_ok iter \<Longrightarrow> finite (dom m) \<Longrightarrow> (k, v) \<in> set (iter m) \<longleftrightarrow> m k = Some v"
  by (metis map_of_eq_Some_iff order_ok_def)

text \<open>A change is a correct difference of a field when it leads from the old to the new value, whatever
  the other fields are.\<close>

definition leads :: "'p text_patches \<Rightarrow> string \<times> entity_field_change \<Rightarrow> json option \<Rightarrow> json option \<Rightarrow> bool" where
  "leads tp kc a b \<longleftrightarrow>
     (\<forall>e. get_field e (fst kc) = a \<longrightarrow>
        apply_one tp kc e = (Inr (), e\<lparr>field_values := (field_values e)(fst kc := b)\<rparr>))"

lemma map_upd_same: "m k = a \<Longrightarrow> m(k := a) = m"
  by auto

lemma apply_changes_leads:
  assumes "distinct (map fst cs)"
    and "\<And>k c. (k, c) \<in> set cs \<Longrightarrow> leads tp (k, c) (field_values e k) (m k)"
    and "\<And>k. k \<notin> fst ` set cs \<Longrightarrow> m k = field_values e k"
  shows "apply_changes tp cs e = (Inr (), e\<lparr>field_values := m\<rparr>)"
  using assms
proof (induction cs arbitrary: e)
  case Nil
  then have "m = field_values e" by auto
  then show ?case by simp
next
  case (Cons kc cs)
  obtain k c where kc: "kc = (k, c)" by (cases kc)
  let ?e = "e\<lparr>field_values := (field_values e)(k := m k)\<rparr>"
  have "apply_one tp (k, c) e = (Inr (), ?e)"
    using Cons.prems(2) [of k c] kc by (simp add: leads_def get_field_def)
  moreover have "apply_changes tp cs ?e = (Inr (), ?e\<lparr>field_values := m\<rparr>)"
  proof (rule Cons.IH)
    fix k' c' assume kc': "(k', c') \<in> set cs"
    then have "k' \<noteq> k" using Cons.prems(1) kc by force
    then show "leads tp (k', c') (field_values ?e k') (m k')" using Cons.prems(2) kc' by simp
  next
    fix k' assume "k' \<notin> fst ` set cs"
    then show "m k' = field_values ?e k'" using Cons.prems(3) kc by auto
  qed (use Cons.prems(1) in simp)
  ultimately show ?case by (simp add: kc)
qed

lemma leads_text:
  assumes "patches_ok tp"
  shows "leads tp (k, TextDiff (tp_create tp a b) r) (Some (JString a)) (Some (JString b))"
proof -
  obtain p where "tp_parse tp (tp_create tp a b) = Inr p" "tp_apply tp a p = Inr b"
    using assms by (auto simp: patches_ok_def)
  then show ?thesis by (auto simp: leads_def apply_one_def get_field_def get_str_def set_field_def)
qed

lemma leads_other:
  "leads tp (k, Set v) a (Some v)" "leads tp (k, Removed v) a None"
  "leads tp (k, Changed v w) (Some v) (Some w)"
  by (auto simp: leads_def apply_one_def get_field_def set_field_def remove_field_def)

text \<open>What the difference says of each field.\<close>

definition change_of :: "'p text_patches \<Rightarrow> json option \<Rightarrow> json option \<Rightarrow> entity_field_change option" where
  "change_of tp a b =
     (case (a, b) of
        (None, None) \<Rightarrow> None
      | (Some v, None) \<Rightarrow> Some (Removed v)
      | (None, Some w) \<Rightarrow> Some (Set w)
      | (Some v, Some w) \<Rightarrow>
          (if v = w then None
           else case (json_str v, json_str w) of
                  (Some s, Some t) \<Rightarrow> Some (TextDiff (tp_create tp s t) (tp_create tp t s))
                | _ \<Rightarrow> Some (Changed v w)))"

lemma json_str_Some: "json_str v = Some s \<longleftrightarrow> v = JString s"
  by (cases v) auto

lemma change_of_leads:
  assumes "patches_ok tp" "change_of tp a b = Some c"
  shows "leads tp (k, c) a b" "leads tp (k, reverse_change c) b a"
  using assms(2) leads_text [OF assms(1)] leads_other
  by (auto simp: change_of_def json_str_Some split: option.splits if_splits)

lemma field_diff_Some:
  "field_diff tp old (k', w) = Some (k, c) \<longleftrightarrow> k' = k \<and> change_of tp (field_values old k') (Some w) = Some c"
  by (auto simp: field_diff_def change_of_def get_field_def split: option.splits if_splits)

lemma field_removed_Some:
  "field_removed new (k', v) = Some (k, c) \<longleftrightarrow> k' = k \<and> field_values new k' = None \<and> c = Removed v"
  by (auto simp: field_removed_def get_field_def)

lemma set_map_filter: "x \<in> set (List.map_filter f xs) \<longleftrightarrow> (\<exists>y \<in> set xs. f y = Some x)"
  by (force simp: map_filter_def)

lemma diff_entities_set:
  assumes "order_ok iter" "finite (dom (field_values old))" "finite (dom (field_values new))"
  shows "(k, c) \<in> set (diff_entities tp iter old new) \<longleftrightarrow> change_of tp (field_values old k) (field_values new k) = Some c"
proof -
  have "(k, c) \<in> set (diff_entities tp iter old new)
      \<longleftrightarrow> (\<exists>w. field_values new k = Some w \<and> change_of tp (field_values old k) (Some w) = Some c)
        \<or> (\<exists>v. field_values old k = Some v \<and> field_values new k = None \<and> c = Removed v)"
    using order_okD [OF assms(1,2)] order_okD [OF assms(1,3)]
    by (auto simp: diff_entities_def set_map_filter Bex_def field_diff_Some field_removed_Some)
  then show ?thesis by (cases "field_values new k"; cases "field_values old k") (auto simp: change_of_def)
qed

lemma map_fst_map_filter:
  assumes "\<And>kv c. f kv = Some c \<Longrightarrow> fst c = fst kv"
  shows "map fst (List.map_filter f xs) = map fst (filter (\<lambda>x. f x \<noteq> None) xs)"
proof (induction xs)
  case (Cons kv xs)
  then show ?case using assms by (cases "f kv") (simp_all add: map_filter_simps)
qed (simp add: map_filter_simps)

lemma distinct_sort_fst: "distinct (map fst (sort_key f xs)) \<longleftrightarrow> distinct (map fst xs)"
  by (simp add: distinct_map)

lemma diff_entities_distinct:
  assumes "order_ok iter" "finite (dom (field_values old))" "finite (dom (field_values new))"
  shows "distinct (map fst (diff_entities tp iter old new))"
proof -
  let ?a = "List.map_filter (field_diff tp old) (iter (field_values new))"
    and ?b = "List.map_filter (field_removed new) (iter (field_values old))"
  have a: "map fst ?a = map fst (filter (\<lambda>x. field_diff tp old x \<noteq> None) (iter (field_values new)))"
    by (rule map_fst_map_filter) (auto simp: field_diff_Some)
  have b: "map fst ?b = map fst (filter (\<lambda>x. field_removed new x \<noteq> None) (iter (field_values old)))"
    by (rule map_fst_map_filter) (auto simp: field_removed_Some)
  have "distinct (map fst ?a)" "distinct (map fst ?b)"
    using assms unfolding a b by (auto simp: order_ok_def intro: distinct_map_filter)
  moreover have "k \<notin> fst ` set ?b" if "k \<in> fst ` set ?a" for k
    using that order_okD [OF assms(1,3)]
    by (auto simp: set_map_filter Bex_def field_diff_Some field_removed_Some)
  ultimately have "distinct (map fst (?a @ ?b))" by (auto simp del: map_map)
  then show ?thesis unfolding diff_entities_def distinct_sort_fst .
qed

text \<open>Both directions, from what the difference says of each field.\<close>

lemma diff_leads_both:
  assumes "patches_ok tp" "order_ok iter" "finite (dom (field_values old))" "finite (dom (field_values new))"
  shows "apply_changes tp (diff_entities tp iter old new) old = (Inr (), old\<lparr>field_values := field_values new\<rparr>)"
    and "apply_changes tp (reverse_changes (diff_entities tp iter old new)) new
      = (Inr (), new\<lparr>field_values := field_values old\<rparr>)"
proof -
  let ?d = "diff_entities tp iter old new"
  have set_d: "(k, c) \<in> set ?d \<longleftrightarrow> change_of tp (field_values old k) (field_values new k) = Some c" for k c
    by (rule diff_entities_set [OF assms(2-4)])
  have same: "field_values new k = field_values old k" if "k \<notin> fst ` set ?d" for k
  proof -
    have "change_of tp (field_values old k) (field_values new k) = None"
      using that set_d [of k] by (cases "change_of tp (field_values old k) (field_values new k)") force+
    then show ?thesis by (auto simp: change_of_def split: option.splits if_splits)
  qed
  have distinct_d: "distinct (map fst ?d)" by (rule diff_entities_distinct [OF assms(2-4)])
  show "apply_changes tp ?d old = (Inr (), old\<lparr>field_values := field_values new\<rparr>)"
    using set_d same change_of_leads(1) [OF assms(1)] by (intro apply_changes_leads distinct_d) auto
  show "apply_changes tp (reverse_changes ?d) new = (Inr (), new\<lparr>field_values := field_values old\<rparr>)"
  proof (rule apply_changes_leads)
    have "map fst (reverse_changes ?d) = map fst ?d" by (simp add: reverse_changes_def case_prod_beta)
    then show "distinct (map fst (reverse_changes ?d))" using distinct_d by simp
    have "fst ` set (reverse_changes ?d) = fst ` set ?d" by (force simp: reverse_changes_def)
    then show "field_values old k = field_values new k" if "k \<notin> fst ` set (reverse_changes ?d)" for k
      using that same by simp
    show "leads tp (k, c) (field_values new k) (field_values old k)" if "(k, c) \<in> set (reverse_changes ?d)" for k c
      using that set_d change_of_leads(2) [OF assms(1)] by (auto simp: reverse_changes_def)
  qed
qed

lemma diff_applies:
  assumes "patches_ok tp" "order_ok iter" "finite (dom (field_values old))" "finite (dom (field_values new))"
    and "entity_type new = entity_type old" "entity_id new = entity_id old" "location new = location old"
  shows "apply_changes tp (diff_entities tp iter old new) old = (Inr (), new)"
    "apply_changes tp (reverse_changes (diff_entities tp iter old new)) new = (Inr (), old)"
  using diff_leads_both [OF assms(1-4)] assms(5-7) by (auto intro: entity_eqI)

text \<open>C28. Applying the differences of two entities to the first gives the second, and applying the
  reversed differences to the second gives the first back.\<close>

theorem changes_roundtrip:
  assumes "patches_ok tp" "order_ok iter" "finite (dom (field_values old))" "finite (dom (field_values new))"
    and "entity_type new = entity_type old" "entity_id new = entity_id old" "location new = location old"
  shows "apply_changes tp (diff_entities tp iter old new) old = (Inr (), new)
    \<and> apply_changes tp (reverse_changes (diff_entities tp iter old new)) new = (Inr (), old)"
  using diff_applies [OF assms] by blast

definition sorted_order :: map_order where
  "sorted_order m = map (\<lambda>k. (k, the (m k))) (sorted_list_of_set (dom m))"

lemma sorted_order_ok: "order_ok sorted_order"
proof -
  have "map_of (sorted_order m) = m" if "finite (dom m)" for m
  proof
    fix k
    have "map_of (map (\<lambda>k. (k, the (m k))) ks) k = (if k \<in> set ks then Some (the (m k)) else None)" for ks
      by (induction ks) auto
    then show "map_of (sorted_order m) k = m k" using that by (cases "m k") (auto simp: sorted_order_def)
  qed
  then show ?thesis by (simp add: order_ok_def sorted_order_def comp_def)
qed

definition plain_patches :: "string text_patches" where
  "plain_patches = \<lparr>tp_create = (\<lambda>a b. b), tp_parse = Inr, tp_apply = (\<lambda>a p. Inr p)\<rparr>"

theorem changes_roundtrip_witness:
  "apply_changes plain_patches (diff_entities plain_patches sorted_order (new_entity ''task'' ''1'') sample_entity)
     (new_entity ''task'' ''1'') = (Inr (), sample_entity)"
proof -
  have "patches_ok plain_patches" by (simp add: patches_ok_def plain_patches_def)
  moreover have "finite (dom (field_values sample_entity))" by (simp add: sample_entity_def)
  ultimately show ?thesis
    using changes_roundtrip [OF _ sorted_order_ok, of plain_patches "new_entity ''task'' ''1''" sample_entity]
    by (simp add: sample_entity_def)
qed

section \<open>Replaying the log of the store\<close>

record change_entry =
  che_id :: string
  che_timestamp :: nat
  che_entity_type :: string
  che_entity_id :: string
  che_op :: string
  che_actor :: "string option"
  che_changes :: changes
  che_undone_id :: "string option"
  che_redone_id :: "string option"
  che_transaction_id :: "string option"

fun store_op_to_string :: "change_op \<Rightarrow> string" where
  "store_op_to_string Create = ''create''"
| "store_op_to_string Update = ''update''"
| "store_op_to_string Delete = ''delete''"
| "store_op_to_string Archive = ''archive''"
| "store_op_to_string Unarchive = ''unarchive''"

text \<open>What a replay needs: the libraries and the entity's type with its definition.\<close>

record ('item, 'p) replay_env =
  rv_store :: "'item store_env"
  rv_yaml :: yaml_lib
  rv_patches :: "'p text_patches"
  rv_iter :: map_order
  rv_type :: string
  rv_def :: entity_def

text \<open>The message of the one error that applying a patch has.\<close>

definition patch_error_text :: "store_error \<Rightarrow> string" where
  "patch_error_text err = (case err of PatchFailed m \<Rightarrow> ''patch failed: '' @ m | _ \<Rightarrow> [])"

definition replay_one_store_entry ::
  "('item, 'p) replay_env \<Rightarrow> changelog_entry \<Rightarrow> string \<Rightarrow> entity_error + change_entry \<times> string" where
  "replay_one_store_entry rv se cursor =
     (case parse_entity_text (rv_yaml rv) (rv_def rv) cursor (rv_type rv) (ce_item_id se) of
        Inl err \<Rightarrow> Inl err
      | Inr before \<Rightarrow>
          (case apply_patch (rv_store rv) cursor (ce_forward_patch se) of
             Inl err \<Rightarrow> Inl (PatchApply (''failed to apply store-format patch for '' @ rv_type rv @ ''/''
                          @ ce_item_id se @ '': '' @ patch_error_text err))
           | Inr new_text \<Rightarrow>
               (case parse_entity_text (rv_yaml rv) (rv_def rv) new_text (rv_type rv) (ce_item_id se) of
                  Inl err \<Rightarrow> Inl err
                | Inr after_entity \<Rightarrow>
                    Inr (\<lparr>che_id = ce_id se, che_timestamp = ce_timestamp se, che_entity_type = rv_type rv,
                          che_entity_id = ce_item_id se, che_op = store_op_to_string (ce_op se),
                          che_actor = None,
                          che_changes =
                            diff_entities (rv_patches rv) (rv_iter rv)
                              (if ce_op se = Create then new_entity (rv_type rv) (ce_item_id se) else before)
                              after_entity,
                          che_undone_id = None, che_redone_id = None,
                          che_transaction_id = ce_transaction_id se\<rparr>, new_text))))"

fun replay_store_log ::
  "('item, 'p) replay_env \<Rightarrow> string \<Rightarrow> changelog_entry list \<Rightarrow> entity_error + change_entry list" where
  "replay_store_log rv cursor [] = Inr []"
| "replay_store_log rv cursor (se # ses) =
     (case replay_one_store_entry rv se cursor of
        Inl err \<Rightarrow> Inl err
      | Inr (entry, next_cursor) \<Rightarrow>
          (case replay_store_log rv next_cursor ses of Inl err \<Rightarrow> Inl err | Inr out \<Rightarrow> Inr (entry # out)))"

text \<open>The reader: lines of the older format, lines of the store, blank and malformed ones.\<close>

fun partition_lines ::
  "(string \<Rightarrow> change_entry option) \<Rightarrow> (string \<Rightarrow> changelog_entry option) \<Rightarrow> string list
     \<Rightarrow> change_entry list \<times> changelog_entry list" where
  "partition_lines of_entity of_store [] = ([], [])"
| "partition_lines of_entity of_store (l # ls) =
     (case partition_lines of_entity of_store ls of (es, ss) \<Rightarrow>
        if trim l = [] then (es, ss)
        else case of_entity l of
               Some e \<Rightarrow> (e # es, ss)
             | None \<Rightarrow> (case of_store l of Some s \<Rightarrow> (es, s # ss) | None \<Rightarrow> (es, ss)))"

text \<open>The older reader passes over the lines of the store.\<close>

definition read_changelog :: "(string \<Rightarrow> change_entry option) \<Rightarrow> (string \<Rightarrow> changelog_entry option) \<Rightarrow> path \<Rightarrow> files \<Rightarrow> change_entry list" where
  "read_changelog of_entity of_store p fs =
     (case fs p of None \<Rightarrow> [] | Some content \<Rightarrow> fst (partition_lines of_entity of_store (str_lines content)))"

definition read_changelog_for ::
  "('item, 'p) replay_env \<Rightarrow> (string \<Rightarrow> change_entry option) \<Rightarrow> path \<Rightarrow> files \<Rightarrow> entity_error + change_entry list" where
  "read_changelog_for rv of_entity p fs =
     (case fs p of
        None \<Rightarrow> Inr []
      | Some content \<Rightarrow>
          (case partition_lines of_entity (se_of_json (rv_store rv)) (str_lines content) of (es, ss) \<Rightarrow>
             (case replay_store_log rv [] ss of
                Inl err \<Rightarrow> Inl err
              | Inr out \<Rightarrow> Inr (sort_key che_timestamp (out @ es)))))"

definition read_changelog_with_fallback ::
  "('item, 'p) replay_env \<Rightarrow> (string \<Rightarrow> change_entry option) \<Rightarrow> path \<Rightarrow> path \<Rightarrow> files \<Rightarrow> entity_error + change_entry list" where
  "read_changelog_with_fallback rv of_entity primary fallback fs =
     (case read_changelog_for rv of_entity primary fs of
        Inl err \<Rightarrow> Inl err
      | Inr es \<Rightarrow>
          if es = [] \<and> fs primary = None then read_changelog_for rv of_entity fallback fs else Inr es)"

end
