(* ===== verification/Entity_History.thy ===== *)
theory Entity_History
  imports Entity_Changelog Store_Example
begin

text \<open>
  The history that the entity layer reads is the log that the store writes. As long as the item is
  only written, replaying the log rebuilds the entity field by field. An undo changes the file and
  leaves the log alone, so the next write is logged against a text the replay never sees.
\<close>

section \<open>Logs that chain\<close>

text \<open>Each entry leads from the text the previous one leads to; \<open>P\<close> holds of every text on the way.\<close>

fun chained :: "'item store_env \<Rightarrow> stored_item_id \<Rightarrow> (string \<Rightarrow> bool) \<Rightarrow> string \<Rightarrow> changelog_entry list \<Rightarrow> string \<Rightarrow> bool" where
  "chained env i P t [] u = (u = t)"
| "chained env i P t (e # es) u =
     (\<exists>v. ce_item_id e = i \<and> ce_forward_patch e = se_create_patch env t v \<and> (ce_op e = Create \<longrightarrow> t = [])
        \<and> P v \<and> chained env i P v es u)"

lemma chained_snoc:
  "chained env i P t (es @ [e]) u \<longleftrightarrow>
     (\<exists>v. chained env i P t es v \<and> ce_item_id e = i \<and> ce_forward_patch e = se_create_patch env v u
        \<and> (ce_op e = Create \<longrightarrow> v = []) \<and> P u)"
  by (induction es arbitrary: t) auto

text \<open>A text that parses into an entity of the type and id.\<close>

definition parses :: "('item, 'p) replay_env \<Rightarrow> stored_item_id \<Rightarrow> string \<Rightarrow> entity \<Rightarrow> bool" where
  "parses rv i t x \<longleftrightarrow>
     parse_entity_text (rv_yaml rv) (rv_def rv) t (rv_type rv) i = Inr x \<and> finite (dom (field_values x))
     \<and> entity_type x = rv_type rv \<and> entity_id x = i \<and> location x = LiveLocation"

lemma parses_empty [simp]: "parses rv i [] x \<longleftrightarrow> x = new_entity (rv_type rv) i"
  by (auto simp: parses_def parse_entity_text_def) (simp_all add: new_entity_def)

fun apply_history :: "'p text_patches \<Rightarrow> change_entry list \<Rightarrow> (entity, entity_error, unit) action" where
  "apply_history tp [] e = (Inr (), e)"
| "apply_history tp (c # cs) e =
     (case apply_changes tp (che_changes c) e of (Inl err, e') \<Rightarrow> (Inl err, e') | (Inr u, e') \<Rightarrow> apply_history tp cs e')"

definition replay_ok :: "('item, 'p) replay_env \<Rightarrow> bool" where
  "replay_ok rv \<longleftrightarrow> env_ok (rv_store rv) \<and> patches_ok (rv_patches rv) \<and> order_ok (rv_iter rv)"

lemma replay_step:
  assumes "replay_ok rv" "parses rv i t x" "parses rv i v y" "ce_item_id e = i"
    and "ce_forward_patch e = se_create_patch (rv_store rv) t v" "ce_op e = Create \<longrightarrow> t = []"
  shows "\<exists>c. replay_one_store_entry rv e t = Inr (c, v) \<and> che_timestamp c = ce_timestamp e
     \<and> apply_changes (rv_patches rv) (che_changes c) x = (Inr (), y)"
proof -
  have "apply_patch (rv_store rv) t (ce_forward_patch e) = Inr v"
    using assms(1,5) by (simp add: replay_ok_def env_okD(1))
  moreover have "ce_op e = Create \<Longrightarrow> new_entity (rv_type rv) i = x"
    using assms(2,6) by auto
  moreover have "apply_changes (rv_patches rv) (diff_entities (rv_patches rv) (rv_iter rv) x y) x = (Inr (), y)"
    using assms(1-3) by (intro diff_applies(1)) (simp_all add: replay_ok_def parses_def)
  ultimately show ?thesis
    using assms(2-4) by (simp add: replay_one_store_entry_def parses_def)
qed

lemma replay_chained:
  assumes "replay_ok rv" "chained (rv_store rv) i (\<lambda>v. \<exists>x. parses rv i v x) t es u" "parses rv i t x"
  shows "\<exists>out y. replay_store_log rv t es = Inr out \<and> map che_timestamp out = map ce_timestamp es
     \<and> parses rv i u y \<and> apply_history (rv_patches rv) out x = (Inr (), y)"
  using assms(2,3)
proof (induction es arbitrary: t x)
  case (Cons e es)
  then obtain v y where v: "ce_item_id e = i" "ce_forward_patch e = se_create_patch (rv_store rv) t v"
    "ce_op e = Create \<longrightarrow> t = []" "parses rv i v y" "chained (rv_store rv) i (\<lambda>v. \<exists>x. parses rv i v x) v es u"
    by auto
  obtain c where c: "replay_one_store_entry rv e t = Inr (c, v)" "che_timestamp c = ce_timestamp e"
    "apply_changes (rv_patches rv) (che_changes c) x = (Inr (), y)"
    using replay_step [OF assms(1) Cons.prems(2) v(4,1-3)] by blast
  from Cons.IH [OF v(5,4)] c show ?case by force
qed auto

section \<open>Reading the log of the store\<close>

definition log_is :: "'item store_env \<Rightarrow> path \<Rightarrow> changelog_entry list \<Rightarrow> files \<Rightarrow> bool" where
  "log_is env p es fs \<longleftrightarrow>
     (case fs p of None \<Rightarrow> es = [] | Some c \<Rightarrow> c = concat (map (\<lambda>e. se_to_json env e @ [NL]) es))"

lemma str_lines_printed:
  "codec_ok tj oj \<Longrightarrow> str_lines (concat (map (\<lambda>e. tj e @ [NL]) es)) = map tj es"
proof (induction es)
  case (Cons e es)
  then have "NL \<notin> set (tj e)" "CR \<notin> set (tj e)" by (auto simp: codec_ok_def)
  then show ?case
    using Cons str_lines_line [of "tj e" "concat (map (\<lambda>e. tj e @ [NL]) es)"] by (simp add: strip_cr_id)
qed simp

lemma partition_printed:
  "codec_ok tj oj \<Longrightarrow> \<forall>e. of_entity (tj e) = None \<Longrightarrow> partition_lines of_entity oj (map tj es) = ([], es)"
  by (induction es) (auto simp: codec_ok_def)

lemma read_log:
  assumes "env_ok (rv_store rv)" "\<forall>e. of_entity (se_to_json (rv_store rv) e) = None" "log_is (rv_store rv) p es fs"
  shows "read_changelog_for rv of_entity p fs
     = (case replay_store_log rv [] es of Inl err \<Rightarrow> Inl err | Inr out \<Rightarrow> Inr (sort_key che_timestamp out))"
proof -
  note codec = env_okD(2) [OF assms(1)]
  show ?thesis
    using assms(3) str_lines_printed [OF codec] partition_printed [OF codec assms(2)]
    by (auto simp: read_changelog_for_def log_is_def split: option.splits sum.split)
qed

lemma write_log:
  assumes "handle_write env k now item h = (r, h')" "se_serialize env item = Inr new" "se_item_id env item = i"
    and "env_ok env" "log_is env (log_path i) es (hfiles h)"
  shows "hfiles h' (item_path env i) = Some new
    \<and> (if hfiles h (item_path env i) = Some new then h' = h
       else log_is env (log_path i)
              (es @ [mk_entry env k now (if hfiles h (item_path env i) = None then Create else Update) i
                 (case hfiles h (item_path env i) of None \<Rightarrow> [] | Some t \<Rightarrow> t) new]) (hfiles h'))"
proof -
  have "log_path i \<noteq> item_path env i"
    using env_okD(4) [OF assms(4)] by (simp add: log_path_def item_path_def)
  then show ?thesis
    using assms(1-3,5)
    by (cases "hfiles h (item_path env i)"; cases "hfiles h (item_path env i) = Some new")
      (auto simp: handle_write_def Let_def and_then_def read_text_def on_files_def append_entry_def
        atomic_write_def push_event_def log_is_def split: option.splits)
qed

section \<open>Writes only\<close>

text \<open>A list of writes of one item, each with its entry id and its time.\<close>

fun write_all :: "'item store_env \<Rightarrow> (undo_entry_id \<times> nat \<times> 'item) list \<Rightarrow> handle \<Rightarrow> handle" where
  "write_all env [] h = h"
| "write_all env ((k, now, item) # ws) h = write_all env ws (snd (handle_write env k now item h))"

definition current_text :: "'item store_env \<Rightarrow> stored_item_id \<Rightarrow> handle \<Rightarrow> string" where
  "current_text env i h = (case hfiles h (item_path env i) of None \<Rightarrow> [] | Some t \<Rightarrow> t)"

lemma write_all_chained:
  assumes "env_ok env"
    and "\<forall>(k, now, item) \<in> set ws. se_item_id env item = i \<and> (\<exists>t. se_serialize env item = Inr t \<and> P t)"
    and "sorted (map ce_timestamp es @ map (\<lambda>(k, now, item). now) ws)"
    and "log_is env (log_path i) es (hfiles h)" "chained env i P [] es (current_text env i h)"
  shows "\<exists>es'. log_is env (log_path i) es' (hfiles (write_all env ws h))
     \<and> chained env i P [] es' (current_text env i (write_all env ws h)) \<and> sorted (map ce_timestamp es')"
  using assms(2-5)
proof (induction ws arbitrary: es h)
  case Nil
  then show ?case by auto
next
  case (Cons w ws)
  obtain k now item where w: "w = (k, now, item)" by (cases w)
  obtain new where new: "se_serialize env item = Inr new" "P new" "se_item_id env item = i"
    using Cons.prems(1) w by auto
  obtain r h' where h': "handle_write env k now item h = (r, h')" by (cases "handle_write env k now item h")
  note wl = write_log [OF h' new(1,3) assms(1) Cons.prems(3)]
  show ?case
  proof (cases "hfiles h (item_path env i) = Some new")
    case True
    then have "h' = h" using wl by simp
    moreover have "sorted (map ce_timestamp es @ map (\<lambda>(k, now, item). now) ws)"
      using Cons.prems(2) by (simp add: w sorted_append)
    ultimately show ?thesis using Cons.IH [of es h] Cons.prems h' by (simp add: w)
  next
    case False
    let ?e = "mk_entry env k now (if hfiles h (item_path env i) = None then Create else Update) i
                 (current_text env i h) new"
    have log: "log_is env (log_path i) (es @ [?e]) (hfiles h')" using wl False by (simp add: current_text_def)
    have "chained env i P [] (es @ [?e]) (current_text env i h')"
      unfolding chained_snoc using Cons.prems(4) new(2) wl by (auto simp: current_text_def)
    moreover have "ce_timestamp ?e = now" by (simp add: mk_entry_def create_patches_def Let_def)
    then have "sorted (map ce_timestamp (es @ [?e]) @ map (\<lambda>(k, now, item). now) ws)"
      using Cons.prems(2) by (simp add: w)
    ultimately show ?thesis using Cons.IH [of "es @ [?e]" h'] Cons.prems(1) log h' by (simp add: w)
  qed
qed

text \<open>C29. When an item is only written, at times that do not decrease, its history can be read, and
  applying the changes of the history in order to an empty entity rebuilds the entity that its file
  holds.\<close>

theorem history_rebuilds_entity:
  assumes "replay_ok rv" "\<forall>e. of_entity (se_to_json (rv_store rv) e) = None"
    and "\<forall>(k, now, item) \<in> set ws. se_item_id (rv_store rv) item = i
           \<and> (\<exists>t. se_serialize (rv_store rv) item = Inr t \<and> (\<exists>x. parses rv i t x))"
    and "sorted (map (\<lambda>(k, now, item). now) ws)"
    and "hfiles h (log_path i) = None" "hfiles h (item_path (rv_store rv) i) = None"
  defines "h' \<equiv> write_all (rv_store rv) ws h"
  shows "\<exists>es x. read_changelog_for rv of_entity (log_path i) (hfiles h') = Inr es
     \<and> parses rv i (current_text (rv_store rv) i h') x
     \<and> apply_history (rv_patches rv) es (new_entity (rv_type rv) i) = (Inr (), x)"
proof -
  have env: "env_ok (rv_store rv)" using assms(1) by (simp add: replay_ok_def)
  obtain es where es: "log_is (rv_store rv) (log_path i) es (hfiles h')"
    "chained (rv_store rv) i (\<lambda>v. \<exists>x. parses rv i v x) [] es (current_text (rv_store rv) i h')"
    "sorted (map ce_timestamp es)"
    using write_all_chained [OF env assms(3), of "[]" h] assms(4-6)
    by (auto simp: log_is_def current_text_def h'_def)
  obtain out y where out: "replay_store_log rv [] es = Inr out" "map che_timestamp out = map ce_timestamp es"
    "parses rv i (current_text (rv_store rv) i h') y"
    "apply_history (rv_patches rv) out (new_entity (rv_type rv) i) = (Inr (), y)"
    using replay_chained [OF assms(1) es(2), of "new_entity (rv_type rv) i"] by auto
  have "sort_key che_timestamp out = out" using out(2) es(3) by (intro sort_key_id_if_sorted) simp
  then show ?thesis using read_log [OF env assms(2) es(1)] out by auto
qed


section \<open>A write after an undo\<close>

text \<open>The undo of the last update restores the text and leaves the log as it is.\<close>

lemma update_applied:
  assumes env: "env_ok env" and rest: "at_rest env (hfiles h)" and fr: "fresh k (hfiles h)"
    and "hfiles h (item_path env i) = Some t" "rebuild_ok env i new"
    and e: "e = mk_entry env k now Update i t new"
  shows "applied env e (redirect env e (Some new) (with_entry env e (hfiles h)))"
proof -
  have parts: "ce_id e = k" "ce_item_id e = i" "ce_op e = Update"
    "apply_patch env t (ce_forward_patch e) = Inr new" "apply_patch env new (ce_reverse_patch e) = Inr t"
    by (simp_all add: e env_okD [OF env])
  have t: "hfiles h (Live i (se_extension env)) = Some t" using assms(4) by (simp add: item_path_def)
  have "live_with env e (with_entry env e (hfiles h))"
    using with_entry_live [of env "hfiles h" e] env_okD(2,3) [OF env] rest fr at_restD(1) [OF rest t] t
    by (simp add: parts at_rest_def)
  moreover have "rebuild_ok env i t" using at_restD(2) [OF rest t] .
  ultimately show ?thesis
    using parts assms(5) env_okD(3) [OF env]
    by (auto simp: applied_def update_ok_def live_with_redirect redirect_simps(1) [of env e, unfolded parts(2)])
qed

lemma undo_update:
  assumes "env_ok env" "applied env e (hfiles h)" "ce_op e = Update"
    and "hfiles h (item_path env (ce_item_id e)) = Some new" "apply_patch env new (ce_reverse_patch e) = Inr t"
  shows "hfiles (snd (handle_undo env (ce_id e) (ce_item_id e) h)) = redirect env e (Some t) (hfiles h)"
  using handle_undo_applied [OF env_okD(3) [OF assms(1)] assms(2)] assms(3-5)
  by (auto simp: undone_files_def item_path_def)

lemma log_is_redirect:
  "env_ok env \<Longrightarrow> log_is env (log_path i) es (redirect env e x fs) \<longleftrightarrow> log_is env (log_path i) es fs"
  using env_okD(4) [of env] by (simp add: log_is_def redirect_def log_path_def)

lemma replay_fails:
  assumes "replay_ok rv" "chained (rv_store rv) i (\<lambda>v. \<exists>x. parses rv i v x) t es u" "parses rv i t x"
    and "ce_item_id e = i" "apply_patch (rv_store rv) u (ce_forward_patch e) = Inl err"
  shows "\<exists>m. replay_store_log rv t (es @ [e]) = Inl (PatchApply m)"
  using assms(2,3)
proof (induction es arbitrary: t x)
  case Nil
  then show ?case
    using assms(4,5) by (simp add: replay_one_store_entry_def parses_def split: sum.splits)
next
  case (Cons e' es)
  then obtain v y where v: "ce_item_id e' = i" "ce_forward_patch e' = se_create_patch (rv_store rv) t v"
    "ce_op e' = Create \<longrightarrow> t = []" "parses rv i v y" "chained (rv_store rv) i (\<lambda>v. \<exists>x. parses rv i v x) v es u"
    by auto
  obtain c where "replay_one_store_entry rv e' t = Inr (c, v)"
    using replay_step [OF assms(1) Cons.prems(2) v(4,1-3)] by blast
  with Cons.IH [OF v(5,4)] show ?case by auto
qed

text \<open>After an update, its undo and another update of the same item, the file holds the last text, but
  the history can no longer be read when the last patch does not apply to the undone text: the undo is
  not in the log, so the replay applies the patch to the text before the undo.\<close>

lemma undo_breaks_history:
  fixes k'' :: undo_entry_id and now now'' :: nat
  assumes "replay_ok rv" "\<forall>e. of_entity (se_to_json (rv_store rv) e) = None"
    and "at_rest (rv_store rv) (hfiles h)" "fresh k (hfiles h)"
    and "hfiles h (item_path (rv_store rv) i) = Some ta" "log_is (rv_store rv) (log_path i) es (hfiles h)"
    and "chained (rv_store rv) i (\<lambda>v. \<exists>x. parses rv i v x) [] es ta"
    and "se_serialize (rv_store rv) b = Inr tb" "se_item_id (rv_store rv) b = i" "tb \<noteq> ta"
    and "rebuild_ok (rv_store rv) i tb" "parses rv i tb y"
    and "se_serialize (rv_store rv) c = Inr tc" "se_item_id (rv_store rv) c = i" "tc \<noteq> ta"
    and "apply_patch (rv_store rv) tb (se_create_patch (rv_store rv) ta tc) = Inl err"
  defines "h' \<equiv> snd (handle_write (rv_store rv) k'' now'' c
                  (snd (handle_undo (rv_store rv) k i (snd (handle_write (rv_store rv) k now b h)))))"
  shows "current_text (rv_store rv) i h' = tc
    \<and> (\<exists>m. read_changelog_for rv of_entity (log_path i) (hfiles h') = Inl (PatchApply m))"
proof -
  let ?env = "rv_store rv"
  let ?e = "mk_entry ?env k now Update i ta tb" and ?e'' = "mk_entry ?env k'' now'' Update i ta tc"
  have env: "env_ok ?env" using assms(1) by (simp add: replay_ok_def)
  define h1 where "h1 = snd (handle_write ?env k now b h)"
  define h2 where "h2 = snd (handle_undo ?env k i h1)"
  have live: "hfiles h (Live i (se_extension ?env)) = Some ta" using assms(5) by (simp add: item_path_def)
  have h1: "hfiles h1 = redirect ?env ?e (Some tb) (with_entry ?env ?e (hfiles h))"
    using handle_write_changes [OF assms(8,9), of h k now] assms(10) live by (auto simp: h1_def)
  have e: "ce_id ?e = k" "ce_item_id ?e = i" "ce_op ?e = Update" "apply_patch ?env tb (ce_reverse_patch ?e) = Inr ta"
    by (simp_all add: env_okD [OF env])
  have "applied ?env ?e (hfiles h1)"
    unfolding h1 by (rule update_applied [OF env assms(3,4,5,11) refl])
  moreover have "hfiles h1 (item_path ?env i) = Some tb"
    using redirect_simps(1) [of ?env ?e] by (simp add: h1 e item_path_def)
  ultimately have h2: "hfiles h2 = redirect ?env ?e (Some ta) (hfiles h1)"
    using undo_update [OF env, of ?e h1 tb ta] by (simp add: e h2_def env_okD(1) [OF env])
  have log1: "log_is ?env (log_path i) (es @ [?e]) (hfiles h1)"
    using write_log [OF _ assms(8,9) env assms(6), of k now "fst (handle_write ?env k now b h)" h1] assms(5,10)
    by (simp add: h1_def)
  then have log2: "log_is ?env (log_path i) (es @ [?e]) (hfiles h2)"
    by (simp add: h2 log_is_redirect [OF env])
  have cur2: "hfiles h2 (item_path ?env i) = Some ta"
    using redirect_simps(1) [of ?env ?e] by (simp add: h2 e item_path_def)
  note wl = write_log [OF _ assms(13,14) env log2, of k'' now'' "fst (handle_write ?env k'' now'' c h2)" h']
  have log': "log_is ?env (log_path i) ((es @ [?e]) @ [?e'']) (hfiles h')" "hfiles h' (item_path ?env i) = Some tc"
    using wl cur2 assms(15) by (simp_all add: h'_def h2_def h1_def)
  have "chained ?env i (\<lambda>v. \<exists>x. parses rv i v x) [] (es @ [?e]) tb"
    unfolding chained_snoc using assms(7,12) by (auto simp: mk_entry_def create_patches_def Let_def)
  then have "\<exists>m. replay_store_log rv [] ((es @ [?e]) @ [?e'']) = Inl (PatchApply m)"
    by (rule replay_fails [OF assms(1)])
      (use assms(16) in \<open>auto simp: mk_entry_def create_patches_def Let_def\<close>)
  then show ?thesis using read_log [OF env assms(2) log'(1)] log'(2) by (auto simp: current_text_def)
qed

section \<open>Examples\<close>

text \<open>Notes whose whole text is their title, with patches that name the text they apply to.\<close>

definition strict_env :: "(string \<times> string) store_env" where
  "strict_env = text_env
     \<lparr>se_create_patch := \<lambda>old new. esc old @ '','' @ esc new @ '','',
      se_apply_patch := \<lambda>t p. (case unesc p of (old, r) \<Rightarrow> if old = t then Inr (fst (unesc r)) else Inl ''hunk failed'')\<rparr>"

definition title_yaml :: yaml_lib where
  "title_yaml =
     \<lparr>yl_parse = (\<lambda>s. Inr [(''title'', JString s)]),
      yl_print = (\<lambda>m. case m ''title'' of Some (JString s) \<Rightarrow> Inr s | _ \<Rightarrow> Inl [])\<rparr>"

definition note_rv :: "(string \<times> string, string) replay_env" where
  "note_rv =
     \<lparr>rv_store = strict_env, rv_yaml = title_yaml, rv_patches = plain_patches, rv_iter = sorted_order,
      rv_type = ''note'', rv_def = \<lparr>body_field = None\<rparr>\<rparr>"

lemma note_rv_simps [simp]:
  "rv_store note_rv = strict_env" "se_item_id strict_env = fst" "se_serialize strict_env item = Inr (snd item)"
  "se_to_json strict_env = show_entry" "se_extension strict_env = ''md''" "item_path strict_env i = Live i ''md''"
  "log_path i = Live i ''jsonl''"
  by (simp_all add: note_rv_def strict_env_def item_path_def log_path_def) (simp add: text_env_def)

lemma note_rv_ok: "env_ok strict_env" "replay_ok note_rv"
proof -
  show "env_ok strict_env"
    by (simp add: env_ok_def strict_env_def unesc_esc) (simp add: text_env_def show_entry_codec)
  then show "replay_ok note_rv"
    by (simp add: replay_ok_def) (simp add: note_rv_def sorted_order_ok patches_ok_def plain_patches_def)
qed

definition titled :: "string \<Rightarrow> entity" where
  "titled t = set_field ''title'' (JString t) (new_entity ''note'' ''n'')"

lemma parses_titled: "t \<noteq> [] \<Longrightarrow> parses note_rv ''n'' t x \<longleftrightarrow> x = titled t"
proof -
  have new: "entity_type (new_entity ty i) = ty" "entity_id (new_entity ty i) = i"
    "location (new_entity ty i) = LiveLocation" for ty i by (simp_all add: new_entity_def)
  assume "t \<noteq> []"
  then show ?thesis
    by (auto simp: parses_def note_rv_def parse_entity_text_def parse_plain_yaml_def title_yaml_def
        build_entity_from_yaml_def flatten_into_def titled_def new)
qed

lemma titled_parses [simp]: "t \<noteq> [] \<Longrightarrow> Ex (parses note_rv ''n'' t)"
  using parses_titled by blast

definition note_writes :: "(undo_entry_id \<times> nat \<times> string \<times> string) list" where
  "note_writes = [(''k1'', 1, ''n'', ''a''), (''k2'', 2, ''n'', ''b'')]"

theorem history_rebuilds_entity_witness:
  "\<exists>es. read_changelog_for note_rv (\<lambda>l. None) (Live ''n'' ''jsonl'')
          (hfiles (write_all strict_env note_writes (new_handle no_files))) = Inr es
     \<and> apply_history (rv_patches note_rv) es (new_entity (rv_type note_rv) ''n'') = (Inr (), titled ''b'')"
proof -
  have "hfiles (write_all strict_env note_writes (new_handle no_files)) (Live ''n'' ''md'') = Some ''b''"
    by (simp add: note_writes_def handle_write_def Let_def and_then_def read_text_def new_handle_def
        no_files_def on_files_def append_entry_def atomic_write_def push_event_def)
  then show ?thesis
    using history_rebuilds_entity [OF note_rv_ok(2), of "\<lambda>l. None" note_writes "''n''" "new_handle no_files"]
    by (auto simp: note_writes_def parses_titled current_text_def new_handle_def no_files_def)
qed

definition note_a :: handle where
  "note_a = snd (handle_write strict_env ''k1'' 1 (''n'', ''a'') (new_handle no_files))"

lemma note_a_state:
  "hfiles note_a = no_files(Live ''n'' ''md'' \<mapsto> ''a'',
     Live ''n'' ''jsonl'' \<mapsto> show_entry (mk_entry strict_env ''k1'' 1 Create ''n'' [] ''a'') @ [NL])"
  by (rule ext) (simp add: note_a_def handle_write_def Let_def and_then_def read_text_def new_handle_def
      no_files_def on_files_def append_entry_def atomic_write_def push_event_def)

lemma note_a_at_rest: "at_rest strict_env (hfiles note_a)"
proof -
  have "rebuild_ok strict_env ''n'' ''a''" by (simp add: rebuild_ok_def strict_env_def text_env_def)
  moreover have "\<exists>k'. handle_write strict_env ''k1'' 1 (''n'', ''a'') (new_handle no_files) = (Inr (Some k'), note_a)"
    by (simp add: note_a_def handle_write_def Let_def and_then_def read_text_def new_handle_def
      no_files_def on_files_def append_entry_def atomic_write_def push_event_def)
  ultimately show ?thesis
    using write_recorded [OF note_rv_ok(1), of "new_handle no_files" "''k1''" "{}" "(''n'', ''a'')"]
    by (auto simp: recorded_def new_handle_def)
qed

end
