(* ===== verification/Tag_Parser.thy ===== *)
theory Tag_Parser
  imports Prelude
begin

text \<open>
  The \<open>#tag\<close> markers in a markdown body: \<open>swissarmyhammer-kanban/src/tag_parser.rs\<close>. One walk
  over the lines of a body and one rule of where a marker starts and ends serve the reader and the
  writers. A position in a line is the character before it and the text after it.
\<close>

section \<open>Lines of a body\<close>

definition is_alnum :: "char \<Rightarrow> bool" where
  "is_alnum c \<longleftrightarrow> (let n = of_char c :: nat in 48 \<le> n \<and> n \<le> 57 \<or> 65 \<le> n \<and> n \<le> 90 \<or> 97 \<le> n \<and> n \<le> 122)"

definition slug_char :: "char \<Rightarrow> bool" where
  "slug_char c \<longleftrightarrow> is_alnum c \<or> c = CHR ''-''"

definition is_fence_line :: "string \<Rightarrow> bool" where
  "is_fence_line trimmed \<longleftrightarrow> prefix ''```'' trimmed \<or> prefix ''~~~'' trimmed"

definition is_heading_line :: "string \<Rightarrow> bool" where
  "is_heading_line line \<longleftrightarrow>
     (case trim_start_matches is_ws line of
        c # r \<Rightarrow> c = CHR ''#'' \<and> (case r of [] \<Rightarrow> True | d # _ \<Rightarrow> d = CHR ''#'' \<or> d = CHR '' '')
      | [] \<Rightarrow> False)"

record markdown_line =
  ml_content :: string
  ml_terminator :: string
  ml_tag_bearing :: bool

definition split_line_terminator :: "string \<Rightarrow> string \<times> string" where
  "split_line_terminator raw =
     (if raw \<noteq> [] \<and> last raw = NL
      then (let content = butlast raw
            in if content \<noteq> [] \<and> last content = CR then (butlast content, [CR, NL]) else (content, [NL]))
      else (raw, []))"

text \<open>The flag is the state of the walk: whether the next line is inside a fenced block.\<close>

fun walk_lines :: "bool \<Rightarrow> string list \<Rightarrow> markdown_line list" where
  "walk_lines fenced [] = []"
| "walk_lines fenced (raw # raws) =
     (case split_line_terminator raw of (content, terminator) \<Rightarrow>
        if is_fence_line (trim_start_matches is_ws content)
        then \<lparr>ml_content = content, ml_terminator = terminator, ml_tag_bearing = False\<rparr> # walk_lines (\<not> fenced) raws
        else \<lparr>ml_content = content, ml_terminator = terminator,
              ml_tag_bearing = (\<not> fenced \<and> \<not> is_heading_line content)\<rparr> # walk_lines fenced raws)"

definition markdown_lines :: "string \<Rightarrow> markdown_line list" where
  "markdown_lines s = walk_lines False (split_inclusive s)"

section \<open>Markers\<close>

text \<open>The code span that a backtick opens, given the text after the backtick: the span and the rest.\<close>

definition skip_inline_code :: "string \<Rightarrow> string \<times> string" where
  "skip_inline_code r =
     (case dropWhile (\<lambda>x. x \<noteq> CHR ''`'') r of
        [] \<Rightarrow> (r, [])
      | q # rest \<Rightarrow> (takeWhile (\<lambda>x. x \<noteq> CHR ''`'') r @ [q], rest))"

definition glued :: "char option \<Rightarrow> bool" where
  "glued prev \<longleftrightarrow> (case prev of None \<Rightarrow> False | Some c \<Rightarrow> is_alnum c \<or> c = CHR ''_'')"

definition tag_slug_at :: "char option \<Rightarrow> string \<Rightarrow> string option" where
  "tag_slug_at prev s =
     (case s of
        c # d # r \<Rightarrow> (if c \<noteq> CHR ''#'' \<or> glued prev \<or> \<not> is_alnum d then None else Some (takeWhile slug_char (d # r)))
      | _ \<Rightarrow> None)"

lemma skip_inline_code_parts:
  "skip_inline_code r = (span, rest) \<Longrightarrow> r = span @ rest"
  by (auto simp: skip_inline_code_def split: list.splits)
    (metis takeWhile_dropWhile_id)

lemma skip_inline_code_shorter: "(span, rest) = skip_inline_code r \<Longrightarrow> length rest < Suc (length r)"
  using skip_inline_code_parts [of r span rest] by simp

function collect_line_tags :: "char option \<Rightarrow> string \<Rightarrow> string list" where
  "collect_line_tags prev [] = []"
| "collect_line_tags prev (c # r) =
     (if c = CHR ''`'' then collect_line_tags (Some c) (snd (skip_inline_code r))
      else case tag_slug_at prev (c # r) of
             Some slug \<Rightarrow> slug # collect_line_tags (Some (last slug)) (drop (length slug) r)
           | None \<Rightarrow> collect_line_tags (Some c) r)"
  by pat_completeness auto
termination
  by (relation "measure (\<lambda>(prev, s). length s)")
    (auto intro!: skip_inline_code_shorter [OF prod.collapse])

definition parse_tags :: "string \<Rightarrow> string list" where
  "parse_tags s =
     sorted_list_of_set
       (set (concat (map (\<lambda>l. collect_line_tags None (ml_content l)) (filter ml_tag_bearing (markdown_lines s)))))"

section \<open>Writers\<close>

text \<open>What takes the place of a marker: the text to go on with, the character before it, the output.\<close>

definition rewrite_marker :: "string \<Rightarrow> string option \<Rightarrow> string \<Rightarrow> string \<Rightarrow> char \<times> string \<times> string" where
  "rewrite_marker slug replacement rest out =
     (case replacement of
        Some t \<Rightarrow> (last slug, rest, out @ t)
      | None \<Rightarrow>
          (case rest of
             c # r \<Rightarrow>
               (if c = CHR '' '' then (c, r, out)
                else (last slug, rest, if out \<noteq> [] \<and> last out = CHR '' '' then butlast out else out))
           | [] \<Rightarrow> (last slug, rest, if out \<noteq> [] \<and> last out = CHR '' '' then butlast out else out)))"

lemma rewrite_marker_shorter:
  "(p, s, out') = rewrite_marker slug repl (drop n r) out \<Longrightarrow> length s < Suc (length r)"
  by (auto simp: rewrite_marker_def dest!: arg_cong [where f = length] split: option.splits list.splits if_splits)

text \<open>The line is written into \<open>out\<close>, which holds only what the current line wrote.\<close>

function edit_line_markers :: "string \<Rightarrow> string option \<Rightarrow> char option \<Rightarrow> string \<Rightarrow> string \<Rightarrow> bool \<times> string" where
  "edit_line_markers slug repl prev [] out = (False, out)"
| "edit_line_markers slug repl prev (c # r) out =
     (if c = CHR ''`''
      then (case skip_inline_code r of (span, rest) \<Rightarrow> edit_line_markers slug repl (Some c) rest (out @ c # span))
      else if tag_slug_at prev (c # r) = Some slug
      then (case rewrite_marker slug repl (drop (length slug) r) out of (p, rest, out') \<Rightarrow>
              (True, snd (edit_line_markers slug repl (Some p) rest out')))
      else edit_line_markers slug repl (Some c) r (out @ [c]))"
  by pat_completeness auto
termination
  by (relation "measure (\<lambda>(slug, repl, prev, s, out). length s)")
    (auto dest: skip_inline_code_shorter rewrite_marker_shorter)

definition drop_last_line_terminator :: "string \<Rightarrow> string" where
  "drop_last_line_terminator s =
     (if s \<noteq> [] \<and> last s = NL
      then (let t = butlast s in if t \<noteq> [] \<and> last t = CR then butlast t else t) else s)"

text \<open>The text with the tidied line, and whether the line went away.\<close>

definition tidy_removed_line :: "string \<Rightarrow> string \<Rightarrow> string \<Rightarrow> string \<times> bool" where
  "tidy_removed_line result line terminator =
     (let kept = trim_end_matches is_ws line
      in if kept = [] \<and> terminator = [] then (drop_last_line_terminator result, True) else (result @ kept, False))"

definition edit_one_line :: "string \<Rightarrow> string option \<Rightarrow> markdown_line \<Rightarrow> string \<Rightarrow> string" where
  "edit_one_line slug repl l result =
     (if \<not> ml_tag_bearing l then result @ ml_content l @ ml_terminator l
      else case edit_line_markers slug repl None (ml_content l) [] of (edited, line) \<Rightarrow>
             if edited \<and> repl = None
             then (case tidy_removed_line result line (ml_terminator l) of (result', gone) \<Rightarrow>
                     if gone then result' else result' @ ml_terminator l)
             else result @ line @ ml_terminator l)"

definition edit_tag_markers :: "string \<Rightarrow> string \<Rightarrow> string option \<Rightarrow> string" where
  "edit_tag_markers s slug repl = fold (edit_one_line slug repl) (markdown_lines s) []"

definition remove_tag :: "string \<Rightarrow> string \<Rightarrow> string" where
  "remove_tag s slug = edit_tag_markers s slug None"

definition rename_tag :: "string \<Rightarrow> string \<Rightarrow> string \<Rightarrow> string" where
  "rename_tag s old_slug new_slug = edit_tag_markers s old_slug (Some (CHR ''#'' # new_slug))"

definition append_tag :: "string \<Rightarrow> string \<Rightarrow> string" where
  "append_tag s slug =
     (if slug \<in> set (parse_tags s) then s
      else let inline = (if s \<noteq> [] \<and> \<not> is_ws (last s) then s @ '' '' else s) @ CHR ''#'' # slug
           in if slug \<in> set (parse_tags inline) then inline
              else (if s \<noteq> [] \<and> last s \<noteq> NL then s @ [NL] else s) @ CHR ''#'' # slug)"

definition normalize_step :: "char \<Rightarrow> string \<times> bool \<Rightarrow> string \<times> bool" where
  "normalize_step c acc =
     (case acc of (out, last_was_hyphen) \<Rightarrow>
        if is_alnum c then (out @ [c], False)
        else if \<not> last_was_hyphen then (out @ ''-'', True) else (out, last_was_hyphen))"

definition normalize_slug :: "string \<Rightarrow> string" where
  "normalize_slug raw =
     (let out = fst (fold normalize_step raw ([], True))
      in if out \<noteq> [] \<and> last out = CHR ''-'' then butlast out else out)"

end
