(* ===== verification/Tag_Laws.thy ===== *)
theory Tag_Laws
  imports Tag_Parser
begin

text \<open>
  How the writers of a line relate to its reader: \<open>edit_line_markers\<close> against
  \<open>collect_line_tags\<close>, by induction over the scan that they share.
\<close>

section \<open>One step of the scan\<close>

lemma tag_slug_at_Cons:
  "tag_slug_at prev (c # r) =
     (if c = CHR ''#'' \<and> \<not> glued prev \<and> r \<noteq> [] \<and> is_alnum (hd r) then Some (takeWhile slug_char r) else None)"
  by (cases r) (auto simp: tag_slug_at_def)

lemma slug_char_alnum: "is_alnum c \<Longrightarrow> slug_char c"
  by (simp add: slug_char_def)

lemma not_slug_chars [simp]:
  "\<not> slug_char (CHR ''#'')" "\<not> slug_char (CHR ''`'')" "\<not> slug_char NL" "\<not> slug_char CR" "\<not> slug_char (CHR '' '')"
  "\<not> is_alnum (CHR ''#'')" "\<not> is_alnum (CHR ''`'')" "\<not> is_alnum NL" "\<not> is_alnum CR" "\<not> is_alnum (CHR '' '')"
  "\<not> is_alnum (CHR ''~'')"
  by (simp_all add: slug_char_def is_alnum_def)

lemma ws_not_slug [simp]: "is_ws c \<Longrightarrow> \<not> slug_char c" "is_ws c \<Longrightarrow> \<not> is_alnum c"
  by (auto simp: is_ws_def slug_char_def is_alnum_def)

lemma slug_at_SomeD:
  assumes "tag_slug_at prev (c # r) = Some g"
  shows "c = CHR ''#''" "\<not> glued prev" "r = g @ drop (length g) r" "\<forall>x \<in> set g. slug_char x" "g \<noteq> []"
    "is_alnum (hd g)" "drop (length g) r = [] \<or> \<not> slug_char (hd (drop (length g) r))"
proof -
  have g: "g = takeWhile slug_char r" "r \<noteq> []" "is_alnum (hd r)"
    using assms by (auto simp: tag_slug_at_Cons split: if_splits)
  then have d: "drop (length g) r = dropWhile slug_char r" by (metis dropWhile_eq_drop)
  show "c = CHR ''#''" "\<not> glued prev" using assms by (auto simp: tag_slug_at_Cons split: if_splits)
  show "r = g @ drop (length g) r" unfolding d by (simp add: g(1))
  show "\<forall>x \<in> set g. slug_char x" unfolding g(1) by (auto dest: set_takeWhileD)
  show "g \<noteq> []" "is_alnum (hd g)" using g slug_char_alnum by (cases r; auto)+
  show "drop (length g) r = [] \<or> \<not> slug_char (hd (drop (length g) r))" unfolding d by (metis hd_dropWhile)
qed

lemma slug_at_Some:
  assumes "\<forall>x \<in> set g. slug_char x" "g \<noteq> []" "is_alnum (hd g)" "\<not> glued prev" "s = [] \<or> \<not> slug_char (hd s)"
  shows "tag_slug_at prev (CHR ''#'' # g @ s) = Some g"
proof -
  have "takeWhile slug_char (g @ s) = g" using assms(1,5) by (cases s) (auto simp: takeWhile_append)
  then show ?thesis using assms by (simp add: tag_slug_at_Cons)
qed

text \<open>Characters of slugs are passed over one by one.\<close>

lemma not_marker [simp]: "slug_char c \<Longrightarrow> tag_slug_at prev (c # r) = None" "slug_char c \<Longrightarrow> c \<noteq> CHR ''`''"
  by (auto simp: tag_slug_at_Cons)

lemma collect_slug_run:
  "\<forall>x \<in> set g. slug_char x \<Longrightarrow> g \<noteq> [] \<Longrightarrow> collect_line_tags prev (g @ s) = collect_line_tags (Some (last g)) s"
proof (induction g arbitrary: prev)
  case (Cons c g)
  then show ?case by (cases "g = []") auto
qed simp

lemma edit_slug_run:
  "\<forall>x \<in> set g. slug_char x \<Longrightarrow> g \<noteq> []
   \<Longrightarrow> edit_line_markers slug repl prev (g @ s) out = edit_line_markers slug repl (Some (last g)) s (out @ g)"
proof (induction g arbitrary: prev out)
  case (Cons c g)
  then show ?case by (cases "g = []") auto
qed simp

section \<open>Lines without the marker\<close>

lemma edit_foreign:
  assumes "tag_slug_at prev (c # r) = Some g" "g \<noteq> slug"
  shows "edit_line_markers slug repl prev (c # r) out
     = edit_line_markers slug repl (Some (last g)) (drop (length g) r) (out @ c # g)"
proof -
  note g = slug_at_SomeD [OF assms(1)]
  have "edit_line_markers slug repl prev (c # r) out = edit_line_markers slug repl (Some c) r (out @ [c])"
    using assms g(1) by simp
  also have "\<dots> = edit_line_markers slug repl (Some (last g)) (drop (length g) r) ((out @ [c]) @ g)"
    using edit_slug_run [OF g(4,5), of slug repl "Some c" "drop (length g) r" "out @ [c]"] g(3) by simp
  finally show ?thesis by simp
qed

lemma edit_untouched:
  "slug \<notin> set (collect_line_tags prev s) \<Longrightarrow> edit_line_markers slug repl prev s out = (False, out @ s)"
proof (induction prev s arbitrary: out rule: collect_line_tags.induct)
  case (2 prev c r)
  show ?case
  proof (cases "c = CHR ''`''")
    case True
    obtain span rest where sp: "skip_inline_code r = (span, rest)" by (cases "skip_inline_code r")
    then show ?thesis using True 2 skip_inline_code_parts [OF sp] by simp
  next
    case False
    show ?thesis
    proof (cases "tag_slug_at prev (c # r)")
      case None
      then show ?thesis using False 2 by simp
    next
      case (Some g)
      then have g: "g \<noteq> slug" "slug \<notin> set (collect_line_tags (Some (last g)) (drop (length g) r))" using False 2(4) by auto
      have "(out @ c # g) @ drop (length g) r = out @ c # r" using slug_at_SomeD(3) [OF Some] by simp
      then show ?thesis
        unfolding edit_foreign [OF Some g(1)] 2(3) [OF False Some g(2)] by simp
    qed
  qed
qed simp

section \<open>Renaming in a line\<close>

text \<open>The slugs that \<open>normalize_slug\<close> makes.\<close>

definition good_slug :: "string \<Rightarrow> bool" where
  "good_slug g \<longleftrightarrow> g \<noteq> [] \<and> (\<forall>x \<in> set g. slug_char x) \<and> is_alnum (hd g) \<and> is_alnum (last g)"

lemma good_slugD:
  assumes "good_slug g"
  shows "g \<noteq> []" "\<forall>x \<in> set g. slug_char x" "is_alnum (hd g)" "glued (Some (last g))"
  using assms by (auto simp: good_slug_def glued_def)

definition renamed :: "string \<Rightarrow> string \<Rightarrow> char option \<Rightarrow> string \<Rightarrow> string" where
  "renamed old new prev s = snd (edit_line_markers old (Some (CHR ''#'' # new)) prev s [])"

lemma edit_rename_out:
  "edit_line_markers old (Some t) prev s out
     = (fst (edit_line_markers old (Some t) prev s []), out @ snd (edit_line_markers old (Some t) prev s []))"
proof (induction "length s" arbitrary: prev s out rule: less_induct)
  case less
  let ?e = "edit_line_markers old (Some t)"
  have step: "?e p x (out @ y) = (fst (?e p x y), out @ snd (?e p x y))" if "length x < length s" for p x y
    using less [OF that, of p "out @ y"] less [OF that, of p y] by simp
  show ?case
  proof (cases s)
    case (Cons c r)
    show ?thesis
    proof (cases "c = CHR ''`''")
      case True
      obtain span rest where sp: "skip_inline_code r = (span, rest)" by (cases "skip_inline_code r")
      then show ?thesis
        using True Cons skip_inline_code_parts [OF sp] step [of rest "Some c" "c # span"] by simp
    next
      case False
      then show ?thesis
        using Cons step [of r "Some c" "[c]"] step [of "drop (length old) r" "Some (last old)" t]
        by (auto simp: rewrite_marker_def less_Suc_eq_le)
    qed
  qed simp
qed

lemma renamed_simps [simp]:
  "renamed old new prev [] = []"
  "renamed old new prev (c # r) =
     (if c = CHR ''`'' then c # fst (skip_inline_code r) @ renamed old new (Some c) (snd (skip_inline_code r))
      else if tag_slug_at prev (c # r) = Some old
      then CHR ''#'' # new @ renamed old new (Some (last old)) (drop (length old) r)
      else c # renamed old new (Some c) r)"
  by (simp_all add: renamed_def rewrite_marker_def case_prod_beta edit_rename_out [where out = "x # y" for x y])

lemma renamed_head [simp]: "renamed old new prev s = [] \<longleftrightarrow> s = []" "s \<noteq> [] \<Longrightarrow> hd (renamed old new prev s) = hd s"
  by (cases s; auto simp: tag_slug_at_Cons)+

lemma renamed_slug_run:
  "\<forall>x \<in> set g. slug_char x \<Longrightarrow> g \<noteq> [] \<Longrightarrow> renamed old new prev (g @ s) = g @ renamed old new (Some (last g)) s"
proof (induction g arbitrary: prev)
  case (Cons c g)
  then show ?case by (cases "g = []") auto
qed simp

lemma renamed_foreign:
  assumes "tag_slug_at prev (c # r) = Some g" "g \<noteq> old"
  shows "renamed old new prev (c # r) = CHR ''#'' # g @ renamed old new (Some (last g)) (drop (length g) r)"
proof -
  note g = slug_at_SomeD [OF assms(1)]
  have "renamed old new (Some (CHR ''#'')) r = g @ renamed old new (Some (last g)) (drop (length g) r)"
    using renamed_slug_run [OF g(4,5), of old new "Some (CHR ''#'')" "drop (length g) r"] g(3) by simp
  then show ?thesis using assms g(1) by simp
qed

lemma skip_open: "CHR ''`'' \<notin> set r \<Longrightarrow> skip_inline_code r = (r, [])"
proof -
  assume "CHR ''`'' \<notin> set r"
  then have "dropWhile (\<lambda>x. x \<noteq> CHR ''`'') r = []" by (auto simp: dropWhile_eq_Nil_conv)
  then show ?thesis by (simp only: skip_inline_code_def list.case)
qed

lemma skip_closed: "CHR ''`'' \<notin> set x \<Longrightarrow> skip_inline_code (x @ CHR ''`'' # y) = (x @ [CHR ''`''], y)"
proof -
  assume "CHR ''`'' \<notin> set x"
  then have "\<forall>c \<in> set x. c \<noteq> CHR ''`''" by auto
  then show ?thesis by (simp add: skip_inline_code_def dropWhile_append2 takeWhile_append2)
qed

lemma skip_cases:
  obtains "CHR ''`'' \<notin> set r" | x y where "r = x @ CHR ''`'' # y" "CHR ''`'' \<notin> set x"
  using split_list_first [of "CHR ''`''" r] by blast

lemma skip_inline_code_append:
  assumes "skip_inline_code r = (span, rest)" "rest \<noteq> []"
  shows "skip_inline_code (span @ x) = (span, x)"
proof -
  let ?P = "\<lambda>x. x \<noteq> CHR ''`''"
  obtain q where q: "dropWhile ?P r = q # rest" "span = takeWhile ?P r @ [q]"
    using assms by (auto simp: skip_inline_code_def split: list.splits)
  have "\<not> ?P q" using q(1) hd_dropWhile [of ?P r] by simp
  moreover have "\<forall>y \<in> set (takeWhile ?P r). ?P y" by (auto dest: set_takeWhileD)
  ultimately have "dropWhile ?P (span @ x) = q # x" "takeWhile ?P (span @ x) = takeWhile ?P r"
    unfolding q(2) by (simp_all add: dropWhile_append2 takeWhile_append2)
  then show ?thesis by (simp add: skip_inline_code_def q(2))
qed

text \<open>What the scan reads in the renamed line, from a position that is glued when the old one is.\<close>

lemma collect_renamed:
  assumes "good_slug old" "good_slug new"
  shows "glued prev' = glued prev \<Longrightarrow>
    collect_line_tags prev' (renamed old new prev s) = map (\<lambda>g. if g = old then new else g) (collect_line_tags prev s)"
proof (induction prev s arbitrary: prev' rule: collect_line_tags.induct)
  case (2 prev c r)
  show ?case
  proof (cases "c = CHR ''`''")
    case True
    obtain span rest where sp: "skip_inline_code r = (span, rest)" by (cases "skip_inline_code r")
    have rest: "collect_line_tags (Some c) (renamed old new (Some c) rest)
        = map (\<lambda>g. if g = old then new else g) (collect_line_tags (Some c) rest)"
      using 2(1) [OF True] sp by simp
    show ?thesis
    proof (cases "rest = []")
      case True
      then show ?thesis using \<open>c = CHR ''`''\<close> sp skip_inline_code_parts [OF sp] by simp
    next
      case False
      then show ?thesis using True sp rest skip_inline_code_append [OF sp] by simp
    qed
  next
    case False
    show ?thesis
    proof (cases "tag_slug_at prev (c # r)")
      case None
      then show ?thesis using False 2 by (auto simp: tag_slug_at_Cons)
    next
      case (Some g)
      note g = slug_at_SomeD [OF Some]
      let ?g = "if g = old then new else g" and ?r = "renamed old new (Some (last g)) (drop (length g) r)"
      have "renamed old new prev (c # r) = CHR ''#'' # ?g @ ?r"
      proof (cases "g = old")
        case False
        then show ?thesis unfolding renamed_foreign [OF Some False] by simp
      qed (use Some g(1) in simp)
      moreover have "tag_slug_at prev' (CHR ''#'' # ?g @ ?r) = Some ?g"
        using g good_slugD [OF assms(2)] 2(4) by (intro slug_at_Some) auto
      moreover have "collect_line_tags (Some (last ?g)) ?r
          = map (\<lambda>g. if g = old then new else g) (collect_line_tags (Some (last g)) (drop (length g) r))"
        using good_slugD(4) [OF assms(1)] good_slugD(4) [OF assms(2)] by (intro 2(3) [OF False Some]) simp
      ultimately show ?thesis using False Some by simp
    qed
  qed
qed simp


text \<open>Renaming back, when the new name was not in use.\<close>

lemma renamed_back:
  assumes "good_slug old" "good_slug new"
  shows "new \<notin> set (collect_line_tags prev s) \<Longrightarrow> glued prev' = glued prev
    \<Longrightarrow> renamed new old prev' (renamed old new prev s) = s"
proof (induction prev s arbitrary: prev' rule: collect_line_tags.induct)
  case (2 prev c r)
  show ?case
  proof (cases "c = CHR ''`''")
    case True
    obtain span rest where sp: "skip_inline_code r = (span, rest)" by (cases "skip_inline_code r")
    have rest: "renamed new old (Some c) (renamed old new (Some c) rest) = rest"
      using 2(1) [OF True] 2(4) True sp by simp
    show ?thesis
    proof (cases "rest = []")
      case True
      then show ?thesis using \<open>c = CHR ''`''\<close> sp skip_inline_code_parts [OF sp] by simp
    next
      case False
      then show ?thesis
        using True sp rest skip_inline_code_append [OF sp] skip_inline_code_parts [OF sp] by simp
    qed
  next
    case False
    show ?thesis
    proof (cases "tag_slug_at prev (c # r)")
      case None
      then have "tag_slug_at prev' (c # renamed old new (Some c) r) = None"
        using 2(5) by (auto simp: tag_slug_at_Cons split: if_splits)
      then show ?thesis using None False 2 by simp
    next
      case (Some g)
      note g = slug_at_SomeD [OF Some]
      let ?g = "if g = old then new else g" and ?r = "renamed old new (Some (last g)) (drop (length g) r)"
      have "renamed old new prev (c # r) = CHR ''#'' # ?g @ ?r"
      proof (cases "g = old")
        case False
        then show ?thesis unfolding renamed_foreign [OF Some False] by simp
      qed (use Some g(1) in simp)
      moreover have marker: "tag_slug_at prev' (CHR ''#'' # ?g @ ?r) = Some ?g"
        using g good_slugD [OF assms(2)] 2(5) by (intro slug_at_Some) auto
      moreover have "renamed new old (Some (last ?g)) ?r = drop (length g) r"
        using 2(4) False Some good_slugD(4) [OF assms(1)] good_slugD(4) [OF assms(2)]
        by (intro 2(3) [OF False Some]) auto
      moreover have "g \<noteq> new" using 2(4) False Some by auto
      ultimately have "renamed new old prev' (renamed old new prev (c # r)) = CHR ''#'' # g @ drop (length g) r"
        using renamed_foreign [OF marker, of new old] by (cases "g = old") (simp, simp del: renamed_simps)
      then show ?thesis using g(1,3) by simp
    qed
  qed
qed simp

text \<open>Renaming keeps the shape that decides whether the line can carry tags.\<close>

lemma renamed_trim_start:
  "\<exists>prev'. trim_start_matches is_ws (renamed old new prev s) = renamed old new prev' (trim_start_matches is_ws s)"
proof (induction s arbitrary: prev)
  case (Cons c s)
  show ?case
  proof (cases "is_ws c")
    case True
    then have "c \<noteq> CHR ''`''" "c \<noteq> CHR ''#''" by (auto simp: is_ws_def)
    then show ?thesis using True Cons by (simp add: trim_start_matches_def tag_slug_at_Cons)
  next
    case False
    then have "trim_start_matches is_ws (c # s) = c # s" by (simp add: trim_start_matches_def)
    moreover have "\<not> is_ws (hd (renamed old new prev (c # s)))"
      using False renamed_head(2) [of "c # s"] by (simp del: renamed_simps)
    then have "trim_start_matches is_ws (renamed old new prev (c # s)) = renamed old new prev (c # s)"
      by (cases "renamed old new prev (c # s)") (auto simp: trim_start_matches_def simp del: renamed_simps)
    ultimately show ?thesis by metis
  qed
qed (simp add: trim_start_matches_def)

lemma renamed_before_hash:
  "takeWhile (\<lambda>c. c \<noteq> CHR ''#'') (renamed old new prev s) = takeWhile (\<lambda>c. c \<noteq> CHR ''#'') s"
proof (induction "length s" arbitrary: prev s rule: less_induct)
  case less
  show ?case
  proof (cases s)
    case (Cons c r)
    obtain span rest where sp: "skip_inline_code r = (span, rest)" by (cases "skip_inline_code r")
    have "takeWhile (\<lambda>c. c \<noteq> CHR ''#'') (span @ renamed old new (Some c) rest)
        = takeWhile (\<lambda>c. c \<noteq> CHR ''#'') r"
      using less [of rest "Some c"] Cons skip_inline_code_parts [OF sp] by (auto simp: takeWhile_append)
    then show ?thesis using less [of r "Some c"] Cons sp by (auto simp: tag_slug_at_Cons)
  qed simp
qed

lemma prefix_takeWhile: "\<forall>c \<in> set p. P c \<Longrightarrow> prefix p s \<longleftrightarrow> prefix p (takeWhile P s)"
proof (induction p arbitrary: s)
  case (Cons a p)
  then show ?case by (cases s) auto
qed simp

lemma renamed_not_fence:
  "is_fence_line (trim_start_matches is_ws (renamed old new prev s)) \<longleftrightarrow> is_fence_line (trim_start_matches is_ws s)"
proof -
  obtain prev' where p: "trim_start_matches is_ws (renamed old new prev s) = renamed old new prev' (trim_start_matches is_ws s)"
    using renamed_trim_start by blast
  have "prefix q (renamed old new prev' t) \<longleftrightarrow> prefix q t" if "\<forall>c \<in> set q. c \<noteq> CHR ''#''" for q t
    using prefix_takeWhile [of q "\<lambda>c. c \<noteq> CHR ''#''"] that renamed_before_hash by metis
  then show ?thesis by (simp add: p is_fence_line_def)
qed

lemma is_heading_iff:
  "is_heading_line s \<longleftrightarrow>
     (\<exists>r. trim_start_matches is_ws s = CHR ''#'' # r \<and> (r = [] \<or> hd r = CHR ''#'' \<or> hd r = CHR '' ''))"
  by (auto simp: is_heading_line_def split: list.splits)

lemma renamed_not_heading:
  assumes "good_slug new" "\<not> is_heading_line s"
  shows "\<not> is_heading_line (renamed old new prev s)"
proof -
  obtain prev' where p: "trim_start_matches is_ws (renamed old new prev s) = renamed old new prev' (trim_start_matches is_ws s)"
    using renamed_trim_start by blast
  show ?thesis
  proof (cases "trim_start_matches is_ws s")
    case (Cons c r)
    have new: "hd (new @ x) \<noteq> CHR ''#''" "hd (new @ x) \<noteq> CHR '' ''" "new \<noteq> []" for x
      using good_slugD [OF assms(1)] by auto
    have r: "c = CHR ''#'' \<Longrightarrow> r \<noteq> [] \<and> hd r \<noteq> CHR ''#'' \<and> hd r \<noteq> CHR '' ''"
      using assms(2) Cons by (auto simp: is_heading_iff)
    show ?thesis
      using new r renamed_head(2) [of r] by (auto simp: is_heading_iff p Cons)
  qed (simp add: is_heading_iff p)
qed

end
