(* ===== verification/Tag_Texts.thy ===== *)
theory Tag_Texts
  imports Tag_Laws
begin

text \<open>
  From lines to texts: a body is the concatenation of its lines, and a change that keeps the shape of
  the lines that can carry tags is read line by line.
\<close>

section \<open>Lines and their terminators\<close>

definition raw_line :: "markdown_line \<Rightarrow> string" where
  "raw_line l = ml_content l @ ml_terminator l"

definition line_ok :: "markdown_line \<Rightarrow> bool" where
  "line_ok l \<longleftrightarrow> NL \<notin> set (ml_content l) \<and> raw_line l \<noteq> [] \<and>
     (ml_terminator l = [] \<or> ml_terminator l = [CR, NL]
      \<or> ml_terminator l = [NL] \<and> (ml_content l = [] \<or> last (ml_content l) \<noteq> CR))"

definition raw_ok :: "string \<Rightarrow> bool" where
  "raw_ok r \<longleftrightarrow> r \<noteq> [] \<and> NL \<notin> set (butlast r)"

lemma split_line_nl:
  "split_line_terminator (x @ [NL]) = (if x \<noteq> [] \<and> last x = CR then (butlast x, [CR, NL]) else (x, [NL]))"
  by (simp add: split_line_terminator_def Let_def)

lemma split_line_ok:
  assumes "raw_ok r" "split_line_terminator r = (c, t)"
  shows "line_ok \<lparr>ml_content = c, ml_terminator = t, ml_tag_bearing = b\<rparr> \<and> c @ t = r"
proof -
  obtain x y where r: "r = x @ [y]" using assms(1) by (cases r rule: rev_cases) (auto simp: raw_ok_def)
  show ?thesis
  proof (cases "y = NL")
    case True
    then have "NL \<notin> set x" "(if x \<noteq> [] \<and> last x = CR then (butlast x, [CR, NL]) else (x, [NL])) = (c, t)"
      using assms unfolding r by (simp_all add: raw_ok_def split_line_nl del: append_assoc)
    then show ?thesis
      by (cases x rule: rev_cases) (auto simp: r True line_ok_def raw_line_def split: if_splits)
  next
    case False
    then show ?thesis
      using assms unfolding r by (auto simp: split_line_terminator_def raw_ok_def line_ok_def raw_line_def)
  qed
qed

lemma split_raw_line:
  "line_ok l \<Longrightarrow> split_line_terminator (raw_line l) = (ml_content l, ml_terminator l) \<and> raw_ok (raw_line l)"
  by (auto simp: line_ok_def raw_line_def split_line_terminator_def raw_ok_def butlast_append Let_def
      dest: in_set_butlastD last_in_set)

lemma split_inclusive_ok: "r \<in> set (split_inclusive s) \<Longrightarrow> raw_ok r"
  by (induction s arbitrary: r) (auto simp: raw_ok_def split: if_splits list.splits)

lemma split_inclusive_terminated: "r \<in> set (butlast (split_inclusive s)) \<Longrightarrow> last r = NL"
proof (induction s arbitrary: r)
  case (Cons c s)
  show ?case
  proof (cases "split_inclusive s")
    case (Cons l ls)
    moreover have "l \<noteq> []" using split_inclusive_ok [of l s] Cons by (simp add: raw_ok_def)
    ultimately show ?thesis
      using Cons.prems Cons.IH by (auto split: if_splits)
  qed (use Cons in \<open>auto split: if_splits\<close>)
qed simp

lemma split_inclusive_single: "NL \<notin> set s \<Longrightarrow> s \<noteq> [] \<Longrightarrow> split_inclusive s = [s]"
  by (induction s) (auto split: list.splits, (metis list.distinct(1) split_inclusive.simps(1))+)

lemma split_inclusive_concat:
  "\<forall>r \<in> set rs. raw_ok r \<Longrightarrow> \<forall>r \<in> set (butlast rs). last r = NL \<Longrightarrow> split_inclusive (concat rs) = rs"
proof (induction rs)
  case (Cons r rs)
  have r: "r = butlast r @ [last r]" "NL \<notin> set (butlast r)" using Cons.prems(1) by (simp_all add: raw_ok_def)
  show ?case
  proof (cases "last r = NL")
    case True
    then have "split_inclusive (r @ concat rs) = r # split_inclusive (concat rs)"
      using split_inclusive_nl [OF r(2), of "concat rs"] r(1) by (metis append.assoc append_Cons append_Nil)
    then show ?thesis using Cons by (auto split: if_splits)
  next
    case False
    then have "rs = []" using Cons.prems(2) by (auto split: if_splits)
    moreover have "NL \<notin> set r" using r False by (metis UnE empty_iff empty_set insertE list.simps(15) set_append)
    ultimately show ?thesis using split_inclusive_single [of r] Cons.prems(1) by (simp add: raw_ok_def)
  qed
qed simp

lemma walk_raw:
  assumes "\<forall>r \<in> set rs. raw_ok r"
  shows "map raw_line (walk_lines f rs) = rs \<and> (\<forall>l \<in> set (walk_lines f rs). line_ok l)"
  using assms
proof (induction rs arbitrary: f)
  case (Cons r rs)
  obtain c t where ct: "split_line_terminator r = (c, t)" by (cases "split_line_terminator r")
  have "raw_ok r" using Cons.prems by simp
  note split_line_ok [OF this ct]
  then show ?case using Cons by (simp add: ct raw_line_def)
qed simp

lemma markdown_lines_ok: "l \<in> set (markdown_lines s) \<Longrightarrow> line_ok l"
  using walk_raw [of "split_inclusive s" False] split_inclusive_ok by (auto simp: markdown_lines_def)

lemma raw_markdown_lines: "map raw_line (markdown_lines s) = split_inclusive s"
  using walk_raw [of "split_inclusive s" False] split_inclusive_ok by (auto simp: markdown_lines_def)

lemma concat_markdown_lines: "concat (map raw_line (markdown_lines s)) = s"
  by (simp add: raw_markdown_lines)

section \<open>Changes that keep the shape\<close>

text \<open>A line that can carry tags, apart from the fences around it.\<close>

definition prose :: "string \<Rightarrow> bool" where
  "prose c \<longleftrightarrow> \<not> is_fence_line (trim_start_matches is_ws c) \<and> \<not> is_heading_line c"

definition keeps_shape :: "(string \<Rightarrow> string) \<Rightarrow> bool" where
  "keeps_shape f \<longleftrightarrow>
     (\<forall>c. NL \<notin> set c \<longrightarrow> prose c \<longrightarrow>
        prose (f c) \<and> NL \<notin> set (f c) \<and> (f c = [] \<longleftrightarrow> c = []) \<and> (last (f c) = CR \<longrightarrow> c \<noteq> [] \<longrightarrow> last c = CR))"

definition on_prose :: "(string \<Rightarrow> string) \<Rightarrow> markdown_line \<Rightarrow> markdown_line" where
  "on_prose f l = (if ml_tag_bearing l then l\<lparr>ml_content := f (ml_content l)\<rparr> else l)"

lemma walk_prose: "l \<in> set (walk_lines f rs) \<Longrightarrow> ml_tag_bearing l \<Longrightarrow> prose (ml_content l)"
  by (induction rs arbitrary: f) (auto simp: prose_def split: prod.splits if_splits)

lemma on_prose_ok:
  assumes "keeps_shape g" "line_ok l" "ml_tag_bearing l \<longrightarrow> prose (ml_content l)"
  shows "line_ok (on_prose g l)"
  using assms(2,3) assms(1) [unfolded keeps_shape_def, rule_format, of "ml_content l"]
  by (cases "ml_tag_bearing l") (auto simp: line_ok_def on_prose_def raw_line_def)

lemma walk_on_prose:
  assumes "keeps_shape g" "\<forall>r \<in> set rs. raw_ok r"
  shows "walk_lines f (map (raw_line \<circ> on_prose g) (walk_lines f rs)) = map (on_prose g) (walk_lines f rs)"
  using assms(2)
proof (induction rs arbitrary: f)
  case (Cons r rs)
  obtain c t where ct: "split_line_terminator r = (c, t)" by (cases "split_line_terminator r")
  let ?l = "\<lambda>b. \<lparr>ml_content = c, ml_terminator = t, ml_tag_bearing = b\<rparr>"
  have ok: "line_ok (?l b)" "c @ t = r" for b using split_line_ok [OF _ ct] Cons.prems by simp_all
  have prose': "prose (g c)" if "prose c" using assms(1) ok(1) [of True] that by (simp add: keeps_shape_def line_ok_def)
  have split': "split_line_terminator (raw_line (on_prose g (?l b))) = (ml_content (on_prose g (?l b)), t)"
    if "b \<longrightarrow> prose c" for b
    using split_raw_line [OF on_prose_ok [OF assms(1) ok(1)]] that by (simp add: on_prose_def)
  show ?case
  proof (cases "is_fence_line (trim_start_matches is_ws c)")
    case True
    then show ?thesis
      using Cons split' [of False] by (simp add: ct on_prose_def)
  next
    case False
    then show ?thesis
      using Cons split' [of "\<not> f \<and> \<not> is_heading_line c"] prose' by (auto simp: ct on_prose_def prose_def)
  qed
qed simp

lemma markdown_lines_on_prose:
  assumes "keeps_shape g"
  shows "markdown_lines (concat (map (raw_line \<circ> on_prose g) (markdown_lines s))) = map (on_prose g) (markdown_lines s)"
proof -
  let ?ls = "markdown_lines s"
  have ok: "line_ok (on_prose g l)" if "l \<in> set ?ls" for l
    using on_prose_ok [OF assms markdown_lines_ok [OF that]] that walk_prose by (auto simp: markdown_lines_def)
  have "last (raw_line (on_prose g l)) = NL" if l: "l \<in> set (butlast ?ls)" for l
  proof -
    have "raw_line l \<in> set (butlast (split_inclusive s))"
      using l by (simp add: raw_markdown_lines [symmetric] map_butlast [symmetric])
    then have "last (raw_line l) = NL" by (rule split_inclusive_terminated)
    moreover have "line_ok l" using l markdown_lines_ok by (auto dest: in_set_butlastD)
    ultimately have "ml_terminator l \<noteq> [] \<and> last (ml_terminator l) = NL"
      by (auto simp: line_ok_def raw_line_def dest: last_in_set)
    then show ?thesis by (simp add: raw_line_def on_prose_def)
  qed
  then have "split_inclusive (concat (map (raw_line \<circ> on_prose g) ?ls)) = map (raw_line \<circ> on_prose g) ?ls"
    using ok split_raw_line by (intro split_inclusive_concat) (auto simp: map_butlast [symmetric])
  then show ?thesis
    using walk_on_prose [OF assms, of "split_inclusive s" False] split_inclusive_ok
    by (simp add: markdown_lines_def)
qed

end
