(* ===== verification/Tag_Claims.thy ===== *)
theory Tag_Claims
  imports Tag_Texts
begin

text \<open>
  What the writers of tag markers do to the tags that a body has: renaming, appending, removing, and
  that a body without the marker comes back byte by byte.
\<close>

section \<open>Tags of a text\<close>

definition tags_of :: "markdown_line \<Rightarrow> string list" where
  "tags_of l = (if ml_tag_bearing l then collect_line_tags None (ml_content l) else [])"

lemma set_parse_tags: "set (parse_tags s) = (\<Union>l \<in> set (markdown_lines s). set (tags_of l))"
  by (auto simp: parse_tags_def tags_of_def)

lemma parse_tags_set: "parse_tags s = sorted_list_of_set (set (parse_tags s))"
  by (simp add: parse_tags_def)

lemma fold_writes: "fold (\<lambda>l r. r @ f l) ls r = r @ concat (map f ls)"
  by (induction ls arbitrary: r) auto

section \<open>Untouched bodies\<close>

lemma edit_one_untouched:
  "slug \<notin> set (tags_of l) \<Longrightarrow> edit_one_line slug repl l result = result @ raw_line l"
  by (simp add: edit_one_line_def tags_of_def raw_line_def edit_untouched split: if_splits)

lemma edit_lines_untouched:
  "\<forall>l \<in> set ls. slug \<notin> set (tags_of l) \<Longrightarrow> fold (edit_one_line slug repl) ls r = r @ concat (map raw_line ls)"
  by (induction ls arbitrary: r) (simp_all add: edit_one_untouched)

lemma edit_tag_markers_untouched:
  assumes "slug \<notin> set (parse_tags s)"
  shows "edit_tag_markers s slug repl = s"
proof -
  have "\<forall>l \<in> set (markdown_lines s). slug \<notin> set (tags_of l)" using assms by (auto simp: set_parse_tags)
  then show ?thesis by (simp add: edit_tag_markers_def edit_lines_untouched concat_markdown_lines)
qed

section \<open>Renaming\<close>

lemma renamed_no_nl: "NL \<notin> set s \<Longrightarrow> good_slug new \<Longrightarrow> NL \<notin> set (renamed old new prev s)"
proof (induction "length s" arbitrary: prev s rule: less_induct)
  case less
  show ?case
  proof (cases s)
    case (Cons c r)
    obtain span rest where sp: "skip_inline_code r = (span, rest)" by (cases "skip_inline_code r")
    have "NL \<notin> set new" using good_slugD(2) [OF less.prems(2)] by auto
    moreover have "NL \<notin> set (drop (length old) r)" using less.prems(1) Cons by (auto dest: in_set_dropD)
    then have "NL \<notin> set (renamed old new (Some (last old)) (drop (length old) r))"
      using less.prems(2) Cons by (intro less.hyps) simp_all
    moreover have "NL \<notin> set (renamed old new (Some c) rest)" "NL \<notin> set span" "NL \<notin> set (renamed old new (Some c) r)"
      using less Cons skip_inline_code_parts [OF sp] by auto
    ultimately show ?thesis using less.prems(1) Cons sp by auto
  qed simp
qed

lemma renamed_last_cr:
  "good_slug new \<Longrightarrow> s \<noteq> [] \<Longrightarrow> last (renamed old new prev s) = CR \<Longrightarrow> last s = CR"
proof (induction "length s" arbitrary: prev s rule: less_induct)
  case less
  obtain c r where s: "s = c # r" using less.prems(2) by (cases s) auto
  obtain span rest where sp: "skip_inline_code r = (span, rest)" by (cases "skip_inline_code r")
  note parts = skip_inline_code_parts [OF sp]
  have new: "last (CHR ''#'' # new) \<noteq> CR" using good_slugD(1,2) [OF less.prems(1)]
    by (cases new rule: rev_cases) auto
  consider (code) "c = CHR ''`''" | (marker) "c \<noteq> CHR ''`''" "tag_slug_at prev s = Some old"
    | (other) "c \<noteq> CHR ''`''" "tag_slug_at prev s \<noteq> Some old" by blast
  then show ?case
  proof cases
    case code
    then show ?thesis
      using less.prems less.hyps [of rest "Some c"] sp parts by (cases "rest = []") (auto simp: s split: if_splits)
  next
    case marker
    let ?d = "drop (length old) r"
    have "?d \<noteq> [] \<Longrightarrow> last (renamed old new (Some (last old)) ?d) = CR"
      using less.prems marker by (auto simp: s split: if_splits)
    moreover have "?d \<noteq> []" using less.prems(3) marker new by (auto simp: s split: if_splits)
    then have "?d \<noteq> []" "r \<noteq> []" by auto
    ultimately show ?thesis using less.hyps [of ?d "Some (last old)"] less.prems(1) by (simp add: s)
  next
    case other
    then show ?thesis
      using less.prems less.hyps [of r "Some c"] by (auto simp: s split: if_splits)
  qed
qed

lemma renamed_keeps_shape: "good_slug new \<Longrightarrow> keeps_shape (renamed old new None)"
  unfolding keeps_shape_def prose_def
  using renamed_not_fence renamed_not_heading renamed_no_nl renamed_last_cr by simp

lemma rename_tag_lines:
  "rename_tag s old new = concat (map (raw_line \<circ> on_prose (renamed old new None)) (markdown_lines s))"
proof -
  have "edit_one_line old (Some (CHR ''#'' # new)) = (\<lambda>l r. r @ raw_line (on_prose (renamed old new None) l))"
    by (intro ext) (simp add: edit_one_line_def on_prose_def raw_line_def renamed_def split: prod.split)
  then show ?thesis by (simp add: rename_tag_def edit_tag_markers_def fold_writes comp_def)
qed

text \<open>Renaming a tag renames exactly that tag in what the reader finds, and when the new name was
  not in use, renaming back restores the text byte by byte.\<close>

lemma rename_tag_correct:
  assumes "good_slug old" "good_slug new"
  shows "set (parse_tags (rename_tag s old new)) = (\<lambda>g. if g = old then new else g) ` set (parse_tags s)
    \<and> (new \<notin> set (parse_tags s) \<longrightarrow> rename_tag (rename_tag s old new) new old = s)"
proof -
  let ?u = "on_prose (renamed old new None)" and ?v = "on_prose (renamed new old None)"
  have lines: "markdown_lines (rename_tag s old new) = map ?u (markdown_lines s)"
    unfolding rename_tag_lines by (rule markdown_lines_on_prose [OF renamed_keeps_shape [OF assms(2)]])
  have "set (tags_of (?u l)) = (\<lambda>g. if g = old then new else g) ` set (tags_of l)" for l
    by (simp add: tags_of_def on_prose_def collect_renamed [OF assms]) fastforce
  then have "set (parse_tags (rename_tag s old new)) = (\<lambda>g. if g = old then new else g) ` set (parse_tags s)"
    by (auto simp: set_parse_tags lines)
  moreover have "rename_tag (rename_tag s old new) new old = s" if "new \<notin> set (parse_tags s)"
  proof -
    have "?v (?u l) = l" if "l \<in> set (markdown_lines s)" for l
    proof -
      have "new \<notin> set (tags_of l)" using \<open>new \<notin> set (parse_tags s)\<close> that by (auto simp: set_parse_tags)
      then show ?thesis by (simp add: on_prose_def tags_of_def renamed_back [OF assms])
    qed
    then have "map (raw_line \<circ> ?v) (map ?u (markdown_lines s)) = map raw_line (markdown_lines s)" by simp
    then show ?thesis unfolding rename_tag_lines [of "rename_tag s old new"] lines by (simp only: concat_markdown_lines)
  qed
  ultimately show ?thesis by blast
qed

section \<open>Appending\<close>

lemma collect_no_alnum: "\<forall>c \<in> set s. \<not> is_alnum c \<Longrightarrow> collect_line_tags prev s = []"
proof (induction prev s rule: collect_line_tags.induct)
  case (2 prev c r)
  obtain span rest where sp: "skip_inline_code r = (span, rest)" by (cases "skip_inline_code r")
  have "tag_slug_at prev (c # r) = None" using 2(4) by (cases r) (auto simp: tag_slug_at_Cons)
  then show ?case using 2 sp skip_inline_code_parts [OF sp] by (cases "c = CHR ''`''") auto
qed simp

text \<open>A marker after a text that ends in white space: either the text swallows it, or the scan reaches it.\<close>

definition reaches :: "string \<Rightarrow> string \<Rightarrow> char option \<Rightarrow> string \<Rightarrow> bool" where
  "reaches slug t prev m \<longleftrightarrow>
     collect_line_tags prev (m @ t) = collect_line_tags prev m @ [slug]
     \<and> (slug \<notin> set (collect_line_tags prev m) \<longrightarrow>
        (\<forall>repl out. edit_line_markers slug repl prev (m @ t) out = edit_line_markers slug repl (Some (last m)) t (out @ m)))"

lemma append_marker_scan:
  assumes "good_slug slug"
  defines "t \<equiv> CHR ''#'' # slug"
  shows "m \<noteq> [] \<Longrightarrow> is_ws (last m) \<Longrightarrow>
    collect_line_tags prev (m @ t) = collect_line_tags prev m \<or> reaches slug t prev m"
proof (induction prev m rule: collect_line_tags.induct)
  case (2 prev c r)
  have t: "CHR ''`'' \<notin> set t" "t \<noteq> []" using good_slugD(2) [OF assms(1)] by (auto simp: t_def)
  consider (code) "c = CHR ''`''" | (marker) g where "c \<noteq> CHR ''`''" "tag_slug_at prev (c # r) = Some g"
    | (other) "c \<noteq> CHR ''`''" "tag_slug_at prev (c # r) = None" by (cases "tag_slug_at prev (c # r)") auto
  then show ?case
  proof cases
    case code
    obtain span rest where sp: "skip_inline_code r = (span, rest)" by (cases "skip_inline_code r")
    note parts = skip_inline_code_parts [OF sp]
    show ?thesis
    proof (cases "rest = []")
      case True
      have "CHR ''`'' \<notin> set r"
      proof (cases rule: skip_cases [of r])
        case (2 x y)
        then have "last r = CHR ''`''" "r \<noteq> []" using sp True skip_closed [of x y] by auto
        then show ?thesis using \<open>is_ws (last (c # r))\<close> by (simp add: is_ws_def)
      qed
      then have "skip_inline_code (r @ t) = (r @ t, [])" using t(1) by (intro skip_open) simp
      then show ?thesis using sp True code by simp
    next
      case False
      have skip: "skip_inline_code (r @ t) = (span, rest @ t)"
        using skip_inline_code_append [OF sp False, of "rest @ t"] parts by simp
      have "is_ws (last rest)" using 2(5) parts False by simp
      then have "collect_line_tags (Some c) (rest @ t) = collect_line_tags (Some c) rest \<or> reaches slug t (Some c) rest"
        using 2(1) [OF code] sp False by simp
      then show ?thesis using skip sp code parts False by (auto simp: reaches_def)
    qed
  next
    case marker
    note g = slug_at_SomeD [OF marker(2)]
    let ?d = "drop (length g) r"
    have d: "?d \<noteq> []" "last ?d = last (c # r)"
    proof -
      have "last r = last g" if "?d = []" using g(3) that by simp
      moreover have "\<not> is_ws (last g)" using g(4,5) ws_not_slug(1) last_in_set by blast
      ultimately show d: "?d \<noteq> []" using g(3,5) 2(5) by (cases "r = []") auto
      show "last ?d = last (c # r)" using g(3) d by (metis last_ConsR last_append append_is_Nil_conv)
    qed
    have r: "r = g @ ?d" "r @ t = g @ ?d @ t" using g(3) by simp_all
    have "tag_slug_at prev (c # r @ t) = Some g"
      unfolding g(1) r(2) using g d(1) by (intro slug_at_Some) auto
    moreover have "drop (length g) (r @ t) = ?d @ t" by (subst r(2)) simp
    moreover have "collect_line_tags (Some (last g)) (?d @ t) = collect_line_tags (Some (last g)) ?d
        \<or> reaches slug t (Some (last g)) ?d"
      using 2(3) [OF marker] d 2(5) by simp
    moreover have "(out @ c # g) @ ?d = out @ c # r" for out using r(1) by simp
    ultimately show ?thesis
      using marker edit_foreign [of prev c "r @ t" g slug] d by (auto simp: reaches_def simp del: edit_line_markers.simps)
  next
    case other
    show ?thesis
    proof (cases "r = []")
      case True
      then have c: "is_ws c" "c \<noteq> CHR ''#''" using 2(5) by (auto simp: is_ws_def)
      then have "tag_slug_at (Some c) t = Some slug"
        using slug_at_Some [of slug "Some c" "[]"] good_slugD [OF assms(1)] by (auto simp: t_def glued_def is_ws_def is_alnum_def)
      then have "collect_line_tags (Some c) t = [slug]" by (simp add: t_def)
      then show ?thesis using True other c by (simp add: reaches_def tag_slug_at_Cons)
    next
      case False
      have "tag_slug_at prev (c # r @ t) = None" using other(2) False by (auto simp: tag_slug_at_Cons split: if_splits)
      then show ?thesis using 2(2) [OF other] 2(5) False other by (auto simp: reaches_def)
    qed
  qed
qed simp


section \<open>The end of a body\<close>

text \<open>Whether the body ends inside a fenced block.\<close>

fun walk_state :: "bool \<Rightarrow> string list \<Rightarrow> bool" where
  "walk_state f [] = f"
| "walk_state f (r # rs) =
     walk_state (if is_fence_line (trim_start_matches is_ws (fst (split_line_terminator r))) then \<not> f else f) rs"

definition ends_fenced :: "string \<Rightarrow> bool" where
  "ends_fenced s = walk_state False (split_inclusive s)"

lemma walk_lines_append: "walk_lines f (rs @ rs') = walk_lines f rs @ walk_lines (walk_state f rs) rs'"
  by (induction rs arbitrary: f) (auto split: prod.splits)

lemma walk_state_append [simp]: "walk_state f (rs @ rs') = walk_state (walk_state f rs) rs'"
  by (induction rs arbitrary: f) auto

lemma split_single: "NL \<notin> set s \<Longrightarrow> split_line_terminator s = (s, [])"
  by (auto simp: split_line_terminator_def dest: last_in_set)

lemma walk_single:
  "NL \<notin> set c \<Longrightarrow> walk_lines f [c] = [\<lparr>ml_content = c, ml_terminator = [], ml_tag_bearing = (\<not> f \<and> prose c)\<rparr>]"
  by (simp add: split_single prose_def)

lemma prefix_append_stop: "y \<noteq> [] \<Longrightarrow> hd y \<notin> set p \<Longrightarrow> prefix p (t @ y) \<longleftrightarrow> prefix p t"
proof (induction p arbitrary: t)
  case (Cons a p)
  then show ?case by (cases t; cases y) auto
qed simp

lemma trim_start_append:
  "trim_start_matches is_ws (t @ y)
     = (if \<forall>c \<in> set t. is_ws c then trim_start_matches is_ws y else trim_start_matches is_ws t @ y)"
  by (auto simp: trim_start_matches_def dropWhile_append)

lemma fence_append:
  assumes "y \<noteq> []" "hd y = CHR '' '' \<or> hd y = CHR ''#'' \<or> hd y = CR"
    and "\<not> is_fence_line (trim_start_matches is_ws y)"
  shows "is_fence_line (trim_start_matches is_ws (t @ y)) \<longleftrightarrow> is_fence_line (trim_start_matches is_ws t)"
proof (cases "\<forall>c \<in> set t. is_ws c")
  case True
  then have "trim_start_matches is_ws t = []" by (simp add: trim_start_matches_def dropWhile_eq_Nil_conv)
  then show ?thesis using True assms(3) by (simp add: trim_start_append is_fence_line_def)
next
  case False
  then show ?thesis using assms(1,2) by (auto simp: trim_start_append is_fence_line_def prefix_append_stop)
qed

lemma marker_prose:
  assumes "good_slug slug"
  shows "prose (CHR ''#'' # slug)"
proof -
  have "\<not> is_ws (CHR ''#'')" by (simp add: is_ws_def)
  then show ?thesis
    using good_slugD(1,3) [OF assms]
    by (auto simp: prose_def is_heading_iff is_fence_line_def trim_start_matches_def)
qed

lemma marker_tags: "good_slug slug \<Longrightarrow> \<not> glued prev \<Longrightarrow> collect_line_tags prev (CHR ''#'' # slug) = [slug]"
  using slug_at_Some [of slug prev "[]"] good_slugD [of slug] by simp

text \<open>The gap that the writer puts before the marker.\<close>

definition gap :: "string \<Rightarrow> string" where
  "gap s = (if s \<noteq> [] \<and> \<not> is_ws (last s) then '' '' else [])"

lemma inline_prose:
  assumes "good_slug slug" "c \<noteq> []"
  shows "prose (c @ gap c @ CHR ''#'' # slug) \<longleftrightarrow> prose c"
proof -
  let ?y = "gap c @ CHR ''#'' # slug"
  have sp: "is_ws (CHR '' '')" "\<not> is_ws (CHR ''#'')" by (simp_all add: is_ws_def)
  have y: "trim_start_matches is_ws ?y = CHR ''#'' # slug"
    using sp by (simp add: gap_def trim_start_matches_def)
  have fence: "\<not> is_fence_line (trim_start_matches is_ws ?y)" "\<not> is_heading_line ?y"
    using marker_prose [OF assms(1)] sp unfolding prose_def is_heading_iff y
    by (simp_all add: trim_start_matches_def)
  have "is_heading_line (c @ ?y) \<longleftrightarrow> is_heading_line c"
  proof (cases "\<forall>x \<in> set c. is_ws x")
    case True
    then have "trim_start_matches is_ws c = []" by (simp add: trim_start_matches_def dropWhile_eq_Nil_conv)
    then show ?thesis using fence(2) True by (simp add: is_heading_iff trim_start_append)
  next
    case False
    then obtain d r where d: "trim_start_matches is_ws c = d # r"
      by (cases "trim_start_matches is_ws c") (auto simp: trim_start_matches_def dropWhile_eq_Nil_conv)
    have "\<not> is_ws d" using d hd_dropWhile [of is_ws c] by (simp add: trim_start_matches_def)
    moreover have "last c = last (d # r)"
      using d by (metis list.distinct(1) takeWhile_dropWhile_id last_appendR trim_start_matches_def)
    ultimately have "r = [] \<Longrightarrow> gap c = '' ''" using assms(2) by (auto simp: gap_def)
    then show ?thesis using False d by (cases r) (auto simp: is_heading_iff trim_start_append)
  qed
  moreover have "is_fence_line (trim_start_matches is_ws (c @ ?y)) \<longleftrightarrow> is_fence_line (trim_start_matches is_ws c)"
    using fence(1) by (intro fence_append) (auto simp: gap_def)
  ultimately show ?thesis by (simp add: prose_def)
qed

text \<open>A carriage return that becomes part of a line ending changes no tags.\<close>

lemma collect_snoc_ws: "is_ws w \<Longrightarrow> collect_line_tags prev (s @ [w]) = collect_line_tags prev s"
proof (induction prev s rule: collect_line_tags.induct)
  case (1 prev)
  then show ?case by (auto simp: tag_slug_at_Cons is_ws_def)
next
  case (2 prev c r)
  consider (code) "c = CHR ''`''" | (marker) g where "c \<noteq> CHR ''`''" "tag_slug_at prev (c # r) = Some g"
    | (other) "c \<noteq> CHR ''`''" "tag_slug_at prev (c # r) = None" by (cases "tag_slug_at prev (c # r)") auto
  then show ?case
  proof cases
    case code
    obtain span rest where sp: "skip_inline_code r = (span, rest)" by (cases "skip_inline_code r")
    have w: "w \<noteq> CHR ''`''" using 2(4) by (auto simp: is_ws_def)
    have "skip_inline_code (r @ [w]) = (span, rest @ [w]) \<or> rest = [] \<and> snd (skip_inline_code (r @ [w])) = []"
    proof (cases rule: skip_cases [of r])
      case 1
      then show ?thesis using sp w skip_open [of r] skip_open [of "r @ [w]"] by auto
    next
      case (2 x y)
      then show ?thesis using sp skip_closed [of x y] skip_closed [of x "y @ [w]"] by simp
    qed
    then show ?thesis using 2(1) [OF code] 2(4) code sp by auto
  next
    case marker
    note g = slug_at_SomeD [OF marker(2)]
    let ?d = "drop (length g) r"
    have r: "r @ [w] = g @ ?d @ [w]" using g(3) by simp
    have "tag_slug_at prev (c # r @ [w]) = Some g"
      unfolding g(1) r using g 2(4) by (intro slug_at_Some) (auto simp: hd_append)
    moreover have "drop (length g) (r @ [w]) = ?d @ [w]" by (subst r) simp
    ultimately show ?thesis using marker 2(3) [OF marker] 2(4) by simp
  next
    case other
    have "tag_slug_at prev (c # r @ [w]) = None"
      using other(2) 2(4) by (cases r) (auto simp: tag_slug_at_Cons split: if_splits)
    then show ?thesis using 2(2) [OF other] 2(4) other by simp
  qed
qed


lemma cr_tags:
  "(if prose (c @ [CR]) then collect_line_tags None (c @ [CR]) else []) = (if prose c then collect_line_tags None c else [])"
proof -
  have cr: "is_ws CR" "trim_start_matches is_ws [CR] = []" by (simp_all add: is_ws_def trim_start_matches_def)
  have fence: "is_fence_line (trim_start_matches is_ws (c @ [CR])) \<longleftrightarrow> is_fence_line (trim_start_matches is_ws c)"
    by (rule fence_append) (simp_all add: cr is_fence_line_def)
  show ?thesis
  proof (cases "trim_start_matches is_ws c = ''#''")
    case True
    have "c = takeWhile is_ws c @ ''#''" using True takeWhile_dropWhile_id [of is_ws c] by (simp add: trim_start_matches_def)
    then have "\<not> is_alnum x" if "x \<in> set c" for x
      using that ws_not_slug(2) by (metis Un_iff empty_iff empty_set insert_iff list.simps(15) not_slug_chars(6) set_append set_takeWhileD)
    then have "collect_line_tags None c = []" by (intro collect_no_alnum) blast
    then show ?thesis by (simp add: collect_snoc_ws [OF cr(1)])
  next
    case False
    have "is_heading_line (c @ [CR]) \<longleftrightarrow> is_heading_line c"
    proof (cases "\<forall>x \<in> set c. is_ws x")
      case True
      then have "trim_start_matches is_ws c = []" by (simp add: trim_start_matches_def dropWhile_eq_Nil_conv)
      then show ?thesis using True cr by (simp add: is_heading_iff trim_start_append)
    next
      case no_ws: False
      show ?thesis
      proof (cases "trim_start_matches is_ws c")
        case (Cons d r)
        then show ?thesis using False no_ws by (cases r) (auto simp: is_heading_iff trim_start_append)
      qed (use no_ws in \<open>auto simp: trim_start_matches_def dropWhile_eq_Nil_conv\<close>)
    qed
    then show ?thesis using fence by (simp add: prose_def collect_snoc_ws [OF cr(1)])
  qed
qed

text \<open>The last line of a body that no newline ends.\<close>

lemma last_line:
  assumes "s \<noteq> []" "last s \<noteq> NL"
  obtains rs l where "split_inclusive s = rs @ [l]" "NL \<notin> set l" "l \<noteq> []" "last l = last s" "s = concat rs @ l"
    "\<And>x. split_inclusive (s @ x) = rs @ split_inclusive (l @ x)" "\<forall>r \<in> set rs. raw_ok r"
proof -
  let ?rs = "butlast (split_inclusive s)" and ?l = "last (split_inclusive s)"
  have ne: "split_inclusive s \<noteq> []" using assms(1) by (metis concat.simps(1) concat_split_inclusive)
  then have parts: "split_inclusive s = ?rs @ [?l]" by simp
  have ok: "raw_ok ?l" "\<forall>r \<in> set ?rs. raw_ok r" using split_inclusive_ok [of _ s] ne by (auto dest: in_set_butlastD)
  have s: "s = concat ?rs @ ?l" using concat_split_inclusive [of s] parts by (metis append_Nil2 concat.simps concat_append)
  have l: "?l \<noteq> []" "last ?l = last s" using ok(1) s by (auto simp: raw_ok_def) (metis last_appendR)
  moreover have "NL \<notin> set ?l"
  proof -
    have "?l = butlast ?l @ [last ?l]" using l(1) by simp
    then show ?thesis using ok(1) l(2) assms(2) by (metis raw_ok_def Un_iff empty_iff empty_set insert_iff list.simps(15) set_append)
  qed
  moreover have ended: "concat ?rs = [] \<or> last (concat ?rs) = NL"
  proof (cases "?rs = []")
    case False
    then have "last ?rs \<noteq> []" "last (last ?rs) = NL"
      using ok(2) split_inclusive_terminated [of "last ?rs" s] by (auto simp: raw_ok_def)
    then show ?thesis using False by (metis append_butlast_last_id concat.simps(1,2) concat_append append_Nil2 last_appendR)
  qed simp
  have "split_inclusive (concat ?rs) = ?rs"
    using ok(2) split_inclusive_terminated [of _ s] by (intro split_inclusive_concat) (auto dest: in_set_butlastD)
  then have "split_inclusive (s @ x) = ?rs @ split_inclusive (?l @ x)" for x
    using split_inclusive_append [OF ended, of "?l @ x"] s by (metis append.assoc)
  ultimately show ?thesis using that [OF parts] s ok(2) by blast
qed

lemma remove_last_line:
  assumes "markdown_lines s = ls @ [l]" "\<forall>l \<in> set ls. slug \<notin> set (tags_of l)"
  shows "remove_tag s slug = edit_one_line slug None l (concat (map raw_line ls))"
  using edit_lines_untouched [OF assms(2), of None "[]"] by (simp add: remove_tag_def edit_tag_markers_def assms(1))

lemma own_line:
  assumes "good_slug slug" "\<not> ends_fenced s" "s = [] \<or> last s = NL"
  defines "t \<equiv> CHR ''#'' # slug"
  shows "set (parse_tags (s @ t)) = insert slug (set (parse_tags s))"
    and "slug \<notin> set (parse_tags s) \<Longrightarrow> remove_tag (s @ t) slug = drop_last_line_terminator s"
proof -
  have t: "NL \<notin> set t" "t \<noteq> []" using good_slugD(2) [OF assms(1)] by (auto simp: t_def)
  have lines: "markdown_lines (s @ t) = markdown_lines s @ [\<lparr>ml_content = t, ml_terminator = [], ml_tag_bearing = True\<rparr>]"
    unfolding markdown_lines_def split_inclusive_append [OF assms(3)] split_inclusive_single [OF t] walk_lines_append walk_single [OF t(1)]
    using assms(2) marker_prose [OF assms(1)] by (simp add: ends_fenced_def t_def)
  have collect: "collect_line_tags None t = [slug]" using marker_tags [OF assms(1), of None] by (simp add: t_def glued_def)
  then show "set (parse_tags (s @ t)) = insert slug (set (parse_tags s))"
    by (auto simp: set_parse_tags lines) (simp_all add: tags_of_def)
  assume "slug \<notin> set (parse_tags s)"
  then have "\<forall>l \<in> set (markdown_lines s). slug \<notin> set (tags_of l)" by (auto simp: set_parse_tags)
  moreover have "edit_line_markers slug None None t [] = (True, [])"
    using slug_at_Some [of slug None "[]"] good_slugD [OF assms(1)] by (simp add: t_def glued_def rewrite_marker_def)
  ultimately show "remove_tag (s @ t) slug = drop_last_line_terminator s"
    by (simp add: remove_last_line [OF lines] edit_one_line_def tidy_removed_line_def trim_end_matches_def concat_markdown_lines)
qed


lemma inline_marker:
  assumes "good_slug slug" "s \<noteq> []" "last s \<noteq> NL"
  defines "t \<equiv> CHR ''#'' # slug"
  shows "slug \<in> set (parse_tags (s @ gap s @ t))
      \<Longrightarrow> set (parse_tags (s @ gap s @ t)) = insert slug (set (parse_tags s))"
    and "slug \<in> set (parse_tags (s @ gap s @ t)) \<Longrightarrow> slug \<notin> set (parse_tags s) \<Longrightarrow> \<not> is_ws (last s)
      \<Longrightarrow> remove_tag (s @ gap s @ t) slug = s"
proof -
  obtain rs l where l: "split_inclusive s = rs @ [l]" "NL \<notin> set l" "l \<noteq> []" "last l = last s" "s = concat rs @ l"
    "\<And>x. split_inclusive (s @ x) = rs @ split_inclusive (l @ x)" "\<forall>r \<in> set rs. raw_ok r"
    using last_line [OF assms(2,3)] by blast
  let ?f = "walk_state False rs" and ?m = "l @ gap s"
  have gap: "gap s = gap l" using l(3,4) assms(2) by (simp add: gap_def)
  have nl: "NL \<notin> set (l @ gap s @ t)" using l(2) good_slugD(2) [OF assms(1)] by (auto simp: t_def gap_def)
  then have lines: "markdown_lines (s @ gap s @ t) = walk_lines False rs
      @ [\<lparr>ml_content = ?m @ t, ml_terminator = [], ml_tag_bearing = (\<not> ?f \<and> prose l)\<rparr>]"
    using l(3) inline_prose [OF assms(1) l(3)] split_inclusive_single [OF nl] walk_single [OF nl, of ?f]
    by (simp add: markdown_lines_def l(6) walk_lines_append gap t_def del: walk_lines.simps)
  have lines_s: "markdown_lines s = walk_lines False rs
      @ [\<lparr>ml_content = l, ml_terminator = [], ml_tag_bearing = (\<not> ?f \<and> prose l)\<rparr>]"
    using l(1) walk_single [OF l(2), of ?f] by (simp add: markdown_lines_def walk_lines_append del: walk_lines.simps)
  have ws: "?m \<noteq> []" "is_ws (last ?m)" using l(3,4) assms(2) by (auto simp: gap_def is_ws_def)
  have m: "collect_line_tags None ?m = collect_line_tags None l"
    using collect_snoc_ws [of "CHR '' ''" None l] by (simp add: gap_def is_ws_def)
  note scan = append_marker_scan [OF assms(1) ws, of None, folded t_def]
  define before where "before = (\<Union>x \<in> set (walk_lines False rs). set (tags_of x))"
  have tags: "set (parse_tags s) = before \<union> (if \<not> ?f \<and> prose l then set (collect_line_tags None l) else {})"
    "set (parse_tags (s @ gap s @ t))
       = before \<union> (if \<not> ?f \<and> prose l then set (collect_line_tags None (?m @ t)) else {})"
    unfolding set_parse_tags lines lines_s before_def by (simp_all add: tags_of_def Un_commute)
  show set: "set (parse_tags (s @ gap s @ t)) = insert slug (set (parse_tags s))"
    if "slug \<in> set (parse_tags (s @ gap s @ t))"
    using that scan unfolding tags m reaches_def by (auto split: if_splits)
  assume found: "slug \<in> set (parse_tags (s @ gap s @ t))" and new: "slug \<notin> set (parse_tags s)"
    and no_ws: "\<not> is_ws (last s)"
  have bearing: "\<not> ?f \<and> prose l" and "reaches slug t None ?m"
    using found new scan unfolding tags m by (auto split: if_splits)
  moreover have "slug \<notin> set (collect_line_tags None ?m)" "\<forall>x \<in> set (walk_lines False rs). slug \<notin> set (tags_of x)"
    using new bearing unfolding tags m before_def by auto
  moreover have "gap s = '' ''" using no_ws assms(2) by (simp add: gap_def)
  moreover have "tag_slug_at (Some (CHR '' '')) t = Some slug"
    using slug_at_Some [of slug "Some (CHR '' '')" "[]"] good_slugD [OF assms(1)] by (simp add: t_def glued_def)
  ultimately have "edit_line_markers slug None None (?m @ t) [] = (True, l)"
    by (simp add: reaches_def t_def rewrite_marker_def butlast_append)
  moreover have "trim_end_matches is_ws l = l"
    using no_ws l(3,4) by (cases l rule: rev_cases) (auto simp: trim_end_matches_def)
  moreover have "concat (map raw_line (walk_lines False rs)) = concat rs" using walk_raw [OF l(7)] by simp
  ultimately show "remove_tag (s @ gap s @ t) slug = s"
    using remove_last_line [OF lines \<open>\<forall>x \<in> set (walk_lines False rs). slug \<notin> set (tags_of x)\<close>] bearing l(3)
    by (simp add: edit_one_line_def tidy_removed_line_def l(5) [symmetric])
qed

text \<open>A newline after the last line changes neither its tags nor the fences.\<close>

lemma newline_added:
  assumes "s \<noteq> []" "last s \<noteq> NL"
  shows "set (parse_tags (s @ [NL])) = set (parse_tags s)" "ends_fenced (s @ [NL]) = ends_fenced s"
proof -
  obtain rs l where l: "split_inclusive s = rs @ [l]" "NL \<notin> set l" "l \<noteq> []"
    "\<And>x. split_inclusive (s @ x) = rs @ split_inclusive (l @ x)"
    using last_line [OF assms] by metis
  have split: "split_inclusive (s @ [NL]) = rs @ [l @ [NL]]" using split_inclusive_nl [OF l(2), of "[]"] l(4) by simp
  obtain c where c: "last l = CR \<Longrightarrow> l = c @ [CR]" using l(3) by (cases l rule: rev_cases) auto
  define c' where "c' = (if last l = CR then c else l)"
  obtain u where u: "split_line_terminator (l @ [NL]) = (c', u)"
    using c l(3) by (cases "last l = CR") (simp_all add: split_line_nl c'_def)
  have cr: "is_ws CR" "trim_start_matches is_ws [CR] = []" by (simp_all add: is_ws_def trim_start_matches_def)
  have fence: "is_fence_line (trim_start_matches is_ws c') \<longleftrightarrow> is_fence_line (trim_start_matches is_ws l)"
  proof -
    have "\<not> is_fence_line []" by (simp add: is_fence_line_def)
    then show ?thesis using fence_append [of "[CR]" c] c by (auto simp: c'_def cr)
  qed
  have tags: "(if prose c' then collect_line_tags None c' else []) = (if prose l then collect_line_tags None l else [])"
  proof (cases "last l = CR")
    case True
    then show ?thesis unfolding c [OF True] using cr_tags [of c] by (simp only: c'_def True if_True c [OF True, symmetric])
  qed (simp add: c'_def)
  have s: "split_line_terminator l = (l, [])" by (rule split_single [OF l(2)])
  show "ends_fenced (s @ [NL]) = ends_fenced s"
    by (simp add: ends_fenced_def split l(1) u s fence)
  have "markdown_lines (s @ [NL]) = walk_lines False rs
      @ [\<lparr>ml_content = c', ml_terminator = u, ml_tag_bearing = (\<not> walk_state False rs \<and> prose c')\<rparr>]"
    by (simp add: markdown_lines_def split walk_lines_append u prose_def)
  moreover have "markdown_lines s = walk_lines False rs
      @ [\<lparr>ml_content = l, ml_terminator = [], ml_tag_bearing = (\<not> walk_state False rs \<and> prose l)\<rparr>]"
    by (simp add: markdown_lines_def l(1) walk_lines_append s prose_def)
  ultimately show "set (parse_tags (s @ [NL])) = set (parse_tags s)"
    using tags by (auto simp: set_parse_tags tags_of_def split: if_splits)
qed

text \<open>Unless the body ends inside a fenced block, appending a tag adds exactly that tag to what the
  reader finds, and when the tag was not there and the body does not end in white space, removing it
  again restores the body byte by byte.\<close>

lemma append_tag_correct:
  assumes "good_slug slug" "\<not> ends_fenced s"
  shows "set (parse_tags (append_tag s slug)) = insert slug (set (parse_tags s))
    \<and> (slug \<notin> set (parse_tags s) \<longrightarrow> s = [] \<or> \<not> is_ws (last s) \<longrightarrow> remove_tag (append_tag s slug) slug = s)"
proof (cases "slug \<in> set (parse_tags s)")
  case False
  let ?t = "CHR ''#'' # slug" and ?n = "(if s \<noteq> [] \<and> last s \<noteq> NL then s @ [NL] else s)"
  have app: "append_tag s slug = (if slug \<in> set (parse_tags (s @ gap s @ ?t)) then s @ gap s @ ?t else ?n @ ?t)"
    using False by (auto simp: append_tag_def gap_def Let_def)
  have own: "set (parse_tags (?n @ ?t)) = insert slug (set (parse_tags s))"
    "remove_tag (?n @ ?t) slug = drop_last_line_terminator ?n"
    using own_line [OF assms(1), of ?n] newline_added [of s] assms(2) False by auto
  have drop: "drop_last_line_terminator ?n = s" if "s = [] \<or> \<not> is_ws (last s)"
    using that by (auto simp: drop_last_line_terminator_def Let_def is_ws_def)
  show ?thesis
  proof (cases "s = [] \<or> last s = NL")
    case True
    then have "gap s = []" "?n = s" by (auto simp: gap_def is_ws_def)
    then show ?thesis using app own drop by simp
  next
    case False
    then show ?thesis using app own drop inline_marker [OF assms(1), of s] \<open>slug \<notin> set (parse_tags s)\<close> by auto
  qed
qed (auto simp: append_tag_def)

end
