(* ===== verification/Tag_Ops.thy ===== *)
theory Tag_Ops
  imports Tag_Claims Task_Claims "HOL-Library.Word"
begin

text \<open>
  Tags of the board: \<open>swissarmyhammer-kanban/src/tag/add.rs\<close>, \<open>update.rs\<close>, \<open>delete.rs\<close>,
  \<open>shared.rs\<close>, \<open>task/tags.rs\<close>, \<open>task/tag.rs\<close>, \<open>task/untag.rs\<close> and \<open>auto_color.rs\<close>. The tags of a
  task are the markers in its body; a tag entity gives a name its color. \<open>new_id\<close> is the generator of
  ULIDs, given the entities that exist, and \<open>is_ulid\<close> the parser of the ULID library.
\<close>

section \<open>State\<close>

record tag_board =
  tb_tags :: "entity list"
  tb_tasks :: "entity list"

type_synonym 'a tag_op = "(tag_board, kanban_error, 'a) action"

section \<open>Colors\<close>

definition fnv1a :: "string \<Rightarrow> 32 word" where
  "fnv1a s = fold (\<lambda>c hash. Bit_Operations.xor hash (of_nat (of_char c)) * 0x01000193) s 0x811c9dc5"

definition palette :: "string list" where
  "palette =
     [''d73a4a'', ''e36209'', ''f9c513'', ''0e8a16'', ''006b75'', ''1d76db'', ''5319e7'', ''b60205'',
      ''d876e3'', ''0075ca'', ''7057ff'', ''008672'', ''e4e669'', ''bfd4f2'', ''c5def5'', ''fbca04'']"

definition auto_color :: "string \<Rightarrow> string" where
  "auto_color name = palette ! (unat (fnv1a name) mod length palette)"

section \<open>Tag entities\<close>

definition tag_entity_to_json :: "entity \<Rightarrow> json" where
  "tag_entity_to_json e =
     JObject [(''id'', JString (entity_id e)),
              (''name'', JString (case get_str e ''tag_name'' of Some s \<Rightarrow> s | None \<Rightarrow> [])),
              (''description'', JString (case get_str e ''description'' of Some s \<Rightarrow> s | None \<Rightarrow> [])),
              (''color'', JString (case get_str e ''color'' of Some s \<Rightarrow> s | None \<Rightarrow> []))]"

definition find_tag_entity_by_name :: "string \<Rightarrow> entity list \<Rightarrow> entity option" where
  "find_tag_entity_by_name name tags = find (\<lambda>t. get_str t ''tag_name'' = Some name) tags"

definition tag_name_exists_entity :: "string \<Rightarrow> entity list \<Rightarrow> bool" where
  "tag_name_exists_entity name tags \<longleftrightarrow> find_tag_entity_by_name name tags \<noteq> None"

definition new_tag :: "string \<Rightarrow> string \<Rightarrow> string \<Rightarrow> entity" where
  "new_tag i name color =
     set_field ''color'' (JString color) (set_field ''tag_name'' (JString name) (new_entity ''tag'' i))"

definition execute_add_tag ::
  "(entity list \<Rightarrow> string) \<Rightarrow> string \<Rightarrow> string option \<Rightarrow> string option \<Rightarrow> json tag_op" where
  "execute_add_tag new_id name color description b =
     (case find_tag_entity_by_name name (tb_tags b) of
        Some existing \<Rightarrow> (Inr (tag_entity_to_json existing), b)
      | None \<Rightarrow>
          let e = new_tag (new_id (tb_tags b)) name (case color of Some c \<Rightarrow> c | None \<Rightarrow> auto_color name);
              e' = (case description of Some d \<Rightarrow> set_field ''description'' (JString d) e | None \<Rightarrow> e)
          in (Inr (tag_entity_to_json e'), b\<lparr>tb_tags := put_entity e' (tb_tags b)\<rparr>))"

section \<open>Editing every task\<close>

definition body_of :: "entity \<Rightarrow> string" where
  "body_of t = (case get_str t ''body'' of Some s \<Rightarrow> s | None \<Rightarrow> [])"

definition apply_tag_edit_to_all_tasks :: "(string \<Rightarrow> string) \<Rightarrow> entity list \<Rightarrow> entity list" where
  "apply_tag_edit_to_all_tasks edit_fn ts =
     fold (\<lambda>t ts. let new_body = edit_fn (body_of t)
                   in if new_body \<noteq> body_of t then put_entity (set_field ''body'' (JString new_body) t) ts else ts)
       ts ts"

record update_tag =
  ut_id :: string
  ut_name :: "string option"
  ut_color :: "string option"
  ut_description :: "string option"

text \<open>The renaming part of the update: the board with the edited tasks and the tag entity.\<close>

definition rename_part :: "update_tag \<Rightarrow> entity \<Rightarrow> tag_board \<Rightarrow> kanban_error + tag_board \<times> entity" where
  "rename_part op e b =
     (case ut_name op of
        None \<Rightarrow> Inr (b, e)
      | Some name \<Rightarrow>
          let old_name = (case get_str e ''tag_name'' of Some s \<Rightarrow> s | None \<Rightarrow> []);
              normalized = normalize_slug name
          in if normalized = old_name then Inr (b, e)
             else if (case find_tag_entity_by_name normalized (tb_tags b) of
                        Some existing \<Rightarrow> entity_id existing \<noteq> ut_id op | None \<Rightarrow> False)
             then Inl (DuplicateId ''tag'' normalized)
             else Inr (b\<lparr>tb_tasks := apply_tag_edit_to_all_tasks
                                     (\<lambda>body. rename_tag body (normalize_slug old_name) normalized) (tb_tasks b)\<rparr>,
                       set_field ''tag_name'' (JString normalized) e))"

definition execute_update_tag :: "update_tag \<Rightarrow> json tag_op" where
  "execute_update_tag op b =
     (case with_id (ut_id op) (tb_tags b) of
        None \<Rightarrow> (Inl (TagNotFound (ut_id op)), b)
      | Some e \<Rightarrow>
          (case rename_part op e b of
             Inl err \<Rightarrow> (Inl err, b)
           | Inr (b', e1) \<Rightarrow>
               let e2 = (case ut_color op of Some c \<Rightarrow> set_field ''color'' (JString c) e1 | None \<Rightarrow> e1);
                   e3 = (case ut_description op of Some d \<Rightarrow> set_field ''description'' (JString d) e2 | None \<Rightarrow> e2)
               in (Inr (tag_entity_to_json e3), b'\<lparr>tb_tags := put_entity e3 (tb_tags b')\<rparr>)))"

definition execute_delete_tag :: "string \<Rightarrow> json tag_op" where
  "execute_delete_tag i b =
     (case with_id i (tb_tags b) of
        None \<Rightarrow> (Inl (TagNotFound i), b)
      | Some e \<Rightarrow>
          let tag_name = (case get_str e ''tag_name'' of Some s \<Rightarrow> s | None \<Rightarrow> []);
              sl = normalize_slug tag_name
          in (Inr (JObject [(''deleted'', JBool True), (''id'', JString i), (''name'', JString tag_name)]),
              b\<lparr>tb_tasks := apply_tag_edit_to_all_tasks (\<lambda>body. remove_tag body sl) (tb_tasks b),
                tb_tags := filter (\<lambda>t. entity_id t \<noteq> i) (tb_tags b)\<rparr>))"

section \<open>Resolving a tag reference\<close>

definition slug_of :: "entity \<Rightarrow> string" where
  "slug_of tag = normalize_slug (case get_str tag ''tag_name'' of Some s \<Rightarrow> s | None \<Rightarrow> [])"

definition tag_by_short_id :: "entity list \<Rightarrow> string \<Rightarrow> entity option" where
  "tag_by_short_id tags needle =
     (if length needle \<noteq> short_id_len then None
      else find (\<lambda>t. short_id (entity_id t) = lowercase needle) tags)"

definition tag_by_id :: "entity list \<Rightarrow> string \<Rightarrow> entity option" where
  "tag_by_id tags needle =
     (case find (\<lambda>t. lowercase (entity_id t) = lowercase needle) tags of
        Some t \<Rightarrow> Some t
      | None \<Rightarrow> tag_by_short_id tags needle)"

definition resolve_tag_ref :: "(string \<Rightarrow> bool) \<Rightarrow> entity list \<Rightarrow> string \<Rightarrow> kanban_error + string" where
  "resolve_tag_ref is_ulid tags raw =
     (let trimmed = trim raw;
          (needle, explicit_id) = (case strip_prefix_char (CHR ''^'') trimmed of
                                     Some rest \<Rightarrow> (trim rest, True) | None \<Rightarrow> (trimmed, False));
          sl = normalize_slug needle;
          named = (sl \<noteq> [] \<and> (\<exists>t \<in> set tags. slug_of t = sl))
      in if explicit_id \<or> is_ulid needle
         then (case tag_by_id tags needle of
                 Some t \<Rightarrow> Inr (slug_of t)
               | None \<Rightarrow> (if named then Inr sl else Inl (TagNotFound raw)))
         else if named then Inr sl
         else (case tag_by_short_id tags needle of
                 Some t \<Rightarrow> Inr (slug_of t)
               | None \<Rightarrow> (if sl = [] then Inl (ParseError (''invalid tag ref: '' @ raw)) else Inr sl)))"

section \<open>Tagging and untagging a task\<close>

datatype tag_apply = TagAppend | TagReplace | TagRemove

definition strip_all_tags :: "string \<Rightarrow> string" where
  "strip_all_tags body = fold (\<lambda>sl acc. remove_tag acc sl) (parse_tags body) body"

definition rewrite_body :: "string \<Rightarrow> string list \<Rightarrow> tag_apply \<Rightarrow> kanban_error + string" where
  "rewrite_body body slugs mode =
     (let base = (if mode = TagReplace then strip_all_tags body else body);
          new_body = fold (\<lambda>sl acc. if mode = TagRemove then remove_tag acc sl else append_tag acc sl) slugs base;
          applied = parse_tags new_body
      in case find (\<lambda>sl. (sl \<in> set applied) \<noteq> (mode \<noteq> TagRemove)) slugs of
           Some sl \<Rightarrow>
             Inl (ParseError (''could not '' @ (if mode = TagRemove then ''remove'' else ''apply'') @ '' tag '' @ sl))
         | None \<Rightarrow>
             (if mode = TagReplace \<and> length applied \<noteq> length slugs
              then Inl (ParseError ''could not replace the tag set'') else Inr new_body))"

fun resolve_all :: "(string \<Rightarrow> bool) \<Rightarrow> entity list \<Rightarrow> string list \<Rightarrow> kanban_error + string list" where
  "resolve_all is_ulid tags [] = Inr []"
| "resolve_all is_ulid tags (r # rs) =
     (case resolve_tag_ref is_ulid tags r of
        Inl err \<Rightarrow> Inl err
      | Inr sl \<Rightarrow> (case resolve_all is_ulid tags rs of Inl err \<Rightarrow> Inl err | Inr slugs \<Rightarrow> Inr (sl # slugs)))"

text \<open>\<open>retain\<close> with a set of the slugs seen keeps the first of each.\<close>

definition first_of_each :: "string list \<Rightarrow> string list" where
  "first_of_each xs = rev (remdups (rev xs))"

text \<open>The entity with the new body, and whether the body changed.\<close>

definition apply_tag_refs ::
  "(string \<Rightarrow> bool) \<Rightarrow> entity list \<Rightarrow> entity \<Rightarrow> string list \<Rightarrow> tag_apply \<Rightarrow> kanban_error + entity \<times> bool" where
  "apply_tag_refs is_ulid tags e refs mode =
     (if refs = [] \<and> mode \<noteq> TagReplace then Inr (e, False)
      else case resolve_all is_ulid tags refs of
             Inl err \<Rightarrow> Inl err
           | Inr slugs \<Rightarrow>
               (case rewrite_body (body_of e) (first_of_each slugs) mode of
                  Inl err \<Rightarrow> Inl err
                | Inr new_body \<Rightarrow>
                    (if new_body = body_of e then Inr (e, False)
                     else Inr (set_field ''body'' (JString new_body) e, True))))"

definition auto_create_body_tags :: "(entity list \<Rightarrow> string) \<Rightarrow> entity \<Rightarrow> entity list \<Rightarrow> entity list" where
  "auto_create_body_tags new_id e tags =
     fold (\<lambda>name tags. if tag_name_exists_entity name tags then tags
                        else put_entity (new_tag (new_id tags) name (auto_color name)) tags)
       (parse_tags (body_of e)) tags"

definition apply_one_tag_ref ::
  "(string \<Rightarrow> bool) \<Rightarrow> (entity list \<Rightarrow> string) \<Rightarrow> string \<Rightarrow> string \<Rightarrow> tag_apply \<Rightarrow> json tag_op" where
  "apply_one_tag_ref is_ulid new_id i tag_ref mode b =
     (case with_id i (tb_tasks b) of
        None \<Rightarrow> (Inl (EntityNotFound ''task'' i), b)
      | Some e \<Rightarrow>
          (case apply_tag_refs is_ulid (tb_tags b) e [tag_ref] mode of
             Inl err \<Rightarrow> (Inl err, b)
           | Inr (e', changed) \<Rightarrow>
               let b' = (if changed then b\<lparr>tb_tasks := put_entity e' (tb_tasks b)\<rparr> else b)
               in (Inr (task_mutation_ack e'),
                   if mode \<noteq> TagRemove
                   then b'\<lparr>tb_tags := auto_create_body_tags new_id e' (tb_tags b')\<rparr> else b')))"

definition execute_tag_task ::
  "(string \<Rightarrow> bool) \<Rightarrow> (entity list \<Rightarrow> string) \<Rightarrow> string \<Rightarrow> string \<Rightarrow> json tag_op" where
  "execute_tag_task is_ulid new_id i tag = apply_one_tag_ref is_ulid new_id i tag TagAppend"

definition execute_untag_task ::
  "(string \<Rightarrow> bool) \<Rightarrow> (entity list \<Rightarrow> string) \<Rightarrow> string \<Rightarrow> string \<Rightarrow> json tag_op" where
  "execute_untag_task is_ulid new_id i tag = apply_one_tag_ref is_ulid new_id i tag TagRemove"

section \<open>Slugs\<close>

text \<open>What the loop has written so far: nothing, a slug, or a slug and one hyphen.\<close>

definition half_slug :: "string \<times> bool \<Rightarrow> bool" where
  "half_slug acc \<longleftrightarrow>
     (case acc of (out, h) \<Rightarrow>
        out = [] \<and> h \<or> good_slug out \<and> \<not> h \<or> (\<exists>g. good_slug g \<and> out = g @ ''-'' \<and> h))"

lemma half_slug_step: "half_slug acc \<Longrightarrow> half_slug (normalize_step c acc)"
  by (auto simp: half_slug_def normalize_step_def good_slug_def slug_char_def split: prod.splits if_splits)

lemma half_slug_fold: "half_slug acc \<Longrightarrow> half_slug (fold normalize_step raw acc)"
proof (induction raw arbitrary: acc)
  case (Cons c raw)
  show ?case using Cons.IH [OF half_slug_step [OF Cons.prems]] by simp
qed simp

lemma normalize_slug_good: "normalize_slug raw = [] \<or> good_slug (normalize_slug raw)"
proof -
  obtain out h where f: "fold normalize_step raw ([], True) = (out, h)" by (cases "fold normalize_step raw ([], True)")
  have "\<not> is_alnum (CHR ''-'')" by (simp add: is_alnum_def)
  moreover have "half_slug (out, h)" using half_slug_fold [of "([], True)" raw] f by (simp add: half_slug_def)
  ultimately show ?thesis using f by (auto simp: normalize_slug_def half_slug_def good_slug_def)
qed

section \<open>The walk over all tasks\<close>

definition edit_task :: "(string \<Rightarrow> string) \<Rightarrow> entity \<Rightarrow> entity" where
  "edit_task f t = (if f (body_of t) \<noteq> body_of t then set_field ''body'' (JString (f (body_of t))) t else t)"

lemma put_entity_middle:
  assumes "distinct (map entity_id (pre @ t # ts))" "entity_id u = entity_id t"
  shows "put_entity u (pre @ t # ts) = pre @ u # ts"
proof -
  have "map (\<lambda>x. if entity_id x = entity_id u then u else x) xs = xs" if "entity_id t \<notin> entity_id ` set xs" for xs
    using that assms(2) by (induction xs) auto
  moreover have "with_id (entity_id u) (pre @ t # ts) \<noteq> None" using assms(2) by (auto simp: with_id_None)
  ultimately show ?thesis using assms by (simp add: put_entity_def)
qed

lemma apply_edit_eq:
  assumes "distinct (map entity_id ts)"
  shows "apply_tag_edit_to_all_tasks f ts = map (edit_task f) ts"
proof -
  let ?step = "\<lambda>t ts. let new_body = f (body_of t)
      in if new_body \<noteq> body_of t then put_entity (set_field ''body'' (JString new_body) t) ts else ts"
  have "fold ?step xs (pre @ xs) = pre @ map (edit_task f) xs" if "distinct (map entity_id (pre @ xs))" for pre xs
    using that
  proof (induction xs arbitrary: pre)
    case (Cons x xs)
    have "?step x (pre @ x # xs) = (pre @ [edit_task f x]) @ xs"
      using put_entity_middle [OF Cons.prems] by (simp add: edit_task_def Let_def)
    moreover have "distinct (map entity_id ((pre @ [edit_task f x]) @ xs))"
      using Cons.prems by (simp add: edit_task_def)
    ultimately show ?case using Cons.IH [of "pre @ [edit_task f x]"] by simp
  qed simp
  from this [of "[]" ts] assms show ?thesis by (simp add: apply_tag_edit_to_all_tasks_def)
qed

lemma body_of_edit: "body_of (edit_task f t) = f (body_of t)"
  by (simp add: edit_task_def body_of_def)

lemma edit_task_other: "k \<noteq> ''body'' \<Longrightarrow> get_field (edit_task f t) k = get_field t k"
  by (simp add: edit_task_def)

lemma edit_task_simps [simp]:
  "entity_id (edit_task f t) = entity_id t" "f (body_of t) = body_of t \<Longrightarrow> edit_task f t = t"
  by (simp_all add: edit_task_def)

definition tags_on :: "entity \<Rightarrow> string set" where
  "tags_on t = set (parse_tags (body_of t))"

text \<open>C30. Renaming a tag, on a board whose tasks have distinct ids, when the entity has a name whose slug is not
  empty and the slug of the new name is neither empty nor the stored name. When another tag entity has that slug as
  its name, the update is refused as a duplicate and the board stays as it is. Otherwise it succeeds: the tag entity
  has the new slug as its name and keeps its other fields, colour and description aside; all other tag entities are as
  they were; and on every task the slug of the old name is replaced by the new slug among the tags that the
  reader finds, while the id, the other fields and the other tags stay, and a task without that slug is not touched.
  What is renamed in the bodies is the slug of the old name: a tag entity whose name is no slug, like
  \<open>bug-\<close>, loses its own markers (\<open>rename_misses_hyphen_tag\<close>).\<close>

theorem update_tag_renames_everywhere:
  assumes "distinct (map entity_id (tb_tasks b))"
    and "with_id (ut_id op) (tb_tags b) = Some e" "get_str e ''tag_name'' = Some name_before" "ut_name op = Some name"
    and "normalize_slug name_before = old" "old \<noteq> []" "normalize_slug name = new" "new \<noteq> []" "new \<noteq> name_before"
  shows "if \<exists>x. find_tag_entity_by_name new (tb_tags b) = Some x \<and> entity_id x \<noteq> ut_id op
    then execute_update_tag op b = (Inl (DuplicateId ''tag'' new), b)
    else \<exists>r b'. execute_update_tag op b = (Inr r, b')
    \<and> (\<exists>t. with_id (ut_id op) (tb_tags b') = Some t \<and> get_str t ''tag_name'' = Some new
         \<and> (\<forall>k. k \<notin> {''tag_name'', ''color'', ''description''} \<longrightarrow> get_field t k = get_field e k))
    \<and> (\<forall>j. j \<noteq> ut_id op \<longrightarrow> with_id j (tb_tags b') = with_id j (tb_tags b))
    \<and> list_all2 (\<lambda>t t'. entity_id t' = entity_id t \<and> (\<forall>k. k \<noteq> ''body'' \<longrightarrow> get_field t' k = get_field t k)
         \<and> tags_on t' = (\<lambda>g. if g = old then new else g) ` tags_on t \<and> (old \<notin> tags_on t \<longrightarrow> t' = t))
       (tb_tasks b) (tb_tasks b')"
proof (cases "\<exists>x. find_tag_entity_by_name new (tb_tags b) = Some x \<and> entity_id x \<noteq> ut_id op")
  case True
  then obtain x where x: "find_tag_entity_by_name new (tb_tags b) = Some x" "entity_id x \<noteq> ut_id op" by blast
  then have "rename_part op e b = Inl (DuplicateId ''tag'' new)" using assms(3-9) by (simp add: rename_part_def Let_def)
  then show ?thesis using True assms(2) by (simp add: execute_update_tag_def)
next
  case False
  let ?f = "\<lambda>body. rename_tag body old new"
  have good: "good_slug old" "good_slug new" using normalize_slug_good assms(5-8) by metis+
  have part: "rename_part op e b
      = Inr (b\<lparr>tb_tasks := map (edit_task ?f) (tb_tasks b)\<rparr>, set_field ''tag_name'' (JString new) e)"
    using assms False by (auto simp: rename_part_def Let_def apply_edit_eq split: option.split)
  obtain e3 where e3: "execute_update_tag op b
      = (Inr (tag_entity_to_json e3), b\<lparr>tb_tasks := map (edit_task ?f) (tb_tasks b), tb_tags := put_entity e3 (tb_tags b)\<rparr>)"
    "entity_id e3 = ut_id op" "get_str e3 ''tag_name'' = Some new"
    "\<forall>k. k \<notin> {''tag_name'', ''color'', ''description''} \<longrightarrow> get_field e3 k = get_field e k"
    using assms(2) with_id_Some [OF assms(2)]
    by (auto simp: execute_update_tag_def part Let_def split: option.splits)
  have "with_id (ut_id op) (put_entity e3 (tb_tags b)) = Some e3"
    using with_id_put(1) [of e3 "tb_tags b"] e3(2) by simp
  moreover have "with_id j (put_entity e3 (tb_tags b)) = with_id j (tb_tags b)" if "j \<noteq> ut_id op" for j
    using with_id_put(2) [of j e3 "tb_tags b"] e3(2) that by simp
  moreover have "tags_on (edit_task ?f t) = (\<lambda>g. if g = old then new else g) ` tags_on t" for t
    using rename_tag_correct [OF good, of "body_of t"] by (simp add: tags_on_def body_of_edit)
  moreover have "old \<notin> tags_on t \<Longrightarrow> edit_task ?f t = t" for t
    by (simp add: tags_on_def rename_tag_def edit_tag_markers_untouched)
  ultimately have "execute_update_tag op b
      = (Inr (tag_entity_to_json e3), b\<lparr>tb_tasks := map (edit_task ?f) (tb_tasks b), tb_tags := put_entity e3 (tb_tags b)\<rparr>)
    \<and> with_id (ut_id op) (put_entity e3 (tb_tags b)) = Some e3
    \<and> (\<forall>j. j \<noteq> ut_id op \<longrightarrow> with_id j (put_entity e3 (tb_tags b)) = with_id j (tb_tags b))
    \<and> list_all2 (\<lambda>t t'. entity_id t' = entity_id t \<and> (\<forall>k. k \<noteq> ''body'' \<longrightarrow> get_field t' k = get_field t k)
         \<and> tags_on t' = (\<lambda>g. if g = old then new else g) ` tags_on t \<and> (old \<notin> tags_on t \<longrightarrow> t' = t))
       (tb_tasks b) (map (edit_task ?f) (tb_tasks b))"
    using e3(1) edit_task_other by (auto simp: list_all2_conv_all_nth)
  then show ?thesis
    unfolding if_not_P [OF False] using e3(3,4)
    by (intro exI [of _ "tag_entity_to_json e3"]
        exI [of _ "b\<lparr>tb_tasks := map (edit_task ?f) (tb_tasks b), tb_tags := put_entity e3 (tb_tags b)\<rparr>"]) simp
qed

lemma tag_entity_found: "tag_name_exists_entity name tags \<longleftrightarrow> (\<exists>c \<in> set tags. get_str c ''tag_name'' = Some name)"
  by (auto simp: tag_name_exists_entity_def find_tag_entity_by_name_def find_None_iff)

section \<open>Tagging\<close>

lemma auto_create_names:
  assumes "\<And>ts. new_id ts \<notin> entity_id ` set ts"
  shows "\<exists>minted. auto_create_body_tags new_id e tags = tags @ minted
    \<and> (\<forall>g \<in> tags_on e. tag_name_exists_entity g (tags @ minted))"
proof -
  let ?step = "\<lambda>name tags. if tag_name_exists_entity name tags then tags
      else put_entity (new_tag (new_id tags) name (auto_color name)) tags"
  have step: "?step name ts = ts @ (if tag_name_exists_entity name ts then [] else [new_tag (new_id ts) name (auto_color name)])"
    for name ts
  proof -
    have "with_id (new_id ts) ts = None" unfolding with_id_None using assms [of ts] by force
    then show ?thesis by (simp add: put_entity_def new_tag_def)
  qed
  have "\<exists>minted. fold ?step names ts = ts @ minted \<and> (\<forall>g \<in> set names. tag_name_exists_entity g (ts @ minted))" for names ts
  proof (induction names arbitrary: ts)
    case (Cons n ns)
    obtain minted where m: "fold ?step ns (?step n ts) = ?step n ts @ minted"
      "\<forall>g \<in> set ns. tag_name_exists_entity g (?step n ts @ minted)" using Cons.IH by blast
    have "tag_name_exists_entity n (?step n ts @ minted)"
      unfolding step by (auto simp: tag_entity_found new_tag_def)
    then show ?case using m unfolding step by auto
  qed simp
  then show ?thesis by (auto simp: auto_create_body_tags_def tags_on_def)
qed

lemma resolve_good: "resolve_tag_ref is_ulid tags raw = Inr sl \<Longrightarrow> sl = [] \<or> good_slug sl"
  using normalize_slug_good
  by (auto simp: resolve_tag_ref_def Let_def slug_of_def split: prod.splits option.splits if_splits)

text \<open>C31. Tagging a task that is on the board succeeds when the reference resolves to a slug that is not empty, the
  body does not end inside a fenced block, and ids for new tags are fresh: the task gets exactly that tag besides
  those it had, no other task changes, tag entities are only added, and every tag of the task has a tag entity
  afterwards. A body whose last fence is still open takes no tag (\<open>open_fence_refuses_tag\<close>).\<close>

theorem tag_task_correct:
  assumes "with_id i (tb_tasks b) = Some e" "resolve_tag_ref is_ulid (tb_tags b) ref = Inr sl" "sl \<noteq> []"
    and "\<not> ends_fenced (body_of e)" "\<And>ts. new_id ts \<notin> entity_id ` set ts"
  shows "\<exists>r b' t minted. execute_tag_task is_ulid new_id i ref b = (Inr r, b')
    \<and> with_id i (tb_tasks b') = Some t \<and> tags_on t = insert sl (tags_on e)
    \<and> (\<forall>j. j \<noteq> i \<longrightarrow> with_id j (tb_tasks b') = with_id j (tb_tasks b))
    \<and> tb_tags b' = tb_tags b @ minted
    \<and> (\<forall>g \<in> tags_on t. \<exists>c \<in> set (tb_tags b'). get_str c ''tag_name'' = Some g)"
proof -
  have good: "good_slug sl" using resolve_good [OF assms(2)] assms(3) by blast
  let ?body = "append_tag (body_of e) sl"
  have app: "set (parse_tags ?body) = insert sl (tags_on e)"
    using append_tag_correct [OF good assms(4)] by (simp add: tags_on_def)
  then have rewrite: "rewrite_body (body_of e) [sl] TagAppend = Inr ?body" by (simp add: rewrite_body_def Let_def)
  define t where "t = (if ?body = body_of e then e else set_field ''body'' (JString ?body) e)"
  have refs: "apply_tag_refs is_ulid (tb_tags b) e [ref] TagAppend = Inr (t, ?body \<noteq> body_of e)"
    by (simp add: apply_tag_refs_def assms(2) first_of_each_def rewrite t_def)
  have "body_of t = ?body" by (simp add: t_def body_of_def)
  then have tags: "tags_on t = insert sl (tags_on e)" by (simp add: app tags_on_def)
  have i: "entity_id e = i" using with_id_Some [OF assms(1)] by blast
  then have t: "entity_id t = i" by (simp add: t_def)
  define ts where "ts = (if ?body \<noteq> body_of e then put_entity t (tb_tasks b) else tb_tasks b)"
  have "with_id i ts = Some t" "\<And>j. j \<noteq> i \<Longrightarrow> with_id j ts = with_id j (tb_tasks b)"
    using with_id_put(1) [of t] with_id_put(2) [of _ t] t assms(1) by (auto simp: ts_def t_def)
  moreover obtain minted where "auto_create_body_tags new_id t (tb_tags b) = tb_tags b @ minted"
    "\<forall>g \<in> tags_on t. tag_name_exists_entity g (tb_tags b @ minted)"
    using auto_create_names [OF assms(5)] by blast
  moreover have "execute_tag_task is_ulid new_id i ref b
      = (Inr (task_mutation_ack t), b\<lparr>tb_tasks := ts, tb_tags := auto_create_body_tags new_id t (tb_tags b)\<rparr>)"
    by (simp add: execute_tag_task_def apply_one_tag_ref_def assms(1) refs Let_def ts_def)
  ultimately show ?thesis using tags by (auto simp: tag_entity_found)
qed

section \<open>Where the writers and the reader disagree\<close>

definition sample_task :: "string \<Rightarrow> string \<Rightarrow> entity" where
  "sample_task i body = set_field ''body'' (JString body) (new_entity ''task'' i)"

definition hyphen_board :: tag_board where
  "hyphen_board =
     \<lparr>tb_tags = auto_create_body_tags (\<lambda>ts. if ts = [] then ''T1'' else ''T2'') (sample_task ''1'' ''#bug-'') [],
      tb_tasks = [sample_task ''1'' ''#bug-'', sample_task ''2'' ''fix #bug'']\<rparr>"

text \<open>The reader accepts a slug that ends in a hyphen and the board mints a tag entity of that name, but
  every operation normalizes the name first: deleting the tag \<open>bug-\<close> leaves its marker where it is and
  removes the tag \<open>bug\<close> from another task.\<close>

lemma delete_tag_hits_another_tag:
  "map (\<lambda>c. get_str c ''tag_name'') (tb_tags hyphen_board) = [Some ''bug-'']
   \<and> map (parse_tags \<circ> body_of) (tb_tasks hyphen_board) = [[''bug-''], [''bug'']]
   \<and> (\<exists>r b'. execute_delete_tag ''T1'' hyphen_board = (Inr r, b') \<and> tb_tags b' = []
        \<and> map (parse_tags \<circ> body_of) (tb_tasks b') = [[''bug-''], []])"
proof -
  have p: "parse_tags ''#bug-'' = [''bug-'']" "parse_tags ''fix #bug'' = [''bug'']"
    "remove_tag ''#bug-'' ''bug'' = ''#bug-''" "remove_tag ''fix #bug'' ''bug'' = ''fix''" "parse_tags ''fix'' = []"
    "normalize_slug ''bug-'' = ''bug''" by code_simp+
  have body: "body_of (sample_task i x) = x" "entity_id (sample_task i x) = i" for i x
    by (simp_all add: sample_task_def body_of_def)
  have tags: "tb_tags hyphen_board = [new_tag ''T1'' ''bug-'' (auto_color ''bug-'')]"
    by (simp add: hyphen_board_def auto_create_body_tags_def body p tag_name_exists_entity_def
        find_tag_entity_by_name_def put_entity_def with_id_def)
  have "apply_tag_edit_to_all_tasks (\<lambda>body. remove_tag body ''bug'') (tb_tasks hyphen_board)
      = [sample_task ''1'' ''#bug-'', edit_task (\<lambda>body. remove_tag body ''bug'') (sample_task ''2'' ''fix #bug'')]"
    by (subst apply_edit_eq) (simp_all add: hyphen_board_def body p edit_task_def)
  then show ?thesis
    by (simp add: execute_delete_tag_def tags with_id_def new_tag_def Let_def body p body_of_edit)
      (simp add: hyphen_board_def body p)
qed

text \<open>A removal can turn its line into a fence or glue what was apart.\<close>

lemma removal_opens_fence:
  "parse_tags (''#bug ```'' @ [NL] @ ''#x'') = [''bug'', ''x'']"
  "parse_tags (remove_tag (''#bug ```'' @ [NL] @ ''#x'') ''bug'') = []"
  by code_simp+

lemma removal_makes_tag:
  "parse_tags ''see ##bug fix'' = [''bug'']" "parse_tags (remove_tag ''see ##bug fix'' ''bug'') = [''fix'']"
  by code_simp+

text \<open>Renaming the tag \<open>bug-\<close> likewise leaves its own marker and renames the marker of \<open>bug\<close>.\<close>

lemma rename_misses_hyphen_tag:
  "\<exists>r b'. execute_update_tag \<lparr>ut_id = ''T1'', ut_name = Some ''x'', ut_color = None, ut_description = None\<rparr> hyphen_board
      = (Inr r, b') \<and> map (parse_tags \<circ> body_of) (tb_tasks b') = [[''bug-''], [''x'']]"
proof -
  have p: "parse_tags ''#bug-'' = [''bug-'']" "parse_tags ''fix #bug'' = [''bug'']" "parse_tags ''fix #x'' = [''x'']"
    "rename_tag ''#bug-'' ''bug'' ''x'' = ''#bug-''" "rename_tag ''fix #bug'' ''bug'' ''x'' = ''fix #x''"
    "normalize_slug ''bug-'' = ''bug''" "normalize_slug ''x'' = ''x''" by code_simp+
  have body: "body_of (sample_task i x) = x" "entity_id (sample_task i x) = i" for i x
    by (simp_all add: sample_task_def body_of_def)
  have tags: "tb_tags hyphen_board = [new_tag ''T1'' ''bug-'' (auto_color ''bug-'')]"
    by (simp add: hyphen_board_def auto_create_body_tags_def body p tag_name_exists_entity_def
        find_tag_entity_by_name_def put_entity_def with_id_def)
  have "apply_tag_edit_to_all_tasks (\<lambda>body. rename_tag body ''bug'' ''x'') (tb_tasks hyphen_board)
      = [sample_task ''1'' ''#bug-'', edit_task (\<lambda>body. rename_tag body ''bug'' ''x'') (sample_task ''2'' ''fix #bug'')]"
    by (subst apply_edit_eq) (simp_all add: hyphen_board_def body p edit_task_def)
  then show ?thesis
    by (simp add: execute_update_tag_def rename_part_def find_tag_entity_by_name_def tags with_id_def new_tag_def Let_def
        body p body_of_edit)
qed

text \<open>A body that ends inside a fenced block takes no tag: the operation answers a parse error.\<close>

lemma open_fence_refuses_tag:
  "rewrite_body (''```'' @ [NL] @ ''x'') [''bug''] TagAppend = Inl (ParseError ''could not apply tag bug'')"
  by code_simp

section \<open>Witnesses\<close>

lemma good_slug_code: "good_slug ''bug''" "good_slug ''defect''" "\<not> ends_fenced ''fix #bug''" "normalize_slug ''bug'' = ''bug''"
    "normalize_slug ''defect'' = ''defect''" "parse_tags ''fix #bug'' = [''bug'']" "\<not> ends_fenced ''fix''" "parse_tags ''fix'' = []"
  by code_simp+

definition bug_board :: tag_board where
  "bug_board = \<lparr>tb_tags = [new_tag ''T1'' ''bug'' ''d73a4a''], tb_tasks = [sample_task ''1'' ''fix'', sample_task ''2'' ''fix #bug'']\<rparr>"

lemma sample_simps [simp]:
  "body_of (sample_task i x) = x" "entity_id (sample_task i x) = i" "entity_id (new_tag i n c) = i"
  "get_str (new_tag i n c) ''tag_name'' = Some n"
  by (simp_all add: sample_task_def body_of_def new_tag_def)

theorem update_tag_renames_everywhere_witness:
  "\<exists>r b'. execute_update_tag \<lparr>ut_id = ''T1'', ut_name = Some ''defect'', ut_color = None, ut_description = None\<rparr> bug_board
      = (Inr r, b') \<and> map tags_on (tb_tasks b') = [{}, {''defect''}]"
proof -
  have "with_id ''T1'' (tb_tags bug_board) = Some (new_tag ''T1'' ''bug'' ''d73a4a'')"
    and free: "find_tag_entity_by_name ''defect'' (tb_tags bug_board) = None" and "distinct (map entity_id (tb_tasks bug_board))"
    by (simp_all add: bug_board_def with_id_def find_tag_entity_by_name_def)
  moreover have "map tags_on (tb_tasks bug_board) = [{}, {''bug''}]" by (simp add: bug_board_def tags_on_def good_slug_code)
  ultimately show ?thesis
    using update_tag_renames_everywhere [of bug_board "\<lparr>ut_id = ''T1'', ut_name = Some ''defect'', ut_color = None, ut_description = None\<rparr>"
        "new_tag ''T1'' ''bug'' ''d73a4a''" "''bug''" "''defect''" "''bug''" "''defect''"]
    by (simp add: good_slug_code free) (auto simp: list_all2_Cons1 bug_board_def)
qed

theorem tag_task_correct_witness:
  "\<exists>r b' t. execute_tag_task (\<lambda>s. False) (\<lambda>ts. concat (map entity_id ts) @ ''T'') ''1'' ''bug'' bug_board = (Inr r, b')
     \<and> with_id ''1'' (tb_tasks b') = Some t \<and> tags_on t = {''bug''}"
proof -
  have fresh: "concat (map entity_id ts) @ ''T'' \<notin> entity_id ` set ts" for ts
  proof -
    have "\<forall>i \<in> entity_id ` set ts. length i \<le> length (concat (map entity_id ts))"
      by (induction ts) (simp_all, fastforce)
    from bspec [OF this, of "concat (map entity_id ts) @ ''T''"] show ?thesis by auto
  qed
  have "trim ''bug'' = ''bug''" by code_simp
  then have "resolve_tag_ref (\<lambda>s. False) (tb_tags bug_board) ''bug'' = Inr ''bug''"
    by (simp add: resolve_tag_ref_def strip_prefix_char_def slug_of_def bug_board_def good_slug_code)
  moreover have "with_id ''1'' (tb_tasks bug_board) = Some (sample_task ''1'' ''fix'')"
    by (simp add: bug_board_def with_id_def)
  ultimately have "\<exists>r b' t minted. execute_tag_task (\<lambda>s. False) (\<lambda>ts. concat (map entity_id ts) @ ''T'') ''1'' ''bug'' bug_board = (Inr r, b')
      \<and> with_id ''1'' (tb_tasks b') = Some t \<and> tags_on t = insert ''bug'' (tags_on (sample_task ''1'' ''fix''))
      \<and> (\<forall>j. j \<noteq> ''1'' \<longrightarrow> with_id j (tb_tasks b') = with_id j (tb_tasks bug_board))
      \<and> tb_tags b' = tb_tags bug_board @ minted
      \<and> (\<forall>g \<in> tags_on t. \<exists>c \<in> set (tb_tags b'). get_str c ''tag_name'' = Some g)"
    by (intro tag_task_correct fresh) (simp_all add: good_slug_code)
  then show ?thesis by (fastforce simp: tags_on_def good_slug_code)
qed

end
