(* ===== verification/Lease.thy ===== *)
theory Lease
  imports Rust_Num "HOL-Library.Word"
begin

text \<open>
  The leadership lease of \<open>swissarmyhammer-leader-election/src/lease.rs\<close>: a record in the lock file that
  a leader refreshes and that a candidate may take over once it is stale, behind a claim marker that is
  created exclusively. First every operation by itself, then calls of \<open>try_claim_lease\<close> that run
  interleaved with each other, with crashes and with heartbeats.

  The file system is the text of the lock file, the modification time of the marker and the clock, all
  times in milliseconds. A write of the lease is two steps, as in the code: the record over the
  old text, and the new length. A reader between them may see a text that is no record. Printing and
  parsing a record is an argument (\<open>serde_json\<close>). A call that no other step comes between runs
  \<open>try_claim_lease\<close>; between two steps of \<open>claim_step\<close> anything may happen.
\<close>

section \<open>The lease\<close>

definition heartbeat_interval :: nat where "heartbeat_interval = 5000"

definition lease_ttl :: nat where "lease_ttl = 15000"

definition claim_ttl :: nat where "claim_ttl = 2000"

record lease =
  l_pid :: "32 word"
  l_nonce :: "64 word"
  l_heartbeat :: nat

text \<open>The subtraction saturates, as \<open>saturating_sub\<close> does.\<close>

definition is_stale :: "lease \<Rightarrow> nat \<Rightarrow> nat \<Rightarrow> bool" where
  "is_stale l now ttl \<longleftrightarrow> now - l_heartbeat l > ttl"

datatype claim_outcome = Won "64 word" | Lost

definition new_nonce :: "64 word \<Rightarrow> 32 word \<Rightarrow> 64 word \<Rightarrow> 64 word" where
  "new_nonce nanos pid seq =
     nanos * 0x9E3779B97F4A7C15 + push_bit 32 (ucast pid) + seq * 0xD1B54A32D192ED03"

text \<open>The JSON library: a record followed by white space parses as the record, a record followed by
  anything else is an error (trailing characters).\<close>

record lease_json =
  lj_render :: "lease \<Rightarrow> string"
  lj_parse :: "string \<Rightarrow> lease option"

definition json_space :: "char \<Rightarrow> bool" where
  "json_space c \<longleftrightarrow> c \<in> {CHR '' '', CHR 0x09, CHR 0x0A, CHR 0x0D}"

definition json_ok :: "lease_json \<Rightarrow> bool" where
  "json_ok js \<longleftrightarrow> (\<forall>l t. lj_parse js (lj_render js l @ t) = (if list_all json_space t then Some l else None))"

section \<open>The files\<close>

text \<open>\<open>None\<close> is a missing lock file; opening it for writing creates it empty, which reads as no lease too.\<close>

record lease_fs =
  fs_text :: "string option"
  fs_claim :: "nat option"
  fs_now :: nat

definition read_lease :: "lease_json \<Rightarrow> lease_fs \<Rightarrow> lease option" where
  "read_lease js fs = (case fs_text fs of None \<Rightarrow> None | Some t \<Rightarrow> lj_parse js t)"

definition write_all :: "string \<Rightarrow> lease_fs \<Rightarrow> lease_fs" where
  "write_all json fs =
     fs\<lparr>fs_text := Some (json @ drop (length json) (case fs_text fs of None \<Rightarrow> [] | Some old \<Rightarrow> old))\<rparr>"

text \<open>A longer length pads the file with zero bytes.\<close>

definition set_len :: "nat \<Rightarrow> lease_fs \<Rightarrow> lease_fs" where
  "set_len n fs = fs\<lparr>fs_text := map_option (\<lambda>t. take n t @ replicate (n - length t) (CHR 0x00)) (fs_text fs)\<rparr>"

text \<open>Which call of the operating system fails, if any.\<close>

datatype io_fault = NoFault | WriteFails | TrimFails

definition write_lease_atomic :: "lease_json \<Rightarrow> io_fault \<Rightarrow> lease \<Rightarrow> lease_fs \<Rightarrow> bool \<times> lease_fs" where
  "write_lease_atomic js io l fs =
     (let json = lj_render js l
      in if io = WriteFails then (False, fs)
         else if io = TrimFails then (False, write_all json fs)
         else (True, set_len (length json) (write_all json fs)))"

definition lease_held_by :: "lease_json \<Rightarrow> lease_fs \<Rightarrow> 64 word \<Rightarrow> bool" where
  "lease_held_by js fs nonce = (case read_lease js fs of None \<Rightarrow> False | Some l \<Rightarrow> l_nonce l = nonce)"

definition create_claim_marker :: "lease_fs \<Rightarrow> bool \<times> lease_fs" where
  "create_claim_marker fs =
     (case fs_claim fs of
        None \<Rightarrow> (True, fs\<lparr>fs_claim := Some (fs_now fs)\<rparr>)
      | Some _ \<Rightarrow> (False, fs))"

definition remove_claim_marker :: "lease_fs \<Rightarrow> lease_fs" where
  "remove_claim_marker fs = fs\<lparr>fs_claim := None\<rparr>"

text \<open>A marker from the future has an age of 0.\<close>

definition claim_marker_is_abandoned :: "lease_fs \<Rightarrow> bool" where
  "claim_marker_is_abandoned fs =
     (case fs_claim fs of None \<Rightarrow> True | Some modified \<Rightarrow> fs_now fs - modified > claim_ttl)"

definition acquire_claim_marker :: "lease_fs \<Rightarrow> bool \<times> lease_fs" where
  "acquire_claim_marker fs =
     (case create_claim_marker fs of
        (True, fs1) \<Rightarrow> (True, fs1)
      | (False, fs1) \<Rightarrow>
          if claim_marker_is_abandoned fs1 then create_claim_marker (remove_claim_marker fs1) else (False, fs1))"

definition live_lease :: "lease_json \<Rightarrow> nat \<Rightarrow> lease_fs \<Rightarrow> bool" where
  "live_lease js ttl fs =
     (case read_lease js fs of Some existing \<Rightarrow> \<not> is_stale existing (fs_now fs) ttl | None \<Rightarrow> False)"

definition try_claim_lease ::
  "lease_json \<Rightarrow> io_fault \<Rightarrow> 32 word \<Rightarrow> 64 word \<Rightarrow> nat \<Rightarrow> lease_fs \<Rightarrow> claim_outcome \<times> lease_fs" where
  "try_claim_lease js io pid nonce ttl fs =
     (if live_lease js ttl fs then (Lost, fs)
      else case acquire_claim_marker fs of
             (False, fs1) \<Rightarrow> (Lost, fs1)
           | (True, fs1) \<Rightarrow>
               if live_lease js ttl fs1 then (Lost, remove_claim_marker fs1)
               else case write_lease_atomic js io \<lparr>l_pid = pid, l_nonce = nonce, l_heartbeat = fs_now fs1\<rparr> fs1 of
                      (written, fs2) \<Rightarrow> (if written then Won nonce else Lost, remove_claim_marker fs2))"

definition heartbeat ::
  "lease_json \<Rightarrow> io_fault \<Rightarrow> 32 word \<Rightarrow> 64 word \<Rightarrow> lease_fs \<Rightarrow> bool \<times> lease_fs" where
  "heartbeat js io pid nonce fs =
     (case read_lease js fs of
        None \<Rightarrow> (False, fs)
      | Some current \<Rightarrow>
          if l_nonce current \<noteq> nonce then (False, fs)
          else write_lease_atomic js io \<lparr>l_pid = pid, l_nonce = nonce, l_heartbeat = fs_now fs\<rparr> fs)"

section \<open>Interleaved calls\<close>

text \<open>Where a call of \<open>try_claim_lease\<close> is.\<close>

datatype claim_pc =
    Start
  | Looking nat
  | Creating
  | Inspecting
  | Reclaiming
  | Retrying
  | Gated
  | Rereading lease
  | Sampling
  | Installing lease
  | Trimming lease
  | Dropping claim_outcome
  | Finished claim_outcome
  | Crashed

fun claim_step ::
  "lease_json \<Rightarrow> io_fault \<Rightarrow> 32 word \<Rightarrow> 64 word \<Rightarrow> nat \<Rightarrow> claim_pc \<Rightarrow> lease_fs \<Rightarrow> claim_pc \<times> lease_fs" where
  "claim_step js io pid nonce ttl Start fs = (Looking (fs_now fs), fs)"
| "claim_step js io pid nonce ttl (Looking now) fs =
     ((case read_lease js fs of
         Some existing \<Rightarrow> if \<not> is_stale existing now ttl then Finished Lost else Creating
       | None \<Rightarrow> Creating), fs)"
| "claim_step js io pid nonce ttl Creating fs =
     (case create_claim_marker fs of (created, fs1) \<Rightarrow> (if created then Gated else Inspecting, fs1))"
| "claim_step js io pid nonce ttl Inspecting fs =
     (if claim_marker_is_abandoned fs then Reclaiming else Finished Lost, fs)"
| "claim_step js io pid nonce ttl Reclaiming fs = (Retrying, remove_claim_marker fs)"
| "claim_step js io pid nonce ttl Retrying fs =
     (case create_claim_marker fs of (created, fs1) \<Rightarrow> (if created then Gated else Finished Lost, fs1))"
| "claim_step js io pid nonce ttl Gated fs =
     ((case read_lease js fs of Some existing \<Rightarrow> Rereading existing | None \<Rightarrow> Sampling), fs)"
| "claim_step js io pid nonce ttl (Rereading existing) fs =
     (if \<not> is_stale existing (fs_now fs) ttl then Dropping Lost else Sampling, fs)"
| "claim_step js io pid nonce ttl Sampling fs =
     (Installing \<lparr>l_pid = pid, l_nonce = nonce, l_heartbeat = fs_now fs\<rparr>, fs)"
| "claim_step js io pid nonce ttl (Installing l) fs =
     (if io = WriteFails then (Dropping Lost, fs) else (Trimming l, write_all (lj_render js l) fs))"
| "claim_step js io pid nonce ttl (Trimming l) fs =
     (if io = TrimFails then (Dropping Lost, fs) else (Dropping (Won (l_nonce l)), set_len (length (lj_render js l)) fs))"
| "claim_step js io pid nonce ttl (Dropping outcome) fs = (Finished outcome, remove_claim_marker fs)"
| "claim_step js io pid nonce ttl (Finished outcome) fs = (Finished outcome, fs)"
| "claim_step js io pid nonce ttl Crashed fs = (Crashed, fs)"

text \<open>A heartbeat reads and compares, samples the clock, writes and trims. The stages that some heartbeat
  has reached are a set, and from each of them it may go on at any later time, or never.\<close>

datatype beat_pc = Checked "32 word" "64 word" | Sampled lease | Written lease

record lease_sys =
  sys_fs :: lease_fs
  sys_calls :: "nat \<Rightarrow> claim_pc"
  sys_beats :: "beat_pc set"

text \<open>The steps of a system in which no write of a file fails. All records written are in \<open>recs\<close>; \<open>hb\<close>
  says whether anybody sends heartbeats.\<close>

inductive sys_step :: "lease_json \<Rightarrow> nat \<Rightarrow> lease set \<Rightarrow> bool \<Rightarrow> lease_sys \<Rightarrow> lease_sys \<Rightarrow> bool"
  for js ttl recs hb where
  tick: "sys_step js ttl recs hb s (s\<lparr>sys_fs := (sys_fs s)\<lparr>fs_now := fs_now (sys_fs s) + d\<rparr>\<rparr>)"
| call: "claim_step js NoFault pid nonce ttl (sys_calls s i) (sys_fs s) = (pc, fs) \<Longrightarrow>
    (\<And>l. pc = Installing l \<Longrightarrow> l \<in> recs) \<Longrightarrow>
    sys_step js ttl recs hb s (s\<lparr>sys_fs := fs, sys_calls := (sys_calls s)(i := pc)\<rparr>)"
| crash: "sys_step js ttl recs hb s (s\<lparr>sys_calls := (sys_calls s)(i := Crashed)\<rparr>)"
| beat_check: "hb \<Longrightarrow> lease_held_by js (sys_fs s) nonce \<Longrightarrow>
    sys_step js ttl recs hb s (s\<lparr>sys_beats := insert (Checked pid nonce) (sys_beats s)\<rparr>)"
| beat_sample: "Checked pid nonce \<in> sys_beats s \<Longrightarrow>
    l = \<lparr>l_pid = pid, l_nonce = nonce, l_heartbeat = fs_now (sys_fs s)\<rparr> \<Longrightarrow> l \<in> recs \<Longrightarrow>
    sys_step js ttl recs hb s (s\<lparr>sys_beats := insert (Sampled l) (sys_beats s)\<rparr>)"
| beat_write: "Sampled l \<in> sys_beats s \<Longrightarrow>
    sys_step js ttl recs hb s
      (s\<lparr>sys_fs := write_all (lj_render js l) (sys_fs s), sys_beats := insert (Written l) (sys_beats s)\<rparr>)"
| beat_trim: "Written l \<in> sys_beats s \<Longrightarrow>
    sys_step js ttl recs hb s (s\<lparr>sys_fs := set_len (length (lj_render js l)) (sys_fs s)\<rparr>)"

abbreviation sys_run :: "lease_json \<Rightarrow> nat \<Rightarrow> lease set \<Rightarrow> bool \<Rightarrow> lease_sys \<Rightarrow> lease_sys \<Rightarrow> bool" where
  "sys_run js ttl recs hb \<equiv> (sys_step js ttl recs hb)\<^sup>*\<^sup>*"

text \<open>A record that is still live when the claim time is over.\<close>

definition outlasts :: "nat \<Rightarrow> nat \<Rightarrow> lease \<Rightarrow> bool" where
  "outlasts ttl t0 l \<longleftrightarrow> \<not> is_stale l (t0 + claim_ttl) ttl"



definition has_won :: "claim_pc \<Rightarrow> bool" where
  "has_won pc \<longleftrightarrow> (\<exists>nonce. pc = Dropping (Won nonce) \<or> pc = Finished (Won nonce))"

section \<open>One call alone\<close>

lemma claim_alone:
  "((\<lambda>(pc, fs). claim_step js io pid nonce ttl pc fs) ^^ 12) (Start, fs)
     = (case try_claim_lease js io pid nonce ttl fs of (outcome, fs') \<Rightarrow> (Finished outcome, fs'))"
  by (simp add: numeral_eq_Suc try_claim_lease_def live_lease_def acquire_claim_marker_def create_claim_marker_def
      read_lease_def remove_claim_marker_def write_lease_atomic_def claim_marker_is_abandoned_def Let_def
      split: option.split)


section \<open>The lock file\<close>

lemma json_okD: "json_ok js \<Longrightarrow> lj_parse js (lj_render js l @ t) = (if list_all json_space t then Some l else None)"
  by (simp add: json_ok_def)

definition settled :: "lease_json \<Rightarrow> nat \<Rightarrow> nat \<Rightarrow> lease_fs \<Rightarrow> bool" where
  "settled js ttl t0 fs \<longleftrightarrow> (\<exists>l. read_lease js fs = Some l \<and> outlasts ttl t0 l)"

text \<open>The file begins with a record, which may be followed by the rest of a longer text.\<close>

definition begins_with :: "lease_json \<Rightarrow> lease \<Rightarrow> string \<Rightarrow> lease_fs \<Rightarrow> bool" where
  "begins_with js l t fs \<longleftrightarrow> fs_text fs = Some (lj_render js l @ t)"





lemma write_all_simps [simp]:
  "fs_claim (write_all j fs) = fs_claim fs" "fs_now (write_all j fs) = fs_now fs"
  "fs_claim (set_len n fs) = fs_claim fs" "fs_now (set_len n fs) = fs_now fs"
  by (simp_all add: write_all_def set_len_def)



section \<open>One winner\<close>

text \<open>The calls that may still win; \<open>fr\<close>: a record that outlasts the claim time is in place.\<close>

fun contends :: "nat \<Rightarrow> nat \<Rightarrow> bool \<Rightarrow> claim_pc \<Rightarrow> bool" where
  "contends ttl t0 fr Gated = (\<not> fr)"
| "contends ttl t0 fr (Rereading l) = (\<not> outlasts ttl t0 l)"
| "contends ttl t0 fr Sampling = True"
| "contends ttl t0 fr (Installing l) = True"
| "contends ttl t0 fr (Trimming l) = True"
| "contends ttl t0 fr (Dropping outcome) = (outcome \<noteq> Lost)"
| "contends ttl t0 fr (Finished outcome) = (outcome \<noteq> Lost)"
| "contends ttl t0 fr pc = False"

text \<open>A call that has not written its record.\<close>

fun before_write :: "claim_pc \<Rightarrow> bool" where
  "before_write (Trimming l) = False"
| "before_write (Dropping outcome) = False"
| "before_write (Finished outcome) = False"
| "before_write pc = True"

text \<open>Where a call is as long as no record that outlasts the claim time is in place.\<close>

fun waiting_pc :: "nat \<Rightarrow> nat \<Rightarrow> nat option \<Rightarrow> claim_pc \<Rightarrow> bool" where
  "waiting_pc ttl t0 claim Reclaiming = False"
| "waiting_pc ttl t0 claim Retrying = False"
| "waiting_pc ttl t0 claim (Dropping outcome) = False"
| "waiting_pc ttl t0 claim (Finished outcome) = (outcome = Lost)"
| "waiting_pc ttl t0 claim Inspecting = (claim \<noteq> None)"
| "waiting_pc ttl t0 claim Gated = (claim \<noteq> None)"
| "waiting_pc ttl t0 claim (Rereading l) = (claim \<noteq> None \<and> is_stale l t0 ttl)"
| "waiting_pc ttl t0 claim Sampling = (claim \<noteq> None)"
| "waiting_pc ttl t0 claim (Installing l) = (claim \<noteq> None)"
| "waiting_pc ttl t0 claim (Trimming l) = (claim \<noteq> None)"
| "waiting_pc ttl t0 claim pc = True"

text \<open>The records that are still to be written or to be trimmed.\<close>

fun pc_record :: "claim_pc \<Rightarrow> lease set" where
  "pc_record (Installing l) = {l}"
| "pc_record (Trimming l) = {l}"
| "pc_record pc = {}"

fun beat_record :: "beat_pc \<Rightarrow> lease set" where
  "beat_record (Checked pid nonce) = {}"
| "beat_record (Sampled l) = {l}"
| "beat_record (Written l) = {l}"

definition under_way :: "lease_sys \<Rightarrow> lease set" where
  "under_way s = (\<Union>i. pc_record (sys_calls s i)) \<union> (\<Union>b \<in> sys_beats s. beat_record b)"

definition one_contender :: "nat \<Rightarrow> nat \<Rightarrow> bool \<Rightarrow> (nat \<Rightarrow> claim_pc) \<Rightarrow> bool" where
  "one_contender ttl t0 fr calls \<longleftrightarrow>
     (\<forall>i j. contends ttl t0 fr (calls i) \<longrightarrow> contends ttl t0 fr (calls j) \<longrightarrow> i = j)"

text \<open>Before the first write, and after it.\<close>

definition unwritten :: "lease_sys \<Rightarrow> bool" where
  "unwritten s \<longleftrightarrow> (\<forall>i l. sys_calls s i \<noteq> Trimming l) \<and> (\<forall>l. Written l \<notin> sys_beats s)"

definition written :: "lease_json \<Rightarrow> nat \<Rightarrow> nat \<Rightarrow> lease set \<Rightarrow> bool \<Rightarrow> lease_sys \<Rightarrow> bool" where
  "written js ttl t0 recs hb s \<longleftrightarrow>
     (\<exists>l t. begins_with js l t (sys_fs s) \<and> l \<in> recs \<and> outlasts ttl t0 l
        \<and> (\<forall>l' \<in> under_way s. length (lj_render js l') = length (lj_render js l)))
     \<and> (hb \<or> (\<forall>i. contends ttl t0 (settled js ttl t0 (sys_fs s)) (sys_calls s i) \<longrightarrow> \<not> before_write (sys_calls s i))
           \<and> (\<not> settled js ttl t0 (sys_fs s) \<longrightarrow> fs_claim (sys_fs s) \<noteq> None))"

definition lease_inv :: "lease_json \<Rightarrow> nat \<Rightarrow> nat \<Rightarrow> lease set \<Rightarrow> bool \<Rightarrow> lease_sys \<Rightarrow> bool" where
  "lease_inv js ttl t0 recs hb s \<longleftrightarrow>
     t0 \<le> fs_now (sys_fs s)
     \<and> one_contender ttl t0 (settled js ttl t0 (sys_fs s)) (sys_calls s)
     \<and> (\<forall>l \<in> under_way s. l \<in> recs \<and> outlasts ttl t0 l)
     \<and> (\<not> hb \<longrightarrow> sys_beats s = {})
     \<and> (\<not> settled js ttl t0 (sys_fs s) \<longrightarrow>
          (\<forall>l. read_lease js (sys_fs s) = Some l \<longrightarrow> is_stale l t0 ttl)
          \<and> (\<forall>m. fs_claim (sys_fs s) = Some m \<longrightarrow> t0 \<le> m)
          \<and> (\<forall>i. waiting_pc ttl t0 (fs_claim (sys_fs s)) (sys_calls s i)))
     \<and> (\<not> settled js ttl t0 (sys_fs s) \<and> unwritten s \<or> written js ttl t0 recs hb s)"









lemmas inv_parts = lease_inv_def [THEN iffD1, THEN conjunct1]
















section \<open>A text format for the examples\<close>

text \<open>A stand-in for \<open>serde_json\<close>: the three numbers, each with its end mark.\<close>

definition take_number :: "char \<Rightarrow> string \<Rightarrow> (nat \<times> string) option" where
  "take_number c s =
     (case dropWhile (\<lambda>x. x \<noteq> c) s of
        [] \<Rightarrow> None
      | _ # r \<Rightarrow> map_option (\<lambda>n. (n, r)) (value_of_digits 10 0 (takeWhile (\<lambda>x. x \<noteq> c) s)))"

definition plain_json :: lease_json where
  "plain_json =
     \<lparr>lj_render = (\<lambda>l. show_nat (unat (l_pid l)) @ CHR '','' # show_nat (unat (l_nonce l)) @ CHR '','' #
        show_nat (l_heartbeat l) @ ''}''),
      lj_parse = (\<lambda>s.
        case take_number (CHR '','') s of None \<Rightarrow> None | Some (p, r) \<Rightarrow>
        (case take_number (CHR '','') r of None \<Rightarrow> None | Some (n, q) \<Rightarrow>
        (case take_number (CHR ''}'') q of None \<Rightarrow> None | Some (h, t) \<Rightarrow>
           if list_all json_space t then Some \<lparr>l_pid = of_nat p, l_nonce = of_nat n, l_heartbeat = h\<rparr> else None)))\<rparr>"

lemma digit_chars:
  "digit_char 0 = CHR ''0''" "digit_char (Suc 0) = CHR ''1''" "digit_char 2 = CHR ''2''" "digit_char 7 = CHR ''7''"
  by code_simp+



section \<open>A lone candidate\<close>

text \<open>With no other candidate around, a call wins exactly when the lease is absent or stale and no
  marker younger than the claim time is in the way: it then holds the lease under its nonce, fresh for
  the whole time to live, its heartbeats succeed, the heartbeats of the former leader fail, and the
  marker is gone. Otherwise it loses and the lease stays as it was.\<close>

lemma write_then_trim:
  "json_ok js \<Longrightarrow> read_lease js (set_len (length (lj_render js l)) (write_all (lj_render js l) fs)) = Some l"
  "json_ok js \<Longrightarrow> fs_text (set_len (length (lj_render js l)) (write_all (lj_render js l) fs)) = Some (lj_render js l)"
  using json_okD [of js l "[]"] by (simp_all add: read_lease_def set_len_def write_all_def)

lemma read_same_text:
  "read_lease js (fs\<lparr>fs_claim := c\<rparr>) = read_lease js fs" "read_lease js (fs\<lparr>fs_now := n\<rparr>) = read_lease js fs"
  by (simp_all add: read_lease_def)

lemma lone_candidate:
  assumes "json_ok js"
  shows "case try_claim_lease js NoFault pid nonce ttl fs of (outcome, fs') \<Rightarrow>
     if claim_marker_is_abandoned fs \<and> \<not> live_lease js ttl fs
     then outcome = Won nonce \<and> lease_held_by js fs' nonce \<and> fs_claim fs' = None
       \<and> live_lease js ttl (fs'\<lparr>fs_now := fs_now fs + ttl\<rparr>) \<and> \<not> live_lease js ttl (fs'\<lparr>fs_now := fs_now fs + ttl + 1\<rparr>)
       \<and> fst (heartbeat js NoFault former old fs') = (old = nonce)
     else outcome = Lost \<and> fs_text fs' = fs_text fs \<and> fs_claim fs' = fs_claim fs"
  using write_then_trim [OF assms]
  by (cases "fs_claim fs"; cases "read_lease js fs")
    (auto simp: try_claim_lease_def live_lease_def acquire_claim_marker_def create_claim_marker_def heartbeat_def lease_held_by_def
      read_same_text remove_claim_marker_def write_lease_atomic_def claim_marker_is_abandoned_def is_stale_def Let_def)

text \<open>A record written over a longer one is for a moment followed by the tail of the old one, and reads as no
  lease.\<close>

lemma torn_write:
  assumes "json_ok js" "fs_text fs = Some (lj_render js old)" "length (lj_render js l) < length (lj_render js old)"
    and "\<not> json_space (last (lj_render js old))"
  shows "read_lease js (write_all (lj_render js l) fs) = None"
proof -
  let ?t = "drop (length (lj_render js l)) (lj_render js old)"
  have "?t \<noteq> []" "last ?t = last (lj_render js old)" using assms(3) by simp_all
  then have "\<not> list_all json_space ?t" using assms(4) last_in_set [of ?t] by (auto simp: list_all_iff)
  then show ?thesis using assms(1,2) by (simp add: read_lease_def write_all_def json_okD)
qed

text \<open>Calls of one process at one instant get different nonces.\<close>

lemma nonces_differ:
  assumes "s \<noteq> t"
  shows "new_nonce nanos pid s \<noteq> new_nonce nanos pid t"
proof
  assume "new_nonce nanos pid s = new_nonce nanos pid t"
  then have "s * 0xD1B54A32D192ED03 = t * 0xD1B54A32D192ED03" unfolding new_nonce_def by (rule add_left_imp_eq)
  then have "s * 0xD1B54A32D192ED03 * 0x6106ccfa448e5ab = t * 0xD1B54A32D192ED03 * 0x6106ccfa448e5ab" by (rule arg_cong)
  then have "s * (0xD1B54A32D192ED03 * 0x6106ccfa448e5ab) = t * (0xD1B54A32D192ED03 * 0x6106ccfa448e5ab)" by (simp only: mult.assoc)
  moreover have "(0xD1B54A32D192ED03 * 0x6106ccfa448e5ab :: 64 word) = 1" by simp
  ultimately show False using assms by (simp only: mult_1_right)
qed

section \<open>Two winners\<close>

definition idle_sys :: "string option \<Rightarrow> nat option \<Rightarrow> nat \<Rightarrow> beat_pc set \<Rightarrow> lease_sys" where
  "idle_sys t claim now beats =
     \<lparr>sys_fs = \<lparr>fs_text = t, fs_claim = claim, fs_now = now\<rparr>, sys_calls = (\<lambda>_. Start), sys_beats = beats\<rparr>"

text \<open>Running the call \<open>i\<close> for one step, as process and under the nonce \<open>i + 1\<close>.\<close>

definition exec_call :: "lease_json \<Rightarrow> nat \<Rightarrow> nat \<Rightarrow> lease_sys \<Rightarrow> lease_sys" where
  "exec_call js ttl i s =
     (case claim_step js NoFault (of_nat i + 1) (of_nat i + 1) ttl (sys_calls s i) (sys_fs s) of
        (pc, fs) \<Rightarrow> s\<lparr>sys_fs := fs, sys_calls := (sys_calls s)(i := pc)\<rparr>)"

lemma exec_call_run: "sys_run js ttl UNIV hb s0 s \<Longrightarrow> sys_run js ttl UNIV hb s0 (exec_call js ttl i s)"
  by (erule rtranclp.rtrancl_into_rtrancl) (auto simp: exec_call_def split: prod.split intro: sys_step.call)

lemma exec_calls_run: "sys_run js ttl UNIV hb s0 s \<Longrightarrow> sys_run js ttl UNIV hb s0 (fold (exec_call js ttl) is s)"
  by (induction "is" arbitrary: s) (auto intro: exec_call_run)

definition write_beat :: "lease_json \<Rightarrow> lease \<Rightarrow> lease_sys \<Rightarrow> lease_sys" where
  "write_beat js l s = s\<lparr>sys_fs := write_all (lj_render js l) (sys_fs s), sys_beats := insert (Written l) (sys_beats s)\<rparr>"

definition trim_beat :: "lease_json \<Rightarrow> lease \<Rightarrow> lease_sys \<Rightarrow> lease_sys" where
  "trim_beat js l s = s\<lparr>sys_fs := set_len (length (lj_render js l)) (sys_fs s)\<rparr>"

lemma beat_run:
  "sys_run js ttl UNIV hb s0 s \<Longrightarrow> Sampled l \<in> sys_beats s \<Longrightarrow> sys_run js ttl UNIV hb s0 (write_beat js l s)"
  "sys_run js ttl UNIV hb s0 s \<Longrightarrow> Written l \<in> sys_beats s \<Longrightarrow> sys_run js ttl UNIV hb s0 (trim_beat js l s)"
  unfolding write_beat_def trim_beat_def
  by (erule rtranclp.rtrancl_into_rtrancl; blast intro: sys_step.beat_write sys_step.beat_trim)+

lemma exec_beats [simp]: "sys_beats (exec_call js ttl i s) = sys_beats s"
  by (simp add: exec_call_def split: prod.split)

lemma execs_beats [simp]: "sys_beats (fold (exec_call js ttl) is s) = sys_beats s"
  by (induction "is" arbitrary: s) simp_all

lemmas run_simps = exec_call_def idle_sys_def read_lease_def is_stale_def lease_ttl_def claim_ttl_def write_all_def set_len_def
  create_claim_marker_def remove_claim_marker_def claim_marker_is_abandoned_def write_beat_def trim_beat_def

text \<open>The gate lets two candidates through after a crash left a marker behind: both find it abandoned,
  the second removes the marker that the first has just created, both find the lease stale and both
  win, at the same millisecond and with no failing write. The first does not hold the lease it won.\<close>

definition abandoned_start :: "lease_json \<Rightarrow> lease_sys" where
  "abandoned_start js = idle_sys (Some (lj_render js \<lparr>l_pid = 7, l_nonce = 7, l_heartbeat = 0\<rparr>)) (Some 60000) 63000 {}"

lemma abandoned_marker_two_winners:
  assumes "json_ok js"
  shows "\<exists>s. sys_run js lease_ttl UNIV False (abandoned_start js) s
     \<and> sys_calls s 0 = Finished (Won 1) \<and> sys_calls s 1 = Finished (Won 2)
     \<and> fs_now (sys_fs s) = fs_now (sys_fs (abandoned_start js)) \<and> \<not> lease_held_by js (sys_fs s) 1"
proof -
  let ?is = "[0, 0, 0, 0, 1, 1, 1, 1, 0, 0, 0, 0, 0, 1, 1, 1, 1, 1, 0, 0, 1, 1, 0, 1 :: nat]"
  let ?s = "fold (exec_call js lease_ttl) ?is (abandoned_start js)"
  have "sys_run js lease_ttl UNIV False (abandoned_start js) ?s" by (rule exec_calls_run) simp
  moreover have "sys_calls ?s 0 = Finished (Won 1) \<and> sys_calls ?s 1 = Finished (Won 2)
      \<and> fs_now (sys_fs ?s) = fs_now (sys_fs (abandoned_start js)) \<and> \<not> lease_held_by js (sys_fs ?s) 1"
    using json_okD [OF assms, of _ "[]"] by (simp add: run_simps abandoned_start_def lease_held_by_def)
  ultimately show ?thesis by blast
qed

text \<open>The two conditions on heartbeats are needed. A heartbeat that was sampled more than the time to
  live ago and is written after a takeover puts a stale lease back, and the next candidate wins too.\<close>

lemma stale_heartbeat_two_winners:
  fixes h defines "h \<equiv> \<lparr>l_pid = 7, l_nonce = 7, l_heartbeat = 0\<rparr>"
  assumes "json_ok js"
  shows "\<exists>s. sys_run js lease_ttl UNIV True (idle_sys (Some (lj_render js h)) None 63000 {Sampled h}) s
     \<and> sys_calls s 0 = Finished (Won 1) \<and> sys_calls s 1 = Finished (Won 2) \<and> fs_now (sys_fs s) = 63000"
proof -
  let ?start = "idle_sys (Some (lj_render js h)) None 63000 {Sampled h}"
  let ?won = "fold (exec_call js lease_ttl) [0, 0, 0, 0, 0, 0, 0, 0, 0 :: nat] ?start"
  let ?s = "fold (exec_call js lease_ttl) [1, 1, 1, 1, 1, 1, 1, 1, 1 :: nat] (trim_beat js h (write_beat js h ?won))"
  have "Sampled h \<in> sys_beats ?won" by (simp only: execs_beats) (simp add: idle_sys_def)
  with exec_calls_run [OF rtranclp.rtrancl_refl]
  have "sys_run js lease_ttl UNIV True ?start (write_beat js h ?won)" by (rule beat_run(1))
  moreover have "Written h \<in> sys_beats (write_beat js h x)" for x by (simp add: write_beat_def)
  ultimately have "sys_run js lease_ttl UNIV True ?start ?s" by (intro exec_calls_run beat_run(2))
  moreover have "sys_calls ?s 0 = Finished (Won 1) \<and> sys_calls ?s 1 = Finished (Won 2) \<and> fs_now (sys_fs ?s) = 63000"
    using json_okD [OF assms(2), of _ "[]"] by (simp add: run_simps h_def)
  ultimately show ?thesis by blast
qed

text \<open>A heartbeat of a longer record between the write and the trim of a candidate is cut off by the trim: what is left
  is no record, so the next candidate wins too.\<close>

lemma mixed_lengths_two_winners:
  fixes h defines "h \<equiv> \<lparr>l_pid = 7, l_nonce = 700, l_heartbeat = 20000\<rparr>"
  shows "\<exists>s. sys_run plain_json lease_ttl UNIV True
       (idle_sys (Some (lj_render plain_json (h\<lparr>l_heartbeat := 0\<rparr>))) None 20000 {Sampled h}) s
     \<and> sys_calls s 0 = Finished (Won 1) \<and> sys_calls s 1 = Finished (Won 2) \<and> fs_now (sys_fs s) = 20000"
proof -
  let ?js = plain_json
  let ?start = "idle_sys (Some (lj_render ?js (h\<lparr>l_heartbeat := 0\<rparr>))) None 20000 {Sampled h}"
  let ?torn = "fold (exec_call ?js lease_ttl) [0, 0, 0, 0, 0, 0, 0 :: nat] ?start"
  let ?s = "fold (exec_call ?js lease_ttl) [0, 0, 1, 1, 1, 1, 1, 1, 1, 1, 1 :: nat] (write_beat ?js h ?torn)"
  have texts: "lj_render ?js h = ''7,700,20000}''" "lj_render ?js \<lparr>l_pid = 7, l_nonce = 700, l_heartbeat = 0\<rparr> = ''7,700,0}''"
    "lj_render ?js \<lparr>l_pid = 1, l_nonce = 1, l_heartbeat = 20000\<rparr> = ''1,1,20000}''"
    "lj_render ?js \<lparr>l_pid = 2, l_nonce = 2, l_heartbeat = 20000\<rparr> = ''2,2,20000}''"
    "lj_parse ?js ''7,700,0}'' = Some \<lparr>l_pid = 7, l_nonce = 700, l_heartbeat = 0\<rparr>" "lj_parse ?js ''7,700,2000'' = None"
    by (simp_all add: h_def plain_json_def show_nat_def show_digits.simps digit_chars take_number_def digit_value_def Let_def)
  have "Sampled h \<in> sys_beats ?torn" by (simp only: execs_beats) (simp add: idle_sys_def)
  then have "sys_run ?js lease_ttl UNIV True ?start ?s"
    by (intro exec_calls_run [OF beat_run(1)] exec_calls_run [OF rtranclp.rtrancl_refl])
  moreover have "sys_calls ?s 0 = Finished (Won 1) \<and> sys_calls ?s 1 = Finished (Won 2) \<and> fs_now (sys_fs ?s) = 20000"
    using texts by (simp add: run_simps h_def)
  ultimately show ?thesis by blast
qed

text \<open>A heartbeat that was sampled before a takeover and is written after it takes the lease back, while
  the winner believes that it leads.\<close>

lemma late_heartbeat_overwrites:
  assumes "json_ok js" "has_won (sys_calls s i)" "Sampled l \<in> sys_beats s"
  shows "\<exists>s'. sys_run js ttl UNIV hb s s' \<and> has_won (sys_calls s' i) \<and> lease_held_by js (sys_fs s') (l_nonce l)"
proof (intro exI conjI)
  have "Written l \<in> sys_beats (write_beat js l s)" by (simp add: write_beat_def)
  then show "sys_run js ttl UNIV hb s (trim_beat js l (write_beat js l s))"
    using assms(3) by (intro beat_run) auto
qed (use assms json_okD [OF assms(1), of l "[]"] in \<open>simp_all add: write_beat_def trim_beat_def lease_held_by_def
    read_lease_def write_all_def set_len_def\<close>)

section \<open>Witnesses\<close>


end
