(* ===== verification/Edit_Distance.thy ===== *)
theory Edit_Distance
  imports Complex_Main Prelude
begin

text \<open>
  The similarity of two lines in \<open>swissarmyhammer-edit-match/src/lib.rs\<close>: the edit distance in two rows
  that are swapped, as the code computes it, and the proof that it is the least number of insertions,
  deletions and replacements. The code divides in \<open>f32\<close>; the similarity here is the exact quotient.
\<close>

section \<open>The routine\<close>

definition fill_cell :: "nat list \<Rightarrow> char \<Rightarrow> nat \<times> char \<Rightarrow> nat list \<Rightarrow> nat list" where
  "fill_cell prev ca jcb cur =
     (case jcb of (j, cb) \<Rightarrow>
        let cost = (if ca \<noteq> cb then 1 else 0)
        in cur[j + 1 := min (min (prev ! (j + 1) + 1) (cur ! j + 1)) (prev ! j + cost)])"

text \<open>One turn of the outer loop, the swap included: the new previous row and the row to overwrite.\<close>

definition next_row :: "string \<Rightarrow> nat \<times> char \<Rightarrow> nat list \<times> nat list \<Rightarrow> nat list \<times> nat list" where
  "next_row b ica rows =
     (case (ica, rows) of ((i, ca), (prev, cur)) \<Rightarrow>
        (fold (fill_cell prev ca) (enumerate 0 b) (cur[0 := i + 1]), prev))"

definition levenshtein :: "string \<Rightarrow> string \<Rightarrow> nat" where
  "levenshtein a b =
     (if a = [] then length b
      else if b = [] then length a
      else case fold (next_row b) (enumerate 0 a) ([0..<length b + 1], replicate (length b + 1) 0) of
             (prev, _) \<Rightarrow> prev ! length b)"

definition similarity :: "string \<Rightarrow> string \<Rightarrow> rat" where
  "similarity a b =
     (let max_len = max (length a) (length b)
      in if max_len = 0 then 1 else 1 - of_nat (levenshtein a b) / of_nat max_len)"

section \<open>Edits\<close>

text \<open>\<open>edits a b n\<close>: \<open>b\<close> arises from \<open>a\<close> by \<open>n\<close> insertions, deletions and replacements.\<close>

inductive edits :: "string \<Rightarrow> string \<Rightarrow> nat \<Rightarrow> bool" where
  nothing: "edits [] [] 0"
| insert_char: "edits a b n \<Longrightarrow> edits a (y # b) (Suc n)"
| delete_char: "edits a b n \<Longrightarrow> edits (x # a) b (Suc n)"
| replace_char: "edits a b n \<Longrightarrow> edits (x # a) (y # b) (Suc n)"
| keep_char: "edits a b n \<Longrightarrow> edits (x # a) (x # b) n"

text \<open>The recurrence that the rows follow.\<close>

fun least_edits :: "string \<Rightarrow> string \<Rightarrow> nat" where
  "least_edits [] b = length b"
| "least_edits (x # a) [] = length a + 1"
| "least_edits (x # a) (y # b) =
     min (min (least_edits a (y # b) + 1) (least_edits (x # a) b + 1)) (least_edits a b + (if x \<noteq> y then 1 else 0))"

lemma edits_Nil: "edits [] b (length b)" "edits a [] (length a)"
  by (induction b, auto intro: edits.intros) (induction a, auto intro: edits.intros)

lemma least_edits_Nil [simp]: "least_edits a [] = length a"
  by (cases a) auto

lemma edits_least: "edits a b (least_edits a b)"
proof (induction a b rule: least_edits.induct)
  case (3 x a y b)
  have "edits (x # a) (y # b) (Suc (least_edits a (y # b)))" "edits (x # a) (y # b) (Suc (least_edits (x # a) b))"
    "edits (x # a) (y # b) (least_edits a b + (if x \<noteq> y then 1 else 0))"
    using 3 by (auto intro: edits.intros)
  then show ?case by (auto simp: min_def split: if_splits)
qed (auto intro: edits_Nil edits.intros)

lemma least_edits_step:
  "least_edits (x # a) b \<le> Suc (least_edits a b)" "least_edits a (y # b) \<le> Suc (least_edits a b)"
  by (cases b, simp_all) (cases a, simp_all)

lemma least_edits_le: "edits a b n \<Longrightarrow> least_edits a b \<le> n"
proof (induction rule: edits.induct)
  case (insert_char a b n y)
  then show ?case using least_edits_step(2) [of a y b] by linarith
next
  case (delete_char a b n x)
  then show ?case using least_edits_step(1) [of x a b] by linarith
qed auto

lemma edits_snoc:
  "edits a b n \<Longrightarrow> edits a (b @ [y]) (Suc n)"
  "edits a b n \<Longrightarrow> edits (a @ [x]) b (Suc n)"
  "edits a b n \<Longrightarrow> edits (a @ [x]) (b @ [y]) (Suc n)"
  "edits a b n \<Longrightarrow> edits (a @ [x]) (b @ [x]) n"
  by (induction rule: edits.induct; simp add: edits.intros)+

lemma edits_rev: "edits a b n \<Longrightarrow> edits (rev a) (rev b) n"
  by (induction rule: edits.induct) (simp_all add: edits.nothing edits_snoc)

lemma least_edits_rev: "least_edits (rev a) (rev b) = least_edits a b"
proof (rule antisym)
  show "least_edits (rev a) (rev b) \<le> least_edits a b" by (rule least_edits_le [OF edits_rev [OF edits_least]])
  show "least_edits a b \<le> least_edits (rev a) (rev b)"
    using least_edits_le [OF edits_rev [OF edits_least [of "rev a" "rev b"]]] by simp
qed

section \<open>The rows\<close>

text \<open>The row of a prefix of \<open>a\<close>: the distances to all prefixes of \<open>b\<close>.\<close>

definition row_of :: "string \<Rightarrow> string \<Rightarrow> nat list" where
  "row_of a b = map (\<lambda>j. least_edits (rev a) (rev (take j b))) [0..<length b + 1]"

lemma row_nth: "j \<le> length b \<Longrightarrow> row_of a b ! j = least_edits (rev a) (rev (take j b))"
  by (simp add: row_of_def del: upt_Suc)

lemma length_row [simp]: "length (row_of a b) = length b + 1"
  by (simp add: row_of_def)

lemma fill_cells:
  assumes "k \<le> length b" "length cur = length b + 1" "cur ! 0 = length a + 1"
  shows "length (fold (fill_cell (row_of a b) x) (take k (enumerate 0 b)) cur) = length b + 1
    \<and> (\<forall>j \<le> k. fold (fill_cell (row_of a b) x) (take k (enumerate 0 b)) cur ! j = row_of (a @ [x]) b ! j)"
  using assms(1)
proof (induction k)
  case 0
  then show ?case using assms(2,3) by (simp add: row_nth)
next
  case (Suc k)
  define c where "c = fold (fill_cell (row_of a b) x) (take k (enumerate 0 b)) cur"
  have c: "length c = length b + 1" "\<And>j. j \<le> k \<Longrightarrow> c ! j = row_of (a @ [x]) b ! j"
    using Suc by (simp_all add: c_def)
  have step: "fold (fill_cell (row_of a b) x) (take (Suc k) (enumerate 0 b)) cur = fill_cell (row_of a b) x (k, b ! k) c"
    using Suc.prems by (simp add: take_Suc_conv_app_nth nth_enumerate_eq c_def)
  have "take (Suc k) b = take k b @ [b ! k]" using Suc.prems by (simp add: take_Suc_conv_app_nth)
  then have "c[k + 1 := min (min (row_of a b ! (k + 1) + 1) (c ! k + 1)) (row_of a b ! k + (if x \<noteq> b ! k then 1 else 0))] ! (k + 1)
      = row_of (a @ [x]) b ! (k + 1)"
    using Suc.prems c by (simp add: row_nth)
  then show ?case
    using c Suc.prems unfolding step by (auto simp: fill_cell_def le_Suc_eq)
qed

lemma next_row_of:
  assumes "length cur = length b + 1"
  shows "next_row b (length a, x) (row_of a b, cur) = (row_of (a @ [x]) b, row_of a b)"
proof -
  have "length (cur[0 := length a + 1]) = length b + 1" "cur[0 := length a + 1] ! 0 = length a + 1"
    using assms by simp_all
  from fill_cells [OF order_refl this, of x] show ?thesis
    by (auto simp: next_row_def intro!: nth_equalityI)
qed

lemma fold_rows:
  "length cur = length b + 1 \<Longrightarrow> \<exists>cur'. length cur' = length b + 1
     \<and> fold (next_row b) (enumerate (length p) a) (row_of p b, cur) = (row_of (p @ a) b, cur')"
proof (induction a arbitrary: p cur)
  case (Cons x a)
  then show ?case using Cons.IH [of "row_of p b" "p @ [x]"] by (simp add: next_row_of)
qed simp

lemma levenshtein_least: "levenshtein a b = least_edits a b"
proof (cases "a = [] \<or> b = []")
  case False
  have "row_of [] b = [0..<length b + 1]" by (auto simp: row_of_def simp del: upt_Suc intro!: nth_equalityI)
  then show ?thesis
    using False fold_rows [of "replicate (length b + 1) 0" b "[]" a]
    by (auto simp: levenshtein_def row_nth least_edits_rev)
qed (auto simp: levenshtein_def)

text \<open>The two-row routine computes the edit distance: its result is the least number of single
  character edits that turn one line into the other.\<close>

lemma levenshtein_correct: "(LEAST n. edits a b n) = levenshtein a b \<and> edits a b (levenshtein a b)"
  unfolding levenshtein_least using edits_least least_edits_le by (auto intro: Least_equality)

section \<open>Similarity\<close>

lemma edits_sym: "edits a b n \<Longrightarrow> edits b a n"
  by (induction rule: edits.induct) (auto intro: edits.intros)

lemma least_edits_zero: "least_edits a b = 0 \<longleftrightarrow> a = b"
  by (induction a b rule: least_edits.induct) auto

lemma least_edits_bound: "least_edits a b \<le> max (length a) (length b)"
  by (induction a b rule: least_edits.induct) auto

lemma levenshtein_sym: "levenshtein a b = levenshtein b a"
  unfolding levenshtein_least
  by (rule antisym; rule least_edits_le [OF edits_sym [OF edits_least]])

lemma similarity_bounds: "0 \<le> similarity a b" "similarity a b \<le> 1"
proof -
  have "(of_nat (levenshtein a b) :: rat) \<le> of_nat (max (length a) (length b))"
    unfolding of_nat_le_iff levenshtein_least by (rule least_edits_bound)
  then show "0 \<le> similarity a b" "similarity a b \<le> 1" by (auto simp: similarity_def Let_def divide_simps)
qed

lemma similarity_one: "similarity a b = 1 \<longleftrightarrow> a = b"
  by (auto simp: similarity_def Let_def levenshtein_least least_edits_zero)

lemma similarity_sym: "similarity a b = similarity b a"
  unfolding similarity_def by (subst levenshtein_sym) (simp only: max.commute)

end
