(* ===== verification/Rust_Str.thy ===== *)
theory Rust_Str
  imports Prelude "HOL-Library.Sublist"
begin

text \<open>Searching in a string: \<open>find\<close>, \<open>contains\<close>, \<open>replace\<close>, \<open>splitn(2, \<dots>)\<close> and substrings of ranges.\<close>

definition substr :: "string \<Rightarrow> nat \<times> nat \<Rightarrow> string" where
  "substr s r = take (snd r - fst r) (drop (fst r) s)"

fun find_str :: "string \<Rightarrow> string \<Rightarrow> nat option" where
  "find_str pat [] = (if pat = [] then Some 0 else None)"
| "find_str pat (c # s) = (if prefix pat (c # s) then Some 0 else map_option Suc (find_str pat s))"

definition contains_str :: "string \<Rightarrow> string \<Rightarrow> bool" where
  "contains_str s pat \<longleftrightarrow> find_str pat s \<noteq> None"

definition splitn_2 :: "string \<Rightarrow> string \<Rightarrow> string list" where
  "splitn_2 s pat =
     (case find_str pat s of None \<Rightarrow> [s] | Some i \<Rightarrow> [take i s, drop (i + length pat) s])"

section \<open>Finding\<close>

lemma find_str_Some:
  "find_str pat s = Some i \<Longrightarrow> i + length pat \<le> length s \<and> prefix pat (drop i s) \<and> (\<forall>j < i. \<not> prefix pat (drop j s))"
proof (induction s arbitrary: i)
  case (Cons c s)
  then show ?case
    by (auto split: if_splits dest: prefix_length_le simp: nth_Cons less_Suc_eq_0_disj)
qed (auto split: if_splits)

lemma find_str_None: "find_str pat s = None \<longleftrightarrow> (\<forall>j \<le> length s. \<not> prefix pat (drop j s))"
proof (induction s)
  case (Cons c s)
  show ?case
  proof
    assume none: "find_str pat (c # s) = None"
    show "\<forall>j \<le> length (c # s). \<not> prefix pat (drop j (c # s))"
    proof (intro allI impI)
      fix j
      assume "j \<le> length (c # s)"
      with none Cons show "\<not> prefix pat (drop j (c # s))" by (cases j) (auto split: if_splits)
    qed
  next
    assume all: "\<forall>j \<le> length (c # s). \<not> prefix pat (drop j (c # s))"
    have "\<not> prefix pat (drop j s)" if "j \<le> length s" for j using all that spec [of _ "Suc j"] by fastforce
    moreover have "\<not> prefix pat (c # s)" using all by fastforce
    ultimately show "find_str pat (c # s) = None" using Cons by simp
  qed
qed auto

lemma prefix_drop_bound: "prefix pat (drop j s) \<Longrightarrow> pat \<noteq> [] \<Longrightarrow> j + length pat \<le> length s"
  using prefix_length_le [of pat "drop j s"] by (cases "j \<le> length s") auto

lemma find_str_first:
  "prefix pat (drop i s) \<Longrightarrow> i \<le> length s \<Longrightarrow> (\<And>j. j < i \<Longrightarrow> \<not> prefix pat (drop j s)) \<Longrightarrow> find_str pat s = Some i"
proof (induction s arbitrary: i)
  case (Cons c s)
  show ?case
  proof (cases i)
    case (Suc k)
    have "\<not> prefix pat (c # s)" using Cons.prems(3) [of 0] Suc by simp
    moreover have "find_str pat s = Some k"
    proof (rule Cons.IH)
      fix j
      assume "j < k"
      then show "\<not> prefix pat (drop j s)" using Cons.prems(3) [of "Suc j"] Suc by simp
    qed (use Cons.prems Suc in auto)
    ultimately show ?thesis using Suc by simp
  qed (use Cons.prems in auto)
qed auto

lemma contains_sublist: "contains_str s pat \<longleftrightarrow> (\<exists>a b. s = a @ pat @ b)"
proof
  assume "contains_str s pat"
  then obtain i where "find_str pat s = Some i" by (auto simp: contains_str_def)
  then obtain b where "drop i s = pat @ b" using find_str_Some by (metis prefixE)
  then have "s = take i s @ pat @ b" by (metis append_take_drop_id)
  then show "\<exists>a b. s = a @ pat @ b" by blast
next
  assume "\<exists>a b. s = a @ pat @ b"
  then obtain a b where s: "s = a @ pat @ b" by blast
  then have "prefix pat (drop (length a) s)" "length a \<le> length s" by auto
  then show "contains_str s pat" using find_str_None [of pat s] unfolding contains_str_def by blast
qed

lemma substr_prefix: "prefix pat (drop i s) \<Longrightarrow> substr s (i, i + length pat) = pat"
  by (auto simp: substr_def elim: prefixE)

section \<open>Replacing\<close>

lemma drop_shorter: "pat \<noteq> [] \<Longrightarrow> find_str pat s = Some i \<Longrightarrow> length (drop (i + length pat) s) < length s"
  by (auto dest!: find_str_Some) (cases pat; simp)

function replace_str :: "string \<Rightarrow> string \<Rightarrow> string \<Rightarrow> string" where
  "replace_str pat to s =
     (if pat = [] then to @ concat (map (\<lambda>c. c # to) s)
      else case find_str pat s of
             None \<Rightarrow> s
           | Some i \<Rightarrow> take i s @ to @ replace_str pat to (drop (i + length pat) s))"
  by pat_completeness auto
termination by (relation "measure (\<lambda>(_, _, s). length s)") (auto dest: drop_shorter)

declare replace_str.simps [simp del]

text \<open>The text between the occurrences stays, each occurrence is replaced.\<close>

lemma replace_str_parts:
  "pat \<noteq> [] \<Longrightarrow> \<exists>ps. s = join pat ps \<and> replace_str pat to s = join to ps \<and> ps \<noteq> [] \<and> (\<forall>p \<in> set ps. \<not> contains_str p pat)"
proof (induction "length s" arbitrary: s rule: less_induct)
  case less
  show ?case
  proof (cases "find_str pat s")
    case None
    then show ?thesis using less.prems by (intro exI [of _ "[s]"]) (simp add: replace_str.simps contains_str_def)
  next
    case (Some i)
    let ?r = "drop (i + length pat) s"
    obtain ps where ps: "?r = join pat ps" "replace_str pat to ?r = join to ps" "ps \<noteq> []" "\<forall>p \<in> set ps. \<not> contains_str p pat"
      using less.hyps [OF drop_shorter [OF less.prems Some]] less.prems by blast
    note i = find_str_Some [OF Some]
    then have s: "s = take i s @ pat @ ?r"
      by (metis add.commute append_take_drop_id drop_drop prefixE append_eq_conv_conj)
    have "\<not> contains_str (take i s) pat"
    proof
      assume "contains_str (take i s) pat"
      then obtain a b where ab: "take i s = a @ pat @ b" by (auto simp: contains_sublist)
      then have "prefix pat (drop (length a) s)"
        using s by (metis append.assoc append_eq_conv_conj prefixI)
      moreover have "length a < i" using arg_cong [OF ab, of length] less.prems by (cases pat) auto
      ultimately show False using i by blast
    qed
    then show ?thesis
      using s ps less.prems Some
      by (intro exI [of _ "take i s # ps"]) (cases ps; simp add: replace_str.simps [of pat to s])
  qed
qed

end
