(* ===== verification/Edit_Match.thy ===== *)
theory Edit_Match
  imports Edit_Distance Rust_Str
begin

text \<open>
  \<open>swissarmyhammer-edit-match/src/lib.rs\<close>: the ladder that turns the text a model wants to replace into
  one span of the file. Texts are lists of characters and a range counts characters, so the model
  speaks of texts in ASCII; scores are exact quotients where the code has \<open>f32\<close>.
\<close>

section \<open>Outcomes\<close>

datatype rung = Exact | Normalized | Anchor | Fuzzy

record match_span =
  ms_range :: "nat \<times> nat"
  ms_start_line :: nat
  ms_end_line :: nat
  ms_text :: string

datatype match_outcome =
    Unique "nat \<times> nat" rung rat
  | Ambiguous "match_span list"
  | NoMatch "match_span list"

definition fuzzy_accept_threshold :: rat where "fuzzy_accept_threshold = 85 / 100"

definition fuzzy_runner_up_margin :: rat where "fuzzy_runner_up_margin = 10 / 100"

definition max_near_misses :: nat where "max_near_misses = 3"

definition fuzzy_boundary_epsilon :: rat where "fuzzy_boundary_epsilon = 1 / 10000"

section \<open>Lines\<close>

text \<open>The loop over \<open>char_indices\<close>: the line began at \<open>start\<close>, \<open>idx\<close> is the index of the rest.\<close>

fun lines_from :: "string \<Rightarrow> nat \<Rightarrow> nat \<Rightarrow> string \<Rightarrow> (nat \<times> nat) list" where
  "lines_from content start idx [] = (if start < length content then [(start, length content)] else [])"
| "lines_from content start idx (c # rest) =
     (if c = NL
      then (start, if start < idx \<and> content ! (idx - 1) = CR then idx - 1 else idx)
             # lines_from content (idx + 1) (idx + 1) rest
      else lines_from content start (idx + 1) rest)"

definition physical_lines :: "string \<Rightarrow> (nat \<times> nat) list" where
  "physical_lines content = lines_from content 0 0 content"

definition normalize_line :: "string \<Rightarrow> string" where
  "normalize_line s = trim_matches (\<lambda>c. c = CHR '' '' \<or> c = TAB \<or> c = CR) s"

definition line_number_at :: "string \<Rightarrow> nat \<Rightarrow> nat" where
  "line_number_at content offset = count_list (take offset content) NL + 1"

definition span_of :: "string \<Rightarrow> nat \<times> nat \<Rightarrow> match_span" where
  "span_of content rg =
     (let start_line = line_number_at content (fst rg);
          end_line = (if fst rg < snd rg then line_number_at content (snd rg - 1) else start_line)
      in \<lparr>ms_range = rg, ms_start_line = start_line, ms_end_line = end_line, ms_text = substr content rg\<rparr>)"

section \<open>Rung 1: literal\<close>

definition is_line_aligned :: "string \<Rightarrow> nat \<Rightarrow> nat \<Rightarrow> bool" where
  "is_line_aligned content start len =
     (let stop = start + len;
          left_ok = (start = 0 \<or> content ! (start - 1) = NL);
          right_ok = (stop = length content
            \<or> content ! stop = NL
            \<or> content ! stop = CR \<and> stop + 1 < length content \<and> content ! (stop + 1) = NL
            \<or> content ! stop = CR \<and> stop + 1 = length content)
      in left_ok \<and> right_ok)"

text \<open>The only caller passes a needle that is not empty.\<close>

function offsets_from :: "nat \<Rightarrow> string \<Rightarrow> string \<Rightarrow> nat list" where
  "offsets_from pos haystack needle =
     (if needle = [] then []
      else case find_str needle (drop pos haystack) of
             None \<Rightarrow> []
           | Some rel \<Rightarrow> (pos + rel) # offsets_from (pos + rel + length needle) haystack needle)"
  by pat_completeness auto
termination
  by (relation "measure (\<lambda>(pos, haystack, _). length haystack - pos)") (auto dest!: find_str_Some simp flip: length_greater_0_conv)

declare offsets_from.simps [simp del]

definition byte_offsets_of :: "string \<Rightarrow> string \<Rightarrow> nat list" where
  "byte_offsets_of haystack needle = offsets_from 0 haystack needle"

text \<open>One match, several, or none: also \<open>finalize_block_matches\<close>.\<close>

definition finalize_block_matches :: "string \<Rightarrow> (nat \<times> nat) list \<Rightarrow> rung \<Rightarrow> match_outcome option" where
  "finalize_block_matches content matches r =
     (case matches of
        [] \<Rightarrow> None
      | [rg] \<Rightarrow> Some (Unique rg r 1)
      | _ \<Rightarrow> Some (Ambiguous (map (span_of content) matches)))"

definition try_exact :: "string \<Rightarrow> string \<Rightarrow> match_outcome option" where
  "try_exact content needle =
     (if needle = [] then None
      else let single_line = (NL \<notin> set needle);
               offsets = filter (\<lambda>start. \<not> single_line \<or> is_line_aligned content start (length needle))
                           (byte_offsets_of content needle)
           in finalize_block_matches content (map (\<lambda>start. (start, start + length needle)) offsets) Exact)"

section \<open>Rung 2: blocks of lines\<close>

definition trim_trailing_empty :: "string list \<Rightarrow> string list" where
  "trim_trailing_empty ls = rev (dropWhile (\<lambda>l. l = []) (rev ls))"

definition find_lines :: "string \<Rightarrow> string list" where
  "find_lines needle = trim_trailing_empty (map normalize_line (str_lines needle))"

definition try_line_block :: "string \<Rightarrow> string \<Rightarrow> rung \<Rightarrow> match_outcome option" where
  "try_line_block content needle r =
     (let content_lines = physical_lines content;
          find_norm = find_lines needle;
          content_norm = map (\<lambda>rg. normalize_line (substr content rg)) content_lines
      in if find_norm = [] \<or> length content_norm < length find_norm then None
         else finalize_block_matches content
                (map (\<lambda>w. (fst (content_lines ! w), snd (content_lines ! (w + length find_norm - 1))))
                   (filter (\<lambda>w. take (length find_norm) (drop w content_norm) = find_norm)
                      [0..<length content_norm - length find_norm + 1]))
                r)"

section \<open>Rung 3: first and last line\<close>

definition try_anchor :: "string \<Rightarrow> string \<Rightarrow> match_outcome option" where
  "try_anchor content needle =
     (let find_norm = find_lines needle
      in if length find_norm < 2 then None
         else if hd find_norm = [] \<or> last find_norm = [] then None
         else
           let content_lines = physical_lines content;
               hits = (\<lambda>l. filter (\<lambda>i. normalize_line (substr content (content_lines ! i)) = l) [0..<length content_lines]);
               first_hits = hits (hd find_norm);
               last_hits = hits (last find_norm)
           in if length first_hits \<noteq> 1 \<or> length last_hits \<noteq> 1 then None
              else if last_hits ! 0 \<le> first_hits ! 0 then None
              else Some (Unique (fst (content_lines ! (first_hits ! 0)), snd (content_lines ! (last_hits ! 0))) Anchor 1))"

section \<open>Rung 4: similarity\<close>

definition normalize_multiline :: "string \<Rightarrow> string" where
  "normalize_multiline needle = join [NL] (map normalize_line (str_lines needle))"

definition scored_lines :: "string \<Rightarrow> string \<Rightarrow> (rat \<times> nat \<times> nat) list" where
  "scored_lines content needle =
     sort_key (\<lambda>p. - fst p)
       (map (\<lambda>rg. (similarity (normalize_multiline needle) (normalize_line (substr content rg)), rg))
          (physical_lines content))"

definition try_fuzzy :: "string \<Rightarrow> string \<Rightarrow> match_outcome" where
  "try_fuzzy content needle =
     (let scored = scored_lines content needle;
          above = filter (\<lambda>p. fst p \<ge> fuzzy_accept_threshold - fuzzy_boundary_epsilon) scored
      in case above of
           [] \<Rightarrow> NoMatch (map (span_of content \<circ> snd) (filter (\<lambda>p. fst p > 0) (take max_near_misses scored)))
         | [(score, rg)] \<Rightarrow> Unique rg Fuzzy score
         | (best, rg) # (runner_up, _) # _ \<Rightarrow>
             if best - runner_up \<ge> fuzzy_runner_up_margin - fuzzy_boundary_epsilon
             then Unique rg Fuzzy best
             else Ambiguous (map (span_of content \<circ> snd) above))"

section \<open>The ladder\<close>

definition find_match :: "string \<Rightarrow> string \<Rightarrow> match_outcome" where
  "find_match content needle =
     (case try_exact content needle of
        Some outcome \<Rightarrow> outcome
      | None \<Rightarrow>
          (case try_line_block content needle Normalized of
             Some outcome \<Rightarrow> outcome
           | None \<Rightarrow>
               (case try_anchor content needle of
                  Some outcome \<Rightarrow> outcome
                | None \<Rightarrow> try_fuzzy content needle)))"

lemma lines_example:
  "physical_lines (''a'' @ [CR, NL] @ ''  b'' @ [NL, NL] @ ''c'') = [(0, 1), (3, 6), (7, 7), (8, 9)]"
  by code_simp

lemma find_match_examples:
  "try_exact (''fn f() {'' @ [NL] @ ''    let x = 1;'' @ [NL] @ ''}'') ''let x = 1;'' = None"
  by code_simp

end
