(* ===== verification/Edit_Match_Laws.thy ===== *)
theory Edit_Match_Laws
  imports Edit_Match
begin

text \<open>
  What the ladder promises: its lines are the lines of the text with their places, the literal rung sees
  every line that is the searched one, and a unique outcome is unique.
\<close>

section \<open>Lines and their places\<close>

lemma substr_lines_from:
  "content = p @ rev acc @ rest \<Longrightarrow>
    map (substr content) (lines_from content (length p) (length p + length acc) rest) = map strip_cr (nl_pieces acc rest)"
proof (induction rest arbitrary: p acc)
  case Nil
  then show ?case by (simp add: substr_def strip_cr_def)
next
  case (Cons c rest)
  show ?case
  proof (cases "c = NL")
    case True
    note Cons.IH [of "p @ rev acc @ [NL]" "[]"]
    moreover have "substr content (length p, if length p < length p + length acc \<and> content ! (length p + length acc - 1) = CR
        then length p + length acc - 1 else length p + length acc) = strip_cr (rev acc, True)"
      using Cons.prems by (cases acc) (auto simp: substr_def strip_cr_def nth_append)
    ultimately show ?thesis using True Cons.prems by (simp add: add.assoc)
  next
    case False
    then show ?thesis using Cons.IH [of p "c # acc"] Cons.prems by simp
  qed
qed

lemma substr_physical: "map (substr content) (physical_lines content) = str_lines content"
  using substr_lines_from [of content "[]" "[]" content] by (simp add: physical_lines_def str_lines_def)

lemma length_physical [simp]: "length (physical_lines content) = length (str_lines content)"
  using arg_cong [OF substr_physical, of length content] by simp

lemma substr_physical_nth: "i < length (str_lines content) \<Longrightarrow> substr content (physical_lines content ! i) = str_lines content ! i"
  using substr_physical [of content] by (metis length_map nth_map)

lemma lines_from_ordered:
  "length content = idx + length rest \<Longrightarrow> start \<le> idx \<Longrightarrow>
    sorted_wrt (\<lambda>r q. snd r < fst q) (lines_from content start idx rest)
    \<and> (\<forall>r \<in> set (lines_from content start idx rest). start \<le> fst r \<and> fst r \<le> snd r \<and> snd r \<le> length content)"
proof (induction rest arbitrary: start idx)
  case (Cons c rest)
  show ?case
  proof (cases "c = NL")
    case True
    have "sorted_wrt (\<lambda>r q. snd r < fst q) (lines_from content (idx + 1) (idx + 1) rest)
      \<and> (\<forall>r \<in> set (lines_from content (idx + 1) (idx + 1) rest). idx + 1 \<le> fst r \<and> fst r \<le> snd r \<and> snd r \<le> length content)"
      by (rule Cons.IH) (use Cons.prems in simp_all)
    then show ?thesis using True Cons.prems by fastforce
  next
    case False
    then show ?thesis using Cons.IH [of "idx + 1" start] Cons.prems by simp
  qed
qed auto

lemma physical_bounds:
  assumes "i < length (str_lines content)"
  shows "fst (physical_lines content ! i) \<le> snd (physical_lines content ! i)" "snd (physical_lines content ! i) \<le> length content"
  using lines_from_ordered [of content 0 content 0] nth_mem [of i "physical_lines content"] assms
  unfolding physical_lines_def [symmetric] by auto

lemma physical_apart:
  assumes "i < j" "j < length (str_lines content)"
  shows "snd (physical_lines content ! i) < fst (physical_lines content ! j)"
  using lines_from_ordered [of content 0 content 0] assms
  unfolding physical_lines_def [symmetric] by (auto intro: sorted_wrt_nth_less)

text \<open>The bytes pos line \<open>i\<close> to line \<open>j\<close>.\<close>

definition region :: "string \<Rightarrow> nat \<Rightarrow> nat \<Rightarrow> nat \<times> nat" where
  "region content i j = (fst (physical_lines content ! i), snd (physical_lines content ! j))"

definition in_text :: "string \<Rightarrow> nat \<times> nat \<Rightarrow> bool" where
  "in_text content r \<longleftrightarrow> fst r \<le> snd r \<and> snd r \<le> length content"

lemma region_in_text: "i \<le> j \<Longrightarrow> j < length (str_lines content) \<Longrightarrow> in_text content (region content i j)"
  using physical_bounds [of i content] physical_bounds [of j content] physical_apart [of i j content]
  by (cases "i = j") (auto simp: in_text_def region_def)

lemma region_inj: "i < length (str_lines content) \<Longrightarrow> j < length (str_lines content) \<Longrightarrow>
    physical_lines content ! i = physical_lines content ! j \<longleftrightarrow> i = j"
  using physical_apart [of i j content] physical_apart [of j i content] physical_bounds [of i content] physical_bounds [of j content]
  by (metis linorder_neqE_nat not_less)

definition norm_lines :: "string \<Rightarrow> string list" where
  "norm_lines content = map normalize_line (str_lines content)"

lemma length_norm [simp]: "length (norm_lines content) = length (str_lines content)"
  by (simp add: norm_lines_def)

lemma norm_physical: "map (\<lambda>rg. normalize_line (substr content rg)) (physical_lines content) = norm_lines content"
  using arg_cong [OF substr_physical [of content], of "map normalize_line"] by (simp add: norm_lines_def comp_def)

lemma norm_nth: "i < length (str_lines content) \<Longrightarrow> normalize_line (substr content (physical_lines content ! i)) = norm_lines content ! i"
  by (simp add: norm_lines_def substr_physical_nth)

section \<open>Literal occurrences\<close>

text \<open>What the literal rung looks for.\<close>

definition occurs_at :: "string \<Rightarrow> string \<Rightarrow> nat \<Rightarrow> bool" where
  "occurs_at content needle i \<longleftrightarrow> prefix needle (drop i content) \<and> i + length needle \<le> length content
     \<and> (NL \<in> set needle \<or> is_line_aligned content i (length needle))"

lemma offsets_from_spec:
  assumes "needle \<noteq> []"
  shows "(\<forall>i \<in> set (offsets_from pos s needle). pos \<le> i \<and> prefix needle (drop i s) \<and> i + length needle \<le> length s)
    \<and> (\<forall>j \<ge> pos. prefix needle (drop j s) \<longrightarrow> (\<exists>i \<in> set (offsets_from pos s needle). i \<le> j \<and> j < i + length needle))"
  using assms
proof (induction pos s needle rule: offsets_from.induct)
  case (1 pos s needle)
  show ?case
  proof (cases "find_str needle (drop pos s)")
    case None
    have "\<not> prefix needle (drop j s)" if "j \<ge> pos" for j
    proof
      assume p: "prefix needle (drop j s)"
      then have "j + length needle \<le> length s" using prefix_drop_bound 1 by blast
      then have "\<not> prefix needle (drop (j - pos) (drop pos s))"
        using None unfolding find_str_None by (auto intro: diff_le_mono)
      then show False using p that by simp
    qed
    then show ?thesis using None 1(2) by (simp add: offsets_from.simps [of pos])
  next
    case (Some rel)
    let ?at = "pos + rel"
    have offs: "offsets_from pos s needle = ?at # offsets_from (?at + length needle) s needle"
      using Some 1 by (simp add: offsets_from.simps [of pos])
    have at: "prefix needle (drop ?at s)" "rel + length needle \<le> length s - pos" "\<And>k. k < rel \<Longrightarrow> \<not> prefix needle (drop (pos + k) s)"
      using find_str_Some [OF Some] by (simp_all add: add.commute)
    have "?at + length needle \<le> length s" using at(2) 1(2) by (cases needle) auto
    moreover have "\<exists>i \<in> set (offsets_from pos s needle). i \<le> j \<and> j < i + length needle"
      if "pos \<le> j" "prefix needle (drop j s)" for j
    proof (cases "?at + length needle \<le> j")
      case True
      then show ?thesis using "1.IH" [OF "1.prems" Some "1.prems"] that unfolding offs by auto
    next
      case False
      moreover have "?at \<le> j"
      proof (rule ccontr)
        assume "\<not> ?at \<le> j"
        then have "j - pos < rel" using that by linarith
        then show False using at(3) [of "j - pos"] that by simp
      qed
      ultimately show ?thesis unfolding offs by auto
    qed
    ultimately show ?thesis using "1.IH" [OF "1.prems" Some "1.prems"] at(1) unfolding offs by auto
  qed
qed


text \<open>A literal occurrence on a line of its own cannot overlap another one, and a block that contains a
  newline is searched without regard to lines: every occurrence is found or overlaps one that is.\<close>

lemma byte_offsets:
  assumes "needle \<noteq> []"
  shows "i \<in> set (byte_offsets_of s needle) \<Longrightarrow> prefix needle (drop i s) \<and> i + length needle \<le> length s"
    and "prefix needle (drop j s) \<Longrightarrow> \<exists>i \<in> set (byte_offsets_of s needle). i \<le> j \<and> j < i + length needle"
  using offsets_from_spec [OF assms, of 0 s] by (auto simp: byte_offsets_of_def)

lemma aligned_not_inside:
  assumes "NL \<notin> set needle" "prefix needle (drop i s)" "i < j" "j < i + length needle"
  shows "\<not> is_line_aligned s j len"
proof
  assume "is_line_aligned s j len"
  then have "s ! (j - 1) = NL" using assms(3) by (simp add: is_line_aligned_def Let_def)
  moreover have "s ! (j - 1) = needle ! (j - 1 - i)"
  proof -
    obtain t where "drop i s = needle @ t" using assms(2) by (auto elim: prefixE)
    moreover have "j - 1 - i < length needle" using assms(3,4) by linarith
    ultimately have "drop i s ! (j - 1 - i) = needle ! (j - 1 - i)" by (simp add: nth_append)
    moreover have "i \<le> length s" using assms by (cases "i \<le> length s") auto
    ultimately show ?thesis using assms(3) by simp
  qed
  moreover have "needle ! (j - 1 - i) \<in> set needle" using assms(3,4) by (intro nth_mem) simp
  ultimately show False using assms(1) by metis
qed

definition exact_offsets :: "string \<Rightarrow> string \<Rightarrow> nat list" where
  "exact_offsets s needle =
     filter (\<lambda>start. NL \<in> set needle \<or> is_line_aligned s start (length needle)) (byte_offsets_of s needle)"

lemma eligible_offsets:
  assumes "needle \<noteq> []"
  shows "i \<in> set (exact_offsets s needle) \<Longrightarrow> occurs_at s needle i"
    and "occurs_at s needle j \<Longrightarrow> \<exists>i \<in> set (exact_offsets s needle). i \<le> j \<and> j < i + length needle"
proof -
  show "i \<in> set (exact_offsets s needle) \<Longrightarrow> occurs_at s needle i"
    using byte_offsets(1) [OF assms] by (auto simp: exact_offsets_def occurs_at_def)
  assume j: "occurs_at s needle j"
  then obtain i where i: "i \<in> set (byte_offsets_of s needle)" "i \<le> j" "j < i + length needle"
    using byte_offsets(2) [OF assms] by (auto simp: occurs_at_def)
  show "\<exists>i \<in> set (exact_offsets s needle). i \<le> j \<and> j < i + length needle"
  proof (cases "NL \<in> set needle")
    case True
    then show ?thesis using i by (auto simp: exact_offsets_def)
  next
    case False
    then have "i = j" using aligned_not_inside [OF False _ _ i(3)] byte_offsets(1) [OF assms i(1)] j i(2)
      by (cases "i < j") (auto simp: occurs_at_def)
    then show ?thesis using i j False by (auto simp: exact_offsets_def occurs_at_def)
  qed
qed

lemma exact_offsets_empty: "needle \<noteq> [] \<Longrightarrow> exact_offsets s needle = [] \<longleftrightarrow> (\<forall>i. \<not> occurs_at s needle i)"
  using eligible_offsets(1) [of needle "hd (exact_offsets s needle)" s] eligible_offsets(2) [of needle s]
  by (metis empty_iff empty_set hd_in_set)

section \<open>The rungs\<close>

lemma finalize_simps:
  "finalize_block_matches content ms r = None \<longleftrightarrow> ms = []"
  "finalize_block_matches content ms r = Some (Unique rg q c) \<longleftrightarrow> ms = [rg] \<and> q = r \<and> c = 1"
  "finalize_block_matches content ms r = Some (Ambiguous cs) \<longleftrightarrow> 2 \<le> length ms \<and> cs = map (span_of content) ms"
  "finalize_block_matches content ms r \<noteq> Some (NoMatch near)"
  by (auto simp: finalize_block_matches_def split: list.splits)

lemma try_exact_offsets:
  assumes "needle \<noteq> []"
  shows "try_exact content needle
     = finalize_block_matches content (map (\<lambda>start. (start, start + length needle)) (exact_offsets content needle)) Exact"
proof -
  have "(\<lambda>start. \<not> (NL \<notin> set needle) \<or> is_line_aligned content start (length needle))
      = (\<lambda>start. NL \<in> set needle \<or> is_line_aligned content start (length needle))" by simp
  then show ?thesis using assms unfolding try_exact_def exact_offsets_def Let_def by (simp only: if_False)
qed

lemma try_exact_None: "try_exact content needle = None \<longleftrightarrow> needle = [] \<or> (\<forall>i. \<not> occurs_at content needle i)"
proof (cases "needle = []")
  case False
  then show ?thesis unfolding try_exact_offsets [OF False] finalize_simps by (simp add: exact_offsets_empty)
qed (simp add: try_exact_def)

lemma try_exact_Unique:
  assumes "try_exact content needle = Some (Unique rg r c)"
  shows "r = Exact \<and> c = 1 \<and> in_text content rg \<and> substr content rg = needle \<and> needle \<noteq> []
    \<and> (\<forall>i. occurs_at content needle i \<longrightarrow> i = fst rg \<or> NL \<in> set needle \<and> fst rg < i \<and> i < snd rg)"
proof -
  have n: "needle \<noteq> []" using assms by (auto simp: try_exact_def)
  obtain k where k: "exact_offsets content needle = [k]" "rg = (k, k + length needle)" "r = Exact" "c = 1"
    using assms n by (auto simp: try_exact_offsets finalize_simps)
  then have occ: "occurs_at content needle k" using eligible_offsets(1) [OF n, of k content] by simp
  moreover have "i = k \<or> NL \<in> set needle \<and> k < i \<and> i < k + length needle" if "occurs_at content needle i" for i
  proof -
    have "k \<le> i" "i < k + length needle" using eligible_offsets(2) [OF n that] unfolding k(1) by auto
    moreover have "NL \<notin> set needle \<Longrightarrow> \<not> k < i"
      using aligned_not_inside [of needle k content i] occ that \<open>i < k + length needle\<close> by (auto simp: occurs_at_def)
    ultimately show ?thesis by auto
  qed
  ultimately show ?thesis using n k by (auto simp: occurs_at_def in_text_def substr_prefix)
qed

text \<open>Where the searched lines stand as a block.\<close>

definition block_at :: "string \<Rightarrow> string \<Rightarrow> nat \<Rightarrow> bool" where
  "block_at content needle w \<longleftrightarrow> find_lines needle \<noteq> [] \<and> w + length (find_lines needle) \<le> length (str_lines content)
     \<and> take (length (find_lines needle)) (drop w (norm_lines content)) = find_lines needle"

lemma try_line_block_eq:
  "try_line_block content needle r = finalize_block_matches content
     (map (\<lambda>w. region content w (w + length (find_lines needle) - 1)) (filter (block_at content needle) [0..<length (str_lines content) + 1])) r"
proof (cases "find_lines needle = [] \<or> length (str_lines content) < length (find_lines needle)")
  case True
  then have "filter (block_at content needle) [0..<length (str_lines content) + 1] = []" by (auto simp: block_at_def filter_empty_conv)
  then show ?thesis
    using True by (auto simp: try_line_block_def Let_def finalize_block_matches_def)
next
  case False
  let ?k = "length (find_lines needle)" and ?n = "length (str_lines content)"
  have "[0..<?n + 1] = [0..<?n - ?k + 1] @ [?n - ?k + 1..<?n + 1]"
    using upt_add_eq_append [of 0 "?n - ?k + 1" ?k] False by (simp del: upt_Suc)
  moreover have "filter (block_at content needle) [?n - ?k + 1..<?n + 1] = []" using False by (auto simp: block_at_def filter_empty_conv)
  moreover have "filter (\<lambda>w. take ?k (drop w (norm_lines content)) = find_lines needle) [0..<?n - ?k + 1]
      = filter (block_at content needle) [0..<?n - ?k + 1]"
    using False by (intro filter_cong) (auto simp: block_at_def)
  ultimately show ?thesis
    using False unfolding try_line_block_def Let_def norm_physical region_def by (simp del: upt_Suc)
qed

lemma filter_singleton:
  assumes "filter P [0..<n] = [w]" "v < n"
  shows "P v \<longleftrightarrow> v = w"
  using arg_cong [OF assms(1), of "\<lambda>xs. v \<in> set xs"] assms(2) by simp

lemma block_at_bound: "block_at content needle w \<Longrightarrow> w < length (str_lines content)"
  by (cases "find_lines needle") (auto simp: block_at_def)

lemma try_line_block_None: "try_line_block content needle r = None \<longleftrightarrow> (\<forall>w. \<not> block_at content needle w)"
  unfolding try_line_block_eq finalize_simps map_is_Nil_conv filter_empty_conv set_upt
  by (meson atLeastLessThan_iff block_at_bound le0 less_add_same_cancel1 less_trans zero_less_one)

lemma try_line_block_Unique:
  assumes "try_line_block content needle r = Some (Unique rg q c)"
  shows "q = r \<and> c = 1 \<and> (\<exists>w. rg = region content w (w + length (find_lines needle) - 1) \<and> (\<forall>v. block_at content needle v \<longleftrightarrow> v = w))"
proof -
  obtain w where w: "filter (block_at content needle) [0..<length (str_lines content) + 1] = [w]"
    "rg = region content w (w + length (find_lines needle) - 1)" "q = r" "c = 1"
    using assms unfolding try_line_block_eq by (auto simp: finalize_simps map_eq_Cons_conv simp del: upt_Suc)
  have "block_at content needle v \<longleftrightarrow> v = w" for v
  proof (cases "v < length (str_lines content) + 1")
    case True
    then show ?thesis by (rule filter_singleton [OF w(1)])
  next
    case False
    moreover have "w \<in> set [0..<length (str_lines content) + 1]"
      using arg_cong [OF w(1), of set] by (auto simp del: upt_Suc)
    ultimately show ?thesis by (auto simp: block_at_def)
  qed
  then show ?thesis using w by blast
qed

end
