(* ===== verification/Edit_Match_Claims.thy ===== *)
theory Edit_Match_Claims
  imports Edit_Match_Laws
begin

text \<open>The last two rungs, and what an answer of the whole ladder says.\<close>

section \<open>First and last line\<close>

text \<open>The only place where the first and the only place where the last searched line stands.\<close>

definition anchored_at :: "string \<Rightarrow> string \<Rightarrow> nat \<Rightarrow> nat \<Rightarrow> bool" where
  "anchored_at content needle i j \<longleftrightarrow> 2 \<le> length (find_lines needle) \<and> i < j \<and> j < length (str_lines content)
     \<and> (\<forall>k < length (str_lines content). norm_lines content ! k = hd (find_lines needle) \<longleftrightarrow> k = i)
     \<and> (\<forall>k < length (str_lines content). norm_lines content ! k = last (find_lines needle) \<longleftrightarrow> k = j)"

lemma try_anchor_Some:
  assumes "try_anchor content needle = Some outcome"
  shows "\<exists>i j. outcome = Unique (region content i j) Anchor 1 \<and> anchored_at content needle i j"
proof -
  let ?hits = "\<lambda>l. filter (\<lambda>i. normalize_line (substr content (physical_lines content ! i)) = l) [0..<length (physical_lines content)]"
  have n: "2 \<le> length (find_lines needle)" using assms by (auto simp: try_anchor_def Let_def split: if_splits)
  have one: "length (?hits (hd (find_lines needle))) = 1" "length (?hits (last (find_lines needle))) = 1"
    and less: "?hits (hd (find_lines needle)) ! 0 < ?hits (last (find_lines needle)) ! 0"
    and out: "outcome = Unique (fst (physical_lines content ! (?hits (hd (find_lines needle)) ! 0)),
      snd (physical_lines content ! (?hits (last (find_lines needle)) ! 0))) Anchor 1"
    using assms n by (auto simp: try_anchor_def Let_def simp del: length_physical split: if_splits)
  obtain i where i: "?hits (hd (find_lines needle)) = [i]" using one(1) by (cases "?hits (hd (find_lines needle))") auto
  obtain j where j: "?hits (last (find_lines needle)) = [j]" using one(2) by (cases "?hits (last (find_lines needle))") auto
  note ij = i j
  have at: "norm_lines content ! k = l \<longleftrightarrow> k = m" if "?hits l = [m]" "k < length (str_lines content)" for k l m
    using filter_singleton [OF that(1), of k] that(2) norm_nth [OF that(2)] by simp
  have "j \<in> set (?hits (last (find_lines needle)))" unfolding ij(2) by simp
  then have "j < length (str_lines content)" by simp
  moreover have "i < j" using less unfolding ij by simp
  ultimately have "anchored_at content needle i j"
    unfolding anchored_at_def using n at [OF ij(1)] at [OF ij(2)] by blast
  moreover have "outcome = Unique (region content i j) Anchor 1" using out unfolding ij region_def by simp
  ultimately show ?thesis by blast
qed

section \<open>Similarity\<close>

definition line_score :: "string \<Rightarrow> string \<Rightarrow> nat \<Rightarrow> rat" where
  "line_score content needle i = similarity (normalize_multiline needle) (norm_lines content ! i)"

lemma scored_set:
  "set (scored_lines content needle) = (\<lambda>i. (line_score content needle i, physical_lines content ! i)) ` {..<length (str_lines content)}"
proof -
  let ?f = "\<lambda>rg. (similarity (normalize_multiline needle) (normalize_line (substr content rg)), rg)"
  have "set (scored_lines content needle) = ?f ` set (physical_lines content)" by (simp add: scored_lines_def)
  also have "set (physical_lines content) = (!) (physical_lines content) ` {..<length (str_lines content)}"
    by (auto simp: set_conv_nth)
  finally show ?thesis by (auto simp: image_image norm_nth line_score_def)
qed

lemma scored_sorted: "sorted_wrt (\<lambda>p q. fst q \<le> fst p) (scored_lines content needle)"
  using sorted_sort_key [of "\<lambda>p :: rat \<times> nat \<times> nat. - fst p"] by (simp add: scored_lines_def sorted_wrt_map)

definition close_enough :: "string \<Rightarrow> string \<Rightarrow> nat \<Rightarrow> bool" where
  "close_enough content needle i \<longleftrightarrow> i < length (str_lines content)
     \<and> line_score content needle i \<ge> fuzzy_accept_threshold - fuzzy_boundary_epsilon"

definition close_lines :: "string \<Rightarrow> string \<Rightarrow> (rat \<times> nat \<times> nat) list" where
  "close_lines content needle =
     filter (\<lambda>p. fst p \<ge> fuzzy_accept_threshold - fuzzy_boundary_epsilon) (scored_lines content needle)"

lemma close_set:
  "set (close_lines content needle) = (\<lambda>i. (line_score content needle i, physical_lines content ! i)) ` {i. close_enough content needle i}"
  by (auto simp: close_lines_def scored_set close_enough_def)

lemma try_fuzzy_Unique:
  assumes "try_fuzzy content needle = Unique rg r c"
  shows "r = Fuzzy \<and> (\<exists>i. close_enough content needle i \<and> rg = region content i i \<and> c = line_score content needle i
    \<and> (\<forall>k. close_enough content needle k \<and> k \<noteq> i
         \<longrightarrow> line_score content needle i - line_score content needle k \<ge> fuzzy_runner_up_margin - fuzzy_boundary_epsilon))"
proof -
  let ?pair = "\<lambda>i. (line_score content needle i, physical_lines content ! i)"
  obtain ps where ps: "close_lines content needle = (c, rg) # ps" "r = Fuzzy"
    "ps \<noteq> [] \<Longrightarrow> c - fst (hd ps) \<ge> fuzzy_runner_up_margin - fuzzy_boundary_epsilon"
    using assms by (auto simp: try_fuzzy_def Let_def close_lines_def [symmetric] split: list.splits if_splits prod.splits)
  then have "(c, rg) \<in> ?pair ` {i. close_enough content needle i}" unfolding close_set [symmetric] by simp
  then obtain i where i: "close_enough content needle i" "(c, rg) = ?pair i" by blast
  have sorted: "sorted_wrt (\<lambda>p q. fst q \<le> fst p) (close_lines content needle)"
    unfolding close_lines_def by (rule sorted_wrt_filter [OF scored_sorted])
  have "c - line_score content needle k \<ge> fuzzy_runner_up_margin - fuzzy_boundary_epsilon"
    if k: "close_enough content needle k" "k \<noteq> i" for k
  proof -
    have "?pair k \<in> set (close_lines content needle)" using k close_set [of content needle] by blast
    moreover have "?pair k \<noteq> ?pair i" using k i(1) region_inj [of k content i] by (auto simp: close_enough_def)
    ultimately have "?pair k \<in> set ps" using ps(1) i(2) by auto
    then have "line_score content needle k \<le> fst (hd ps)" "ps \<noteq> []"
      using sorted ps(1) by (cases ps; force)+
    then show ?thesis using ps(3) by fastforce
  qed
  then show ?thesis using ps(2) i by (auto simp: region_def)
qed

lemma try_fuzzy_NoMatch:
  "(\<exists>near. try_fuzzy content needle = NoMatch near) \<longleftrightarrow> (\<forall>i. \<not> close_enough content needle i)"
proof -
  have "(\<exists>near. try_fuzzy content needle = NoMatch near) \<longleftrightarrow> close_lines content needle = []"
    by (auto simp: try_fuzzy_def Let_def close_lines_def [symmetric] split: list.splits if_splits prod.splits)
  then show ?thesis using close_set [of content needle] by (auto simp flip: set_empty)
qed

section \<open>Candidates\<close>

lemma span_range [simp]: "ms_range (span_of content rg) = rg"
  by (simp add: span_of_def Let_def)

lemma scored_in_text: "p \<in> set (scored_lines content needle) \<Longrightarrow> in_text content (snd p)"
  using region_in_text [of i i content for i] by (auto simp: scored_set region_def in_text_def)

fun named_spans :: "match_outcome \<Rightarrow> match_span list" where
  "named_spans (Unique rg r c) = []"
| "named_spans (Ambiguous cs) = cs"
| "named_spans (NoMatch near) = near"

lemma finalize_in_text:
  "finalize_block_matches content ms r = Some out \<Longrightarrow> \<forall>rg \<in> set ms. in_text content rg
    \<Longrightarrow> \<forall>s \<in> set (named_spans out). in_text content (ms_range s)"
  by (auto simp: finalize_block_matches_def split: list.splits)

lemma try_exact_in_text:
  assumes "try_exact content needle = Some out"
  shows "\<forall>s \<in> set (named_spans out). in_text content (ms_range s)"
proof -
  have n: "needle \<noteq> []" using assms by (auto simp: try_exact_def)
  show ?thesis
    using assms eligible_offsets(1) [OF n] unfolding try_exact_offsets [OF n]
    by (elim finalize_in_text) (auto simp: occurs_at_def in_text_def)
qed

lemma block_in_text: "block_at content needle w \<Longrightarrow> in_text content (region content w (w + length (find_lines needle) - 1))"
  by (cases "find_lines needle") (auto simp: block_at_def intro: region_in_text)

lemma try_line_block_in_text:
  "try_line_block content needle r = Some out \<Longrightarrow> \<forall>s \<in> set (named_spans out). in_text content (ms_range s)"
  unfolding try_line_block_eq by (elim finalize_in_text) (auto dest: block_in_text simp del: upt_Suc)

lemma try_fuzzy_in_text: "\<forall>s \<in> set (named_spans (try_fuzzy content needle)). in_text content (ms_range s)"
proof -
  have close: "p \<in> set (close_lines content needle) \<Longrightarrow> in_text content (snd p)" for p
    using scored_in_text [of p content needle] by (simp add: close_lines_def)
  show ?thesis
  proof (cases "close_lines content needle")
    case Nil
    then show ?thesis using scored_in_text
      by (auto simp: try_fuzzy_def Let_def close_lines_def [symmetric] dest!: in_set_takeD)
  next
    case (Cons p ps)
    have "\<forall>p \<in> set (close_lines content needle). in_text content (snd p)" using close by blast
    then show ?thesis using Cons
      by (cases ps) (auto simp: try_fuzzy_def Let_def close_lines_def [symmetric] split: prod.split)
  qed
qed

lemma find_match_in_text: "\<forall>s \<in> set (named_spans (find_match content needle)). in_text content (ms_range s)"
proof (cases "try_exact content needle")
  case None
  note exact = None
  show ?thesis
  proof (cases "try_line_block content needle Normalized")
    case None
    then show ?thesis using exact try_fuzzy_in_text try_anchor_Some [of content needle]
      by (cases "try_anchor content needle") (auto simp: find_match_def)
  qed (use exact try_line_block_in_text in \<open>simp add: find_match_def\<close>)
qed (use try_exact_in_text in \<open>simp add: find_match_def\<close>)

lemma unique_in_text: "find_match content needle = Unique rg r c \<Longrightarrow> in_text content rg"
proof -
  assume m: "find_match content needle = Unique rg r c"
  have exact: "try_exact content needle = Some (Unique rg r c) \<Longrightarrow> in_text content rg"
    using try_exact_Unique by blast
  have block: "try_line_block content needle Normalized = Some (Unique rg r c) \<Longrightarrow> in_text content rg"
    using try_line_block_Unique [of content needle Normalized rg r c] block_in_text [of content needle] by fastforce
  have anchor: "try_anchor content needle = Some (Unique rg r c) \<Longrightarrow> in_text content rg"
    using try_anchor_Some [of content needle] by (fastforce simp: anchored_at_def intro: region_in_text)
  have fuzzy: "try_fuzzy content needle = Unique rg r c \<Longrightarrow> in_text content rg"
    using try_fuzzy_Unique [of content needle rg r c] by (fastforce simp: close_enough_def intro: region_in_text)
  from m exact block anchor fuzzy show ?thesis by (auto simp: find_match_def split: option.splits)
qed

section \<open>The ladder\<close>

text \<open>C33. A unique answer of the ladder lies within the content and is what its rung claims. For the literal rung
  the answer is the text itself; a text without a newline, which counts only where it fills whole lines, fills no
  other lines, while a text with a newline may occur again at places that overlap the answer: the search steps over
  them and they do not compete. For the second rung the answer is the only block of lines that agrees up to white space;
  for the third the region between the only occurrences of the first and the last line; for the fourth a line that
  is similar enough, and at least the margin more similar than any other line that is. A lower rung answers only when
  the text is empty or has no such literal place, and the last two only when no block of lines agrees either.\<close>

theorem find_match_unique:
  assumes "find_match content needle = Unique rg r c"
  shows "in_text content rg \<and>
    (case r of
       Exact \<Rightarrow> substr content rg = needle \<and> (\<forall>i. occurs_at content needle i \<longrightarrow> i = fst rg \<or> NL \<in> set needle \<and> fst rg < i \<and> i < snd rg)
     | Normalized \<Rightarrow> \<exists>w. rg = region content w (w + length (find_lines needle) - 1) \<and> (\<forall>v. block_at content needle v \<longleftrightarrow> v = w)
     | Anchor \<Rightarrow> \<exists>i j. rg = region content i j \<and> anchored_at content needle i j
     | Fuzzy \<Rightarrow> \<exists>i. close_enough content needle i \<and> rg = region content i i \<and> c = line_score content needle i
         \<and> (\<forall>k. close_enough content needle k \<and> k \<noteq> i
              \<longrightarrow> line_score content needle i - line_score content needle k \<ge> fuzzy_runner_up_margin - fuzzy_boundary_epsilon))
    \<and> (r \<noteq> Exact \<longrightarrow> needle = [] \<or> (\<forall>i. \<not> occurs_at content needle i))
    \<and> (r \<noteq> Exact \<and> r \<noteq> Normalized \<longrightarrow> (\<forall>w. \<not> block_at content needle w))"
proof -
  note in_text = unique_in_text [OF assms]
  show ?thesis
proof (cases "try_exact content needle")
  case (Some out)
  then show ?thesis using assms try_exact_Unique [of content needle rg r c] by (auto simp: find_match_def)
next
  case no_exact: None
  then have occ: "needle = [] \<or> (\<forall>i. \<not> occurs_at content needle i)" by (simp add: try_exact_None)
  show ?thesis
  proof (cases "try_line_block content needle Normalized")
    case (Some out)
    then have blk: "try_line_block content needle Normalized = Some (Unique rg r c)" using assms no_exact by (simp add: find_match_def)
    then obtain w where w: "r = Normalized" "rg = region content w (w + length (find_lines needle) - 1)"
      "\<forall>v. block_at content needle v \<longleftrightarrow> v = w" using try_line_block_Unique by blast
    then show ?thesis using w occ in_text by auto
  next
    case no_block: None
    then have blk: "\<forall>w. \<not> block_at content needle w" by (simp add: try_line_block_None)
    show ?thesis
    proof (cases "try_anchor content needle")
      case (Some out)
      then obtain i j where ij: "out = Unique (region content i j) Anchor 1" "anchored_at content needle i j"
        using try_anchor_Some by blast
      then show ?thesis using in_text Some assms no_exact no_block occ blk by (auto simp: find_match_def)
    next
      case None
      then have "try_fuzzy content needle = Unique rg r c" using assms no_exact no_block by (simp add: find_match_def)
      from try_fuzzy_Unique [OF this] obtain i where i: "r = Fuzzy" "close_enough content needle i" "rg = region content i i"
        "c = line_score content needle i" "\<forall>k. close_enough content needle k \<and> k \<noteq> i
         \<longrightarrow> line_score content needle i - line_score content needle k \<ge> fuzzy_runner_up_margin - fuzzy_boundary_epsilon" by blast
      then show ?thesis using in_text occ blk by auto
    qed
  qed
qed
qed

section \<open>Witnesses\<close>

theorem find_match_unique_witness:
  "in_text (''a'' @ [NL] @ ''b'') (2, 3) \<and> substr (''a'' @ [NL] @ ''b'') (2, 3) = ''b''"
proof -
  have "find_match (''a'' @ [NL] @ ''b'') ''b'' = Unique (2, 3) Exact 1" unfolding find_match_def by code_simp
  from find_match_unique [OF this] show ?thesis by (simp only: rung.case)
qed

end
