(* ===== verification/Edit_Cascade.thy ===== *)
theory Edit_Cascade
  imports Edit_Match_Claims Hashline Json
begin

text \<open>
  The \<open>edit file\<close> tool, \<open>swissarmyhammer-tools/src/mcp/tools/files/edit/\<close>: the arguments
  (\<open>args.rs\<close>), the cascade from a pair of texts to one change of the content (\<open>cascade.rs\<close>, with the
  records of \<open>prompts.rs\<close>), a whole batch on an in-memory copy, and the checks of \<open>execute_edit\<close> before
  and after. The file is its decoded text; paths, encodings, permissions and the rate limit are not
  modelled. The hash of the anchors and the diff of a near miss are library code, so they are
  parameters. \<open>Inl\<close> is a request that is refused.
\<close>

section \<open>Pairs\<close>

record edit_pair =
  ep_find :: string
  ep_replace :: string
  ep_replace_all :: bool
  ep_occurrence :: "nat option"

text \<open>The reason of a refusal; texts are left out.\<close>

datatype edit_refusal =
    NotStrings
  | Mismatched "string list" "string list"
  | FindWithoutReplace
  | ReplaceWithoutFind
  | EditsNotArray
  | EditNotObject nat
  | EditMissingFind nat
  | EditMissingReplace nat
  | NoEdits
  | EmptyEdits
  | EmptyFind nat
  | NoOpEdit nat

definition find_aliases :: "string list" where
  "find_aliases = [''search'', ''old'', ''old_string'', ''oldText'', ''old_text'', ''from'', ''target'', ''match'']"

definition replace_aliases :: "string list" where
  "replace_aliases = [''new'', ''new_string'', ''newText'', ''new_text'', ''to'', ''with'', ''replacement'']"

definition first_present :: "json \<Rightarrow> string \<Rightarrow> string list \<Rightarrow> json option" where
  "first_present m canonical aliases =
     (case json_get m canonical of
        Some v \<Rightarrow> Some v
      | None \<Rightarrow> (case List.map_filter (json_get m) aliases of [] \<Rightarrow> None | v # _ \<Rightarrow> Some v))"

fun string_items :: "json list \<Rightarrow> edit_refusal + string list" where
  "string_items [] = Inr []"
| "string_items (x # xs) =
     (case x of
        JString s \<Rightarrow> (case string_items xs of Inl e \<Rightarrow> Inl e | Inr ss \<Rightarrow> Inr (s # ss))
      | _ \<Rightarrow> Inl NotStrings)"

fun collect_strings :: "json option \<Rightarrow> edit_refusal + string list option" where
  "collect_strings None = Inr None"
| "collect_strings (Some (JString s)) = Inr (Some [s])"
| "collect_strings (Some (JArray items)) =
     (case string_items items of Inl e \<Rightarrow> Inl e | Inr ss \<Rightarrow> Inr (Some ss))"
| "collect_strings (Some _) = Inl NotStrings"

definition read_replace_all :: "json \<Rightarrow> bool" where
  "read_replace_all m = (case Option.bind (json_get m ''replace_all'') json_bool of Some b \<Rightarrow> b | None \<Rightarrow> False)"

definition read_occurrence :: "json \<Rightarrow> nat option" where
  "read_occurrence m =
     (case Option.bind (json_get m ''occurrence'') json_u64 of
        Some n \<Rightarrow> (if 1 \<le> n then Some n else None) | None \<Rightarrow> None)"

definition pair_finds_replaces ::
  "string list \<Rightarrow> string list \<Rightarrow> bool \<Rightarrow> nat option \<Rightarrow> edit_refusal + edit_pair list" where
  "pair_finds_replaces finds replaces replace_all occurrence =
     (let pair = (\<lambda>f r. \<lparr>ep_find = f, ep_replace = r, ep_replace_all = replace_all, ep_occurrence = occurrence\<rparr>)
      in if length replaces = 1 \<and> 1 < length finds then Inr (map (\<lambda>f. pair f (replaces ! 0)) finds)
         else if length finds = length replaces then Inr (map (\<lambda>(f, r). pair f r) (zip finds replaces))
         else let paired = min (length finds) (length replaces)
              in Inl (Mismatched (drop paired finds) (drop paired replaces)))"

definition looks_like_edit :: "json \<Rightarrow> bool" where
  "looks_like_edit args \<longleftrightarrow> json_get args ''edits'' \<noteq> None
     \<or> first_present args ''find'' find_aliases \<noteq> None \<or> first_present args ''replace'' replace_aliases \<noteq> None"

definition top_level_pairs :: "json \<Rightarrow> edit_refusal + edit_pair list" where
  "top_level_pairs args =
     (case collect_strings (first_present args ''find'' find_aliases) of
        Inl e \<Rightarrow> Inl e
      | Inr finds \<Rightarrow>
          (case collect_strings (first_present args ''replace'' replace_aliases) of
             Inl e \<Rightarrow> Inl e
           | Inr replaces \<Rightarrow>
               (case (finds, replaces) of
                  (Some fs, Some rs) \<Rightarrow> pair_finds_replaces fs rs (read_replace_all args) (read_occurrence args)
                | (Some _, None) \<Rightarrow> Inl FindWithoutReplace
                | (None, Some _) \<Rightarrow> Inl ReplaceWithoutFind
                | (None, None) \<Rightarrow> Inr [])))"

definition edit_item_pairs :: "nat \<Rightarrow> json \<Rightarrow> edit_refusal + edit_pair list" where
  "edit_item_pairs idx item =
     (case item of
        JObject _ \<Rightarrow>
          (case collect_strings (first_present item ''find'' find_aliases) of
             Inl e \<Rightarrow> Inl e
           | Inr None \<Rightarrow> Inl (EditMissingFind idx)
           | Inr (Some finds) \<Rightarrow>
               (case collect_strings (first_present item ''replace'' replace_aliases) of
                  Inl e \<Rightarrow> Inl e
                | Inr None \<Rightarrow> Inl (EditMissingReplace idx)
                | Inr (Some replaces) \<Rightarrow>
                    pair_finds_replaces finds replaces (read_replace_all item) (read_occurrence item)))
      | _ \<Rightarrow> Inl (EditNotObject idx))"

fun edits_pairs :: "nat \<Rightarrow> json list \<Rightarrow> edit_refusal + edit_pair list" where
  "edits_pairs idx [] = Inr []"
| "edits_pairs idx (item # items) =
     (case edit_item_pairs idx item of
        Inl e \<Rightarrow> Inl e
      | Inr ps \<Rightarrow> (case edits_pairs (idx + 1) items of Inl e \<Rightarrow> Inl e | Inr qs \<Rightarrow> Inr (ps @ qs)))"

definition normalize_edit_args :: "json \<Rightarrow> edit_refusal + edit_pair list" where
  "normalize_edit_args args =
     (case top_level_pairs args of
        Inl e \<Rightarrow> Inl e
      | Inr ps \<Rightarrow>
          (case (case json_get args ''edits'' of
                   None \<Rightarrow> Inr []
                 | Some (JArray items) \<Rightarrow> edits_pairs 0 items
                 | Some _ \<Rightarrow> Inl EditsNotArray) of
             Inl e \<Rightarrow> Inl e
           | Inr qs \<Rightarrow> (if ps @ qs = [] then Inl NoEdits else Inr (ps @ qs))))"

section \<open>Candidates and near misses\<close>

record edit_candidate =
  ca_range :: "nat \<times> nat"
  ca_line :: nat
  ca_text :: string
  ca_context :: string

record near_miss =
  nm_line :: nat
  nm_text :: string
  nm_context :: string
  nm_diff :: string

definition candidate_context_radius :: nat where "candidate_context_radius = 2"

text \<open>\<open>line_number_at\<close> of \<open>prompts.rs\<close> clips the offset.\<close>

definition prompt_line_number_at :: "string \<Rightarrow> nat \<Rightarrow> nat" where
  "prompt_line_number_at content offset = count_list (take (min offset (length content)) content) NL + 1"

definition render_context :: "string \<Rightarrow> nat \<Rightarrow> nat \<Rightarrow> string" where
  "render_context content line radius =
     (let ls = str_lines content; total = length ls
      in if total = 0 \<or> line = 0 then []
         else let first = max (line - radius) 1; last = min (line + radius) total
              in concat (map (\<lambda>n. show_nat n @ '': '' @ ls ! (n - 1) @ [NL]) [first..<last + 1]))"

definition candidate_for :: "string \<Rightarrow> nat \<times> nat \<Rightarrow> edit_candidate" where
  "candidate_for content rg =
     (let line = prompt_line_number_at content (fst rg)
      in \<lparr>ca_range = rg, ca_line = line, ca_text = substr content rg,
          ca_context = render_context content line candidate_context_radius\<rparr>)"

definition near_miss_for :: "(string \<Rightarrow> string \<Rightarrow> string) \<Rightarrow> string \<Rightarrow> string \<Rightarrow> nat \<times> nat \<Rightarrow> near_miss" where
  "near_miss_for line_diff content needle rg =
     (let line = prompt_line_number_at content (fst rg); t = substr content rg
      in \<lparr>nm_line = line, nm_text = t, nm_context = render_context content line candidate_context_radius,
          nm_diff = line_diff needle t\<rparr>)"

section \<open>One pair\<close>

datatype resolution =
    Splice "nat \<times> nat" string
  | GlobalLiteral string string

datatype pair_outcome =
    PairResolved resolution
  | PairAmbiguous string "edit_candidate list"
  | PairNoMatch string "near_miss list"

text \<open>The library code: the checksum of the anchors and the line diff.\<close>

record edit_env =
  ee_crc :: "string \<Rightarrow> 32 word"
  ee_diff :: "string \<Rightarrow> string \<Rightarrow> string"

definition resolve_anchor :: "edit_env \<Rightarrow> string \<Rightarrow> string \<Rightarrow> (nat \<times> nat) option" where
  "resolve_anchor env content needle =
     (case parse_anchor needle of
        None \<Rightarrow> None
      | Some (line, expected_hash) \<Rightarrow>
          resolve_anchor_range_in (ee_crc env) content line expected_hash
            (map_option snd (split_once (CHR ''|'') needle)))"

text \<open>\<open>occurrence\<close> counts from 1; the arguments never give 0, for which \<open>idx - 1\<close> leaves the range.\<close>

definition disambiguate :: "edit_pair \<Rightarrow> edit_candidate list \<Rightarrow> pair_outcome" where
  "disambiguate p candidates =
     (case ep_occurrence p of
        Some idx \<Rightarrow>
          (if 1 \<le> idx \<and> idx - 1 < length candidates
           then PairResolved (Splice (ca_range (candidates ! (idx - 1))) (ep_replace p))
           else PairAmbiguous (ep_find p) candidates)
      | None \<Rightarrow> PairAmbiguous (ep_find p) candidates)"

definition resolve_via_ladder :: "edit_env \<Rightarrow> string \<Rightarrow> edit_pair \<Rightarrow> pair_outcome" where
  "resolve_via_ladder env content p =
     (case find_match content (ep_find p) of
        Unique rg _ _ \<Rightarrow> PairResolved (Splice rg (ep_replace p))
      | Ambiguous candidates \<Rightarrow> disambiguate p (map (candidate_for content \<circ> ms_range) candidates)
      | NoMatch near \<Rightarrow> PairNoMatch (ep_find p) (map (near_miss_for (ee_diff env) content (ep_find p) \<circ> ms_range) near))"

definition no_match_outcome :: "edit_env \<Rightarrow> string \<Rightarrow> string \<Rightarrow> pair_outcome" where
  "no_match_outcome env content needle =
     (let near = (case find_match content needle of NoMatch near \<Rightarrow> near | _ \<Rightarrow> [])
      in PairNoMatch needle (map (near_miss_for (ee_diff env) content needle \<circ> ms_range) near))"

definition resolve_pair :: "edit_env \<Rightarrow> string \<Rightarrow> edit_pair \<Rightarrow> pair_outcome" where
  "resolve_pair env content p =
     (if ep_replace_all p
      then (if \<not> contains_str content (ep_find p) then no_match_outcome env content (ep_find p)
            else PairResolved (GlobalLiteral (ep_find p) (ep_replace p)))
      else case (resolve_anchor env content (ep_find p), find_str (ep_find p) content) of
             (Some anchor_range, Some start) \<Rightarrow>
               disambiguate p [candidate_for content anchor_range, candidate_for content (start, start + length (ep_find p))]
           | (Some rg, None) \<Rightarrow> PairResolved (Splice rg (ep_replace p))
           | (None, Some start) \<Rightarrow> PairResolved (Splice (start, start + length (ep_find p)) (ep_replace p))
           | (None, None) \<Rightarrow> resolve_via_ladder env content p)"

fun apply_resolution :: "string \<Rightarrow> resolution \<Rightarrow> string" where
  "apply_resolution content (Splice rg replacement) = take (fst rg) content @ replacement @ drop (snd rg) content"
| "apply_resolution content (GlobalLiteral needle replacement) = replace_str needle replacement content"

section \<open>A batch\<close>

datatype apply_outcome =
    Applied string
  | ApplyAmbiguous string "edit_candidate list"
  | ApplyNoMatch string "near_miss list"
  | AlreadyApplied string string
  | ConsumedTarget string nat

definition reclassify_no_match :: "string \<Rightarrow> string \<Rightarrow> edit_pair \<Rightarrow> string \<Rightarrow> near_miss list \<Rightarrow> apply_outcome" where
  "reclassify_no_match original working p needle near =
     (let find_absent = (\<not> contains_str working (ep_find p))
      in if find_absent \<and> ep_replace p \<noteq> [] \<and> contains_str working (ep_replace p)
         then AlreadyApplied needle (ep_replace p)
         else case (if find_absent \<and> working \<noteq> original then find_str (ep_find p) original else None) of
                Some start \<Rightarrow> ConsumedTarget needle (prompt_line_number_at original start)
              | None \<Rightarrow> ApplyNoMatch needle near)"

fun apply_pairs :: "edit_env \<Rightarrow> string \<Rightarrow> string \<Rightarrow> edit_pair list \<Rightarrow> apply_outcome" where
  "apply_pairs env original working [] = Applied working"
| "apply_pairs env original working (p # ps) =
     (case resolve_pair env working p of
        PairResolved resolution \<Rightarrow> apply_pairs env original (apply_resolution working resolution) ps
      | PairAmbiguous needle candidates \<Rightarrow> ApplyAmbiguous needle candidates
      | PairNoMatch needle near \<Rightarrow> reclassify_no_match original working p needle near)"

definition apply_all_pairs :: "edit_env \<Rightarrow> string \<Rightarrow> edit_pair list \<Rightarrow> apply_outcome" where
  "apply_all_pairs env original pairs = apply_pairs env original original pairs"

section \<open>The tool\<close>

fun validate_pairs :: "nat \<Rightarrow> edit_pair list \<Rightarrow> edit_refusal option" where
  "validate_pairs idx [] = None"
| "validate_pairs idx (p # ps) =
     (if ep_find p = [] then Some (EmptyFind idx)
      else if ep_find p = ep_replace p then Some (NoOpEdit idx)
      else validate_pairs (idx + 1) ps)"

text \<open>The answer and the content of the file afterwards.\<close>

definition execute_edit :: "edit_env \<Rightarrow> json \<Rightarrow> string \<Rightarrow> (edit_refusal + apply_outcome) \<times> string" where
  "execute_edit env args content =
     (if json_get args ''edits'' = Some (JArray []) \<and> first_present args ''find'' find_aliases = None
         \<and> first_present args ''replace'' replace_aliases = None
      then (Inl EmptyEdits, content)
      else case normalize_edit_args args of
             Inl e \<Rightarrow> (Inl e, content)
           | Inr pairs \<Rightarrow>
               (case validate_pairs 0 pairs of
                  Some e \<Rightarrow> (Inl e, content)
                | None \<Rightarrow>
                    (case apply_all_pairs env content pairs of
                       Applied new_content \<Rightarrow> (Inr (Applied new_content), new_content)
                     | outcome \<Rightarrow> (Inr outcome, content))))"

end
