(* ===== verification/Edit_Cascade_Claims.thy ===== *)
theory Edit_Cascade_Claims
  imports Edit_Cascade Hashline_Edits
begin

text \<open>What the \<open>edit file\<close> tool does to a file, pair by pair, and where it damages it.\<close>

section \<open>Places\<close>

lemma resolve_anchor_in_text: "resolve_anchor env content needle = Some rg \<Longrightarrow> in_text content rg"
proof -
  assume "resolve_anchor env content needle = Some rg"
  then obtain line h t where "resolve_anchor_range_in (ee_crc env) content line h t = Some rg"
    by (auto simp: resolve_anchor_def split: option.splits)
  then show ?thesis
    using anchor_range_is_line [where crc = "ee_crc env" and content = content and line = line and h = h and wanted = t]
    by (cases rg) (auto simp: in_text_def split: option.splits)
qed

lemma find_str_in_text: "find_str needle content = Some i \<Longrightarrow> in_text content (i, i + length needle)"
  by (auto simp: in_text_def dest: find_str_Some)

lemma candidate_simps [simp]:
  "ca_range (candidate_for content rg) = rg" "ca_text (candidate_for content rg) = substr content rg"
  by (simp_all add: candidate_for_def Let_def)

text \<open>The competing places of a pair.\<close>

definition places :: "edit_env \<Rightarrow> string \<Rightarrow> string \<Rightarrow> (nat \<times> nat) list" where
  "places env content needle =
     (case (resolve_anchor env content needle, find_str needle content) of
        (Some rg, Some start) \<Rightarrow> [rg, (start, start + length needle)]
      | (Some rg, None) \<Rightarrow> [rg]
      | (None, Some start) \<Rightarrow> [(start, start + length needle)]
      | (None, None) \<Rightarrow>
          (case find_match content needle of
             Unique rg _ _ \<Rightarrow> [rg] | Ambiguous cs \<Rightarrow> map ms_range cs | NoMatch _ \<Rightarrow> []))"

lemma places_in_text: "rg \<in> set (places env content needle) \<Longrightarrow> in_text content rg"
  using find_match_in_text [of content needle] unique_in_text [of content needle rg]
  by (auto simp: places_def resolve_anchor_in_text find_str_in_text split: option.splits match_outcome.splits)

lemma ambiguous_many: "find_match content needle = Ambiguous cs \<Longrightarrow> 2 \<le> length cs"
proof -
  have block: "finalize_block_matches content ms r = Some (Ambiguous cs) \<Longrightarrow> 2 \<le> length cs" for ms r
    by (auto simp: finalize_simps)
  have fuzzy: "try_fuzzy content needle = Ambiguous cs \<Longrightarrow> 2 \<le> length cs"
    by (auto simp: try_fuzzy_def Let_def split: list.splits if_splits prod.splits)
  show "find_match content needle = Ambiguous cs \<Longrightarrow> 2 \<le> length cs"
    using fuzzy block try_anchor_Some [of content needle]
    by (cases "needle = []")
      (fastforce simp: find_match_def try_exact_offsets try_line_block_eq try_exact_def split: option.splits)+
qed

lemma resolve_pair_cases:
  assumes "\<not> ep_replace_all p"
  shows "resolve_pair env content p =
    (case places env content (ep_find p) of
       [] \<Rightarrow> PairNoMatch (ep_find p) (map (near_miss_for (ee_diff env) content (ep_find p) \<circ> ms_range)
               (named_spans (find_match content (ep_find p))))
     | [rg] \<Rightarrow> PairResolved (Splice rg (ep_replace p))
     | rgs \<Rightarrow> disambiguate p (map (candidate_for content) rgs))"
  using assms ambiguous_many [of content "ep_find p"]
  by (auto simp: resolve_pair_def places_def resolve_via_ladder_def comp_def Suc_le_length_iff
      split: option.splits match_outcome.splits list.splits)

section \<open>One edit\<close>

text \<open>C34. An edit of one pair, as a function of the content. The places of a pair are: the line of an anchor that
  resolves and the first literal occurrence, of all literal occurrences only this one; when there is neither, the
  unique answer or the candidates of the ladder. With \<open>replace_all\<close> every literal occurrence is replaced.
  Otherwise a new content replaces exactly one place, the only one or the one that \<open>occurrence\<close> names, and
  keeps all text around it; when several places compete and no valid \<open>occurrence\<close> is given, all places are
  listed and there is no new content; the answers that the file is already edited or does not match are given only
  when the text does not occur literally, the former only when the replacement does. Literal
  occurrences after the first do not compete and are not listed: the first is replaced whatever \<open>occurrence\<close>
  says (\<open>occurrence_ignored\<close>).\<close>

theorem edit_one_pair:
  assumes "ep_find p \<noteq> []"
  shows "(case apply_all_pairs env content [p] of
      Applied new_content \<Rightarrow>
        if ep_replace_all p
        then \<exists>parts. content = join (ep_find p) parts \<and> new_content = join (ep_replace p) parts
               \<and> 2 \<le> length parts \<and> (\<forall>t \<in> set parts. \<not> contains_str t (ep_find p))
        else \<exists>n < length (places env content (ep_find p)). in_text content (places env content (ep_find p) ! n)
               \<and> (length (places env content (ep_find p)) = 1 \<or> ep_occurrence p = Some (n + 1))
               \<and> new_content = take (fst (places env content (ep_find p) ! n)) content @ ep_replace p
                     @ drop (snd (places env content (ep_find p) ! n)) content
    | ApplyAmbiguous needle cs \<Rightarrow> \<not> ep_replace_all p \<and> needle = ep_find p \<and> 2 \<le> length cs
        \<and> map ca_range cs = places env content (ep_find p) \<and> map ca_text cs = map (substr content) (places env content (ep_find p))
        \<and> (\<forall>n. ep_occurrence p = Some n \<longrightarrow> n = 0 \<or> length cs < n)
    | ApplyNoMatch needle near \<Rightarrow> needle = ep_find p \<and> \<not> contains_str content (ep_find p)
    | AlreadyApplied needle replacement \<Rightarrow> \<not> contains_str content (ep_find p) \<and> ep_replace p \<noteq> []
        \<and> contains_str content (ep_replace p) \<and> (\<not> ep_replace_all p \<longrightarrow> places env content (ep_find p) = [])
    | ConsumedTarget _ _ \<Rightarrow> False)
    \<and> (\<forall>start. find_str (ep_find p) content = Some start \<longrightarrow>
          (start, start + length (ep_find p)) \<in> set (places env content (ep_find p))
          \<and> length (places env content (ep_find p)) \<le> 2 \<and> (\<forall>i. prefix (ep_find p) (drop i content) \<longrightarrow> start \<le> i))"
  (is "?outcome \<and> ?first")
proof (intro conjI)
  show ?first
  proof (intro allI impI)
    fix start assume s: "find_str (ep_find p) content = Some start"
    show "(start, start + length (ep_find p)) \<in> set (places env content (ep_find p))
        \<and> length (places env content (ep_find p)) \<le> 2 \<and> (\<forall>i. prefix (ep_find p) (drop i content) \<longrightarrow> start \<le> i)"
      using find_str_Some [OF s] by (auto simp: places_def s not_less [symmetric] split: option.split)
  qed
next
  show ?outcome
proof (cases "ep_replace_all p")
  case True
  show ?thesis
  proof (cases "contains_str content (ep_find p)")
    case found: True
    obtain parts where parts: "content = join (ep_find p) parts" "replace_str (ep_find p) (ep_replace p) content = join (ep_replace p) parts"
      "parts \<noteq> []" "\<forall>t \<in> set parts. \<not> contains_str t (ep_find p)"
      using replace_str_parts [OF assms] by blast
    moreover have "2 \<le> length parts" using found parts by (cases parts; cases "tl parts") auto
    ultimately show ?thesis using True found by (auto simp: apply_all_pairs_def resolve_pair_def)
  next
    case False
    then show ?thesis
      using True by (auto simp: apply_all_pairs_def resolve_pair_def no_match_outcome_def Let_def reclassify_no_match_def)
  qed
next
  case one: False
  let ?rgs = "places env content (ep_find p)"
  note cases = resolve_pair_cases [OF one, of env content]
  have bounds: "n < length ?rgs \<Longrightarrow> in_text content (?rgs ! n)" for n using places_in_text [of _ env content "ep_find p"] by simp
  consider (none) "?rgs = []" | (single) rg where "?rgs = [rg]" | (many) "2 \<le> length ?rgs"
    by (cases ?rgs; cases "tl ?rgs") auto
  then show ?thesis
  proof cases
    case none
    then have "\<not> contains_str content (ep_find p)" by (auto simp: places_def contains_str_def split: option.splits)
    then show ?thesis using none one cases by (auto simp: apply_all_pairs_def reclassify_no_match_def)
  next
    case single
    then show ?thesis using one cases bounds [of 0] by (auto simp: apply_all_pairs_def)
  next
    case many
    then have d: "resolve_pair env content p = disambiguate p (map (candidate_for content) ?rgs)"
      using cases by (cases ?rgs; cases "tl ?rgs") auto
    show ?thesis
    proof (cases "\<exists>n < length ?rgs. ep_occurrence p = Some (n + 1)")
      case True
      then obtain n where n: "n < length ?rgs" "ep_occurrence p = Some (n + 1)" by blast
      then show ?thesis using one d bounds [OF n(1)] by (auto simp: apply_all_pairs_def disambiguate_def)
    next
      case False
      have "resolve_pair env content p = PairAmbiguous (ep_find p) (map (candidate_for content) ?rgs)
        \<and> (\<forall>n. ep_occurrence p = Some n \<longrightarrow> n = 0 \<or> length ?rgs < n)"
      proof (cases "ep_occurrence p")
        case (Some m)
        then show ?thesis using False d by (cases m) (auto simp: disambiguate_def)
      qed (simp add: d disambiguate_def)
      then show ?thesis using one many by (auto simp: apply_all_pairs_def comp_def)
    qed
  qed
qed
qed


section \<open>Batches\<close>

text \<open>A batch is its pairs one after the other, and it stops at the first that is not applied.\<close>

lemma apply_pairs_append:
  "apply_pairs env original working (ps @ qs) =
     (case apply_pairs env original working ps of Applied w \<Rightarrow> apply_pairs env original w qs | outcome \<Rightarrow> outcome)"
  by (induction ps arbitrary: working) (auto simp: reclassify_no_match_def Let_def split: pair_outcome.splits option.splits)

section \<open>Running an edit again\<close>

definition plain_env :: edit_env where
  "plain_env = \<lparr>ee_crc = (\<lambda>s. 0), ee_diff = (\<lambda>a b. [])\<rparr>"

definition height_edit :: edit_pair where
  "height_edit = \<lparr>ep_find = ''set(height,1)'', ep_replace = ''set(height,2)'', ep_replace_all = False, ep_occurrence = None\<rparr>"

lemma edits_same_front: "edits b c n \<Longrightarrow> edits (a @ b) (a @ c) n"
  by (induction a) (auto intro: edits.keep_char)

lemma height_similar: "similarity ''set(height,1)'' ''set(height,2);'' \<ge> fuzzy_accept_threshold - fuzzy_boundary_epsilon"
proof -
  have "edits ''1)'' ''2);'' 2"
    using edits.replace_char [OF edits.keep_char [OF edits.insert_char [OF edits.nothing]]] by (simp add: numeral_2_eq_2)
  then have "edits (''set(height,'' @ ''1)'') (''set(height,'' @ ''2);'') 2" by (rule edits_same_front)
  then have "edits ''set(height,1)'' ''set(height,2);'' 2" by simp
  then have "levenshtein ''set(height,1)'' ''set(height,2);'' \<le> 2" unfolding levenshtein_least by (rule least_edits_le)
  then have "(of_nat (levenshtein ''set(height,1)'' ''set(height,2);'') :: rat) \<le> 2" by simp
  then show ?thesis
    by (simp add: similarity_def fuzzy_accept_threshold_def fuzzy_boundary_epsilon_def)
qed

text \<open>Running an edit a second time is not the reported no-op when the searched text covers most of
  its line: the replaced line is similar to the searched text, so the whole line is replaced, and its
  indentation and what followed the searched text are lost.\<close>

lemma rerun_damages_line:
  "apply_all_pairs plain_env (''    set(height,1);'' @ [NL]) [height_edit] = Applied (''    set(height,2);'' @ [NL])
   \<and> apply_all_pairs plain_env (''    set(height,2);'' @ [NL]) [height_edit] = Applied (''set(height,2)'' @ [NL])"
proof
  have p: "parse_anchor ''set(height,1)'' = None" by code_simp
  have "find_str ''set(height,1)'' (''    set(height,1);'' @ [NL]) = Some 4" by code_simp
  then show "apply_all_pairs plain_env (''    set(height,1);'' @ [NL]) [height_edit] = Applied (''    set(height,2);'' @ [NL])"
    by (simp add: apply_all_pairs_def resolve_pair_def resolve_anchor_def height_edit_def p)
  let ?c = "''    set(height,2);'' @ [NL]" and ?f = "''set(height,1)''"
  have rungs: "find_str ?f ?c = None" "try_exact ?c ?f = None" "try_line_block ?c ?f Normalized = None" "try_anchor ?c ?f = None"
    by code_simp+
  have norm: "normalize_multiline ?f = ?f" "physical_lines ?c = [(0, 18)]" "normalize_line (substr ?c (0, 18)) = ''set(height,2);''"
    by code_simp+
  have "scored_lines ?c ?f = [(similarity ?f ''set(height,2);'', 0, 18)]"
    unfolding scored_lines_def norm list.map sort_key_simps by simp
  then have "try_fuzzy ?c ?f = Unique (0, 18) Fuzzy (similarity ?f ''set(height,2);'')"
    unfolding try_fuzzy_def Let_def using height_similar by simp
  then have "find_match ?c ?f = Unique (0, 18) Fuzzy (similarity ?f ''set(height,2);'')"
    by (simp only: find_match_def rungs option.case)
  then show "apply_all_pairs plain_env ?c [height_edit] = Applied (''set(height,2)'' @ [NL])"
    by (simp add: apply_all_pairs_def resolve_pair_def resolve_via_ladder_def resolve_anchor_def height_edit_def p rungs(1) [simplified])
qed

text \<open>Of several literal occurrences the first is replaced, whatever \<open>occurrence\<close> says.\<close>

lemma occurrence_ignored:
  "apply_all_pairs plain_env ''a b a'' [\<lparr>ep_find = ''a'', ep_replace = ''x'', ep_replace_all = False, ep_occurrence = n\<rparr>]
     = Applied ''x b a''"
proof -
  have "parse_anchor ''a'' = None" by code_simp
  then show ?thesis by (simp add: apply_all_pairs_def resolve_pair_def resolve_anchor_def)
qed

text \<open>A block that the second rung finds is replaced with its indentation and by the line endings of
  the replacement.\<close>

lemma block_loses_indentation:
  "apply_all_pairs plain_env (''  a'' @ [CR, NL] @ ''  b'' @ [CR, NL]) [\<lparr>ep_find = ''a'' @ [NL] @ ''b'', ep_replace = ''a'' @ [NL] @ ''c'',
     ep_replace_all = False, ep_occurrence = None\<rparr>] = Applied (''a'' @ [NL] @ ''c'' @ [CR, NL])"
proof -
  let ?c = "''  a'' @ [CR, NL] @ ''  b'' @ [CR, NL]" and ?f = "''a'' @ [NL] @ ''b''"
  have "parse_anchor ?f = None" "find_str ?f ?c = None" "try_exact ?c ?f = None"
    "try_line_block ?c ?f Normalized = Some (Unique (0, 8) Normalized 1)" by code_simp+
  then show ?thesis
    by (simp add: apply_all_pairs_def resolve_pair_def resolve_via_ladder_def resolve_anchor_def find_match_def)
qed

section \<open>Witnesses\<close>

theorem edit_one_pair_witness:
  "\<exists>parts. ''a b a'' = join ''a'' parts \<and> ''x b x'' = join ''x'' parts \<and> 2 \<le> length parts"
proof -
  let ?p = "\<lparr>ep_find = ''a'', ep_replace = ''x'', ep_replace_all = True, ep_occurrence = None\<rparr>"
  have "replace_str ''a'' ''x'' ''a b a'' = ''x b x''" "contains_str ''a b a'' ''a''" by code_simp+
  then have "apply_all_pairs plain_env ''a b a'' [?p] = Applied ''x b x''"
    by (simp add: apply_all_pairs_def resolve_pair_def)
  then show ?thesis using edit_one_pair [of ?p "''a b a''" plain_env] by auto
qed

end
