(* ===== verification/Conditions.thy ===== *)
theory Conditions
  imports Complex_Main Rust_Str Json
begin

text \<open>
  \<open>swissarmyhammer-common/src/parameter_conditions.rs\<close>: the small language of conditions on the
  parameters of prompts and workflows, its parser and its evaluator. \<open>None\<close> is a panic. Reading and
  comparing \<open>f64\<close> values is the standard library's: \<open>ne_parse\<close> gives the text of the JSON number that a
  numeral becomes, \<open>ne_value\<close> the value of a JSON number, \<open>ne_show\<close> prints a value.
\<close>

section \<open>Syntax\<close>

datatype comparison_op = Equal | NotEqual | Less | Greater | LessEq | GreaterEq

datatype logical_op = And | Or

datatype condition_ast =
    Comparison string comparison_op json
  | Logical condition_ast logical_op condition_ast
  | In string "json list"
  | Contains string string

datatype condition_error =
    ParseError string string
  | ParameterNotAvailable string
  | EvaluationError string string

type_synonym 'a cond_result = "(condition_error + 'a) option"

record num_env =
  ne_parse :: "string \<Rightarrow> string option"
  ne_value :: "string \<Rightarrow> rat"
  ne_show :: "json \<Rightarrow> string"

section \<open>Parsing\<close>

definition is_quoted :: "char \<Rightarrow> string \<Rightarrow> bool" where
  "is_quoted q s \<longleftrightarrow> s \<noteq> [] \<and> hd s = q \<and> last s = q"

text \<open>\<open>s[1..s.len() - 1]\<close> panics on a single quotation mark.\<close>

definition unquote :: "string \<Rightarrow> string option" where
  "unquote s = (if length s < 2 then None else Some (butlast (tl s)))"

definition parse_value :: "num_env \<Rightarrow> string \<Rightarrow> json option" where
  "parse_value ne s =
     (if is_quoted (CHR 0x27) s then map_option JString (unquote s)
      else if is_quoted (CHR 0x22) s then map_option JString (unquote s)
      else if s = ''true'' then Some (JBool True)
      else if s = ''false'' then Some (JBool False)
      else case ne_parse ne s of Some n \<Rightarrow> Some (JNumber n) | None \<Rightarrow> Some (JString s))"

definition parse_list_value :: "num_env \<Rightarrow> string \<Rightarrow> json option" where
  "parse_list_value ne v =
     (let trimmed = trim v
      in if is_quoted (CHR 0x22) trimmed then map_option JString (unquote trimmed)
         else case ne_parse ne trimmed of
                Some n \<Rightarrow> Some (JNumber n)
              | None \<Rightarrow>
                  (if trimmed = ''true'' then Some (JBool True)
                   else if trimmed = ''false'' then Some (JBool False)
                   else Some (JString trimmed)))"

text \<open>\<open>split(',')\<close>: at least one piece.\<close>

fun split_commas :: "string \<Rightarrow> string list" where
  "split_commas [] = [[]]"
| "split_commas (c # s) =
     (if c = CHR '','' then [] # split_commas s
      else (c # hd (split_commas s)) # tl (split_commas s))"

definition parse_in_operation :: "num_env \<Rightarrow> string \<Rightarrow> condition_ast cond_result" where
  "parse_in_operation ne e =
     (case splitn_2 e '' in '' of
        [l, r] \<Rightarrow>
          (let values_str = trim r
           in if values_str = [] \<or> hd values_str \<noteq> CHR ''['' \<or> last values_str \<noteq> CHR '']''
              then Some (Inl (ParseError e ''Expected array format [value1, value2, ...] for 'in' operation''))
              else case those (map (parse_list_value ne) (split_commas (butlast (tl values_str)))) of
                     None \<Rightarrow> None
                   | Some [] \<Rightarrow> Some (Inl (ParseError e ''Empty values array not allowed''))
                   | Some values \<Rightarrow> Some (Inr (In (trim l) values)))
      | _ \<Rightarrow> Some (Inl (ParseError e ''Invalid 'in' expression'')))"

definition parse_contains_operation :: "string \<Rightarrow> condition_ast cond_result" where
  "parse_contains_operation e =
     (case splitn_2 e '' contains '' of
        [l, r] \<Rightarrow>
          (let part = trim r
           in case (if is_quoted (CHR 0x22) part then unquote part else Some part) of
                None \<Rightarrow> None
              | Some substring \<Rightarrow> Some (Inr (Contains (trim l) substring)))
      | _ \<Rightarrow> Some (Inl (ParseError e ''Invalid 'contains' expression'')))"

definition operators :: "(string \<times> comparison_op) list" where
  "operators = [(''<='', LessEq), (''>='', GreaterEq), (''=='', Equal), (''!='', NotEqual), (''<'', Less), (''>'', Greater)]"

definition parse_comparison :: "num_env \<Rightarrow> string \<Rightarrow> condition_ast cond_result" where
  "parse_comparison ne e =
     (case List.find (\<lambda>(op_str, _). contains_str e op_str) operators of
        None \<Rightarrow> Some (Inl (ParseError e ''No valid comparison operator found''))
      | Some (op_str, op) \<Rightarrow>
          (case splitn_2 e op_str of
             [l, r] \<Rightarrow>
               (case parse_value ne (trim r) of
                  None \<Rightarrow> None
                | Some v \<Rightarrow> Some (Inr (Comparison (trim l) op v)))
           | _ \<Rightarrow> None))"

text \<open>Where a connective splits an expression: the first conjunction, else the first disjunction.\<close>

definition logical_split :: "string \<Rightarrow> (logical_op \<times> string \<times> string) option" where
  "logical_split e =
     (if contains_str e '' && '' then (case splitn_2 e '' && '' of [l, r] \<Rightarrow> Some (And, l, r) | _ \<Rightarrow> None)
      else if contains_str e '' || '' then (case splitn_2 e '' || '' of [l, r] \<Rightarrow> Some (Or, l, r) | _ \<Rightarrow> None)
      else None)"

lemma splitn_2_found: "contains_str s pat \<Longrightarrow> \<exists>l r. splitn_2 s pat = [l, r] \<and> s = l @ pat @ r"
proof -
  assume "contains_str s pat"
  then obtain i where i: "find_str pat s = Some i" by (auto simp: contains_str_def)
  then have "s = take i s @ pat @ drop (i + length pat) s"
    using find_str_Some [OF i] by (metis add.commute append_take_drop_id drop_drop prefixE append_eq_conv_conj)
  then show ?thesis using i by (auto simp: splitn_2_def)
qed

lemma length_trim: "length (trim s) \<le> length s"
  unfolding trim_def trim_matches_def trim_start_matches_def trim_end_matches_def
  by (metis length_dropWhile_le length_rev order.trans)

lemma logical_split_shorter: "logical_split e = Some (op, l, r) \<Longrightarrow> length (trim l) < length e \<and> length (trim r) < length e"
  using length_trim [of l] length_trim [of r]
  by (auto simp: logical_split_def dest!: splitn_2_found split: if_splits)

function parse_condition :: "num_env \<Rightarrow> string \<Rightarrow> condition_ast cond_result" where
  "parse_condition ne e =
     (case logical_split e of
        Some (op, l, r) \<Rightarrow>
          (case parse_condition ne (trim l) of
             None \<Rightarrow> None
           | Some (Inl err) \<Rightarrow> Some (Inl err)
           | Some (Inr left) \<Rightarrow>
               (case parse_condition ne (trim r) of
                  None \<Rightarrow> None
                | Some (Inl err) \<Rightarrow> Some (Inl err)
                | Some (Inr right) \<Rightarrow> Some (Inr (Logical left op right))))
      | None \<Rightarrow>
          (if contains_str e '' in '' then parse_in_operation ne e
           else if contains_str e '' contains '' then parse_contains_operation e
           else parse_comparison ne e))"
  by pat_completeness auto
termination by (relation "measure (length \<circ> snd)") (auto dest: logical_split_shorter)

declare parse_condition.simps [simp del]

section \<open>Evaluation\<close>

definition json_f64 :: "num_env \<Rightarrow> json \<Rightarrow> rat option" where
  "json_f64 ne v = (case v of JNumber n \<Rightarrow> Some (ne_value ne n) | _ \<Rightarrow> None)"

definition compare_numbers :: "num_env \<Rightarrow> json \<Rightarrow> json \<Rightarrow> (rat \<Rightarrow> rat \<Rightarrow> bool) \<Rightarrow> condition_error + bool" where
  "compare_numbers ne actual expected op =
     (case json_f64 ne actual of
        None \<Rightarrow> Inl (EvaluationError ''numeric comparison'' (''Left value is not a number: '' @ ne_show ne actual))
      | Some a \<Rightarrow>
          (case json_f64 ne expected of
             None \<Rightarrow> Inl (EvaluationError ''numeric comparison'' (''Right value is not a number: '' @ ne_show ne expected))
           | Some b \<Rightarrow> Inr (op a b)))"

definition evaluate_comparison ::
  "num_env \<Rightarrow> (string \<rightharpoonup> json) \<Rightarrow> string \<Rightarrow> comparison_op \<Rightarrow> json \<Rightarrow> condition_error + bool" where
  "evaluate_comparison ne vars p op expected =
     (case vars p of
        None \<Rightarrow> Inl (ParameterNotAvailable p)
      | Some actual \<Rightarrow>
          (case op of
             Equal \<Rightarrow> Inr (actual = expected)
           | NotEqual \<Rightarrow> Inr (actual \<noteq> expected)
           | Less \<Rightarrow> compare_numbers ne actual expected (<)
           | Greater \<Rightarrow> compare_numbers ne actual expected (>)
           | LessEq \<Rightarrow> compare_numbers ne actual expected (\<le>)
           | GreaterEq \<Rightarrow> compare_numbers ne actual expected (\<ge>)))"

definition evaluate_in :: "(string \<rightharpoonup> json) \<Rightarrow> string \<Rightarrow> json list \<Rightarrow> condition_error + bool" where
  "evaluate_in vars p vals =
     (case vars p of None \<Rightarrow> Inl (ParameterNotAvailable p) | Some actual \<Rightarrow> Inr (actual \<in> set vals))"

definition evaluate_contains :: "num_env \<Rightarrow> (string \<rightharpoonup> json) \<Rightarrow> string \<Rightarrow> string \<Rightarrow> condition_error + bool" where
  "evaluate_contains ne vars p substring =
     (case vars p of
        None \<Rightarrow> Inl (ParameterNotAvailable p)
      | Some actual \<Rightarrow>
          (case json_str actual of
             None \<Rightarrow> Inl (EvaluationError ''contains operation'' (''Parameter '' @ [CHR 0x27] @ p @ [CHR 0x27] @ '' is not a string: '' @ ne_show ne actual))
           | Some s \<Rightarrow> Inr (contains_str s substring)))"

fun evaluate_ast :: "num_env \<Rightarrow> (string \<rightharpoonup> json) \<Rightarrow> condition_ast \<Rightarrow> condition_error + bool" where
  "evaluate_ast ne vars (Comparison p op v) = evaluate_comparison ne vars p op v"
| "evaluate_ast ne vars (Logical left op right) =
     (case evaluate_ast ne vars left of
        Inl e \<Rightarrow> Inl e
      | Inr l \<Rightarrow>
          (case evaluate_ast ne vars right of
             Inl e \<Rightarrow> Inl e
           | Inr r \<Rightarrow> Inr (case op of And \<Rightarrow> l \<and> r | Or \<Rightarrow> l \<or> r)))"
| "evaluate_ast ne vars (In p vals) = evaluate_in vars p vals"
| "evaluate_ast ne vars (Contains p substring) = evaluate_contains ne vars p substring"

definition evaluate_condition :: "num_env \<Rightarrow> (string \<rightharpoonup> json) \<Rightarrow> string \<Rightarrow> bool cond_result" where
  "evaluate_condition ne vars e =
     (case parse_condition ne e of
        None \<Rightarrow> None
      | Some (Inl err) \<Rightarrow> Some (Inl err)
      | Some (Inr ast) \<Rightarrow> Some (evaluate_ast ne vars ast))"

section \<open>More parameters do not change an answer\<close>

lemma evaluate_ast_mono:
  assumes "vars \<subseteq>\<^sub>m vars'" "evaluate_ast ne vars ast = Inr b"
  shows "evaluate_ast ne vars' ast = Inr b"
proof -
  have same: "vars p = Some v \<Longrightarrow> vars' p = Some v" for p v
    using assms(1) by (metis domI map_le_def)
  show ?thesis
    using assms(2)
  proof (induction ast arbitrary: b)
    case (Logical left op right)
    then show ?case by (auto split: sum.splits)
  qed (auto simp: evaluate_comparison_def evaluate_in_def evaluate_contains_def dest: same split: option.splits)
qed

lemma evaluate_condition_mono:
  "vars \<subseteq>\<^sub>m vars' \<Longrightarrow> evaluate_condition ne vars e = Some (Inr b) \<Longrightarrow> evaluate_condition ne vars' e = Some (Inr b)"
  by (auto simp: evaluate_condition_def evaluate_ast_mono split: option.splits sum.splits)

lemma evaluate_condition_panics: "evaluate_condition ne vars e = None \<longleftrightarrow> parse_condition ne e = None"
  by (auto simp: evaluate_condition_def split: option.splits sum.splits)

section \<open>Conjunctions of disjunctions\<close>

text \<open>A trimmed text that is not empty; a piece of an expression between connectives.\<close>

definition trimmed :: "string \<Rightarrow> bool" where
  "trimmed s \<longleftrightarrow> s \<noteq> [] \<and> \<not> is_ws (hd s) \<and> \<not> is_ws (last s)"

definition plain_piece :: "string \<Rightarrow> bool" where
  "plain_piece s \<longleftrightarrow> trimmed s \<and> CHR ''&'' \<notin> set s \<and> CHR ''|'' \<notin> set s"

definition or_clause :: "string list \<Rightarrow> string" where
  "or_clause c = join '' || '' c"

definition cnf :: "string list list \<Rightarrow> string" where
  "cnf cs = join '' && '' (map or_clause cs)"

lemma trim_trimmed: "trimmed s \<Longrightarrow> trim s = s"
  by (cases s rule: rev_cases)
    (auto simp: trimmed_def trim_def trim_matches_def trim_start_matches_id)

lemma trimmed_join: "xs \<noteq> [] \<Longrightarrow> (\<And>x. x \<in> set xs \<Longrightarrow> trimmed x) \<Longrightarrow> trimmed (join sep xs)"
proof (induction sep xs rule: join.induct)
  case (3 sep x y xs)
  then have "trimmed x" "trimmed (join sep (y # xs))" by auto
  then show ?case by (simp add: trimmed_def)
qed auto

lemma set_join: "c \<in> set (join sep xs) \<Longrightarrow> c \<in> set sep \<or> (\<exists>x \<in> set xs. c \<in> set x)"
  by (induction sep xs rule: join.induct) auto

lemma find_second_char:
  assumes "q \<notin> set a" "q \<noteq> p"
  shows "find_str (p # q # r) (a @ p # q # r @ b) = Some (length a)"
proof (rule find_str_first)
  fix j
  assume j: "j < length a"
  show "\<not> prefix (p # q # r) (drop j (a @ p # q # r @ b))"
  proof
    assume "prefix (p # q # r) (drop j (a @ p # q # r @ b))"
    then obtain z where z: "drop j (a @ p # q # r @ b) = p # q # r @ z" by (auto elim: prefixE)
    have "drop j (a @ p # q # r @ b) ! 1 = (a @ p # q # r @ b) ! (j + 1)" using j by (intro nth_drop) simp
    moreover have "\<dots> = ((a @ [p]) @ q # r @ b) ! Suc j" by simp
    ultimately have "(a @ [p]) ! Suc j = q" using z j by (simp only: nth_append) simp
    moreover have "Suc j < length (a @ [p])" using j by simp
    ultimately have "q \<in> set (a @ [p])" by (metis nth_mem)
    then show False using assms by simp
  qed
qed auto

lemma no_char_not_contained: "q \<in> set pat \<Longrightarrow> q \<notin> set s \<Longrightarrow> \<not> contains_str s pat"
  by (auto simp: contains_sublist)

lemma split_or:
  assumes "CHR ''&'' \<notin> set a" "CHR ''|'' \<notin> set a" "CHR ''&'' \<notin> set b"
  shows "logical_split (a @ '' || '' @ b) = Some (Or, a, b)"
proof -
  have f: "find_str '' || '' (a @ '' || '' @ b) = Some (length a)"
    using find_second_char [of "CHR ''|''" a "CHR '' ''" "''| ''" b] assms by simp
  moreover have "\<not> contains_str (a @ '' || '' @ b) '' && ''"
    using assms by (intro no_char_not_contained [of "CHR ''&''"]) auto
  ultimately show ?thesis by (simp add: logical_split_def contains_str_def splitn_2_def)
qed

lemma split_and:
  assumes "CHR ''&'' \<notin> set a"
  shows "logical_split (a @ '' && '' @ b) = Some (And, a, b)"
proof -
  have f: "find_str '' && '' (a @ '' && '' @ b) = Some (length a)"
    using find_second_char [of "CHR ''&''" a "CHR '' ''" "''& ''" b] assms by simp
  then show ?thesis by (simp add: logical_split_def contains_str_def splitn_2_def)
qed

lemma evaluate_split:
  assumes "logical_split e = Some (op, l, r)" "trim l = l" "trim r = r"
    and "evaluate_condition ne vars l = Some (Inr x)" "evaluate_condition ne vars r = Some (Inr y)"
  shows "evaluate_condition ne vars e = Some (Inr (case op of And \<Rightarrow> x \<and> y | Or \<Rightarrow> x \<or> y))"
  using assms by (auto simp: evaluate_condition_def parse_condition.simps [of ne e] split: option.splits sum.splits)

lemma or_clause_no_and: "(\<And>a. a \<in> set c \<Longrightarrow> plain_piece a) \<Longrightarrow> CHR ''&'' \<notin> set (or_clause c)"
  by (auto simp: or_clause_def plain_piece_def dest!: set_join)

lemma trimmed_or_clause: "c \<noteq> [] \<Longrightarrow> (\<And>a. a \<in> set c \<Longrightarrow> plain_piece a) \<Longrightarrow> trimmed (or_clause c)"
  unfolding or_clause_def by (rule trimmed_join) (auto simp: plain_piece_def)

lemma evaluate_or_clause:
  assumes "c \<noteq> []" "\<And>a. a \<in> set c \<Longrightarrow> plain_piece a" "\<And>a. a \<in> set c \<Longrightarrow> evaluate_condition ne vars a = Some (Inr (holds a))"
  shows "evaluate_condition ne vars (or_clause c) = Some (Inr (\<exists>a \<in> set c. holds a))"
  using assms
proof (induction c)
  case (Cons a c)
  show ?case
  proof (cases "c = []")
    case False
    have a: "plain_piece a" using Cons.prems by simp
    have split: "logical_split (or_clause (a # c)) = Some (Or, a, or_clause c)"
      using False a split_or [of a "or_clause c"] or_clause_no_and [of c] Cons.prems(2)
      by (simp add: or_clause_def join_Cons plain_piece_def)
    have trims: "trim a = a" "trim (or_clause c) = or_clause c"
      using a trimmed_or_clause [OF False] Cons.prems(2) by (auto simp: plain_piece_def trim_trimmed)
    have rest: "evaluate_condition ne vars (or_clause c) = Some (Inr (\<exists>a \<in> set c. holds a))"
      using False Cons.prems by (intro Cons.IH) auto
    show ?thesis using evaluate_split [OF split trims Cons.prems(3) rest] by simp
  qed (use Cons.prems in \<open>simp add: or_clause_def\<close>)
qed simp

text \<open>C35. An expression is read as a conjunction of disjunctions: pieces joined by the disjunction sign are grouped
  first, whatever the usual precedence, and the groups joined by the conjunction sign afterwards.\<close>

theorem condition_is_cnf:
  assumes "cs \<noteq> []" "\<And>c. c \<in> set cs \<Longrightarrow> c \<noteq> []" "\<And>c a. c \<in> set cs \<Longrightarrow> a \<in> set c \<Longrightarrow> plain_piece a"
    and "\<And>c a. c \<in> set cs \<Longrightarrow> a \<in> set c \<Longrightarrow> evaluate_condition ne vars a = Some (Inr (holds a))"
  shows "evaluate_condition ne vars (cnf cs) = Some (Inr (\<forall>c \<in> set cs. \<exists>a \<in> set c. holds a))"
  using assms
proof (induction cs)
  case (Cons c cs)
  have c: "evaluate_condition ne vars (or_clause c) = Some (Inr (\<exists>a \<in> set c. holds a))"
    using Cons.prems(2-4) [of c] by (intro evaluate_or_clause) simp_all
  show ?case
  proof (cases "cs = []")
    case False
    have trimmed: "trimmed (or_clause d)" if "d \<in> set (c # cs)" for d
      using Cons.prems that by (intro trimmed_or_clause) auto
    have split: "logical_split (cnf (c # cs)) = Some (And, or_clause c, cnf cs)"
      using False split_and [of "or_clause c"] or_clause_no_and [of c] Cons.prems(3) [of c]
      by (simp add: cnf_def join_Cons)
    have "trimmed (cnf cs)" unfolding cnf_def using False trimmed by (intro trimmed_join) auto
    then have trims: "trim (or_clause c) = or_clause c" "trim (cnf cs) = cnf cs"
      using trimmed [of c] by (simp_all add: trim_trimmed)
    have tail: "d \<in> set (c # cs)" if "d \<in> set cs" for d using that by simp
    have rest: "evaluate_condition ne vars (cnf cs) = Some (Inr (\<forall>c \<in> set cs. \<exists>a \<in> set c. holds a))"
      using Cons.prems(2-4) [OF tail] by (rule Cons.IH [OF False])
    show ?thesis using evaluate_split [OF split trims c rest] by simp
  qed (use c in \<open>simp add: cnf_def\<close>)
qed simp

section \<open>Pitfalls\<close>

text \<open>Single quotation marks around a text.\<close>

definition single_quoted :: "string \<Rightarrow> string" where
  "single_quoted s = [CHR 0x27] @ s @ [CHR 0x27]"

definition sample_env :: num_env where
  "sample_env = \<lparr>ne_parse = (\<lambda>s. if s = ''5'' then Some ''5.0'' else None),
     ne_value = (\<lambda>s. if s = ''5'' \<or> s = ''5.0'' then 5 else 0), ne_show = (\<lambda>v. [])\<rparr>"

definition sample_vars :: "string \<rightharpoonup> json" where
  "sample_vars = [''a'' \<mapsto> JString ''x'', ''b'' \<mapsto> JString [], ''c'' \<mapsto> JString [], ''n'' \<mapsto> JNumber ''5'']"

lemma lone_quote_panics: "evaluate_condition sample_env sample_vars (''a == '' @ [CHR 0x22]) = None"
  by code_simp

lemma empty_list_holds_empty_string: "evaluate_condition sample_env sample_vars ''b in []'' = Some (Inr True)"
  by code_simp

lemma integer_never_equal:
  "evaluate_condition sample_env sample_vars ''n == 5'' = Some (Inr False)"
  "evaluate_condition sample_env sample_vars ''n >= 5'' = Some (Inr True)"
  by code_simp+

theorem condition_is_cnf_witness:
  "evaluate_condition sample_env sample_vars
     (''a == '' @ single_quoted ''x'' @ '' || b == '' @ single_quoted ''y'' @ '' && c == '' @ single_quoted ''z'')
   = Some (Inr False)"
proof -
  let ?a = "''a == '' @ single_quoted ''x''" and ?b = "''b == '' @ single_quoted ''y''" and ?c = "''c == '' @ single_quoted ''z''"
  have v: "evaluate_condition sample_env sample_vars ?a = Some (Inr True)"
    "evaluate_condition sample_env sample_vars ?b = Some (Inr False)"
    "evaluate_condition sample_env sample_vars ?c = Some (Inr False)" by code_simp+
  have "plain_piece ?a" "plain_piece ?b" "plain_piece ?c" by code_simp+
  moreover have "?a \<noteq> ?b" "?a \<noteq> ?c" by code_simp+
  ultimately have "evaluate_condition sample_env sample_vars (cnf [[?a, ?b], [?c]])
      = Some (Inr (\<forall>c \<in> set [[?a, ?b], [?c]]. \<exists>s \<in> set c. s = ?a))"
    using v by (intro condition_is_cnf [where holds = "\<lambda>s. s = ?a"]) (auto simp only: list.simps set_simps insert_iff empty_iff)
  moreover have "(\<forall>c \<in> set [[?a, ?b], [?c]]. \<exists>s \<in> set c. s = ?a) = False" by simp
  moreover have "cnf [[?a, ?b], [?c]] = ''a == '' @ single_quoted ''x'' @ '' || b == '' @ single_quoted ''y'' @ '' && c == '' @ single_quoted ''z''"
    by (simp add: cnf_def or_clause_def)
  ultimately show ?thesis by (simp only:)
qed

end
