(* ===== verification/Parameters.thy ===== *)
theory Parameters
  imports Conditions Short_Ref
begin

text \<open>
  \<open>swissarmyhammer-common/src/parameters.rs\<close>: the parameters of prompts and workflows, their validation
  rules and errors, and the validator. The rules are public: a value is accepted exactly when it
  conforms to the declared type and the rules that the validator looks at. \<open>f64\<close> values are exact
  rationals; regular expressions, environment variables and the printing of \<open>f64\<close> values and of strings
  for debugging belong to the environment. Texts are ASCII, so \<open>to_lowercase\<close> touches A to Z only.
\<close>

section \<open>Data\<close>

record param_env =
  pe_num :: num_env
  pe_regex :: "string \<Rightarrow> string \<Rightarrow> bool option"
  pe_var :: "string \<Rightarrow> string option"
  pe_f64 :: "rat \<Rightarrow> string"
  pe_f64_debug :: "rat \<Rightarrow> string"
  pe_str_debug :: "string \<Rightarrow> string"

record parameter_condition =
  pc_expression :: string
  pc_description :: "string option"

record validation_failed_details =
  vf_value :: string
  vf_message :: string
  vf_explanation :: "string option"
  vf_examples :: "string list"
  vf_suggestions :: "string list"

record pattern_mismatch_details =
  pm_value :: string
  pm_pattern :: string
  pm_description :: string
  pm_examples :: "string list"

record invalid_choice_details =
  ic_value :: string
  ic_choices :: "string list"
  ic_did_you_mean :: "string option"

datatype parameter_error =
    ValidationFailed string
  | MissingRequired string
  | TypeMismatch string string string
  | InvalidChoice string string "string list"
  | OutOfRange string rat "rat option" "rat option"
  | PatternMismatch string string string
  | StringLengthOutOfRange string nat nat nat
  | StringTooShort string nat nat
  | StringTooLong string nat nat
  | InvalidStep string rat rat
  | InvalidSelectionCount string nat nat nat
  | TooFewSelections string nat nat
  | TooManySelections string nat nat
  | ConditionalParameterMissing string string
  | ConditionEvaluationFailed string condition_error
  | ValidationFailedWithContext string validation_failed_details bool
  | PatternMismatchEnhanced string pattern_mismatch_details bool
  | InvalidChoiceEnhanced string invalid_choice_details bool
  | MaxAttemptsExceeded string nat

datatype parameter_type = TString | TBoolean | TNumber | TChoice | TMultiChoice

definition as_str :: "parameter_type \<Rightarrow> string" where
  "as_str t =
     (case t of
        TString \<Rightarrow> ''string''
      | TBoolean \<Rightarrow> ''boolean''
      | TNumber \<Rightarrow> ''number''
      | TChoice \<Rightarrow> ''choice''
      | TMultiChoice \<Rightarrow> ''multi_choice'')"

definition parameter_type_from_str :: "string \<Rightarrow> parameter_type" where
  "parameter_type_from_str s =
     (let l = lowercase s
      in if l = ''string'' then TString
         else if l \<in> {''boolean'', ''bool''} then TBoolean
         else if l \<in> {''number'', ''numeric'', ''int'', ''integer'', ''float''} then TNumber
         else if l \<in> {''choice'', ''select''} then TChoice
         else if l \<in> {''multi_choice'', ''multichoice'', ''multiselect''} then TMultiChoice
         else TString)"

record validation_rules =
  vr_min_length :: "nat option"
  vr_max_length :: "nat option"
  vr_pattern :: "string option"
  vr_min :: "rat option"
  vr_max :: "rat option"
  vr_step :: "rat option"
  vr_allow_custom :: "bool option"
  vr_min_selections :: "nat option"
  vr_max_selections :: "nat option"
  vr_custom_validator :: "string option"

definition no_rules :: validation_rules where
  "no_rules = \<lparr>vr_min_length = None, vr_max_length = None, vr_pattern = None, vr_min = None, vr_max = None, vr_step = None,
     vr_allow_custom = None, vr_min_selections = None, vr_max_selections = None, vr_custom_validator = None\<rparr>"

record parameter =
  par_name :: string
  par_description :: string
  par_required :: bool
  par_type :: parameter_type
  par_default :: "json option"
  par_choices :: "string list option"
  par_validation :: "validation_rules option"
  par_condition :: "parameter_condition option"

definition new_parameter :: "string \<Rightarrow> string \<Rightarrow> parameter_type \<Rightarrow> parameter" where
  "new_parameter name description t =
     \<lparr>par_name = name, par_description = description, par_required = False, par_type = t, par_default = None,
      par_choices = None, par_validation = None, par_condition = None\<rparr>"

definition with_range :: "parameter \<Rightarrow> rat option \<Rightarrow> rat option \<Rightarrow> parameter" where
  "with_range p lo hi =
     p\<lparr>par_validation := Some ((case par_validation p of Some r \<Rightarrow> r | None \<Rightarrow> no_rules)\<lparr>vr_min := lo, vr_max := hi\<rparr>)\<rparr>"

definition parameter_when :: "parameter \<Rightarrow> string \<Rightarrow> parameter" where
  "parameter_when p e = p\<lparr>par_condition := Some \<lparr>pc_expression = e, pc_description = None\<rparr>\<rparr>"

section \<open>Validation\<close>

definition get_value_type :: "json \<Rightarrow> string" where
  "get_value_type v =
     (case v of
        JString _ \<Rightarrow> ''string''
      | JNumber _ \<Rightarrow> ''number''
      | JBool _ \<Rightarrow> ''boolean''
      | JArray _ \<Rightarrow> ''array''
      | JObject _ \<Rightarrow> ''object''
      | JNull \<Rightarrow> ''null'')"

definition validate_string_with_rules ::
  "param_env \<Rightarrow> parameter \<Rightarrow> string \<Rightarrow> validation_rules \<Rightarrow> parameter_error + unit" where
  "validate_string_with_rules pe p s r =
     (let too_short = (case vr_min_length r of Some n \<Rightarrow> length s < n | None \<Rightarrow> False);
          too_long = (case vr_max_length r of Some n \<Rightarrow> n < length s | None \<Rightarrow> False)
      in if (case vr_pattern r of Some pat \<Rightarrow> pe_regex pe pat s = Some False | None \<Rightarrow> False)
         then Inl (PatternMismatch (par_name p) s (the (vr_pattern r)))
         else if too_short then Inl (StringTooShort (par_name p) (the (vr_min_length r)) (length s))
         else if too_long then Inl (StringTooLong (par_name p) (the (vr_max_length r)) (length s))
         else Inr ())"

text \<open>The absolute value of \<open>a % b\<close>, whose sign is that of \<open>a\<close>.\<close>

definition abs_rem :: "rat \<Rightarrow> rat \<Rightarrow> rat" where
  "abs_rem a b = \<bar>a\<bar> - \<bar>b\<bar> * of_int \<lfloor>\<bar>a\<bar> / \<bar>b\<bar>\<rfloor>"

definition f64_epsilon :: rat where
  "f64_epsilon = 1 / 2 ^ 52"

definition validate_number_with_rules ::
  "parameter \<Rightarrow> rat \<Rightarrow> validation_rules \<Rightarrow> parameter_error + unit" where
  "validate_number_with_rules p v r =
     (if (case vr_min r of Some m \<Rightarrow> v < m | None \<Rightarrow> False)
      then Inl (OutOfRange (par_name p) v (vr_min r) (vr_max r))
      else if (case vr_max r of Some m \<Rightarrow> m < v | None \<Rightarrow> False)
      then Inl (OutOfRange (par_name p) v (vr_min r) (vr_max r))
      else case vr_step r of
             None \<Rightarrow> Inr ()
           | Some step \<Rightarrow>
               (if 0 < step
                then let remainder = abs_rem v step
                     in if f64_epsilon < remainder \<and> f64_epsilon < step - remainder
                        then Inl (InvalidStep (par_name p) v step) else Inr ()
                else Inr ()))"

definition validate_multi_choice_with_rules ::
  "parameter \<Rightarrow> json list \<Rightarrow> validation_rules \<Rightarrow> parameter_error + unit" where
  "validate_multi_choice_with_rules p xs r =
     (let count = length xs;
          upper = (case vr_max_selections r of
                     Some m \<Rightarrow> if m < count then Inl (TooManySelections (par_name p) m count) else Inr ()
                   | None \<Rightarrow> Inr ())
      in case vr_min_selections r of
           Some m \<Rightarrow> if count < m then Inl (TooFewSelections (par_name p) m count) else upper
         | None \<Rightarrow> upper)"

definition check_choice :: "parameter \<Rightarrow> string \<Rightarrow> parameter_error + unit" where
  "check_choice p s =
     (case par_choices p of
        None \<Rightarrow> Inr ()
      | Some cs \<Rightarrow> if s \<in> set cs then Inr () else Inl (InvalidChoice (par_name p) s cs))"

fun check_items :: "parameter \<Rightarrow> json list \<Rightarrow> parameter_error + unit" where
  "check_items p [] = Inr ()"
| "check_items p (v # vs) =
     (case json_str v of
        None \<Rightarrow> Inl (TypeMismatch (par_name p) ''array of strings'' ''array with non-string items'')
      | Some s \<Rightarrow> (case check_choice p s of Inl e \<Rightarrow> Inl e | Inr _ \<Rightarrow> check_items p vs))"

definition with_rules :: "parameter \<Rightarrow> (validation_rules \<Rightarrow> parameter_error + unit) \<Rightarrow> parameter_error + unit" where
  "with_rules p f = (case par_validation p of None \<Rightarrow> Inr () | Some r \<Rightarrow> f r)"

definition type_mismatch :: "parameter \<Rightarrow> string \<Rightarrow> json \<Rightarrow> parameter_error + unit" where
  "type_mismatch p expected v = Inl (TypeMismatch (par_name p) expected (get_value_type v))"

definition validate_parameter :: "param_env \<Rightarrow> parameter \<Rightarrow> json \<Rightarrow> parameter_error + unit" where
  "validate_parameter pe p v =
     (case par_type p of
        TString \<Rightarrow>
          (case v of
             JString s \<Rightarrow>
               (case with_rules p (validate_string_with_rules pe p s) of Inl e \<Rightarrow> Inl e | Inr _ \<Rightarrow> check_choice p s)
           | _ \<Rightarrow> type_mismatch p ''string'' v)
      | TBoolean \<Rightarrow> (case v of JBool _ \<Rightarrow> Inr () | _ \<Rightarrow> type_mismatch p ''boolean'' v)
      | TNumber \<Rightarrow>
          (case v of
             JNumber n \<Rightarrow> with_rules p (validate_number_with_rules p (ne_value (pe_num pe) n))
           | _ \<Rightarrow> type_mismatch p ''number'' v)
      | TChoice \<Rightarrow> (case v of JString s \<Rightarrow> check_choice p s | _ \<Rightarrow> type_mismatch p ''string'' v)
      | TMultiChoice \<Rightarrow>
          (case v of
             JArray xs \<Rightarrow>
               (case with_rules p (validate_multi_choice_with_rules p xs) of
                  Inl e \<Rightarrow> Inl e
                | Inr _ \<Rightarrow> if par_choices p = None then Inr () else check_items p xs)
           | _ \<Rightarrow> type_mismatch p ''array'' v))"

fun validate_parameters :: "param_env \<Rightarrow> parameter list \<Rightarrow> (string \<rightharpoonup> json) \<Rightarrow> parameter_error + unit" where
  "validate_parameters pe [] vals = Inr ()"
| "validate_parameters pe (p # ps) vals =
     (case vals (par_name p) of
        Some v \<Rightarrow> (case validate_parameter pe p v of Inl e \<Rightarrow> Inl e | Inr _ \<Rightarrow> validate_parameters pe ps vals)
      | None \<Rightarrow> if par_required p then Inl (MissingRequired (par_name p)) else validate_parameters pe ps vals)"

section \<open>What an accepted value is\<close>

inductive has_type :: "parameter_type \<Rightarrow> json \<Rightarrow> bool" where
  "has_type TString (JString s)"
| "has_type TBoolean (JBool b)"
| "has_type TNumber (JNumber n)"
| "has_type TChoice (JString s)"
| "has_type TMultiChoice (JArray xs)"

inductive_simps has_type_simps [simp]:
  "has_type TString v" "has_type TBoolean v" "has_type TNumber v" "has_type TChoice v" "has_type TMultiChoice v"

definition in_range :: "'a::linorder option \<Rightarrow> 'a option \<Rightarrow> 'a \<Rightarrow> bool" where
  "in_range lo hi x \<longleftrightarrow> (\<forall>m. lo = Some m \<longrightarrow> m \<le> x) \<and> (\<forall>m. hi = Some m \<longrightarrow> x \<le> m)"

text \<open>A multiple of the step, up to the machine epsilon.\<close>

definition near_multiple :: "rat \<Rightarrow> rat \<Rightarrow> bool" where
  "near_multiple step x \<longleftrightarrow> (\<exists>k. \<bar>x - of_int k * step\<bar> \<le> f64_epsilon)"

definition obeys_rules :: "param_env \<Rightarrow> parameter_type \<Rightarrow> validation_rules \<Rightarrow> json \<Rightarrow> bool" where
  "obeys_rules pe t r v =
     (case (t, v) of
        (TString, JString s) \<Rightarrow>
          in_range (vr_min_length r) (vr_max_length r) (length s)
          \<and> (\<forall>pat. vr_pattern r = Some pat \<longrightarrow> pe_regex pe pat s \<noteq> Some False)
      | (TNumber, JNumber n) \<Rightarrow>
          in_range (vr_min r) (vr_max r) (ne_value (pe_num pe) n)
          \<and> (\<forall>step. vr_step r = Some step \<longrightarrow> 0 < step \<longrightarrow> near_multiple step (ne_value (pe_num pe) n))
      | (TMultiChoice, JArray xs) \<Rightarrow> in_range (vr_min_selections r) (vr_max_selections r) (length xs)
      | _ \<Rightarrow> True)"

definition chosen_from :: "string list \<Rightarrow> json \<Rightarrow> bool" where
  "chosen_from cs v =
     (case v of
        JString s \<Rightarrow> s \<in> set cs
      | JArray xs \<Rightarrow> set xs \<subseteq> JString ` set cs
      | _ \<Rightarrow> True)"

lemma abs_rem_bounds: "0 < b \<Longrightarrow> 0 \<le> abs_rem a b" "0 < b \<Longrightarrow> abs_rem a b < b"
proof -
  assume b: "0 < b"
  have "of_int \<lfloor>\<bar>a\<bar> / b\<rfloor> * b \<le> \<bar>a\<bar>" using b of_int_floor_le [of "\<bar>a\<bar> / b"] by (simp only: pos_le_divide_eq)
  then show "0 \<le> abs_rem a b" using b by (simp add: abs_rem_def mult.commute)
next
  assume b: "0 < b"
  have "\<bar>a\<bar> / b < of_int \<lfloor>\<bar>a\<bar> / b\<rfloor> + 1" by linarith
  then have "\<bar>a\<bar> < (of_int \<lfloor>\<bar>a\<bar> / b\<rfloor> + 1) * b" using b by (simp only: pos_divide_less_eq)
  then show "abs_rem a b < b" using b by (simp add: abs_rem_def algebra_simps)
qed

lemma near_multiple_abs: "near_multiple step \<bar>x\<bar> = near_multiple step x"
proof -
  have "near_multiple step (- y)" if near: "near_multiple step y" for y
  proof -
    obtain k where "\<bar>y - of_int k * step\<bar> \<le> f64_epsilon" using near by (auto simp: near_multiple_def)
    then have "\<bar>- y - of_int (- k) * step\<bar> \<le> f64_epsilon" by (simp add: abs_minus_commute)
    then show ?thesis unfolding near_multiple_def by blast
  qed
  from this [of x] this [of "- x"] show ?thesis by (cases "0 \<le> x") auto
qed

text \<open>The remainder test of the code finds the nearest multiples on both sides.\<close>

lemma near_multiple_rem:
  assumes "0 < step"
  shows "near_multiple step x \<longleftrightarrow> abs_rem x step \<le> f64_epsilon \<or> step - abs_rem x step \<le> f64_epsilon"
proof -
  define q where "q = \<lfloor>\<bar>x\<bar> / step\<rfloor>"
  have x: "\<bar>x\<bar> = of_int q * step + abs_rem x step" using assms by (simp add: abs_rem_def q_def)
  note b = abs_rem_bounds [OF assms, of x]
  have "near_multiple step \<bar>x\<bar> \<longleftrightarrow> abs_rem x step \<le> f64_epsilon \<or> step - abs_rem x step \<le> f64_epsilon"
  proof
    assume "near_multiple step \<bar>x\<bar>"
    then obtain k where k: "\<bar>\<bar>x\<bar> - of_int k * step\<bar> \<le> f64_epsilon" by (auto simp: near_multiple_def)
    show "abs_rem x step \<le> f64_epsilon \<or> step - abs_rem x step \<le> f64_epsilon"
    proof (cases "k \<le> q")
      case True
      then have "of_int k * step \<le> of_int q * step" using assms by simp
      then show ?thesis using k x by linarith
    next
      case False
      then have "of_int (q + 1) * step \<le> of_int k * step" using assms by (intro mult_right_mono) (simp_all only: of_int_le_iff)
      then have "of_int q * step + step \<le> of_int k * step" by (simp add: algebra_simps)
      then show ?thesis using k x by linarith
    qed
  next
    assume "abs_rem x step \<le> f64_epsilon \<or> step - abs_rem x step \<le> f64_epsilon"
    then have "\<bar>\<bar>x\<bar> - of_int q * step\<bar> \<le> f64_epsilon \<or> \<bar>\<bar>x\<bar> - of_int (q + 1) * step\<bar> \<le> f64_epsilon"
      using x b by (auto simp: algebra_simps)
    then show "near_multiple step \<bar>x\<bar>" unfolding near_multiple_def by blast
  qed
  then show ?thesis by (simp only: near_multiple_abs)
qed

lemma string_rules_ok: "validate_string_with_rules pe p s r = Inr () \<longleftrightarrow> obeys_rules pe TString r (JString s)"
  by (auto simp: validate_string_with_rules_def obeys_rules_def in_range_def Let_def not_less split: option.splits)

lemma number_rules_ok:
  "validate_number_with_rules p (ne_value (pe_num pe) n) r = Inr () \<longleftrightarrow> obeys_rules pe TNumber r (JNumber n)"
  by (auto simp: validate_number_with_rules_def obeys_rules_def in_range_def Let_def not_less near_multiple_rem split: option.splits)

lemma multi_rules_ok: "validate_multi_choice_with_rules p xs r = Inr () \<longleftrightarrow> obeys_rules pe TMultiChoice r (JArray xs)"
  by (auto simp: validate_multi_choice_with_rules_def obeys_rules_def in_range_def Let_def not_less split: option.splits)

lemma check_choice_ok: "check_choice p s = Inr () \<longleftrightarrow> (\<forall>cs. par_choices p = Some cs \<longrightarrow> s \<in> set cs)"
  by (auto simp: check_choice_def split: option.splits)

lemma check_items_ok: "par_choices p = Some cs \<Longrightarrow> check_items p xs = Inr () \<longleftrightarrow> set xs \<subseteq> JString ` set cs"
proof (induction xs)
  case (Cons v xs)
  then show ?case by (cases v) (auto simp: check_choice_def)
qed simp

text \<open>Steps in sequence, and the rules of a parameter that has some.\<close>

lemma sequence_ok: "(case x of Inl e \<Rightarrow> Inl e | Inr _ \<Rightarrow> y) = Inr () \<longleftrightarrow> x = Inr () \<and> y = Inr ()"
  by (cases x) auto

definition given :: "'a option \<Rightarrow> 'a list" where
  "given x = (case x of None \<Rightarrow> [] | Some a \<Rightarrow> [a])"

lemma with_rules_ok: "with_rules p f = Inr () \<longleftrightarrow> list_all (\<lambda>r. f r = Inr ()) (given (par_validation p))"
  by (auto simp: with_rules_def given_def split: option.splits)

lemma check_choice_given: "check_choice p s = Inr () \<longleftrightarrow> list_all (\<lambda>cs. s \<in> set cs) (given (par_choices p))"
  by (auto simp: check_choice_ok given_def split: option.splits)

lemmas validation_ok = sequence_ok with_rules_ok check_choice_given string_rules_ok number_rules_ok

text \<open>C36. The validator accepts a value exactly when it has the declared type, obeys those rules that belong to the
  type (lengths in characters, a pattern that compiles and does not match refuses, a number within its range and
  up to the machine epsilon a multiple of a positive step, a bounded number of selections) and, except for
  booleans and numbers, is chosen from the declared choices.\<close>

theorem validate_parameter_correct:
  "validate_parameter pe p v = Inr ()
     \<longleftrightarrow> has_type (par_type p) v
       \<and> list_all (\<lambda>r. obeys_rules pe (par_type p) r v) (given (par_validation p))
       \<and> list_all (\<lambda>cs. chosen_from cs v) (given (par_choices p))"
proof (cases "par_type p")
  case TMultiChoice
  then show ?thesis
    by (cases v; cases "par_choices p")
      (auto simp: validate_parameter_def type_mismatch_def chosen_from_def check_items_ok given_def validation_ok
        multi_rules_ok [where pe = pe])
qed (cases v; auto simp: validate_parameter_def type_mismatch_def chosen_from_def obeys_rules_def validation_ok list_all_def)+

lemma validate_parameters_ok:
  "validate_parameters pe ps vals = Inr ()
     \<longleftrightarrow> (\<forall>p \<in> set ps. case vals (par_name p) of Some v \<Rightarrow> validate_parameter pe p v = Inr () | None \<Rightarrow> \<not> par_required p)"
  by (induction ps) (auto simp: sequence_ok split: option.splits)

end
