(* ===== verification/Param_Resolver.thy ===== *)
theory Param_Resolver
  imports Parameters
begin

text \<open>
  \<open>DefaultParameterResolver\<close> of \<open>parameters.rs\<close>: command-line values, then rounds over the parameters that give
  every parameter whose condition holds its default. The outcome is compared with a closure that does
  not mention rounds: defaults are added, in any order, as long as a condition holds. \<open>None\<close> is a panic.
  Prompting the user is a function from the parameter asked for to the answer.
\<close>

section \<open>Values\<close>

text \<open>\<open>parse_cli_args\<close> on each value.\<close>

definition parse_cli_value :: "num_env \<Rightarrow> string \<Rightarrow> json" where
  "parse_cli_value ne v =
     (if lowercase v = ''true'' then JBool True
      else if lowercase v = ''false'' then JBool False
      else case ne_parse ne v of Some n \<Rightarrow> JNumber n | None \<Rightarrow> JString v)"

definition parse_cli_args :: "num_env \<Rightarrow> (string \<rightharpoonup> string) \<Rightarrow> (string \<rightharpoonup> json)" where
  "parse_cli_args ne args = (\<lambda>k. map_option (parse_cli_value ne) (args k))"

definition ident_start :: "char \<Rightarrow> bool" where
  "ident_start c = (let n = of_char c :: nat in n \<in> {97..122} \<or> n \<in> {65..90} \<or> c = CHR ''_'')"

definition ident_char :: "char \<Rightarrow> bool" where
  "ident_char c = (ident_start c \<or> (of_char c :: nat) \<in> {48..57})"

text \<open>A match of the variable pattern at the front: the name and the rest.\<close>

definition env_var_at :: "string \<Rightarrow> (string \<times> string) option" where
  "env_var_at s =
     (if prefix [CHR 0x24, CHR 0x7B] s
      then let t = drop 2 s; name = takeWhile ident_char t; r = dropWhile ident_char t
           in if name \<noteq> [] \<and> ident_start (hd name) \<and> r \<noteq> [] \<and> hd r = CHR 0x7D then Some (name, tl r) else None
      else None)"

lemma env_var_at_shorter: "env_var_at s = Some (name, r) \<Longrightarrow> length r < length s"
proof -
  assume at: "env_var_at s = Some (name, r)"
  let ?r = "dropWhile ident_char (drop 2 s)"
  have "r = tl ?r" "?r \<noteq> []" using at by (auto simp: env_var_at_def Let_def split: if_splits)
  moreover have "length ?r \<le> length s" by (metis length_dropWhile_le length_drop diff_le_self le_trans)
  ultimately show ?thesis by (cases ?r) auto
qed

function resolve_env_vars :: "param_env \<Rightarrow> string \<Rightarrow> string" where
  "resolve_env_vars pe s =
     (case env_var_at s of
        Some (name, r) \<Rightarrow>
          (case pe_var pe name of Some v \<Rightarrow> v | None \<Rightarrow> [CHR 0x24, CHR 0x7B] @ name @ [CHR 0x7D]) @ resolve_env_vars pe r
      | None \<Rightarrow> (case s of [] \<Rightarrow> [] | c # t \<Rightarrow> c # resolve_env_vars pe t))"
  by pat_completeness auto
termination by (relation "measure (length \<circ> snd)") (auto dest: env_var_at_shorter)

declare resolve_env_vars.simps [simp del]

definition resolve_default_value :: "param_env \<Rightarrow> json \<Rightarrow> json" where
  "resolve_default_value pe v =
     (case v of
        JString s \<Rightarrow> if contains_str s [CHR 0x24, CHR 0x7B] then JString (resolve_env_vars pe s) else v
      | _ \<Rightarrow> v)"

section \<open>The resolver\<close>

type_synonym 'a param_result = "(parameter_error + 'a) option"

definition is_parameter_required :: "param_env \<Rightarrow> parameter \<Rightarrow> (string \<rightharpoonup> json) \<Rightarrow> bool option" where
  "is_parameter_required pe p vars =
     (case par_condition p of
        None \<Rightarrow> Some (par_required p)
      | Some c \<Rightarrow>
          (case evaluate_condition (pe_num pe) vars (pc_expression c) of
             None \<Rightarrow> None
           | Some (Inr met) \<Rightarrow> Some (par_required p \<and> met)
           | Some (Inl _) \<Rightarrow> Some False))"

definition missing_error :: "parameter \<Rightarrow> parameter_error" where
  "missing_error p =
     (case par_condition p of
        Some c \<Rightarrow> ConditionalParameterMissing (par_name p) (pc_expression c)
      | None \<Rightarrow> MissingRequired (par_name p))"

text \<open>Whether the condition lets a parameter in; \<open>Some None\<close> when it cannot be evaluated.\<close>

definition should_include :: "param_env \<Rightarrow> parameter \<Rightarrow> (string \<rightharpoonup> json) \<Rightarrow> bool option option" where
  "should_include pe p vars =
     (case par_condition p of
        None \<Rightarrow> Some (Some True)
      | Some c \<Rightarrow>
          (case evaluate_condition (pe_num pe) vars (pc_expression c) of
             None \<Rightarrow> None
           | Some (Inr b) \<Rightarrow> Some (Some b)
           | Some (Inl _) \<Rightarrow> Some None))"

text \<open>One turn of the inner loop. \<open>prompt\<close> is \<open>None\<close> unless the run is interactive.\<close>

definition resolve_one ::
  "param_env \<Rightarrow> (parameter \<Rightarrow> parameter_error + json option) option \<Rightarrow> parameter
     \<Rightarrow> (string \<rightharpoonup> json) \<times> bool \<Rightarrow> ((string \<rightharpoonup> json) \<times> bool) param_result" where
  "resolve_one pe prompt p st =
     (case st of (vars, changed) \<Rightarrow>
        if vars (par_name p) \<noteq> None then Some (Inr st)
        else case should_include pe p vars of
               None \<Rightarrow> None
             | Some None \<Rightarrow> Some (Inr st)
             | Some (Some False) \<Rightarrow> Some (Inr st)
             | Some (Some True) \<Rightarrow>
                 (case par_default p of
                    Some d \<Rightarrow> Some (Inr (vars(par_name p \<mapsto> resolve_default_value pe d), True))
                  | None \<Rightarrow>
                      (if par_required p
                       then case prompt of
                              None \<Rightarrow> Some (Inl (missing_error p))
                            | Some ask \<Rightarrow>
                                (case ask p of
                                   Inl e \<Rightarrow> Some (Inl e)
                                 | Inr (Some v) \<Rightarrow> Some (Inr (vars(par_name p \<mapsto> v), True))
                                 | Inr None \<Rightarrow> Some (Inr st))
                       else Some (Inr st))))"

fun resolve_pass ::
  "param_env \<Rightarrow> (parameter \<Rightarrow> parameter_error + json option) option \<Rightarrow> parameter list
     \<Rightarrow> (string \<rightharpoonup> json) \<times> bool \<Rightarrow> ((string \<rightharpoonup> json) \<times> bool) param_result" where
  "resolve_pass pe prompt [] st = Some (Inr st)"
| "resolve_pass pe prompt (p # ps) st =
     (case resolve_one pe prompt p st of
        Some (Inr st') \<Rightarrow> resolve_pass pe prompt ps st'
      | stop \<Rightarrow> stop)"

definition max_iterations :: nat where
  "max_iterations = 100"

text \<open>The outer loop: \<open>left\<close> counts the iterations that are left, and is part of the result.\<close>

fun resolve_rounds ::
  "param_env \<Rightarrow> (parameter \<Rightarrow> parameter_error + json option) option \<Rightarrow> parameter list
     \<Rightarrow> nat \<Rightarrow> (string \<rightharpoonup> json) \<Rightarrow> ((string \<rightharpoonup> json) \<times> nat) param_result" where
  "resolve_rounds pe prompt ps 0 vars = Some (Inr (vars, 0))"
| "resolve_rounds pe prompt ps (Suc left) vars =
     (case resolve_pass pe prompt ps (vars, False) of
        None \<Rightarrow> None
      | Some (Inl e) \<Rightarrow> Some (Inl e)
      | Some (Inr (vars', changed)) \<Rightarrow>
          (if changed then resolve_rounds pe prompt ps left vars' else Some (Inr (vars', left))))"

fun require_all :: "param_env \<Rightarrow> parameter list \<Rightarrow> (string \<rightharpoonup> json) \<Rightarrow> unit param_result" where
  "require_all pe [] vars = Some (Inr ())"
| "require_all pe (p # ps) vars =
     (case is_parameter_required pe p vars of
        None \<Rightarrow> None
      | Some required \<Rightarrow>
          (if required \<and> vars (par_name p) = None then Some (Inl (missing_error p))
           else require_all pe ps vars))"

definition too_many_iterations :: parameter_error where
  "too_many_iterations =
     ValidationFailed ''Too many iterations resolving conditional parameters - possible circular dependency''"

definition resolve_conditional_parameters ::
  "param_env \<Rightarrow> (parameter \<Rightarrow> parameter_error + json option) option \<Rightarrow> parameter list
     \<Rightarrow> (string \<rightharpoonup> json) \<Rightarrow> (string \<rightharpoonup> json) param_result" where
  "resolve_conditional_parameters pe prompt ps vars =
     (case resolve_rounds pe prompt ps max_iterations vars of
        None \<Rightarrow> None
      | Some (Inl e) \<Rightarrow> Some (Inl e)
      | Some (Inr (vars', left)) \<Rightarrow>
          (if left = 0 then Some (Inl too_many_iterations)
           else case require_all pe ps vars' of
                  None \<Rightarrow> None
                | Some (Inl e) \<Rightarrow> Some (Inl e)
                | Some (Inr _) \<Rightarrow> Some (Inr vars')))"

definition resolve_parameters ::
  "param_env \<Rightarrow> (parameter \<Rightarrow> parameter_error + json option) option \<Rightarrow> parameter list
     \<Rightarrow> (string \<rightharpoonup> string) \<Rightarrow> (string \<rightharpoonup> json) param_result" where
  "resolve_parameters pe prompt ps args =
     resolve_conditional_parameters pe prompt ps (parse_cli_args (pe_num pe) args)"

section \<open>The closure\<close>

text \<open>A parameter whose condition holds; one step gives such a parameter its default.\<close>

definition included :: "param_env \<Rightarrow> (string \<rightharpoonup> json) \<Rightarrow> parameter \<Rightarrow> bool" where
  "included pe vars p \<longleftrightarrow> should_include pe p vars = Some (Some True)"

inductive default_step :: "param_env \<Rightarrow> parameter list \<Rightarrow> (string \<rightharpoonup> json) \<Rightarrow> (string \<rightharpoonup> json) \<Rightarrow> bool"
  for pe ps where
  "p \<in> set ps \<Longrightarrow> vars (par_name p) = None \<Longrightarrow> included pe vars p \<Longrightarrow> par_default p = Some d
     \<Longrightarrow> default_step pe ps vars (vars(par_name p \<mapsto> resolve_default_value pe d))"

definition fully_resolved :: "param_env \<Rightarrow> parameter list \<Rightarrow> (string \<rightharpoonup> json) \<Rightarrow> (string \<rightharpoonup> json) \<Rightarrow> bool" where
  "fully_resolved pe ps vars vars' \<longleftrightarrow> (default_step pe ps)\<^sup>*\<^sup>* vars vars' \<and> (\<nexists>vars''. default_step pe ps vars' vars'')"

definition nothing_missing :: "param_env \<Rightarrow> parameter list \<Rightarrow> (string \<rightharpoonup> json) \<Rightarrow> bool" where
  "nothing_missing pe ps vars \<longleftrightarrow> (\<forall>p \<in> set ps. par_required p \<longrightarrow> included pe vars p \<longrightarrow> vars (par_name p) \<noteq> None)"

text \<open>Conditions that do not panic, and names declared once.\<close>

definition readable_conditions :: "param_env \<Rightarrow> parameter list \<Rightarrow> bool" where
  "readable_conditions pe ps \<longleftrightarrow>
     (\<forall>p \<in> set ps. \<forall>c. par_condition p = Some c \<longrightarrow> parse_condition (pe_num pe) (pc_expression c) \<noteq> None)"

lemma included_mono: "included pe vars p \<Longrightarrow> vars \<subseteq>\<^sub>m vars' \<Longrightarrow> included pe vars' p"
  by (auto simp: included_def should_include_def dest: evaluate_condition_mono split: option.splits sum.splits)

lemma fresh_upd_le: "vars k = None \<Longrightarrow> vars \<subseteq>\<^sub>m vars(k \<mapsto> v)"
  by (auto simp: map_le_def)

lemma default_step_le: "default_step pe ps vars vars' \<Longrightarrow> vars \<subseteq>\<^sub>m vars'"
  by (auto elim!: default_step.cases intro: fresh_upd_le)

lemma default_steps_le: "(default_step pe ps)\<^sup>*\<^sup>* vars vars' \<Longrightarrow> vars \<subseteq>\<^sub>m vars'"
  by (induction rule: rtranclp_induct) (auto intro: map_le_trans default_step_le)

text \<open>Steps commute, so the closure is unique.\<close>

lemma distinct_names_inj:
  "distinct (map par_name ps) \<Longrightarrow> p \<in> set ps \<Longrightarrow> q \<in> set ps \<Longrightarrow> par_name p = par_name q \<Longrightarrow> p = q"
  by (meson distinct_map inj_onD)

lemma default_step_diamond:
  assumes "distinct (map par_name ps)" "default_step pe ps vars a" "default_step pe ps vars b"
  shows "a = b \<or> (\<exists>c. default_step pe ps a c \<and> default_step pe ps b c)"
proof -
  obtain p d where p: "p \<in> set ps" "vars (par_name p) = None" "included pe vars p" "par_default p = Some d"
    "a = vars(par_name p \<mapsto> resolve_default_value pe d)" using assms(2) by (auto elim: default_step.cases)
  obtain q e where q: "q \<in> set ps" "vars (par_name q) = None" "included pe vars q" "par_default q = Some e"
    "b = vars(par_name q \<mapsto> resolve_default_value pe e)" using assms(3) by (auto elim: default_step.cases)
  show ?thesis
  proof (cases "par_name p = par_name q")
    case True
    then have "p = q" using distinct_names_inj assms(1) p(1) q(1) by blast
    then show ?thesis using p q by simp
  next
    case False
    have "default_step pe ps a (a(par_name q \<mapsto> resolve_default_value pe e))"
      using False p q included_mono [OF q(3) fresh_upd_le] by (intro default_step.intros) auto
    moreover have "default_step pe ps b (b(par_name p \<mapsto> resolve_default_value pe d))"
      using False p q included_mono [OF p(3) fresh_upd_le] by (intro default_step.intros) auto
    moreover have "a(par_name q \<mapsto> resolve_default_value pe e) = b(par_name p \<mapsto> resolve_default_value pe d)"
      using False p(5) q(5) by (auto simp: fun_eq_iff)
    ultimately show ?thesis by metis
  qed
qed

lemma default_strip:
  assumes "distinct (map par_name ps)" "(default_step pe ps)\<^sup>*\<^sup>* vars b" "default_step pe ps vars a"
  shows "\<exists>c. (default_step pe ps)\<^sup>*\<^sup>* a c \<and> (b = c \<or> default_step pe ps b c)"
  using assms(2)
proof (induction rule: rtranclp_induct)
  case (step y z)
  then obtain c where c: "(default_step pe ps)\<^sup>*\<^sup>* a c" "y = c \<or> default_step pe ps y c" by blast
  then show ?case
  proof (cases "y = c")
    case True
    have "(default_step pe ps)\<^sup>*\<^sup>* a z"
      by (rule rtranclp.rtrancl_into_rtrancl [OF c(1)]) (use True step(2) in simp)
    then show ?thesis by blast
  next
    case False
    then consider "z = c" | u where "default_step pe ps z u" "default_step pe ps c u"
      using default_step_diamond [OF assms(1) step(2)] c by blast
    then show ?thesis
    proof cases
      case 2
      then have "(default_step pe ps)\<^sup>*\<^sup>* a u" using c(1) by (simp add: rtranclp.rtrancl_into_rtrancl)
      then show ?thesis using 2 by blast
    qed (use c in blast)
  qed
qed (use assms(3) in blast)

lemma closure_reached:
  assumes "distinct (map par_name ps)" "fully_resolved pe ps vars a" "(default_step pe ps)\<^sup>*\<^sup>* vars b"
  shows "(default_step pe ps)\<^sup>*\<^sup>* b a"
proof -
  have "(default_step pe ps)\<^sup>*\<^sup>* vars a" using assms(2) by (simp add: fully_resolved_def)
  then show ?thesis
    using assms(3)
  proof (induction arbitrary: b rule: converse_rtranclp_induct)
    case base
    then show ?case using assms(2) unfolding fully_resolved_def by (metis converse_rtranclpE)
  next
    case (step y z)
    then obtain c where "(default_step pe ps)\<^sup>*\<^sup>* z c" "b = c \<or> default_step pe ps b c"
      using default_strip [OF assms(1)] by metis
    then show ?case using step by (metis converse_rtranclp_into_rtranclp)
  qed
qed

lemma fully_resolved_unique:
  assumes "distinct (map par_name ps)" "fully_resolved pe ps vars a" "fully_resolved pe ps vars b"
  shows "a = b"
  using closure_reached [OF assms(1,2)] assms(3) unfolding fully_resolved_def by (metis converse_rtranclpE)

section \<open>The rounds\<close>

text \<open>A parameter that has to be given.\<close>

definition lacking :: "param_env \<Rightarrow> (string \<rightharpoonup> json) \<Rightarrow> parameter \<Rightarrow> bool" where
  "lacking pe vars p \<longleftrightarrow> included pe vars p \<and> vars (par_name p) = None \<and> par_default p = None \<and> par_required p"

definition unresolved :: "parameter list \<Rightarrow> (string \<rightharpoonup> json) \<Rightarrow> nat" where
  "unresolved ps vars = card {p \<in> set ps. vars (par_name p) = None}"

lemma unresolved_le: "unresolved ps vars \<le> length ps"
  unfolding unresolved_def by (rule le_trans [OF card_mono card_length]) auto

lemma default_step_unresolved: "default_step pe ps vars vars' \<Longrightarrow> unresolved ps vars' < unresolved ps vars"
  unfolding unresolved_def by (intro psubset_card_mono) (auto elim!: default_step.cases split: if_splits)

lemma default_steps_unresolved: "(default_step pe ps)\<^sup>*\<^sup>* vars vars' \<Longrightarrow> unresolved ps vars' \<le> unresolved ps vars"
  by (induction rule: rtranclp_induct) (auto dest: default_step_unresolved)

lemma should_include_readable: "readable_conditions pe ps \<Longrightarrow> p \<in> set ps \<Longrightarrow> should_include pe p vars \<noteq> None"
  by (auto simp: readable_conditions_def should_include_def evaluate_condition_panics split: option.splits sum.splits)

lemma resolve_one_cases:
  assumes "readable_conditions pe ps" "p \<in> set ps"
  obtains (given) vars' where "resolve_one pe None p (vars, ch) = Some (Inr (vars', True))" "default_step pe ps vars vars'"
  | (lacking) "resolve_one pe None p (vars, ch) = Some (Inl (missing_error p))" "lacking pe vars p"
  | (skipped) "resolve_one pe None p (vars, ch) = Some (Inr (vars, ch))" "\<not> lacking pe vars p"
      "\<not> (vars (par_name p) = None \<and> included pe vars p \<and> par_default p \<noteq> None)"
proof -
  obtain r where r: "should_include pe p vars = Some r" using should_include_readable [OF assms] by blast
  show ?thesis
  proof (cases "vars (par_name p) = None \<and> included pe vars p")
    case True
    then have incl: "should_include pe p vars = Some (Some True)" by (simp add: included_def)
    show ?thesis
    proof (cases "par_default p")
      case None
      then show ?thesis using that(2,3) True incl by (cases "par_required p") (auto simp: resolve_one_def lacking_def)
    next
      case (Some d)
      have "default_step pe ps vars (vars(par_name p \<mapsto> resolve_default_value pe d))"
        using True Some assms(2) by (intro default_step.intros) auto
      then show ?thesis using that(1) True incl Some by (auto simp: resolve_one_def)
    qed
  next
    case False
    then have "resolve_one pe None p (vars, ch) = Some (Inr (vars, ch))"
      using r by (auto simp: resolve_one_def included_def split: option.splits bool.splits)
    then show ?thesis using False by (intro skipped) (auto simp: lacking_def)
  qed
qed

lemma resolve_pass_cases:
  assumes "readable_conditions pe ps" "set qs \<subseteq> set ps"
  shows "case resolve_pass pe None qs (vars, ch) of
      None \<Rightarrow> False
    | Some (Inl e) \<Rightarrow> \<exists>vars' p. (default_step pe ps)\<^sup>*\<^sup>* vars vars' \<and> p \<in> set ps \<and> lacking pe vars' p \<and> e = missing_error p
    | Some (Inr (vars', ch')) \<Rightarrow>
        (default_step pe ps)\<^sup>*\<^sup>* vars vars'
        \<and> (if vars' = vars
           then ch' = ch \<and> (\<forall>p \<in> set qs. \<not> lacking pe vars p
                  \<and> \<not> (vars (par_name p) = None \<and> included pe vars p \<and> par_default p \<noteq> None))
           else ch' \<and> unresolved ps vars' < unresolved ps vars)"
  using assms(2)
proof (induction qs arbitrary: vars ch)
  case (Cons p qs)
  then have p: "p \<in> set ps" "set qs \<subseteq> set ps" by auto
  show ?case
  proof (cases rule: resolve_one_cases [OF assms(1) p(1), of vars ch])
    case given: (1 vars1)
    note u = default_step_unresolved [OF given(2)]
    have ne: "vars' \<noteq> vars" if "(default_step pe ps)\<^sup>*\<^sup>* vars1 vars'" for vars'
      using default_steps_unresolved [OF that] u by auto
    show ?thesis
      using Cons.IH [OF p(2), of vars1 True] given u ne
      by (auto split: option.splits sum.splits prod.splits if_splits
          intro: converse_rtranclp_into_rtranclp dest: default_steps_unresolved)
  next
    case 2
    then show ?thesis using p by auto
  next
    case 3
    then show ?thesis using Cons.IH [OF p(2), of vars ch]
      by (auto split: option.splits sum.splits prod.splits if_splits)
  qed
qed simp

lemma resolve_rounds_cases:
  assumes "readable_conditions pe ps" "unresolved ps vars + 1 < n"
  shows "case resolve_rounds pe None ps n vars of
      None \<Rightarrow> False
    | Some (Inl e) \<Rightarrow> \<exists>vars' p. (default_step pe ps)\<^sup>*\<^sup>* vars vars' \<and> p \<in> set ps \<and> lacking pe vars' p \<and> e = missing_error p
    | Some (Inr (vars', left)) \<Rightarrow> 0 < left \<and> fully_resolved pe ps vars vars'"
  using assms(2)
proof (induction n arbitrary: vars)
  case (Suc n)
  note pass = resolve_pass_cases [OF assms(1) subset_refl, of vars False]
  consider e where "resolve_pass pe None ps (vars, False) = Some (Inl e)"
    | vars1 ch1 where "resolve_pass pe None ps (vars, False) = Some (Inr (vars1, ch1))"
    using pass by (cases "resolve_pass pe None ps (vars, False)"; auto split: sum.splits)
  then show ?case
  proof cases
    case 1
    then show ?thesis using pass by simp
  next
    case 2
    then have steps: "(default_step pe ps)\<^sup>*\<^sup>* vars vars1" using pass by simp
    show ?thesis
    proof (cases "vars1 = vars")
      case True
      then have "\<nexists>vars''. default_step pe ps vars vars''" using 2 pass by (auto elim!: default_step.cases)
      then show ?thesis using 2 True pass Suc.prems by (auto simp: fully_resolved_def)
    next
      case False
      then have "ch1" "unresolved ps vars1 + 1 < n" using 2 pass Suc.prems by auto
      then show ?thesis using 2 steps Suc.IH [of vars1]
        by (auto simp: fully_resolved_def split: option.splits sum.splits prod.splits intro: rtranclp_trans)
    qed
  qed
qed simp

lemma lacking_stays:
  assumes "distinct (map par_name ps)" "p \<in> set ps" "lacking pe vars p" "(default_step pe ps)\<^sup>*\<^sup>* vars vars'"
  shows "lacking pe vars' p"
  using assms(4)
proof (induction rule: rtranclp_induct)
  case (step y z)
  have "included pe z p" using step included_mono default_step_le by (auto simp: lacking_def)
  moreover have "z (par_name p) = None"
    using step(2)
  proof cases
    case (1 q d)
    then have "par_name q \<noteq> par_name p"
      using step.IH distinct_names_inj [OF assms(1) 1(2) assms(2)] by (auto simp: lacking_def)
    then show ?thesis using 1 step.IH by (auto simp: lacking_def)
  qed
  ultimately show ?case using step.IH by (simp add: lacking_def)
qed (rule assms(3))

lemma is_parameter_required_readable:
  "readable_conditions pe ps \<Longrightarrow> p \<in> set ps \<Longrightarrow> is_parameter_required pe p vars = Some (par_required p \<and> included pe vars p)"
  using should_include_readable [of pe ps p vars]
  by (auto simp: is_parameter_required_def included_def should_include_def split: option.splits sum.splits)

lemma require_all_cases:
  assumes "readable_conditions pe ps" "set qs \<subseteq> set ps"
  shows "require_all pe qs vars = Some (Inr ()) \<and> nothing_missing pe qs vars
    \<or> (\<exists>p \<in> set qs. require_all pe qs vars = Some (Inl (missing_error p))
          \<and> par_required p \<and> included pe vars p \<and> vars (par_name p) = None)"
  using assms(2)
proof (induction qs)
  case (Cons p qs)
  then show ?case
    using is_parameter_required_readable [OF assms(1), of p vars] by (auto simp: nothing_missing_def)
qed (simp add: nothing_missing_def)

lemma fully_resolved_extend:
  "(default_step pe ps)\<^sup>*\<^sup>* vars a \<Longrightarrow> fully_resolved pe ps a b \<Longrightarrow> fully_resolved pe ps vars b"
  by (auto simp: fully_resolved_def intro: rtranclp_trans)

lemma closure_exists: "\<exists>vars'. fully_resolved pe ps vars vars'"
proof (induction "unresolved ps vars" arbitrary: vars rule: less_induct)
  case less
  show ?case
  proof (cases "\<exists>a. default_step pe ps vars a")
    case True
    then obtain a where a: "default_step pe ps vars a" by blast
    obtain b where "fully_resolved pe ps a b" using less [OF default_step_unresolved [OF a]] by blast
    then show ?thesis using fully_resolved_extend a by blast
  next
    case False
    then show ?thesis unfolding fully_resolved_def by blast
  qed
qed

lemma fully_resolved_lacking:
  assumes "fully_resolved pe ps vars a" "p \<in> set ps" "par_required p" "included pe a p" "a (par_name p) = None"
  shows "lacking pe a p"
  using assms default_step.intros [of p ps a pe] by (cases "par_default p") (auto simp: fully_resolved_def lacking_def)

text \<open>The closure does not depend on the order of the parameters.\<close>

lemma closure_order: "set ps = set qs \<Longrightarrow> fully_resolved pe ps vars a = fully_resolved pe qs vars a"
proof -
  assume "set ps = set qs"
  then have "default_step pe ps = default_step pe qs" by (auto simp: fun_eq_iff default_step.simps)
  then show ?thesis by (simp add: fully_resolved_def)
qed

text \<open>C37. A run that asks nobody, of at most 98 parameters with different names, none of whose conditions makes the
  parser panic: it ends with the closure of the command-line values under defaults whose condition holds. It returns
  the closure when no required parameter is missing there, and otherwise the error of a required parameter whose
  condition holds and which has neither a value nor a default. The closure is unique and does not depend on the
  order of the parameters; the error about too many iterations does not occur for so few parameters, circular
  conditions or not. A chain of 99 parameters can reach that error, and a condition that is a lone quote panics;
  both are outside the hypotheses.\<close>

theorem resolver_correct:
  assumes "distinct (map par_name ps)" "length ps \<le> 98" "readable_conditions pe ps"
  shows "\<exists>!vars. fully_resolved pe ps (parse_cli_args (pe_num pe) args) vars
    \<and> (case resolve_parameters pe None ps args of
         None \<Rightarrow> False
       | Some (Inr r) \<Rightarrow> r = vars \<and> nothing_missing pe ps vars
       | Some (Inl e) \<Rightarrow> \<exists>p \<in> set ps. lacking pe vars p \<and> e = missing_error p)"
proof -
  let ?start = "parse_cli_args (pe_num pe) args"
  have few: "unresolved ps ?start + 1 < max_iterations"
    using unresolved_le [of ps ?start] assms(2) by (simp add: max_iterations_def)
  note rounds = resolve_rounds_cases [OF assms(3) few]
  let ?ok = "\<lambda>vars. case resolve_parameters pe None ps args of
         None \<Rightarrow> False
       | Some (Inr r) \<Rightarrow> r = vars \<and> nothing_missing pe ps vars
       | Some (Inl e) \<Rightarrow> \<exists>p \<in> set ps. lacking pe vars p \<and> e = missing_error p"
  consider (error) e where "resolve_rounds pe None ps max_iterations ?start = Some (Inl e)"
    | (done_rounds) vars l where "resolve_rounds pe None ps max_iterations ?start = Some (Inr (vars, l))"
    using rounds by (cases "resolve_rounds pe None ps max_iterations ?start"; auto split: sum.splits)
  then have "\<exists>vars. fully_resolved pe ps ?start vars \<and> ?ok vars"
  proof cases
    case error
    then obtain a p where a: "(default_step pe ps)\<^sup>*\<^sup>* ?start a" "p \<in> set ps" "lacking pe a p" "e = missing_error p"
      using rounds by auto
    obtain b where b: "fully_resolved pe ps a b" using closure_exists by blast
    then have "lacking pe b p" using lacking_stays [OF assms(1) a(2,3)] by (simp add: fully_resolved_def)
    moreover have "resolve_parameters pe None ps args = Some (Inl e)"
      using error by (simp add: resolve_parameters_def resolve_conditional_parameters_def)
    ultimately show ?thesis using fully_resolved_extend [OF a(1) b] a(2,4) by auto
  next
    case done_rounds
    then have full: "0 < l" "fully_resolved pe ps ?start vars" using rounds by auto
    have res: "resolve_parameters pe None ps args
        = (case require_all pe ps vars of None \<Rightarrow> None | Some (Inl e) \<Rightarrow> Some (Inl e) | Some (Inr _) \<Rightarrow> Some (Inr vars))"
      using done_rounds full(1) by (simp add: resolve_parameters_def resolve_conditional_parameters_def)
    have "?ok vars"
      using require_all_cases [OF assms(3) subset_refl, of vars]
    proof
      assume "\<exists>p \<in> set ps. require_all pe ps vars = Some (Inl (missing_error p))
          \<and> par_required p \<and> included pe vars p \<and> vars (par_name p) = None"
      then obtain p where p: "p \<in> set ps" "require_all pe ps vars = Some (Inl (missing_error p))"
        "par_required p" "included pe vars p" "vars (par_name p) = None" by blast
      have "lacking pe vars p" by (rule fully_resolved_lacking [OF full(2) p(1,3-5)])
      then show ?thesis using p(1,2) by (auto simp: res)
    qed (simp add: res)
    then show ?thesis using full(2) by blast
  qed
  then show ?thesis using fully_resolved_unique [OF assms(1)] by blast
qed

section \<open>The validator does not ask the conditions\<close>

text \<open>A required parameter whose condition does not hold is left out by the resolver; the validator then reports it as missing.\<close>

definition sample_params :: "parameter list" where
  "sample_params =
     [(new_parameter ''port'' [] TNumber)\<lparr>par_default := Some (JNumber ''5'')\<rparr>,
      (parameter_when (new_parameter ''cert'' [] TString) ''port < 5'')\<lparr>par_required := True\<rparr>]"

definition sample_pe :: param_env where
  "sample_pe = \<lparr>pe_num = sample_env, pe_regex = (\<lambda>r s. None), pe_var = (\<lambda>v. None), pe_f64 = (\<lambda>x. []), pe_f64_debug = (\<lambda>x. []), pe_str_debug = (\<lambda>s. s)\<rparr>"

lemma sample_condition:
  "evaluate_condition sample_env [''port'' \<mapsto> JNumber ''5''] ''port < 5'' = Some (Inr False)"
  "evaluate_condition sample_env (\<lambda>k. None) ''port < 5'' = Some (Inl (ParameterNotAvailable ''port''))"
  by code_simp+

lemma sample_resolved: "resolve_parameters sample_pe None sample_params (\<lambda>k. None) = Some (Inr [''port'' \<mapsto> JNumber ''5''])"
  by (simp add: resolve_parameters_def resolve_conditional_parameters_def parse_cli_args_def max_iterations_def
      eval_nat_numeral sample_params_def resolve_one_def should_include_def new_parameter_def parameter_when_def
      resolve_default_value_def is_parameter_required_def sample_pe_def sample_condition)

lemma resolved_but_invalid:
  "validate_parameters sample_pe sample_params [''port'' \<mapsto> JNumber ''5''] = Inl (MissingRequired ''cert'')"
  by (simp add: sample_params_def new_parameter_def parameter_when_def validate_parameter_def with_rules_def)

text \<open>A text that looks like a number or a truth value is refused for a parameter of type string.\<close>

lemma string_parameter_refuses_numeral:
  "ne_parse (pe_num pe) v = Some n \<Longrightarrow> par_type p = TString
     \<Longrightarrow> validate_parameter pe p (parse_cli_value (pe_num pe) v)
       = Inl (TypeMismatch (par_name p) ''string'' (get_value_type (parse_cli_value (pe_num pe) v)))"
  by (auto simp: validate_parameter_def parse_cli_value_def type_mismatch_def)

section \<open>Witness\<close>

theorem resolver_correct_witness: "\<exists>!vars. fully_resolved sample_pe sample_params (\<lambda>k. None) vars
    \<and> (case resolve_parameters sample_pe None sample_params (\<lambda>k. None) of
         None \<Rightarrow> False
       | Some (Inr r) \<Rightarrow> r = vars \<and> nothing_missing sample_pe sample_params vars
       | Some (Inl e) \<Rightarrow> \<exists>p \<in> set sample_params. lacking sample_pe vars p \<and> e = missing_error p)"
proof -
  have "distinct (map par_name sample_params)" "length sample_params \<le> 98"
    by (simp_all add: sample_params_def new_parameter_def parameter_when_def)
  moreover have "parse_condition sample_env ''port < 5'' \<noteq> None"
    using sample_condition(1) by (auto simp: evaluate_condition_def split: option.splits)
  then have "readable_conditions sample_pe sample_params"
    by (simp add: readable_conditions_def sample_params_def new_parameter_def parameter_when_def sample_pe_def)
  ultimately show ?thesis using resolver_correct [of sample_params sample_pe "\<lambda>k. None"] by (simp add: parse_cli_args_def)
qed

end
