(* ===== verification/Param_Messages.thy ===== *)
theory Param_Messages
  imports Parameters Edit_Distance
begin

text \<open>
  \<open>CommonPatterns\<close> and \<open>ErrorMessageEnhancer\<close> of \<open>parameters.rs\<close>: the hints for well-known patterns, the suggestion of
  the nearest choice, whose distance fills a whole matrix, and the rewriting of errors. \<open>None\<close> is the
  panic of a subtraction below zero.
\<close>

section \<open>Known patterns\<close>

abbreviation back_slash :: string where
  "back_slash \<equiv> [CHR 0x5C]"

definition pattern_email :: string where
  "pattern_email = ''^[^@'' @ back_slash @ ''s]+@[^@'' @ back_slash @ ''s]+'' @ back_slash @ ''.[^@'' @ back_slash @ ''s]+$''"

definition pattern_url :: string where
  "pattern_url = ''^https?://[^'' @ back_slash @ ''s]+$''"

definition pattern_ipv4 :: string where
  "pattern_ipv4 = ''^('' @ back_slash @ ''d{1,3}'' @ back_slash @ ''.){3}'' @ back_slash @ ''d{1,3}$''"

definition pattern_semver :: string where
  "pattern_semver = ''^'' @ back_slash @ ''d+'' @ back_slash @ ''.'' @ back_slash @ ''d+'' @ back_slash @ ''.'' @ back_slash @ ''d+$''"

definition pattern_uuid :: string where
  "pattern_uuid = ''^[0-9a-fA-F]{8}-[0-9a-fA-F]{4}-[0-9a-fA-F]{4}-[0-9a-fA-F]{4}-[0-9a-fA-F]{12}$''"

definition pattern_ulid :: string where
  "pattern_ulid = ''^[0-7][0-9A-HJKMNP-TV-Z]{25}$''"

definition hint_for_pattern :: "string \<Rightarrow> string" where
  "hint_for_pattern p =
     (if p = pattern_email then ''example@domain.com''
      else if p = pattern_url then ''https://example.com''
      else if p = pattern_ipv4 then ''192.168.1.1''
      else if p = pattern_semver then ''1.2.3''
      else if p = pattern_uuid then ''550e8400-e29b-41d4-a716-446655440000''
      else if p = pattern_ulid then ''01ARZ3NDEKTSV4RRFFQ69G5FAV''
      else p)"

definition description_for_pattern :: "string \<Rightarrow> string" where
  "description_for_pattern p =
     (if p = pattern_email then ''Valid email address''
      else if p = pattern_url then ''Valid HTTP or HTTPS URL''
      else if p = pattern_ipv4 then ''Valid IPv4 address''
      else if p = pattern_semver then ''Semantic version (major.minor.patch)''
      else if p = pattern_uuid then ''Valid UUID v4 identifier''
      else if p = pattern_ulid then ''Valid ULID identifier''
      else ''Custom pattern'')"

definition examples_for_pattern :: "string \<Rightarrow> string list" where
  "examples_for_pattern p =
     (if p = pattern_email then [''user@example.com'', ''alice.smith@company.org'', ''developer+tag@domain.co.uk'']
      else if p = pattern_url then [''https://example.com'', ''http://localhost:3000'', ''https://api.service.com/v1/endpoint'']
      else if p = pattern_ipv4 then [''192.168.1.1'', ''127.0.0.1'', ''10.0.0.1'']
      else if p = pattern_semver then [''1.0.0'', ''2.1.3'', ''0.5.12'']
      else if p = pattern_uuid then [''550e8400-e29b-41d4-a716-446655440000'', ''f47ac10b-58cc-4372-a567-0e02b2c3d479'']
      else if p = pattern_ulid then [''01ARZ3NDEKTSV4RRFFQ69G5FAV'', ''01B3Z3NDEKTSV4RRFFQ69G5FAV'']
      else [p])"

section \<open>The nearest choice\<close>

definition first_row :: "nat \<Rightarrow> nat \<Rightarrow> nat list" where
  "first_row m i = (let row = (replicate (m + 1) 0)[0 := i] in if i = 0 then map fst (enumerate 0 row) else row)"

definition matrix_cell :: "string \<Rightarrow> string \<Rightarrow> nat \<Rightarrow> nat \<Rightarrow> nat list list \<Rightarrow> nat list list" where
  "matrix_cell a b i j m =
     (let cost = (if a ! (i - 1) = b ! (j - 1) then 0 else 1)
      in m[i := (m ! i)[j := min (min (m ! (i - 1) ! j + 1) (m ! i ! (j - 1) + 1)) (m ! (i - 1) ! (j - 1) + cost)]])"

definition matrix_row :: "string \<Rightarrow> string \<Rightarrow> nat \<Rightarrow> nat list list \<Rightarrow> nat list list" where
  "matrix_row a b i m = fold (matrix_cell a b i) [1..<length b + 1] m"

definition levenshtein_distance :: "string \<Rightarrow> string \<Rightarrow> nat" where
  "levenshtein_distance a b =
     (if a = [] then length b
      else if b = [] then length a
      else fold (matrix_row a b) [1..<length a + 1] (map (first_row (length b)) [0..<length a + 1]) ! length a ! length b)"

definition usize_max :: nat where
  "usize_max = 2 ^ 64 - 1"

definition max_suggestion_distance :: "string \<Rightarrow> nat" where
  "max_suggestion_distance input = max (length input + 2) 6"

definition consider_choice :: "string \<Rightarrow> string \<Rightarrow> string option \<times> nat \<Rightarrow> string option \<times> nat" where
  "consider_choice input choice best =
     (case best of (best_match, best_distance) \<Rightarrow>
        let distance = levenshtein_distance (lowercase input) (lowercase choice)
        in if distance < best_distance \<and> distance \<le> max_suggestion_distance input
           then (Some choice, distance) else best)"

definition suggest_closest_match :: "string \<Rightarrow> string list \<Rightarrow> string option" where
  "suggest_closest_match input choices =
     (if choices = [] then None
      else case fold (consider_choice input) choices (None, usize_max) of
             (best_match, best_distance) \<Rightarrow>
               if best_distance \<le> max (length input) 3 * 2 then best_match else None)"

section \<open>Messages\<close>

definition explain_condition :: "string \<Rightarrow> string" where
  "explain_condition c =
     (if contains_str c ''==''
      then case splitn_2 c ''=='' of
             [l, r] \<Rightarrow> trim l @ '' is set to '' @ trim_matches ((=) (CHR 0x22)) (trim_matches ((=) (CHR 0x27)) (trim r))
           | _ \<Rightarrow> []
      else case find_str ''in ['' c of
             Some i \<Rightarrow> trim (take i c) @ '' is one of the specified values''
           | None \<Rightarrow> ''condition '' @ single_quoted c @ '' is met'')"

definition create_validation_context_error ::
  "string \<Rightarrow> string \<Rightarrow> string \<Rightarrow> string \<Rightarrow> string list \<Rightarrow> parameter_error" where
  "create_validation_context_error name value message explanation suggestions =
     ValidationFailedWithContext name
       \<lparr>vf_value = value, vf_message = message, vf_explanation = Some explanation, vf_examples = [], vf_suggestions = suggestions\<rparr>
       True"

definition minus_nat :: "nat \<Rightarrow> nat \<Rightarrow> nat option" where
  "minus_nat a b = (if b \<le> a then Some (a - b) else None)"

text \<open>\<open>create_string_length_error\<close> with \<open>"min"\<close> and with \<open>"max"\<close>.\<close>

definition string_too_short_error :: "string \<Rightarrow> nat \<Rightarrow> nat \<Rightarrow> parameter_error option" where
  "string_too_short_error name actual least =
     map_option (\<lambda>d. create_validation_context_error name (show_nat actual @ '' characters'')
         (''Must be at least '' @ show_nat least @ '' characters long'')
         (''Your input has '' @ show_nat actual @ '' characters, but '' @ show_nat least @ '' characters are required'')
         [''Add '' @ show_nat d @ '' more characters to meet the minimum requirement''])
       (minus_nat least actual)"

definition string_too_long_error :: "string \<Rightarrow> nat \<Rightarrow> nat \<Rightarrow> parameter_error option" where
  "string_too_long_error name actual most =
     map_option (\<lambda>d. create_validation_context_error name (show_nat actual @ '' characters'')
         (''Must be at most '' @ show_nat most @ '' characters long'')
         (''Your input has '' @ show_nat actual @ '' characters, but only '' @ show_nat most @ '' characters are allowed'')
         [''Remove '' @ show_nat d @ '' characters to meet the maximum limit''])
       (minus_nat actual most)"

definition out_of_range_error :: "param_env \<Rightarrow> string \<Rightarrow> rat \<Rightarrow> rat option \<Rightarrow> rat option \<Rightarrow> parameter_error" where
  "out_of_range_error pe name v lo hi =
     (let sv = pe_f64 pe v;
          (explanation, suggestions) =
            (case (lo, hi) of
               (Some l, Some h) \<Rightarrow>
                 (''Value '' @ sv @ '' must be between '' @ pe_f64 pe l @ '' and '' @ pe_f64 pe h,
                  [if v < l then ''Try a value >= '' @ pe_f64 pe l else ''Try a value <= '' @ pe_f64 pe h])
             | (Some l, None) \<Rightarrow> (''Value '' @ sv @ '' must be at least '' @ pe_f64 pe l, [''Try a value >= '' @ pe_f64 pe l])
             | (None, Some h) \<Rightarrow> (''Value '' @ sv @ '' must be at most '' @ pe_f64 pe h, [''Try a value <= '' @ pe_f64 pe h])
             | (None, None) \<Rightarrow> (''Value '' @ sv @ '' is outside the allowed range'', []))
      in create_validation_context_error name sv explanation explanation suggestions)"

text \<open>\<open>Display\<close> of the errors, as their \<open>#[error(\<dots>)]\<close> attributes say.\<close>

definition display_condition_error :: "condition_error \<Rightarrow> string" where
  "display_condition_error e =
     (case e of
        ParseError x d \<Rightarrow> ''Failed to parse condition expression '' @ single_quoted x @ '': '' @ d
      | ParameterNotAvailable p \<Rightarrow> ''Parameter '' @ single_quoted p @ '' referenced in condition is not available''
      | EvaluationError x d \<Rightarrow> ''Failed to evaluate condition '' @ single_quoted x @ '': '' @ d)"

definition debug_opt_f64 :: "param_env \<Rightarrow> rat option \<Rightarrow> string" where
  "debug_opt_f64 pe v = (case v of None \<Rightarrow> ''None'' | Some x \<Rightarrow> ''Some('' @ pe_f64_debug pe x @ '')'')"

fun display_error :: "param_env \<Rightarrow> parameter_error \<Rightarrow> string" where
  "display_error pe (ValidationFailed m) = ''Parameter validation failed: '' @ m"
| "display_error pe (MissingRequired n) = ''Required parameter '' @ single_quoted n @ '' is missing''"
| "display_error pe (TypeMismatch n e a) = ''Parameter '' @ single_quoted n @ '' expects '' @ e @ '', got '' @ a"
| "display_error pe (InvalidChoice n v cs) =
     ''Parameter '' @ single_quoted n @ '' value '' @ single_quoted v @ '' is not in allowed choices: ''
       @ ''['' @ join '', '' (map (pe_str_debug pe) cs) @ '']''"
| "display_error pe (OutOfRange n v lo hi) =
     ''Parameter '' @ single_quoted n @ '' value '' @ pe_f64 pe v @ '' is out of range [''
       @ debug_opt_f64 pe lo @ '', '' @ debug_opt_f64 pe hi @ '']''"
| "display_error pe (PatternMismatch n v p) =
     ''Parameter '' @ single_quoted n @ '' value '' @ single_quoted v @ '' does not match required pattern '' @ single_quoted p"
| "display_error pe (StringLengthOutOfRange n lo hi a) =
     ''Parameter '' @ single_quoted n @ '' must be between '' @ show_nat lo @ '' and '' @ show_nat hi
       @ '' characters (got: '' @ show_nat a @ '')''"
| "display_error pe (StringTooShort n lo a) =
     ''Parameter '' @ single_quoted n @ '' must be at least '' @ show_nat lo @ '' characters long (got: '' @ show_nat a @ '')''"
| "display_error pe (StringTooLong n hi a) =
     ''Parameter '' @ single_quoted n @ '' must be at most '' @ show_nat hi @ '' characters long (got: '' @ show_nat a @ '')''"
| "display_error pe (InvalidStep n v s) =
     ''Parameter '' @ single_quoted n @ '' value '' @ pe_f64 pe v @ '' must be a multiple of '' @ pe_f64 pe s"
| "display_error pe (InvalidSelectionCount n lo hi a) =
     ''Parameter '' @ single_quoted n @ '' requires between '' @ show_nat lo @ '' and '' @ show_nat hi
       @ '' selections (got: '' @ show_nat a @ '')''"
| "display_error pe (TooFewSelections n lo a) =
     ''Parameter '' @ single_quoted n @ '' requires at least '' @ show_nat lo @ '' selections (got: '' @ show_nat a @ '')''"
| "display_error pe (TooManySelections n hi a) =
     ''Parameter '' @ single_quoted n @ '' allows at most '' @ show_nat hi @ '' selections (got: '' @ show_nat a @ '')''"
| "display_error pe (ConditionalParameterMissing n c) =
     ''Parameter '' @ single_quoted n @ '' is required because condition '' @ single_quoted c @ '' is met''"
| "display_error pe (ConditionEvaluationFailed n e) =
     ''Failed to evaluate condition for parameter '' @ single_quoted n @ '': '' @ display_condition_error e"
| "display_error pe (ValidationFailedWithContext n d r) = ''Parameter '' @ single_quoted n @ '' validation failed''"
| "display_error pe (PatternMismatchEnhanced n d r) = ''Parameter '' @ single_quoted n @ '' format is invalid''"
| "display_error pe (InvalidChoiceEnhanced n d r) = ''Parameter '' @ single_quoted n @ '' has invalid value''"
| "display_error pe (MaxAttemptsExceeded n k) = ''Maximum retry attempts exceeded for parameter '' @ single_quoted n"

fun enhance_parameter_error :: "param_env \<Rightarrow> parameter_error \<Rightarrow> parameter_error option" where
  "enhance_parameter_error pe (PatternMismatch n v p) =
     Some (PatternMismatchEnhanced n \<lparr>pm_value = v, pm_pattern = p, pm_description = description_for_pattern p,
       pm_examples = examples_for_pattern p\<rparr> True)"
| "enhance_parameter_error pe (InvalidChoice n v cs) =
     Some (InvalidChoiceEnhanced n \<lparr>ic_value = v, ic_choices = cs, ic_did_you_mean = suggest_closest_match v cs\<rparr> True)"
| "enhance_parameter_error pe (StringTooShort n lo a) = string_too_short_error n a lo"
| "enhance_parameter_error pe (StringTooLong n hi a) = string_too_long_error n a hi"
| "enhance_parameter_error pe (OutOfRange n v lo hi) = Some (out_of_range_error pe n v lo hi)"
| "enhance_parameter_error pe (ConditionalParameterMissing n c) =
     Some (create_validation_context_error n ''missing'' ''Parameter required for your current configuration'' (explain_condition c)
       [''Provide --'' @ map (\<lambda>x. if x = CHR ''_'' then CHR ''-'' else x) n, ''Use --interactive mode for guided input''])"
| "enhance_parameter_error pe (ValidationFailed m) = Some (ValidationFailed m)"
| "enhance_parameter_error pe (MissingRequired n) = Some (MissingRequired n)"
| "enhance_parameter_error pe (TypeMismatch n e a) = Some (TypeMismatch n e a)"
| "enhance_parameter_error pe e = Some (ValidationFailed (''Parameter validation failed: '' @ display_error pe e))"

section \<open>The matrix holds the edit distances\<close>

lemma first_row_0: "first_row m 0 = [0..<m + 1]"
  by (auto simp: first_row_def Let_def simp del: upt_Suc replicate_Suc intro!: nth_equalityI)

lemma first_row_pos: "0 < i \<Longrightarrow> length (first_row m i) = m + 1 \<and> first_row m i ! 0 = i"
  by (simp add: first_row_def)

text \<open>A row of the matrix is filled as the rows of the two-row routine are.\<close>

lemma matrix_row_cells:
  assumes "0 < i" "i < length m" "k \<le> length b"
  shows "fold (matrix_cell a b i) [1..<k + 1] m
    = m[i := fold (fill_cell (m ! (i - 1)) (a ! (i - 1))) (take k (enumerate 0 b)) (m ! i)]"
  using assms(3)
proof (induction k)
  case (Suc k)
  have "[1..<Suc k + 1] = [1..<k + 1] @ [k + 1]" by simp
  then show ?case
    using Suc assms(1,2)
    by (simp add: take_Suc_conv_app_nth nth_enumerate_eq matrix_cell_def fill_cell_def Let_def del: upt_Suc) 
qed simp

lemma matrix_row_of:
  assumes "0 < i" "i \<le> length a" "length m = length a + 1" "m ! (i - 1) = row_of (take (i - 1) a) b"
    "length (m ! i) = length b + 1" "m ! i ! 0 = i"
  shows "matrix_row a b i m = m[i := row_of (take i a) b]"
proof -
  have "length (take (i - 1) a) + 1 = i" using assms by simp
  moreover have "take (i - 1) a @ [a ! (i - 1)] = take i a" using assms by (metis One_nat_def Suc_pred Suc_le_lessD take_Suc_conv_app_nth Suc_le_eq)
  ultimately have "fold (fill_cell (row_of (take (i - 1) a) b) (a ! (i - 1))) (take (length b) (enumerate 0 b)) (m ! i) = row_of (take i a) b"
    using fill_cells [OF order_refl assms(5), of "take (i - 1) a" "a ! (i - 1)"] assms(6)
    by (intro nth_equalityI) auto
  then show ?thesis
    using matrix_row_cells [of i m "length b" b a] assms by (simp add: matrix_row_def)
qed

lemma matrix_rows:
  assumes "k \<le> length a"
  shows "fold (matrix_row a b) [1..<k + 1] (map (first_row (length b)) [0..<length a + 1])
    = map (\<lambda>i. if i \<le> k then row_of (take i a) b else first_row (length b) i) [0..<length a + 1]"
  using assms
proof (induction k)
  case 0
  have "row_of [] b = [0..<length b + 1]" by (auto simp: row_of_def simp del: upt_Suc intro!: nth_equalityI)
  then show ?case by (auto simp: first_row_0 simp del: upt_Suc intro!: nth_equalityI)
next
  case (Suc k)
  let ?m = "map (\<lambda>i. if i \<le> k then row_of (take i a) b else first_row (length b) i) [0..<length a + 1]"
  have "matrix_row a b (k + 1) ?m = ?m[k + 1 := row_of (take (k + 1) a) b]"
    using Suc.prems first_row_pos [of "k + 1" "length b"] by (intro matrix_row_of) (simp_all add: nth_append del: upt_Suc)
  moreover have "?m[k + 1 := row_of (take (k + 1) a) b]
      = map (\<lambda>i. if i \<le> k + 1 then row_of (take i a) b else first_row (length b) i) [0..<length a + 1]"
    using Suc.prems by (intro nth_equalityI) (auto simp: nth_list_update simp del: upt_Suc)
  moreover have "[1..<Suc k + 1] = [1..<k + 1] @ [k + 1]" by simp
  ultimately show ?case using Suc by (simp del: upt_Suc)
qed

lemma levenshtein_distance_least: "levenshtein_distance a b = least_edits a b"
proof (cases "a = [] \<or> b = []")
  case False
  then show ?thesis
    using matrix_rows [of "length a" a b] by (simp add: levenshtein_distance_def row_nth least_edits_rev del: upt_Suc)
qed (auto simp: levenshtein_distance_def)

section \<open>Suggestions\<close>

definition choice_distance :: "string \<Rightarrow> string \<Rightarrow> nat" where
  "choice_distance input c = least_edits (lowercase input) (lowercase c)"

lemma consider_choices:
  assumes "max_suggestion_distance input < usize_max"
  shows "case fold (consider_choice input) cs (None, usize_max) of (best_match, best_distance) \<Rightarrow>
      (case best_match of
         None \<Rightarrow> best_distance = usize_max \<and> (\<forall>d \<in> set cs. max_suggestion_distance input < choice_distance input d)
       | Some c \<Rightarrow> best_distance = choice_distance input c \<and> best_distance \<le> max_suggestion_distance input
           \<and> (\<exists>us vs. cs = us @ c # vs \<and> (\<forall>d \<in> set us. best_distance < choice_distance input d)
                \<and> (\<forall>d \<in> set vs. best_distance \<le> choice_distance input d)))"
proof (induction cs rule: rev_induct)
  case (snoc x cs)
  let ?d = "choice_distance input x"
  obtain bm bd where b: "fold (consider_choice input) cs (None, usize_max) = (bm, bd)" by fastforce
  have turn: "fold (consider_choice input) (cs @ [x]) (None, usize_max)
      = (if ?d < bd \<and> ?d \<le> max_suggestion_distance input then (Some x, ?d) else (bm, bd))"
    by (simp add: b consider_choice_def levenshtein_distance_least choice_distance_def Let_def)
  show ?case
  proof (cases bm)
    case None
    then have far: "bd = usize_max" "\<And>d. d \<in> set cs \<Longrightarrow> max_suggestion_distance input < choice_distance input d"
      using snoc b by auto
    then have "?d \<le> max_suggestion_distance input \<Longrightarrow> \<exists>us vs. cs @ [x] = us @ x # vs
        \<and> (\<forall>d \<in> set us. ?d < choice_distance input d) \<and> (\<forall>d \<in> set vs. ?d \<le> choice_distance input d)"
      by (intro exI [of _ cs] exI [of _ "[]"]) fastforce
    then show ?thesis using None far assms unfolding turn by auto
  next
    case (Some c)
    then obtain us vs where c: "cs = us @ c # vs" "bd = choice_distance input c" "bd \<le> max_suggestion_distance input"
      "\<And>d. d \<in> set us \<Longrightarrow> bd < choice_distance input d" "\<And>d. d \<in> set vs \<Longrightarrow> bd \<le> choice_distance input d"
      using snoc b by auto
    show ?thesis
    proof (cases "?d < bd")
      case True
      have "?d < choice_distance input d" if "d \<in> set cs" for d
        using that True c(2) c(4) [of d] c(5) [of d] unfolding c(1) by fastforce
      then have "\<exists>us vs. cs @ [x] = us @ x # vs
          \<and> (\<forall>d \<in> set us. ?d < choice_distance input d) \<and> (\<forall>d \<in> set vs. ?d \<le> choice_distance input d)"
        by (intro exI [of _ cs] exI [of _ "[]"]) simp
      then show ?thesis using True c(3) unfolding turn by simp
    next
      case False
      have "\<exists>us vs'. cs @ [x] = us @ c # vs' \<and> (\<forall>d \<in> set us. bd < choice_distance input d) \<and> (\<forall>d \<in> set vs'. bd \<le> choice_distance input d)"
        using False c by (intro exI [of _ us] exI [of _ "vs @ [x]"]) auto
      then show ?thesis using False Some c(2,3) unfolding turn by simp
    qed
  qed
qed simp

text \<open>The suggestion is the first of the nearest choices, letter case aside, if it is near enough; the second
  bound of the code never refuses what the first one lets through.\<close>

lemma suggestion_correct:
  assumes "max_suggestion_distance input < usize_max"
  shows "case suggest_closest_match input cs of
      None \<Rightarrow> \<forall>d \<in> set cs. max_suggestion_distance input < choice_distance input d
    | Some c \<Rightarrow> choice_distance input c \<le> max_suggestion_distance input
        \<and> (\<exists>us vs. cs = us @ c # vs \<and> (\<forall>d \<in> set us. choice_distance input c < choice_distance input d)
             \<and> (\<forall>d \<in> set vs. choice_distance input c \<le> choice_distance input d))"
proof (cases "cs = []")
  case False
  obtain bm bd where b: "fold (consider_choice input) cs (None, usize_max) = (bm, bd)" by fastforce
  have near: "n \<le> max (length input) 3 * 2" if "n \<le> max_suggestion_distance input" for n
    using that by (auto simp: max_suggestion_distance_def)
  show ?thesis
    using consider_choices [OF assms, of cs] near [of bd] False
    by (cases bm) (auto simp: b suggest_closest_match_def)
qed (simp add: suggest_closest_match_def)

section \<open>Errors of the validator\<close>

lemma check_items_error: "check_items p xs = Inl e \<Longrightarrow> enhance_parameter_error pe e \<noteq> None"
  by (induction xs) (auto simp: check_choice_def split: option.splits if_splits)

text \<open>The lengths in an error of the validator are on the right sides of its bounds, so the enhancer never panics on it.\<close>

lemma validator_errors_enhanced: "validate_parameter pe p v = Inl e \<Longrightarrow> enhance_parameter_error pe e \<noteq> None"
  by (auto simp: validate_parameter_def with_rules_def type_mismatch_def validate_string_with_rules_def
      validate_number_with_rules_def validate_multi_choice_with_rules_def check_choice_def string_too_short_error_def
      string_too_long_error_def minus_nat_def Let_def dest: check_items_error
      split: parameter_type.splits json.splits option.splits sum.splits if_splits)

end
