(* ===== verification/Sem_Identity.thy ===== *)
theory Sem_Identity
  imports Complex_Main Prelude "HOL-Library.Multiset"
begin

text \<open>
  \<open>swissarmyhammer-sem/src/model\<close> (\<open>entity.rs\<close>, \<open>change.rs\<close>, \<open>identity.rs\<close>) and \<open>parser/differ.rs\<close>: the semantic
  difference of two sets of code entities, which are matched by id, then by the hashes of their
  content, then by similarity. The order in which a hash map is walked is an argument, scores are exact
  rationals, texts are ASCII, and what the parser plugins extract and compare is an argument.
\<close>

section \<open>Entities and changes\<close>

record sem_entity =
  se_id :: string
  se_file_path :: string
  se_type :: string
  se_name :: string
  se_parent_id :: "string option"
  se_content :: string
  se_content_hash :: string
  se_structural_hash :: "string option"
  se_start_line :: nat
  se_end_line :: nat
  se_metadata :: "(string \<rightharpoonup> string) option"

definition build_entity_id :: "string \<Rightarrow> string \<Rightarrow> string \<Rightarrow> string option \<Rightarrow> string" where
  "build_entity_id path t name parent =
     path @ ''::'' @ (case parent of Some pid \<Rightarrow> pid | None \<Rightarrow> t) @ ''::'' @ name"

datatype change_type = Added | Modified | Deleted | Moved | Renamed

definition show_change_type :: "change_type \<Rightarrow> string" where
  "show_change_type t =
     (case t of Added \<Rightarrow> ''added'' | Modified \<Rightarrow> ''modified'' | Deleted \<Rightarrow> ''deleted'' | Moved \<Rightarrow> ''moved'' | Renamed \<Rightarrow> ''renamed'')"

record sem_change =
  sc_id :: string
  sc_entity_id :: string
  sc_type :: change_type
  sc_entity_type :: string
  sc_entity_name :: string
  sc_file_path :: string
  sc_old_file_path :: "string option"
  sc_before_content :: "string option"
  sc_after_content :: "string option"
  sc_commit_sha :: "string option"
  sc_author :: "string option"
  sc_timestamp :: "string option"
  sc_structural_change :: "bool option"

text \<open>The commit and the author that all changes carry.\<close>

type_synonym stamp = "string option \<times> string option"

definition change_of :: "stamp \<Rightarrow> string \<Rightarrow> change_type \<Rightarrow> sem_entity \<Rightarrow> sem_change" where
  "change_of st cid t e =
     \<lparr>sc_id = cid, sc_entity_id = se_id e, sc_type = t, sc_entity_type = se_type e, sc_entity_name = se_name e,
      sc_file_path = se_file_path e, sc_old_file_path = None, sc_before_content = None, sc_after_content = None,
      sc_commit_sha = fst st, sc_author = snd st, sc_timestamp = None, sc_structural_change = None\<rparr>"

definition modified_change :: "stamp \<Rightarrow> sem_entity \<Rightarrow> sem_entity \<Rightarrow> sem_change" where
  "modified_change st b a =
     (change_of st (''change::'' @ se_id a) Modified a)
       \<lparr>sc_before_content := Some (se_content b), sc_after_content := Some (se_content a),
        sc_structural_change :=
          (case (se_structural_hash b, se_structural_hash a) of (Some x, Some y) \<Rightarrow> Some (x \<noteq> y) | _ \<Rightarrow> None)\<rparr>"

definition renamed_change :: "stamp \<Rightarrow> sem_entity \<times> sem_entity \<Rightarrow> sem_change" where
  "renamed_change st ba =
     (case ba of (b, a) \<Rightarrow>
        (change_of st (''change::'' @ se_id a) (if se_file_path b \<noteq> se_file_path a then Moved else Renamed) a)
          \<lparr>sc_old_file_path := (if se_file_path b \<noteq> se_file_path a then Some (se_file_path b) else None),
           sc_before_content := Some (se_content b), sc_after_content := Some (se_content a)\<rparr>)"

definition deleted_change :: "stamp \<Rightarrow> sem_entity \<Rightarrow> sem_change" where
  "deleted_change st b = (change_of st (''change::deleted::'' @ se_id b) Deleted b)\<lparr>sc_before_content := Some (se_content b)\<rparr>"

definition added_change :: "stamp \<Rightarrow> sem_entity \<Rightarrow> sem_change" where
  "added_change st a = (change_of st (''change::added::'' @ se_id a) Added a)\<lparr>sc_after_content := Some (se_content a)\<rparr>"

section \<open>Matching\<close>

record match_state =
  ms_before :: "string set"
  ms_after :: "string set"
  ms_by_hash :: "string \<Rightarrow> sem_entity list"
  ms_by_structural :: "string \<Rightarrow> sem_entity list"
  ms_changes :: "sem_change list"

text \<open>A hash map from ids: of entities with the same id the last stays.\<close>

definition by_id :: "sem_entity list \<Rightarrow> string \<Rightarrow> sem_entity option" where
  "by_id es i = find (\<lambda>e. se_id e = i) (rev es)"

definition mark_pair :: "sem_entity \<Rightarrow> sem_entity \<Rightarrow> match_state \<Rightarrow> match_state" where
  "mark_pair b a s = s\<lparr>ms_before := insert (se_id b) (ms_before s), ms_after := insert (se_id a) (ms_after s)\<rparr>"

definition push_change :: "sem_change \<Rightarrow> match_state \<Rightarrow> match_state" where
  "push_change c s = s\<lparr>ms_changes := ms_changes s @ [c]\<rparr>"

text \<open>Phase 1, one id of \<open>after\<close>.\<close>

definition match_id :: "stamp \<Rightarrow> sem_entity list \<Rightarrow> sem_entity list \<Rightarrow> string \<Rightarrow> match_state \<Rightarrow> match_state" where
  "match_id st before after i s =
     (case (by_id before i, by_id after i) of
        (Some b, Some a) \<Rightarrow>
          (let s' = mark_pair b a s
           in if se_content_hash b \<noteq> se_content_hash a then push_change (modified_change st b a) s' else s')
      | _ \<Rightarrow> s)"

text \<open>Phase 2, one entity of \<open>after\<close>: \<open>pop\<close> from the bucket of its content, else the first entity of the bucket of
  its structure that is not matched yet.\<close>

definition pop_by_hash :: "sem_entity \<Rightarrow> match_state \<Rightarrow> (sem_entity \<times> match_state) option" where
  "pop_by_hash a s =
     (let h = se_content_hash a; bucket = ms_by_hash s h
      in if bucket = [] then None else Some (last bucket, s\<lparr>ms_by_hash := (ms_by_hash s)(h := butlast bucket)\<rparr>))"

definition take_by_structural :: "sem_entity \<Rightarrow> match_state \<Rightarrow> (sem_entity \<times> match_state) option" where
  "take_by_structural a s =
     (case se_structural_hash a of
        None \<Rightarrow> None
      | Some h \<Rightarrow>
          (let bucket = ms_by_structural s h
           in case find (\<lambda>e. se_id e \<notin> ms_before s) bucket of
                None \<Rightarrow> None
              | Some b \<Rightarrow> Some (b, s\<lparr>ms_by_structural := (ms_by_structural s)(h := remove1 b bucket)\<rparr>)))"

definition match_hash :: "stamp \<Rightarrow> sem_entity \<Rightarrow> match_state \<Rightarrow> match_state" where
  "match_hash st a s =
     (if se_id a \<in> ms_after s then s
      else case (case pop_by_hash a s of Some r \<Rightarrow> Some r | None \<Rightarrow> take_by_structural a s) of
             None \<Rightarrow> s
           | Some (b, s') \<Rightarrow> push_change (renamed_change st (b, a)) (mark_pair b a s'))"

text \<open>Phase 3.\<close>

definition split_whitespace :: "string \<Rightarrow> string list" where
  "split_whitespace s =
     (let step = (\<lambda>c ws. if is_ws c then [] # ws else (c # hd ws) # tl ws)
      in filter (\<lambda>w. w \<noteq> []) (foldr step s [[]]))"

definition similar_threshold :: rat where
  "similar_threshold = 4 / 5"

definition size_ratio_cutoff :: rat where
  "size_ratio_cutoff = 1 / 2"

definition size_ratio_below :: "rat \<Rightarrow> nat \<Rightarrow> nat \<Rightarrow> bool" where
  "size_ratio_below cutoff m n \<longleftrightarrow> 0 < max m n \<and> of_nat (min m n) / of_nat (max m n) < cutoff"

definition token_count :: "sem_entity \<Rightarrow> nat" where
  "token_count e = length (split_whitespace (se_content e))"

type_synonym similarity_fn = "sem_entity \<Rightarrow> sem_entity \<Rightarrow> rat"

definition consider_similar ::
  "similarity_fn \<Rightarrow> string set \<Rightarrow> sem_entity \<Rightarrow> sem_entity \<Rightarrow> sem_entity option \<times> rat \<Rightarrow> sem_entity option \<times> rat" where
  "consider_similar f matched a b best =
     (if se_id b \<in> matched \<or> se_type b \<noteq> se_type a \<or> size_ratio_below size_ratio_cutoff (token_count a) (token_count b)
      then best
      else let score = f b a
           in if snd best < score \<and> similar_threshold \<le> score then (Some b, score) else best)"

definition match_similar :: "stamp \<Rightarrow> similarity_fn \<Rightarrow> sem_entity list \<Rightarrow> sem_entity \<Rightarrow> match_state \<Rightarrow> match_state" where
  "match_similar st f bs a s =
     (case fst (fold (consider_similar f (ms_before s) a) bs (None, 0)) of
        None \<Rightarrow> s
      | Some b \<Rightarrow> push_change (renamed_change st (b, a)) (mark_pair b a s))"

definition phase_ids :: "(string list \<Rightarrow> string list) \<Rightarrow> stamp \<Rightarrow> sem_entity list \<Rightarrow> sem_entity list \<Rightarrow> match_state" where
  "phase_ids order st before after =
     fold (match_id st before after) (order (remdups (map se_id after)))
       \<lparr>ms_before = {}, ms_after = {}, ms_by_hash = (\<lambda>h. []), ms_by_structural = (\<lambda>h. []), ms_changes = []\<rparr>"

definition unmatched_before :: "sem_entity list \<Rightarrow> match_state \<Rightarrow> sem_entity list" where
  "unmatched_before es s = filter (\<lambda>e. se_id e \<notin> ms_before s) es"

definition unmatched_after :: "sem_entity list \<Rightarrow> match_state \<Rightarrow> sem_entity list" where
  "unmatched_after es s = filter (\<lambda>e. se_id e \<notin> ms_after s) es"

definition phase_hashes :: "stamp \<Rightarrow> sem_entity list \<Rightarrow> sem_entity list \<Rightarrow> match_state \<Rightarrow> match_state" where
  "phase_hashes st ub ua s =
     fold (match_hash st) ua
       (s\<lparr>ms_by_hash := (\<lambda>h. filter (\<lambda>e. se_content_hash e = h) ub),
          ms_by_structural := (\<lambda>h. filter (\<lambda>e. se_structural_hash e = Some h) ub)\<rparr>)"

definition phase_similar :: "stamp \<Rightarrow> similarity_fn option \<Rightarrow> sem_entity list \<Rightarrow> sem_entity list \<Rightarrow> match_state \<Rightarrow> match_state" where
  "phase_similar st sim ub ua s =
     (case sim of
        None \<Rightarrow> s
      | Some f \<Rightarrow>
          (let sb = unmatched_before ub s; sa = unmatched_after ua s
           in if sb \<noteq> [] \<and> sa \<noteq> [] then fold (match_similar st f sb) sa s else s))"

definition match_entities ::
  "(string list \<Rightarrow> string list) \<Rightarrow> sem_entity list \<Rightarrow> sem_entity list \<Rightarrow> similarity_fn option \<Rightarrow> stamp \<Rightarrow> sem_change list" where
  "match_entities order before after sim st =
     (let s1 = phase_ids order st before after;
          ub = unmatched_before before s1;
          ua = unmatched_after after s1;
          s2 = phase_hashes st ub ua s1;
          s3 = phase_similar st sim ub ua s2
      in ms_changes s3 @ map (deleted_change st) (unmatched_before before s3) @ map (added_change st) (unmatched_after after s3))"

text \<open>The default similarity: the Jaccard index of the tokens.\<close>

definition default_similarity :: similarity_fn where
  "default_similarity a b =
     (let ta = split_whitespace (se_content a); tb = split_whitespace (se_content b)
      in if size_ratio_below (3 / 5) (length ta) (length tb) then 0
         else if set ta \<union> set tb = {} then 0
         else of_nat (card (set ta \<inter> set tb)) / of_nat (card (set ta \<union> set tb)))"

section \<open>What a difference says\<close>

definition hash_order :: "(string list \<Rightarrow> string list) \<Rightarrow> bool" where
  "hash_order order \<longleftrightarrow> (\<forall>xs. mset (order xs) = mset xs)"

text \<open>Two entities that the matching takes for one.\<close>

definition alike :: "similarity_fn option \<Rightarrow> sem_entity \<Rightarrow> sem_entity \<Rightarrow> bool" where
  "alike sim b a \<longleftrightarrow>
     se_content_hash b = se_content_hash a
     \<or> (se_structural_hash b \<noteq> None \<and> se_structural_hash b = se_structural_hash a)
     \<or> (case sim of
          None \<Rightarrow> False
        | Some f \<Rightarrow> se_type b = se_type a \<and> \<not> size_ratio_below size_ratio_cutoff (token_count a) (token_count b)
            \<and> similar_threshold \<le> f b a)"

definition gone :: "sem_entity list \<Rightarrow> sem_entity list \<Rightarrow> sem_entity list" where
  "gone before after = filter (\<lambda>b. se_id b \<notin> se_id ` set after) before"

definition fresh :: "sem_entity list \<Rightarrow> sem_entity list \<Rightarrow> sem_entity list" where
  "fresh before after = filter (\<lambda>a. se_id a \<notin> se_id ` set before) after"

definition edited :: "sem_entity list \<Rightarrow> sem_entity list \<Rightarrow> (sem_entity \<times> sem_entity) list" where
  "edited before after =
     [(b, a). a \<leftarrow> after, b \<leftarrow> before, se_id b = se_id a \<and> se_content_hash b \<noteq> se_content_hash a]"

text \<open>A reading of the entities without id in common: pairs of an old and a new entity, each new one in at
  most one pair, and what is neither source nor target.\<close>

definition renames :: "similarity_fn option \<Rightarrow> sem_entity list \<Rightarrow> sem_entity list \<Rightarrow> (sem_entity \<times> sem_entity) list \<Rightarrow> bool" where
  "renames sim olds news ps \<longleftrightarrow>
     set ps \<subseteq> set olds \<times> set news \<and> distinct (map snd ps)
     \<and> (\<forall>(b, a) \<in> set ps. alike sim b a)
     \<and> (\<forall>b \<in> set olds - fst ` set ps. \<forall>a \<in> set news - snd ` set ps. \<not> alike sim b a)"

section \<open>The first phase\<close>

lemma by_id_distinct: "distinct (map se_id es) \<Longrightarrow> by_id es i = Some e \<longleftrightarrow> e \<in> set es \<and> se_id e = i"
proof
  assume d: "distinct (map se_id es)" and e: "e \<in> set es \<and> se_id e = i"
  then obtain e' where "by_id es i = Some e'" unfolding by_id_def
    by (cases "find (\<lambda>e. se_id e = i) (rev es)") (auto simp: find_None_conv)
  moreover from this have "e' \<in> set es" "se_id e' = i" by (auto simp: by_id_def dest: find_SomeD)
  ultimately show "by_id es i = Some e" using d e by (auto simp: distinct_map dest: inj_onD)
qed (auto simp: by_id_def dest: find_SomeD)

lemma by_id_None: "by_id es i = None \<longleftrightarrow> i \<notin> se_id ` set es"
  by (auto simp: by_id_def find_None_conv)

definition modified_of :: "stamp \<Rightarrow> sem_entity list \<Rightarrow> sem_entity list \<Rightarrow> string \<Rightarrow> sem_change list" where
  "modified_of st before after i =
     (case (by_id before i, by_id after i) of
        (Some b, Some a) \<Rightarrow> if se_content_hash b \<noteq> se_content_hash a then [modified_change st b a] else []
      | _ \<Rightarrow> [])"

lemma match_ids:
  "fold (match_id st before after) is s
    = s\<lparr>ms_before := ms_before s \<union> {i \<in> set is. i \<in> se_id ` set before \<and> i \<in> se_id ` set after},
        ms_after := ms_after s \<union> {i \<in> set is. i \<in> se_id ` set before \<and> i \<in> se_id ` set after},
        ms_changes := ms_changes s @ concat (map (modified_of st before after) is)\<rparr>"
proof (induction "is" arbitrary: s)
  case (Cons i "is")
  have ids: "se_id b = i" "se_id a = i" if "by_id before i = Some b" "by_id after i = Some a" for a b
    using that by (auto simp: by_id_def dest: find_SomeD)
  show ?case
  proof (cases "by_id before i = None \<or> by_id after i = None")
    case True
    then have "i \<notin> se_id ` set before \<or> i \<notin> se_id ` set after" by (auto simp: by_id_None)
    moreover have "match_id st before after i s = s" "modified_of st before after i = []"
      using True by (auto simp: match_id_def modified_of_def split: option.splits)
    ultimately show ?thesis using Cons.IH [of s] by (simp add: conj_disj_distribL [symmetric]) (cases s; fastforce)
  next
    case False
    then obtain b a where ba: "by_id before i = Some b" "by_id after i = Some a" by auto
    then have "i \<in> se_id ` set before" "i \<in> se_id ` set after" by (metis by_id_None option.distinct(1))+
    then show ?thesis
      using Cons.IH ids [OF ba] ba
      by (cases s) (auto simp: match_id_def modified_of_def mark_pair_def push_change_def Let_def)
  qed
qed simp

lemma filter_same_id:
  assumes "distinct (map se_id es)"
  shows "filter (\<lambda>e. se_id e = i) es = (case by_id es i of None \<Rightarrow> [] | Some e \<Rightarrow> [e])"
proof (cases "by_id es i")
  case None
  then have "filter (\<lambda>e. se_id e = i) es = []" by (auto simp: by_id_None filter_empty_conv)
  then show ?thesis using None by simp
next
  case (Some e)
  then have e: "e \<in> set es" "se_id e = i" using assms by (simp_all add: by_id_distinct)
  then obtain us vs where es: "es = us @ e # vs" by (meson split_list)
  then have "i \<notin> se_id ` set us" "i \<notin> se_id ` set vs" using assms e(2) by auto
  then have "filter (\<lambda>e. se_id e = i) us = []" "filter (\<lambda>e. se_id e = i) vs = []"
    unfolding filter_empty_conv by (metis imageI)+
  then show ?thesis using Some e(2) es by simp
qed

lemma edited_changes:
  assumes "distinct (map se_id before)" "distinct (map se_id after)"
  shows "map (\<lambda>(b, a). modified_change st b a) (edited before after) = concat (map (modified_of st before after) (map se_id after))"
proof -
  have one: "map (\<lambda>b. modified_change st b a) (filter (\<lambda>b. se_id b = se_id a \<and> se_content_hash b \<noteq> se_content_hash a) before)
      = modified_of st before after (se_id a)" if "a \<in> set after" for a
  proof -
    have "filter (\<lambda>b. se_id b = se_id a \<and> se_content_hash b \<noteq> se_content_hash a) before
        = filter (\<lambda>b. se_content_hash b \<noteq> se_content_hash a) (filter (\<lambda>b. se_id b = se_id a) before)" by simp
    moreover have "by_id after (se_id a) = Some a" using that assms(2) by (simp add: by_id_distinct)
    ultimately show ?thesis
      by (simp only: filter_same_id [OF assms(1)] modified_of_def) (simp split: option.split)
  qed
  have "map (\<lambda>(b, a). modified_change st b a) (edited before after)
      = concat (map (\<lambda>a. map (\<lambda>b. modified_change st b a)
          (filter (\<lambda>b. se_id b = se_id a \<and> se_content_hash b \<noteq> se_content_hash a) before)) after)"
  proof -
    have inner: "map (\<lambda>(b, a). modified_change st b a)
        (concat (map (\<lambda>b. if se_id b = se_id a \<and> se_content_hash b \<noteq> se_content_hash a then [(b, a)] else []) bs))
      = map (\<lambda>b. modified_change st b a) (filter (\<lambda>b. se_id b = se_id a \<and> se_content_hash b \<noteq> se_content_hash a) bs)" for a bs
      by (induction bs) auto
    show ?thesis unfolding edited_def by (induction after) (simp_all only: list.map concat.simps map_append inner)
  qed
  also have "\<dots> = concat (map (modified_of st before after) (map se_id after))" using one by (simp cong: map_cong)
  finally show ?thesis .
qed

lemma phase_ids_result:
  assumes "hash_order order" "distinct (map se_id before)" "distinct (map se_id after)"
  shows "ms_before (phase_ids order st before after) = se_id ` set before \<inter> se_id ` set after"
    and "ms_after (phase_ids order st before after) = se_id ` set before \<inter> se_id ` set after"
    and "mset (ms_changes (phase_ids order st before after)) = mset (map (\<lambda>(b, a). modified_change st b a) (edited before after))"
proof -
  have ids: "mset (order (remdups (map se_id after))) = mset (map se_id after)"
    using assms(1,3) by (simp add: hash_order_def distinct_remdups_id)
  then have set_ids: "set (order (remdups (map se_id after))) = se_id ` set after"
    by (metis image_set set_mset_mset)
  show "ms_before (phase_ids order st before after) = se_id ` set before \<inter> se_id ` set after"
    "ms_after (phase_ids order st before after) = se_id ` set before \<inter> se_id ` set after"
    by (auto simp: phase_ids_def match_ids set_ids)
  have sums: "mset (concat (map g xs)) = \<Sum>\<^sub># (image_mset (mset \<circ> g) (mset xs))" for g :: "string \<Rightarrow> sem_change list" and xs
    by (simp add: mset_concat sum_mset_sum_list [symmetric])
  have "mset (concat (map (modified_of st before after) (order (remdups (map se_id after)))))
      = mset (concat (map (modified_of st before after) (map se_id after)))" by (simp only: sums ids)
  then show "mset (ms_changes (phase_ids order st before after)) = mset (map (\<lambda>(b, a). modified_change st b a) (edited before after))"
    unfolding edited_changes [OF assms(2,3)] by (simp add: phase_ids_def match_ids del: map_map)
qed

section \<open>Pairing the rest\<close>

text \<open>What a state of the second and third phase has paired.\<close>

definition paired ::
  "similarity_fn option \<Rightarrow> stamp \<Rightarrow> sem_entity list \<Rightarrow> sem_entity set \<Rightarrow> match_state \<Rightarrow> (sem_entity \<times> sem_entity) list \<Rightarrow> match_state \<Rightarrow> bool" where
  "paired sim st olds news s0 ps s \<longleftrightarrow>
     ms_changes s = ms_changes s0 @ map (renamed_change st) ps
     \<and> ms_before s = ms_before s0 \<union> se_id ` fst ` set ps
     \<and> ms_after s = ms_after s0 \<union> se_id ` snd ` set ps
     \<and> set ps \<subseteq> set olds \<times> news \<and> distinct (map snd ps) \<and> (\<forall>(b, a) \<in> set ps. alike sim b a)"

lemma paired_add:
  assumes "paired sim st olds news s0 ps s" "b \<in> set olds" "a \<notin> news" "alike sim b a"
    "ms_changes s' = ms_changes s" "ms_before s' = ms_before s" "ms_after s' = ms_after s"
  shows "paired sim st olds (insert a news) s0 (ps @ [(b, a)]) (push_change (renamed_change st (b, a)) (mark_pair b a s'))"
  using assms by (auto simp: paired_def push_change_def mark_pair_def)

lemma paired_skip: "paired sim st olds news s0 ps s \<Longrightarrow> paired sim st olds (insert a news) s0 ps s"
  by (auto simp: paired_def)

lemma paired_changes_olds: "paired sim st olds news s0 ps s \<Longrightarrow> set olds \<subseteq> set olds' \<Longrightarrow> paired sim st olds' news s0 ps s"
  by (auto simp: paired_def)

definition same_hash :: "sem_entity \<Rightarrow> sem_entity \<Rightarrow> bool" where
  "same_hash b a \<longleftrightarrow> se_content_hash b = se_content_hash a
     \<or> (se_structural_hash b \<noteq> None \<and> se_structural_hash b = se_structural_hash a)"

definition buckets_ok :: "sem_entity list \<Rightarrow> match_state \<Rightarrow> bool" where
  "buckets_ok olds s \<longleftrightarrow>
     (\<forall>h. set (ms_by_hash s h) \<subseteq> {b \<in> set olds. se_content_hash b = h})
     \<and> (\<forall>h. set (ms_by_structural s h) \<subseteq> {b \<in> set olds. se_structural_hash b = Some h})
     \<and> (\<forall>b \<in> set olds. b \<in> set (ms_by_hash s (se_content_hash b)) \<or> se_id b \<in> ms_before s)
     \<and> (\<forall>b \<in> set olds. \<forall>h. se_structural_hash b = Some h \<longrightarrow> b \<in> set (ms_by_structural s h) \<or> se_id b \<in> ms_before s)"

definition pick :: "sem_entity \<Rightarrow> match_state \<Rightarrow> (sem_entity \<times> match_state) option" where
  "pick a s = (case pop_by_hash a s of Some r \<Rightarrow> Some r | None \<Rightarrow> take_by_structural a s)"

lemma pick_None:
  assumes "buckets_ok olds s" "pick a s = None" "b \<in> set olds" "same_hash b a"
  shows "se_id b \<in> ms_before s"
proof -
  have pop: "ms_by_hash s (se_content_hash a) = []" "take_by_structural a s = None"
    using assms(2) by (auto simp: pick_def pop_by_hash_def Let_def split: option.splits if_splits)
  from assms(4) consider "se_content_hash b = se_content_hash a" | h where "se_structural_hash b = Some h" "se_structural_hash a = Some h"
    unfolding same_hash_def by fastforce
  then show ?thesis
  proof cases
    case 1
    then show ?thesis using assms(1,3) pop(1) unfolding buckets_ok_def by (metis empty_iff list.set(1))
  next
    case 2
    then have "\<And>e. e \<in> set (ms_by_structural s h) \<Longrightarrow> se_id e \<in> ms_before s"
      using pop(2) by (auto simp: take_by_structural_def Let_def find_None_conv split: option.splits)
    then show ?thesis using assms(1,3) 2(1) unfolding buckets_ok_def by metis
  qed
qed

lemma pick_Some:
  assumes "buckets_ok olds s" "pick a s = Some (b, s')"
  shows "b \<in> set olds" "same_hash b a" "ms_changes s' = ms_changes s" "ms_before s' = ms_before s" "ms_after s' = ms_after s"
    "buckets_ok olds (push_change c (mark_pair b a s'))"
proof -
  from assms(2) consider
      (pop) "pop_by_hash a s = Some (b, s')"
    | (take) "take_by_structural a s = Some (b, s')"
    unfolding pick_def by (auto split: option.splits)
  then have "b \<in> set olds \<and> same_hash b a \<and> ms_changes s' = ms_changes s \<and> ms_before s' = ms_before s \<and> ms_after s' = ms_after s
    \<and> buckets_ok olds (push_change c (mark_pair b a s'))"
  proof cases
    case pop
    let ?h = "se_content_hash a" and ?bucket = "ms_by_hash s (se_content_hash a)"
    have b: "?bucket \<noteq> []" "b = last ?bucket" and s': "s' = s\<lparr>ms_by_hash := (ms_by_hash s)(?h := butlast ?bucket)\<rparr>"
      using pop by (auto simp: pop_by_hash_def Let_def split: if_splits)
    then have "b \<in> set ?bucket" by simp
    then have "b \<in> set olds" "se_content_hash b = ?h" using assms(1) unfolding buckets_ok_def by auto
    moreover have split: "set ?bucket = insert b (set (butlast ?bucket))"
      using b by (metis append_butlast_last_id list.simps(15) rotate1.simps(2) set_rotate1)
    ultimately show ?thesis
      using assms(1) unfolding buckets_ok_def s' same_hash_def mark_pair_def push_change_def
      by (auto dest: in_set_butlastD)
  next
    case take
    then obtain h where h: "se_structural_hash a = Some h" "find (\<lambda>e. se_id e \<notin> ms_before s) (ms_by_structural s h) = Some b"
      and s': "s' = s\<lparr>ms_by_structural := (ms_by_structural s)(h := remove1 b (ms_by_structural s h))\<rparr>"
      by (auto simp: take_by_structural_def Let_def split: option.splits)
    have b: "b \<in> set (ms_by_structural s h)" using find_SomeD [OF h(2)] by simp
    then have "b \<in> set olds" "se_structural_hash b = Some h" using assms(1) unfolding buckets_ok_def by auto
    moreover define rest where "rest = remove1 b (ms_by_structural s h)"
    have rest: "set rest \<subseteq> set (ms_by_structural s h)" unfolding rest_def by (rule set_remove1_subset)
    have rest': "set (ms_by_structural s h) \<subseteq> insert b (set rest)"
      unfolding rest_def by (rule subsetI) (metis in_set_remove1 insertCI)
    note old = assms(1) [unfolded buckets_ok_def]
    have sub: "set rest \<subseteq> {b \<in> set olds. se_structural_hash b = Some h}" using old rest by blast
    have "buckets_ok olds (push_change c (mark_pair b a s'))"
      unfolding buckets_ok_def s' mark_pair_def push_change_def rest_def [symmetric]
    proof (intro conjI, goal_cases)
      case 2
      then show ?case using old sub by simp
    next
      case 4
      have "e = b \<or> e \<in> set rest" if "e \<in> set (ms_by_structural s h)" for e using rest' that by blast
      then show ?case using old by simp metis
    qed (use old in auto)
    ultimately show ?thesis using h(1) by (simp add: s' same_hash_def)
  qed
  then show "b \<in> set olds" "same_hash b a" "ms_changes s' = ms_changes s" "ms_before s' = ms_before s" "ms_after s' = ms_after s"
    "buckets_ok olds (push_change c (mark_pair b a s'))" by simp_all
qed

text \<open>Without structural hashes the buckets hold unmatched entities only.\<close>

definition unused_buckets :: "match_state \<Rightarrow> bool" where
  "unused_buckets s \<longleftrightarrow> (\<forall>h. distinct (map se_id (ms_by_hash s h)) \<and> se_id ` set (ms_by_hash s h) \<inter> ms_before s = {})"

definition unstructured :: "sem_entity list \<Rightarrow> bool" where
  "unstructured es \<longleftrightarrow> (\<forall>e \<in> set es. se_structural_hash e = None)"

lemma pick_unused:
  assumes "buckets_ok olds s" "unstructured olds" "unused_buckets s" "distinct (map se_id olds)" "pick a s = Some (b, s')"
  shows "se_id b \<notin> ms_before s" "unused_buckets (push_change c (mark_pair b a s'))"
proof -
  have "take_by_structural a s = None"
  proof (cases "se_structural_hash a")
    case (Some h)
    have "set (ms_by_structural s h) \<subseteq> {b \<in> set olds. se_structural_hash b = Some h}"
      using assms(1) unfolding buckets_ok_def by blast
    then have "e \<notin> set (ms_by_structural s h)" for e using assms(2) by (fastforce simp: unstructured_def)
    then have "ms_by_structural s h = []" by (meson list.set_sel(1))
    then show ?thesis using Some by (simp add: take_by_structural_def)
  qed (simp add: take_by_structural_def)
  then have pop: "pop_by_hash a s = Some (b, s')" using assms(5) by (simp add: pick_def split: option.splits)
  let ?h = "se_content_hash a" and ?bucket = "ms_by_hash s (se_content_hash a)"
  have b: "?bucket \<noteq> []" "b = last ?bucket" and s': "s' = s\<lparr>ms_by_hash := (ms_by_hash s)(?h := butlast ?bucket)\<rparr>"
    using pop by (auto simp: pop_by_hash_def Let_def split: if_splits)
  then have bucket: "?bucket = butlast ?bucket @ [b]" by simp
  have d: "distinct (map se_id (butlast ?bucket))" "se_id b \<notin> se_id ` set (butlast ?bucket)"
    "se_id b \<notin> ms_before s" "se_id ` set (butlast ?bucket) \<inter> ms_before s = {}"
  proof -
    have "distinct (map se_id ?bucket)" "se_id ` set ?bucket \<inter> ms_before s = {}"
      using assms(3) unfolding unused_buckets_def by blast+
    then have "distinct (map se_id (butlast ?bucket @ [b]))" "se_id ` set (butlast ?bucket @ [b]) \<inter> ms_before s = {}"
      using bucket by metis+
    then show "distinct (map se_id (butlast ?bucket))" "se_id b \<notin> se_id ` set (butlast ?bucket)"
      "se_id b \<notin> ms_before s" "se_id ` set (butlast ?bucket) \<inter> ms_before s = {}" by auto
  qed
  then show "se_id b \<notin> ms_before s" by simp
  have other: "se_id b \<notin> se_id ` set (ms_by_hash s k)" if "k \<noteq> ?h" for k
  proof
    assume "se_id b \<in> se_id ` set (ms_by_hash s k)"
    then obtain e where e: "e \<in> set (ms_by_hash s k)" "se_id e = se_id b" by auto
    have "b \<in> set ?bucket" using b by simp
    then have "b \<in> set olds" "se_content_hash b = ?h" "e \<in> set olds" "se_content_hash e = k"
      using e assms(1) unfolding buckets_ok_def by blast+
    then show False using e(2) that assms(4) by (auto simp: distinct_map dest: inj_onD)
  qed
  show "unused_buckets (push_change c (mark_pair b a s'))"
    using assms(3) d other unfolding unused_buckets_def s' mark_pair_def push_change_def by auto
qed

text \<open>The second phase.\<close>

definition hashes_inv ::
  "stamp \<Rightarrow> sem_entity list \<Rightarrow> match_state \<Rightarrow> sem_entity set \<Rightarrow> (sem_entity \<times> sem_entity) list \<Rightarrow> match_state \<Rightarrow> bool" where
  "hashes_inv st olds s0 news ps s \<longleftrightarrow>
     paired None st olds news s0 ps s \<and> buckets_ok olds s
     \<and> (unstructured olds \<longrightarrow> unused_buckets s \<and> distinct (map fst ps))
     \<and> (\<forall>b \<in> set olds. \<forall>a \<in> news - snd ` set ps. same_hash b a \<longrightarrow> se_id b \<in> ms_before s)"

lemma alike_same_hash: "alike None b a = same_hash b a"
  by (simp add: alike_def same_hash_def)

lemma match_hash_inv:
  assumes inv: "hashes_inv st olds s0 news ps s" and new: "a \<notin> news" "se_id a \<notin> ms_after s"
    and dist: "distinct (map se_id olds)"
  shows "\<exists>ps'. hashes_inv st olds s0 (insert a news) ps' (match_hash st a s)"
proof (cases "pick a s")
  case None
  then have "match_hash st a s = s" using new(2) by (simp add: match_hash_def pick_def)
  then show ?thesis using inv pick_None [OF _ None] paired_skip unfolding hashes_inv_def
    by (intro exI [of _ ps]) auto
next
  case (Some r)
  obtain b s' where r: "pick a s = Some (b, s')" using Some by (cases r) simp
  let ?c = "renamed_change st (b, a)"
  have step: "match_hash st a s = push_change ?c (mark_pair b a s')"
    using r new(2) by (simp add: match_hash_def pick_def)
  have ok: "buckets_ok olds s" and un: "unstructured olds \<Longrightarrow> unused_buckets s \<and> distinct (map fst ps)"
    and pp: "paired None st olds news s0 ps s"
    and settled: "\<And>b a. b \<in> set olds \<Longrightarrow> a \<in> news - snd ` set ps \<Longrightarrow> same_hash b a \<Longrightarrow> se_id b \<in> ms_before s"
    using inv unfolding hashes_inv_def by blast+
  note p = pick_Some(1-5) [OF ok r] pick_Some(6) [OF ok r, of ?c]
  have "paired None st olds (insert a news) s0 (ps @ [(b, a)]) (push_change ?c (mark_pair b a s'))"
    using p by (intro paired_add [OF pp _ new(1)]) (simp_all add: alike_same_hash)
  moreover have "unused_buckets (push_change ?c (mark_pair b a s')) \<and> distinct (map fst (ps @ [(b, a)]))" if "unstructured olds"
  proof -
    have unused: "unused_buckets s" using un [OF that] by blast
    note u = pick_unused(1) [OF ok that unused dist r] pick_unused(2) [OF ok that unused dist r, of ?c]
    have "b \<notin> fst ` set ps" using u(1) un [OF that] pp by (auto simp: paired_def)
    then show ?thesis using u(2) un [OF that] by auto
  qed
  moreover have "se_id b' \<in> ms_before (push_change ?c (mark_pair b a s'))"
    if "b' \<in> set olds" "a' \<in> insert a news - snd ` set (ps @ [(b, a)])" "same_hash b' a'" for a' b'
    using settled [of b' a'] that p(4) by (auto simp: push_change_def mark_pair_def)
  ultimately show ?thesis unfolding step hashes_inv_def using p(6) by blast
qed

lemma fold_match_hash:
  assumes "hashes_inv st olds s0 news ps s" "distinct (map se_id olds)" "distinct (map se_id as)"
    "\<And>a. a \<in> set as \<Longrightarrow> se_id a \<notin> ms_after s0" "se_id ` set as \<inter> se_id ` news = {}"
  shows "\<exists>ps'. hashes_inv st olds s0 (news \<union> set as) ps' (fold (match_hash st) as s)"
  using assms(1,3-5)
proof (induction as arbitrary: news ps s)
  case (Cons a as)
  have "snd ` set ps \<subseteq> news" using Cons.prems(1) by (auto simp: hashes_inv_def paired_def)
  then have "se_id a \<notin> ms_after s" "a \<notin> news"
    using Cons.prems by (auto simp: hashes_inv_def paired_def)
  then obtain ps' where "hashes_inv st olds s0 (insert a news) ps' (match_hash st a s)"
    using match_hash_inv [OF Cons.prems(1) _ _ assms(2)] by blast
  from Cons.IH [OF this] Cons.prems show ?case by auto
qed auto

section \<open>Similarity\<close>

definition similar_candidate :: "similarity_fn \<Rightarrow> string set \<Rightarrow> sem_entity \<Rightarrow> sem_entity \<Rightarrow> bool" where
  "similar_candidate f matched a b \<longleftrightarrow>
     se_id b \<notin> matched \<and> se_type b = se_type a
     \<and> \<not> size_ratio_below size_ratio_cutoff (token_count a) (token_count b) \<and> similar_threshold \<le> f b a"

lemma consider_similar_result:
  "case fold (consider_similar f m a) bs (None, 0) of
     (None, score) \<Rightarrow> score = 0 \<and> (\<forall>b \<in> set bs. \<not> similar_candidate f m a b)
   | (Some b, score) \<Rightarrow> b \<in> set bs \<and> similar_candidate f m a b \<and> score = f b a
       \<and> (\<forall>b' \<in> set bs. similar_candidate f m a b' \<longrightarrow> f b' a \<le> score)"
proof (induction bs rule: rev_induct)
  case (snoc b bs)
  obtain best score where st: "fold (consider_similar f m a) bs (None, 0) = (best, score)" by fastforce
  have turn: "fold (consider_similar f m a) (bs @ [b]) (None, 0)
      = (if similar_candidate f m a b \<and> score < f b a then (Some b, f b a) else (best, score))"
    by (simp add: st consider_similar_def similar_candidate_def Let_def)
  note ih = snoc [unfolded st]
  have pos: "similar_candidate f m a b \<Longrightarrow> 0 < f b a"
    by (auto simp: similar_candidate_def similar_threshold_def)
  show ?case
  proof (cases best)
    case None
    then show ?thesis using ih pos unfolding turn by auto
  next
    case (Some x)
    then show ?thesis using ih unfolding turn
      by (auto simp: not_less intro: order.trans [OF _ less_imp_le])
  qed
qed simp

definition similar_inv ::
  "stamp \<Rightarrow> similarity_fn \<Rightarrow> sem_entity list \<Rightarrow> match_state \<Rightarrow> sem_entity set \<Rightarrow> (sem_entity \<times> sem_entity) list \<Rightarrow> match_state \<Rightarrow> bool" where
  "similar_inv st f olds s0 news ps s \<longleftrightarrow>
     paired (Some f) st olds news s0 ps s \<and> distinct (map fst ps) \<and> (\<forall>(b, a) \<in> set ps. se_id b \<notin> ms_before s0)
     \<and> (\<forall>b \<in> set olds. \<forall>a \<in> news - snd ` set ps. \<not> similar_candidate f (ms_before s) a b)"

lemma similar_candidate_mono: "similar_candidate f m' a b \<Longrightarrow> m \<subseteq> m' \<Longrightarrow> similar_candidate f m a b"
  by (auto simp: similar_candidate_def)

lemma match_similar_inv:
  assumes inv: "similar_inv st f olds s0 news ps s" and new: "a \<notin> news"
  shows "\<exists>ps'. similar_inv st f olds s0 (insert a news) ps' (match_similar st f olds a s)"
proof -
  obtain best score where b: "fold (consider_similar f (ms_before s) a) olds (None, 0) = (best, score)" by fastforce
  note res = consider_similar_result [where f = f and m = "ms_before s" and a = a and bs = olds, unfolded b]
  have pp: "paired (Some f) st olds news s0 ps s" and dd: "distinct (map fst ps)"
    and src: "\<forall>(b, a) \<in> set ps. se_id b \<notin> ms_before s0"
    and settled: "\<forall>b \<in> set olds. \<forall>a \<in> news - snd ` set ps. \<not> similar_candidate f (ms_before s) a b"
    using inv by (auto simp: similar_inv_def)
  show ?thesis
  proof (cases best)
    case None
    then have "match_similar st f olds a s = s" by (simp add: match_similar_def b)
    moreover have "\<forall>b \<in> set olds. \<not> similar_candidate f (ms_before s) a b" using res None by simp
    ultimately show ?thesis using pp dd src settled paired_skip by (intro exI [of _ ps]) (auto simp: similar_inv_def)
  next
    case (Some x)
    let ?s = "push_change (renamed_change st (x, a)) (mark_pair x a s)"
    have step: "match_similar st f olds a s = ?s" using Some by (simp add: match_similar_def b)
    have x: "x \<in> set olds" "similar_candidate f (ms_before s) a x" using res Some by simp_all
    then have fresh: "se_id x \<notin> ms_before s" "alike (Some f) x a" by (simp_all add: similar_candidate_def alike_def)
    have "paired (Some f) st olds (insert a news) s0 (ps @ [(x, a)]) ?s" by (rule paired_add [OF pp x(1) new fresh(2)]) simp_all
    moreover have "x \<notin> fst ` set ps" "se_id x \<notin> ms_before s0" using pp fresh(1) by (auto simp: paired_def)
    moreover have "ms_before s \<subseteq> ms_before ?s" by (auto simp: push_change_def mark_pair_def)
    have "\<not> similar_candidate f (ms_before ?s) a' b"
      if "b \<in> set olds" "a' \<in> insert a news - snd ` set (ps @ [(x, a)])" for a' b
    proof
      assume "similar_candidate f (ms_before ?s) a' b"
      then have "similar_candidate f (ms_before s) a' b" by (rule similar_candidate_mono) fact
      moreover have "a' \<in> news - snd ` set ps" using that(2) by auto
      ultimately show False using settled that(1) by blast
    qed
    moreover have "distinct (map fst (ps @ [(x, a)]))" if "x \<notin> fst ` set ps" using dd that by simp
    ultimately show ?thesis unfolding step similar_inv_def using src
      by (intro exI [of _ "ps @ [(x, a)]"] conjI ballI) auto
  qed
qed

lemma fold_match_similar:
  assumes "similar_inv st f olds s0 news ps s" "distinct as" "set as \<inter> news = {}"
  shows "\<exists>ps'. similar_inv st f olds s0 (news \<union> set as) ps' (fold (match_similar st f olds) as s)"
  using assms
proof (induction as arbitrary: news ps s)
  case (Cons a as)
  then obtain ps' where "similar_inv st f olds s0 (insert a news) ps' (match_similar st f olds a s)"
    using match_similar_inv by (metis disjoint_iff list.set_intros(1))
  from Cons.IH [OF this] Cons.prems(2,3) show ?case by auto
qed auto

section \<open>The phases together\<close>

lemma id_mem: "distinct (map se_id es) \<Longrightarrow> e \<in> set es \<Longrightarrow> X \<subseteq> set es \<Longrightarrow> se_id e \<in> se_id ` X \<longleftrightarrow> e \<in> X"
  by (auto simp: distinct_map dest: inj_onD)

lemma distinct_gone_fresh:
  "distinct (map se_id before) \<Longrightarrow> distinct (map se_id (gone before after))"
  "distinct (map se_id after) \<Longrightarrow> distinct (map se_id (fresh before after))"
  by (simp_all add: gone_def fresh_def distinct_map_filter)

lemma unmatched_ids:
  assumes "ms_before s = se_id ` set before \<inter> se_id ` set after" "ms_after s = se_id ` set before \<inter> se_id ` set after"
  shows "unmatched_before before s = gone before after" "unmatched_after after s = fresh before after"
  by (auto simp: unmatched_before_def unmatched_after_def gone_def fresh_def assms intro!: filter_cong)

lemma phase_hashes_result:
  assumes "distinct (map se_id ub)" "distinct (map se_id ua)"
    "se_id ` set ub \<inter> ms_before s = {}" "se_id ` set ua \<inter> ms_after s = {}"
  shows "\<exists>ps. hashes_inv st ub s (set ua) ps (phase_hashes st ub ua s)"
proof -
  let ?s = "s\<lparr>ms_by_hash := (\<lambda>h. filter (\<lambda>e. se_content_hash e = h) ub),
          ms_by_structural := (\<lambda>h. filter (\<lambda>e. se_structural_hash e = Some h) ub)\<rparr>"
  have "unused_buckets ?s" using assms(1,3) by (auto simp: unused_buckets_def distinct_map_filter)
  then have "hashes_inv st ub s {} [] ?s" by (auto simp: hashes_inv_def paired_def buckets_ok_def)
  from fold_match_hash [OF this assms(1,2)] show ?thesis using assms(4) by (auto simp: phase_hashes_def)
qed

lemma phase_similar_result:
  assumes "distinct (map se_id ua)"
  shows "\<exists>ps. similar_inv st f (unmatched_before ub s) s (set (unmatched_after ua s)) ps (phase_similar st (Some f) ub ua s)"
proof (cases "unmatched_before ub s \<noteq> [] \<and> unmatched_after ua s \<noteq> []")
  case True
  have "similar_inv st f (unmatched_before ub s) s {} [] s" by (simp add: similar_inv_def paired_def)
  from fold_match_similar [OF this, of "unmatched_after ua s"] show ?thesis
    using assms True by (simp add: phase_similar_def Let_def unmatched_after_def distinct_map)
next
  case False
  then show ?thesis by (intro exI [of _ "[]"]) (auto simp: phase_similar_def Let_def similar_inv_def paired_def)
qed

lemma renames_hashes:
  assumes inv: "hashes_inv st olds s (set news) ps s'" and dist: "distinct (map se_id olds)"
    and out: "se_id ` set olds \<inter> ms_before s = {}"
  shows "renames None olds news ps"
proof -
  have sub: "fst ` set ps \<subseteq> set olds" using inv by (auto simp: hashes_inv_def paired_def)
  have "\<not> alike None b a" if "b \<in> set olds - fst ` set ps" "a \<in> set news - snd ` set ps" for a b
  proof
    assume "alike None b a"
    then have "se_id b \<in> ms_before s'" using inv that by (auto simp: hashes_inv_def alike_same_hash)
    then have "se_id b \<in> se_id ` fst ` set ps" using inv out that by (auto simp: hashes_inv_def paired_def)
    then show False using id_mem [OF dist _ sub] that(1) by blast
  qed
  then show ?thesis using inv by (auto simp: renames_def hashes_inv_def paired_def)
qed

lemma paired_marks: "paired sim st olds news s0 ps s \<Longrightarrow> se_id ` fst ` set ps \<subseteq> ms_before s \<and> se_id ` snd ` set ps \<subseteq> ms_after s"
  by (simp add: paired_def)

lemma renames_similar:
  assumes inv2: "hashes_inv st olds s (set news) ps2 s2" and d: "distinct (map se_id olds)" "distinct (map se_id news)"
    and out: "se_id ` set olds \<inter> ms_before s = {}" "se_id ` set news \<inter> ms_after s = {}"
    and inv3: "similar_inv st f (unmatched_before olds s2) s2 (set (unmatched_after news s2)) ps3 s3"
  shows "renames (Some f) olds news (ps2 @ ps3)"
proof -
  note r = renames_hashes [OF inv2 d(1) out(1)]
  have p2: "paired None st olds (set news) s ps2 s2" using inv2 by (simp add: hashes_inv_def)
  have p3: "paired (Some f) st (unmatched_before olds s2) (set (unmatched_after news s2)) s2 ps3 s3"
    using inv3 by (simp add: similar_inv_def)
  have sub: "fst ` set ps2 \<subseteq> set olds" "fst ` set ps3 \<subseteq> set olds" "snd ` set ps2 \<subseteq> set news" "snd ` set ps3 \<subseteq> set news"
    using p2 p3 by (auto simp: paired_def unmatched_before_def unmatched_after_def)
  have "se_id a \<notin> ms_after s2" if "a \<in> snd ` set ps3" for a
    using that p3 by (auto simp: paired_def unmatched_after_def)
  then have "snd ` set ps2 \<inter> snd ` set ps3 = {}" using paired_marks [OF p2] by blast
  then have dis: "distinct (map snd (ps2 @ ps3))" using p2 p3 by (auto simp: paired_def)
  have "alike (Some f) b a" if "(b, a) \<in> set (ps2 @ ps3)" for a b
    using that p2 p3 by (auto simp: paired_def alike_def)
  moreover have "\<not> alike (Some f) b a" if b: "b \<in> set olds - fst ` set (ps2 @ ps3)" and a: "a \<in> set news - snd ` set (ps2 @ ps3)" for a b
  proof
    assume "alike (Some f) b a"
    moreover have "\<not> alike None b a" using r a b by (auto simp: renames_def image_Un)
    ultimately have c: "se_type b = se_type a" "\<not> size_ratio_below size_ratio_cutoff (token_count a) (token_count b)"
      "similar_threshold \<le> f b a" by (auto simp: alike_def)
    have ids: "se_id b \<notin> ms_before s2" "se_id a \<notin> ms_after s2"
      using id_mem [OF d(1) _ sub(1)] id_mem [OF d(2) _ sub(3)] p2 out a b by (auto simp: paired_def)
    then have m: "b \<in> set (unmatched_before olds s2)" "a \<in> set (unmatched_after news s2) - snd ` set ps3"
      using a b by (auto simp: unmatched_before_def unmatched_after_def)
    have "se_id b \<notin> ms_before s3" using ids(1) p3 id_mem [OF d(1) _ sub(2)] b by (auto simp: paired_def)
    then have "similar_candidate f (ms_before s3) a b" using c by (simp add: similar_candidate_def)
    then show False using inv3 m by (auto simp: similar_inv_def)
  qed
  ultimately show ?thesis using sub dis by (auto simp: renames_def)
qed

lemma pairs_result:
  assumes d: "distinct (map se_id olds)" "distinct (map se_id news)"
    and out: "se_id ` set olds \<inter> ms_before s = {}" "se_id ` set news \<inter> ms_after s = {}"
  shows "\<exists>ps. renames sim olds news ps
    \<and> (unstructured olds \<longrightarrow> distinct (map fst ps))
    \<and> (let s3 = phase_similar st sim olds news (phase_hashes st olds news s)
       in ms_changes s3 = ms_changes s @ map (renamed_change st) ps
          \<and> ms_before s3 = ms_before s \<union> se_id ` fst ` set ps \<and> ms_after s3 = ms_after s \<union> se_id ` snd ` set ps)"
proof -
  let ?s2 = "phase_hashes st olds news s"
  obtain ps2 where inv2: "hashes_inv st olds s (set news) ps2 ?s2" using phase_hashes_result [OF d out] by blast
  then have p2: "paired None st olds (set news) s ps2 ?s2" "unstructured olds \<Longrightarrow> distinct (map fst ps2)"
    by (auto simp: hashes_inv_def)
  show ?thesis
  proof (cases sim)
    case None
    then show ?thesis using renames_hashes [OF inv2 d(1) out(1)] p2
      by (intro exI [of _ ps2]) (auto simp: phase_similar_def paired_def)
  next
    case (Some f)
    let ?s3 = "phase_similar st (Some f) olds news ?s2"
    obtain ps3 where inv3: "similar_inv st f (unmatched_before olds ?s2) ?s2 (set (unmatched_after news ?s2)) ps3 ?s3"
      using phase_similar_result [OF d(2)] by blast
    have "se_id b \<notin> ms_before ?s2" if "b \<in> fst ` set ps3" for b using that inv3 by (auto simp: similar_inv_def)
    then have "fst ` set ps2 \<inter> fst ` set ps3 = {}" using paired_marks [OF p2(1)] by blast
    then have "unstructured olds \<Longrightarrow> distinct (map fst (ps2 @ ps3))" using p2(2) inv3 by (auto simp: similar_inv_def)
    moreover have "paired (Some f) st (unmatched_before olds ?s2) (set (unmatched_after news ?s2)) ?s2 ps3 ?s3"
      using inv3 by (simp add: similar_inv_def)
    ultimately show ?thesis using renames_similar [OF inv2 d out inv3] p2(1) Some
      by (intro exI [of _ "ps2 @ ps3"]) (auto simp: paired_def Let_def)
  qed
qed

text \<open>C38. For lists of entities in which no two have the same id, before and after, and whatever order the hash
  map is walked in: every entity with an id on both sides is reported as modified exactly when its content hash
  changed; between the others there are renames and moves, at most one for each new entity and only between entities
  that are alike; each new entity without one is reported once as added, and each old entity that is the source of none
  once as deleted; no deleted entity is alike an added one. When no old entity has a structural hash, an old
  entity is the source of at most one rename; with structural hashes it may be the source of two
  (\<open>one_source_two_renames\<close>), and among entities that share an id changes are lost
  (\<open>duplicate_id_loses_change\<close>).\<close>

theorem diff_accounts_for_all:
  assumes "hash_order order" "distinct (map se_id before)" "distinct (map se_id after)"
  shows "\<exists>ps. renames sim (gone before after) (fresh before after) ps
    \<and> (unstructured before \<longrightarrow> distinct (map fst ps))
    \<and> mset (match_entities order before after sim st)
      = mset (map (\<lambda>(b, a). modified_change st b a) (edited before after) @ map (renamed_change st) ps
          @ map (deleted_change st) (filter (\<lambda>b. b \<notin> fst ` set ps) (gone before after))
          @ map (added_change st) (filter (\<lambda>a. a \<notin> snd ` set ps) (fresh before after)))"
proof -
  let ?s1 = "phase_ids order st before after" and ?olds = "gone before after" and ?news = "fresh before after"
  note ids = phase_ids_result [OF assms, of st]
  note un = unmatched_ids [OF ids(1,2)]
  note d = distinct_gone_fresh(1) [OF assms(2), of after] distinct_gone_fresh(2) [OF assms(3), of before]
  have out: "se_id ` set ?olds \<inter> ms_before ?s1 = {}" "se_id ` set ?news \<inter> ms_after ?s1 = {}"
    unfolding ids by (auto simp: gone_def fresh_def)
  obtain ps where ps: "renames sim ?olds ?news ps" "unstructured ?olds \<longrightarrow> distinct (map fst ps)"
    and s3: "ms_changes (phase_similar st sim ?olds ?news (phase_hashes st ?olds ?news ?s1)) = ms_changes ?s1 @ map (renamed_change st) ps"
      "ms_before (phase_similar st sim ?olds ?news (phase_hashes st ?olds ?news ?s1)) = ms_before ?s1 \<union> se_id ` fst ` set ps"
      "ms_after (phase_similar st sim ?olds ?news (phase_hashes st ?olds ?news ?s1)) = ms_after ?s1 \<union> se_id ` snd ` set ps"
    using pairs_result [OF d out, of sim st] unfolding Let_def by blast
  have sub: "fst ` set ps \<subseteq> set ?olds" "snd ` set ps \<subseteq> set ?news" using ps(1) by (auto simp: renames_def)
  then have sub': "fst ` set ps \<subseteq> set before" "snd ` set ps \<subseteq> set after" by (auto simp: gone_def fresh_def)
  have del: "filter (\<lambda>e. se_id e \<notin> ms_before ?s1 \<union> se_id ` fst ` set ps) before = filter (\<lambda>b. b \<notin> fst ` set ps) ?olds"
    unfolding gone_def filter_filter using id_mem [OF assms(2) _ sub'(1)] by (intro filter_cong) (auto simp: ids)
  have add: "filter (\<lambda>e. se_id e \<notin> ms_after ?s1 \<union> se_id ` snd ` set ps) after = filter (\<lambda>a. a \<notin> snd ` set ps) ?news"
    unfolding fresh_def filter_filter using id_mem [OF assms(3) _ sub'(2)] by (intro filter_cong) (auto simp: ids)
  have "match_entities order before after sim st = ms_changes ?s1 @ map (renamed_change st) ps
      @ map (deleted_change st) (filter (\<lambda>b. b \<notin> fst ` set ps) ?olds)
      @ map (added_change st) (filter (\<lambda>a. a \<notin> snd ` set ps) ?news)"
    unfolding match_entities_def Let_def un unmatched_before_def [of before "phase_similar _ _ _ _ _"]
      unmatched_after_def [of after "phase_similar _ _ _ _ _"] s3 del add by simp
  moreover have "unstructured before \<longrightarrow> distinct (map fst ps)" using ps(2) by (auto simp: unstructured_def gone_def)
  ultimately show ?thesis using ps(1) ids(3) by (intro exI [of _ ps]) simp
qed

section \<open>One entity, two renames\<close>

text \<open>A function of \<open>before\<close>, a reformatted copy of it and the function itself under a new name: the copy takes it
  by its structure, the new name pops it again by its content.\<close>

definition plain_entity :: "string \<Rightarrow> string \<Rightarrow> string option \<Rightarrow> sem_entity" where
  "plain_entity i content structure =
     \<lparr>se_id = i, se_file_path = ''lib.rs'', se_type = ''function'', se_name = i, se_parent_id = None, se_content = content,
      se_content_hash = content, se_structural_hash = structure, se_start_line = 1, se_end_line = 1, se_metadata = None\<rparr>"

text \<open>An old entity can be the source of two renames: when a new entity with the same structure but other
  content comes first, and then one with the same content, both are reported as renamed from it and
  neither as added.\<close>

lemma one_source_two_renames:
  "map (\<lambda>c. (sc_entity_id c, sc_type c, sc_before_content c))
     (match_entities id [plain_entity ''f'' ''a b'' (Some ''ab'')]
        [plain_entity ''g'' ''a  b'' (Some ''ab''), plain_entity ''h'' ''a b'' (Some ''ab'')] None (None, None))
   = [(''g'', Renamed, Some ''a b''), (''h'', Renamed, Some ''a b'')]"
  by (simp add: match_entities_def phase_ids_def match_id_def by_id_def plain_entity_def phase_hashes_def phase_similar_def
      unmatched_before_def unmatched_after_def match_hash_def pop_by_hash_def take_by_structural_def mark_pair_def
      push_change_def renamed_change_def change_of_def Let_def)

text \<open>Two headings of one name have one id; the hash map keeps the last of them, so a change of the first is
  not reported at all.\<close>

lemma duplicate_id_loses_change:
  "match_entities id [plain_entity ''Notes'' ''a'' None, plain_entity ''Notes'' ''c'' None]
     [plain_entity ''Notes'' ''b'' None, plain_entity ''Notes'' ''c'' None] None (None, None) = []"
  by (simp add: match_entities_def phase_ids_def match_id_def by_id_def plain_entity_def phase_hashes_def phase_similar_def
      unmatched_before_def unmatched_after_def match_hash_def pop_by_hash_def take_by_structural_def mark_pair_def
      push_change_def renamed_change_def change_of_def Let_def)

section \<open>The difference of a set of files\<close>

datatype file_status = FileAdded | FileModified | FileDeleted | FileRenamed

record file_change =
  fc_file_path :: string
  fc_status :: file_status
  fc_old_file_path :: "string option"
  fc_before_content :: "string option"
  fc_after_content :: "string option"

text \<open>A parser plugin: what it extracts from a text with a path (nothing when it panics), and its similarity.\<close>

record parser_plugin =
  pp_extract :: "string \<Rightarrow> string \<Rightarrow> sem_entity list option"
  pp_similarity :: similarity_fn

record diff_result =
  dr_changes :: "sem_change list"
  dr_file_count :: nat
  dr_added_count :: nat
  dr_modified_count :: nat
  dr_deleted_count :: nat
  dr_moved_count :: nat
  dr_renamed_count :: nat

definition extract_or_empty :: "parser_plugin \<Rightarrow> string option \<Rightarrow> string \<Rightarrow> sem_entity list" where
  "extract_or_empty pl content path =
     (case content of
        None \<Rightarrow> []
      | Some c \<Rightarrow> (case pp_extract pl c path of Some es \<Rightarrow> es | None \<Rightarrow> []))"

definition file_diff ::
  "(string list \<Rightarrow> string list) \<Rightarrow> (string \<Rightarrow> parser_plugin option) \<Rightarrow> stamp \<Rightarrow> file_change \<Rightarrow> (string \<times> sem_change list) option" where
  "file_diff order registry st fc =
     (case registry (fc_file_path fc) of
        None \<Rightarrow> None
      | Some pl \<Rightarrow>
          (let before = extract_or_empty pl (fc_before_content fc)
                 (case fc_old_file_path fc of Some p \<Rightarrow> p | None \<Rightarrow> fc_file_path fc);
               after = extract_or_empty pl (fc_after_content fc) (fc_file_path fc);
               changes = match_entities order before after (Some (pp_similarity pl)) st
           in if changes = [] then None else Some (fc_file_path fc, changes)))"

definition compute_semantic_diff ::
  "(string list \<Rightarrow> string list) \<Rightarrow> (string \<Rightarrow> parser_plugin option) \<Rightarrow> stamp \<Rightarrow> file_change list \<Rightarrow> diff_result" where
  "compute_semantic_diff order registry st fcs =
     (let per_file = List.map_filter (file_diff order registry st) fcs;
          changes = concat (map snd per_file);
          count = (\<lambda>t. length (filter (\<lambda>c. sc_type c = t) changes))
      in \<lparr>dr_changes = changes, dr_file_count = card (set (map fst per_file)), dr_added_count = count Added,
          dr_modified_count = count Modified, dr_deleted_count = count Deleted, dr_moved_count = count Moved,
          dr_renamed_count = count Renamed\<rparr>)"

lemma diff_counts_add_up:
  "(let r = compute_semantic_diff order registry st fcs
    in dr_added_count r + dr_modified_count r + dr_deleted_count r + dr_moved_count r + dr_renamed_count r = length (dr_changes r))"
proof -
  have "length (filter (\<lambda>c. sc_type c = Added) cs) + length (filter (\<lambda>c. sc_type c = Modified) cs)
      + length (filter (\<lambda>c. sc_type c = Deleted) cs) + length (filter (\<lambda>c. sc_type c = Moved) cs)
      + length (filter (\<lambda>c. sc_type c = Renamed) cs) = length cs" for cs
  proof (induction cs)
    case (Cons c cs)
    then show ?case by (cases "sc_type c") simp_all
  qed simp
  then show ?thesis by (simp add: compute_semantic_diff_def Let_def)
qed

section \<open>Witness\<close>

theorem diff_accounts_for_all_witness:
  "(let before = [plain_entity ''f'' ''a b'' None]; after = [plain_entity ''g'' ''a b'' None]
    in \<exists>ps. renames None (gone before after) (fresh before after) ps \<and> distinct (map fst ps)
      \<and> mset (match_entities id before after None (None, None))
        = mset (map (\<lambda>(b, a). modified_change (None, None) b a) (edited before after) @ map (renamed_change (None, None)) ps
            @ map (deleted_change (None, None)) (filter (\<lambda>b. b \<notin> fst ` set ps) (gone before after))
            @ map (added_change (None, None)) (filter (\<lambda>a. a \<notin> snd ` set ps) (fresh before after))))"
proof -
  have "hash_order id" by (simp add: hash_order_def)
  moreover have "distinct (map se_id [plain_entity ''f'' ''a b'' None])" "distinct (map se_id [plain_entity ''g'' ''a b'' None])"
    by simp_all
  moreover have "unstructured [plain_entity ''f'' ''a b'' None]" by (simp add: unstructured_def plain_entity_def)
  ultimately show ?thesis unfolding Let_def
    using diff_accounts_for_all [of id "[plain_entity ''f'' ''a b'' None]" "[plain_entity ''g'' ''a b'' None]" None "(None, None)"]
    by blast
qed

end
