(* ===== verification/Call_Graph.thy ===== *)
theory Call_Graph
  imports Rust_Num Rust_Str
begin

text \<open>
  \<open>swissarmyhammer-code-context/src/ops/get_callgraph.rs\<close> and \<open>get_blastradius.rs\<close>: breadth-first walks over the
  table of call edges. The two tables of the index are lists of rows; a query without \<open>ORDER BY\<close> answers in
  the order of its first table, ids of symbols are unique (the primary key), and errors of SQLite itself
  are left out.
\<close>

section \<open>Distances\<close>

text \<open>What \<open>n\<close> steps reach, and what exactly \<open>n\<close> steps reach.\<close>

fun within_steps :: "('a \<Rightarrow> 'a set) \<Rightarrow> 'a set \<Rightarrow> nat \<Rightarrow> 'a set" where
  "within_steps N A 0 = A"
| "within_steps N A (Suc n) = within_steps N A n \<union> \<Union> (N ` within_steps N A n)"

fun at_distance :: "('a \<Rightarrow> 'a set) \<Rightarrow> 'a set \<Rightarrow> nat \<Rightarrow> 'a set" where
  "at_distance N A 0 = A"
| "at_distance N A (Suc n) = \<Union> (N ` at_distance N A n) - within_steps N A n"

lemma within_steps_mono: "m \<le> n \<Longrightarrow> within_steps N A m \<subseteq> within_steps N A n"
  by (rule lift_Suc_mono_le [of "within_steps N A"]) auto

lemma within_steps_relpow: "y \<in> within_steps N A n \<longleftrightarrow> (\<exists>x \<in> A. \<exists>k \<le> n. (x, y) \<in> {(x, y). y \<in> N x} ^^ k)"
proof (induction n arbitrary: y)
  case (Suc n)
  show ?case
  proof
    assume "y \<in> within_steps N A (Suc n)"
    then consider "y \<in> within_steps N A n" | z where "z \<in> within_steps N A n" "y \<in> N z" by auto
    then show "\<exists>x \<in> A. \<exists>k \<le> Suc n. (x, y) \<in> {(x, y). y \<in> N x} ^^ k"
    proof cases
      case 1
      then show ?thesis using Suc by (meson le_SucI)
    next
      case 2
      then obtain x k where "x \<in> A" "k \<le> n" "(x, z) \<in> {(x, y). y \<in> N x} ^^ k" using Suc by blast
      then show ?thesis using 2(2) by (intro bexI [of _ x] exI [of _ "Suc k"]) auto
    qed
  next
    assume "\<exists>x \<in> A. \<exists>k \<le> Suc n. (x, y) \<in> {(x, y). y \<in> N x} ^^ k"
    then obtain x k where xk: "x \<in> A" "k \<le> Suc n" "(x, y) \<in> {(x, y). y \<in> N x} ^^ k" by blast
    show "y \<in> within_steps N A (Suc n)"
    proof (cases "k = Suc n")
      case True
      then obtain z where "(x, z) \<in> {(x, y). y \<in> N x} ^^ n" "y \<in> N z" using xk(3) by auto
      then have "z \<in> within_steps N A n" using Suc.IH xk(1) by blast
      then show ?thesis using \<open>y \<in> N z\<close> by auto
    next
      case False
      then have "y \<in> within_steps N A n" using Suc.IH xk by (meson le_SucE)
      then show ?thesis by simp
    qed
  qed
qed auto

lemma within_steps_Suc: "within_steps N A (Suc n) = within_steps N A n \<union> at_distance N A (Suc n)"
proof (induction n)
  case (Suc n)
  have step: "\<Union> (N ` within_steps N A k) \<subseteq> within_steps N A (Suc k)" for k by auto
  have "\<Union> (N ` within_steps N A (Suc n)) \<subseteq> within_steps N A (Suc n) \<union> \<Union> (N ` at_distance N A (Suc n))"
    using Suc step [of n] by blast
  moreover have "\<Union> (N ` at_distance N A (Suc n)) \<subseteq> \<Union> (N ` within_steps N A (Suc n))" using Suc by blast
  ultimately show ?case
    unfolding within_steps.simps(2) [of N A "Suc n"] at_distance.simps(2) [of N A "Suc n"] by blast
qed auto

lemma at_distance_within: "at_distance N A n \<subseteq> within_steps N A n"
  using within_steps_Suc [of N A] by (cases n) auto

lemma at_distance_disjoint: "m < n \<Longrightarrow> at_distance N A n \<inter> within_steps N A m = {}"
proof (cases n)
  case (Suc k)
  assume "m < n"
  then show ?thesis using Suc within_steps_mono [of m k N A] by auto
qed simp

lemma within_steps_levels: "within_steps N A n = (\<Union>k \<le> n. at_distance N A k)"
proof (induction n)
  case (Suc n)
  then show ?case unfolding within_steps_Suc by (auto simp: atMost_Suc)
qed simp

lemma within_steps_stop: "at_distance N A (Suc d) = {} \<Longrightarrow> d \<le> n \<Longrightarrow> within_steps N A n = within_steps N A d"
proof (induction n)
  case (Suc n)
  show ?case
  proof (cases "d = Suc n")
    case False
    then have w: "within_steps N A n = within_steps N A d" using Suc by simp
    have "within_steps N A (Suc d) = within_steps N A d" by (simp only: within_steps_Suc Suc.prems(1) Un_empty_right)
    then have "\<Union> (N ` within_steps N A d) \<subseteq> within_steps N A d" unfolding within_steps.simps(2) by blast
    then show ?thesis using w by auto
  qed simp
qed simp

section \<open>The index\<close>

record symbol_row =
  sy_id :: string
  sy_name :: string
  sy_file_path :: string
  sy_start_line :: int
  sy_start_char :: int
  sy_end_line :: int
  sy_end_char :: int

record edge_row =
  ce_caller_id :: string
  ce_callee_id :: string
  ce_caller_file :: string
  ce_callee_file :: string
  ce_source :: string

record index_db =
  db_symbols :: "symbol_row list"
  db_edges :: "edge_row list"

definition symbol_ids :: "index_db \<Rightarrow> string set" where
  "symbol_ids db = sy_id ` set (db_symbols db)"

text \<open>The name of a symbol without the prefix \<open>lsp:{file}:\<close>, and the match by name or by suffix.\<close>

definition qualified_path :: "string \<Rightarrow> string \<Rightarrow> string" where
  "qualified_path file i =
     (let p = ''lsp:'' @ file @ '':'' in if prefix p i then drop (length p) i else i)"

definition symbol_matches :: "string \<Rightarrow> symbol_row \<Rightarrow> string \<Rightarrow> bool" where
  "symbol_matches file s name \<longleftrightarrow>
     sy_name s = name \<or> qualified_path file (sy_id s) = name \<or> suffix (''::'' @ name) (qualified_path file (sy_id s))"

section \<open>Blast radius\<close>

record affected_symbol =
  af_symbol_id :: string
  af_name :: string
  af_file_path :: string
  af_source :: string

record hop_level =
  hl_hop :: nat
  hl_symbols :: "affected_symbol list"
  hl_affected_files :: nat

record blast_radius =
  br_roots :: "string list"
  br_hops :: "hop_level list"
  br_total_affected_symbols :: nat
  br_total_affected_files :: nat

record blast_options =
  bo_file_path :: string
  bo_symbol :: "string option"
  bo_max_hops :: nat

definition find_roots :: "index_db \<Rightarrow> string \<Rightarrow> string option \<Rightarrow> (string \<times> string) list" where
  "find_roots db file symbol =
     map (\<lambda>s. (sy_id s, sy_name s))
       (filter (\<lambda>s. sy_file_path s = file \<and> (case symbol of None \<Rightarrow> True | Some name \<Rightarrow> symbol_matches file s name)) (db_symbols db))"

definition find_inbound_callers :: "index_db \<Rightarrow> string \<Rightarrow> affected_symbol list" where
  "find_inbound_callers db callee =
     [\<lparr>af_symbol_id = ce_caller_id e, af_name = sy_name s, af_file_path = ce_caller_file e, af_source = ce_source e\<rparr>.
       e \<leftarrow> db_edges db, ce_callee_id e = callee, s \<leftarrow> db_symbols db, sy_id s = ce_caller_id e]"

definition visit_caller :: "affected_symbol \<Rightarrow> string set \<times> affected_symbol list \<Rightarrow> string set \<times> affected_symbol list" where
  "visit_caller c st =
     (case st of (visited, found) \<Rightarrow>
        if af_symbol_id c \<in> visited then st else (insert (af_symbol_id c) visited, found @ [c]))"

text \<open>One hop: the symbols found, in order, and the visited ids.\<close>

definition blast_hop :: "index_db \<Rightarrow> string list \<Rightarrow> string set \<Rightarrow> string set \<times> affected_symbol list" where
  "blast_hop db frontier visited =
     fold (\<lambda>i st. fold visit_caller (find_inbound_callers db i) st) frontier (visited, [])"

text \<open>The loop \<open>for hop in 1..=max_hops\<close>: \<open>left\<close> hops are left after \<open>hop\<close>.\<close>

fun blast_hops :: "index_db \<Rightarrow> nat \<Rightarrow> nat \<Rightarrow> string list \<Rightarrow> string set \<Rightarrow> hop_level list" where
  "blast_hops db 0 hop frontier visited = []"
| "blast_hops db (Suc left) hop frontier visited =
     (case blast_hop db frontier visited of (visited', found) \<Rightarrow>
        if found = [] then []
        else \<lparr>hl_hop = hop, hl_symbols = found, hl_affected_files = card (af_file_path ` set found)\<rparr>
          # blast_hops db left (Suc hop) (map af_symbol_id found) visited')"

definition get_blastradius :: "index_db \<Rightarrow> blast_options \<Rightarrow> string + blast_radius" where
  "get_blastradius db opts =
     (let max_hops = max 1 (min 10 (bo_max_hops opts));
          roots = map fst (find_roots db (bo_file_path opts) (bo_symbol opts))
      in if roots = []
         then case bo_symbol opts of
                Some symbol \<Rightarrow>
                  Inl (''symbol '' @ [CHR 0x27] @ symbol @ [CHR 0x27] @ '' not found in file '' @ [CHR 0x27] @ bo_file_path opts @ [CHR 0x27])
              | None \<Rightarrow> Inr \<lparr>br_roots = [], br_hops = [], br_total_affected_symbols = 0, br_total_affected_files = 0\<rparr>
         else let hops = blast_hops db max_hops 1 roots (set roots); found = concat (map hl_symbols hops)
              in Inr \<lparr>br_roots = roots, br_hops = hops, br_total_affected_symbols = length found,
                   br_total_affected_files = card (af_file_path ` set found)\<rparr>)"

definition callers_of :: "index_db \<Rightarrow> string \<Rightarrow> string set" where
  "callers_of db i = {ce_caller_id e |e. e \<in> set (db_edges db) \<and> ce_callee_id e = i} \<inter> symbol_ids db"

lemma inbound_caller_ids: "af_symbol_id ` set (find_inbound_callers db i) = callers_of db i"
proof
  show "af_symbol_id ` set (find_inbound_callers db i) \<subseteq> callers_of db i"
    by (auto simp: find_inbound_callers_def callers_of_def symbol_ids_def) (metis image_eqI)
  show "callers_of db i \<subseteq> af_symbol_id ` set (find_inbound_callers db i)"
  proof
    fix c
    assume "c \<in> callers_of db i"
    then obtain e s where es: "e \<in> set (db_edges db)" "ce_callee_id e = i" "ce_caller_id e = c" "s \<in> set (db_symbols db)" "sy_id s = c"
      by (auto simp: callers_of_def symbol_ids_def)
    then have "\<lparr>af_symbol_id = c, af_name = sy_name s, af_file_path = ce_caller_file e, af_source = ce_source e\<rparr>
        \<in> set (find_inbound_callers db i)"
      by (auto simp: find_inbound_callers_def intro!: bexI [of _ e])
    then show "c \<in> af_symbol_id ` set (find_inbound_callers db i)" by force
  qed
qed

lemma fold_visit_caller:
  "\<exists>new. fold visit_caller cs (visited, found) = (visited \<union> af_symbol_id ` set cs, found @ new)
     \<and> af_symbol_id ` set new = af_symbol_id ` set cs - visited \<and> distinct (map af_symbol_id new)"
proof (induction cs arbitrary: visited found)
  case (Cons c cs)
  show ?case
  proof (cases "af_symbol_id c \<in> visited")
    case True
    obtain new where "fold visit_caller cs (visited, found) = (visited \<union> af_symbol_id ` set cs, found @ new)"
      "af_symbol_id ` set new = af_symbol_id ` set cs - visited" "distinct (map af_symbol_id new)" using Cons.IH by blast
    moreover have "visit_caller c (visited, found) = (visited, found)" using True by (simp add: visit_caller_def)
    ultimately show ?thesis using True by (intro exI [of _ new]) auto
  next
    case False
    obtain new where "fold visit_caller cs (insert (af_symbol_id c) visited, found @ [c])
        = (insert (af_symbol_id c) visited \<union> af_symbol_id ` set cs, (found @ [c]) @ new)"
      "af_symbol_id ` set new = af_symbol_id ` set cs - insert (af_symbol_id c) visited" "distinct (map af_symbol_id new)"
      using Cons.IH by blast
    moreover have "visit_caller c (visited, found) = (insert (af_symbol_id c) visited, found @ [c])"
      using False by (simp add: visit_caller_def)
    ultimately show ?thesis using False by (intro exI [of _ "c # new"]) auto
  qed
qed simp

lemma blast_hop_result:
  "\<exists>found. blast_hop db frontier visited = (visited \<union> \<Union> (callers_of db ` set frontier), found)
     \<and> af_symbol_id ` set found = \<Union> (callers_of db ` set frontier) - visited \<and> distinct (map af_symbol_id found)"
proof -
  have nested: "fold (\<lambda>i st. fold visit_caller (find_inbound_callers db i) st) is st
      = fold visit_caller (concat (map (find_inbound_callers db) is)) st" for "is" st
    by (induction "is" arbitrary: st) simp_all
  have "af_symbol_id ` set (concat (map (find_inbound_callers db) frontier)) = \<Union> (callers_of db ` set frontier)"
    by (auto simp: inbound_caller_ids [symmetric])
  then show ?thesis
    using fold_visit_caller [of "concat (map (find_inbound_callers db) frontier)" visited "[]"]
    by (auto simp: blast_hop_def nested)
qed

text \<open>The ids of the hops with a number.\<close>

definition hop_ids :: "nat \<Rightarrow> hop_level list \<Rightarrow> string set" where
  "hop_ids h hops = af_symbol_id ` set (concat (map hl_symbols (filter (\<lambda>l. hl_hop l = h) hops)))"

lemma blast_hops_result:
  assumes "set frontier = at_distance (callers_of db) A d"
  shows "(\<forall>h. hop_ids h (blast_hops db n (Suc d) frontier (within_steps (callers_of db) A d))
        = (if d < h \<and> h \<le> d + n then at_distance (callers_of db) A h else {}))
    \<and> distinct (map af_symbol_id (concat (map hl_symbols (blast_hops db n (Suc d) frontier (within_steps (callers_of db) A d)))))
    \<and> (\<forall>l \<in> set (blast_hops db n (Suc d) frontier (within_steps (callers_of db) A d)). d < hl_hop l)"
  using assms
proof (induction n arbitrary: d frontier)
  case (Suc n)
  let ?N = "callers_of db" and ?W = "within_steps (callers_of db) A" and ?L = "at_distance (callers_of db) A"
  obtain found where f: "blast_hop db frontier (?W d) = (?W d \<union> \<Union> (?N ` set frontier), found)"
    "af_symbol_id ` set found = \<Union> (?N ` set frontier) - ?W d" "distinct (map af_symbol_id found)"
    using blast_hop_result [of db frontier "?W d"] by (elim exE conjE)
  then have found: "af_symbol_id ` set found = ?L (Suc d)" using Suc.prems by simp
  have w: "?W d \<union> \<Union> (?N ` set frontier) = ?W (Suc d)" by (simp only: within_steps_Suc at_distance.simps(2) Suc.prems Un_Diff_cancel)
  show ?case
  proof (cases "found = []")
    case True
    then have "?L (Suc d) = {}" using found by simp
    then have "?W h = ?W d" if "d \<le> h" for h using within_steps_stop that by blast
    then have "?L h = {}" if "d < h" for h
      using at_distance_within [of ?N A h] at_distance_disjoint [OF that, of ?N A] that by (metis inf.absorb1 less_imp_le)
    then show ?thesis using True f(1) by (auto simp: hop_ids_def)
  next
    case False
    let ?rest = "blast_hops db n (Suc (Suc d)) (map af_symbol_id found) (?W (Suc d))"
    have hops: "blast_hops db (Suc n) (Suc d) frontier (?W d)
        = \<lparr>hl_hop = Suc d, hl_symbols = found, hl_affected_files = card (af_file_path ` set found)\<rparr> # ?rest"
      using False f(1) w by simp
    have "set (map af_symbol_id found) = ?L (Suc d)" using found by simp
    note ih = Suc.IH [OF this]
    have ids: "hop_ids h ?rest = (if Suc d < h \<and> h \<le> Suc d + n then ?L h else {})" for h
      by (rule spec [OF conjunct1 [OF ih]])
    then have later: "hop_ids (Suc d) ?rest = {}" by simp
    have all: "af_symbol_id ` set (concat (map hl_symbols ?rest)) = (\<Union>h. hop_ids h ?rest)"
      by (auto simp: hop_ids_def)
    have disjoint: "af_symbol_id ` set found \<inter> af_symbol_id ` set (concat (map hl_symbols ?rest)) = {}"
    proof -
      have "?L (Suc d) \<inter> ?L h = {}" if "Suc d < h" for h
        using at_distance_disjoint [OF that, of ?N A] at_distance_within [of ?N A "Suc d"] by blast
      then have "?L (Suc d) \<inter> hop_ids h ?rest = {}" for h unfolding ids by simp
      then show ?thesis unfolding all found by blast
    qed
    have one: "hop_ids h (blast_hops db (Suc n) (Suc d) frontier (?W d))
        = (if h = Suc d then ?L (Suc d) else hop_ids h ?rest)" for h
      using later found unfolding hops by (auto simp: hop_ids_def)
    show ?thesis
    proof (intro conjI)
      show "\<forall>h. hop_ids h (blast_hops db (Suc n) (Suc d) frontier (?W d)) = (if d < h \<and> h \<le> d + Suc n then ?L h else {})"
        unfolding one ids by auto
    next
      show "distinct (map af_symbol_id (concat (map hl_symbols (blast_hops db (Suc n) (Suc d) frontier (?W d)))))"
        unfolding hops using ih f(3) disjoint by simp
    next
      show "\<forall>l \<in> set (blast_hops db (Suc n) (Suc d) frontier (?W d)). d < hl_hop l"
        unfolding hops using ih by auto
    qed
  qed
qed (auto simp: hop_ids_def)

text \<open>C39. When the file or the symbol has roots, hop \<open>h\<close> of the blast radius, up to the clamped limit, lists exactly the
  symbols that call a root through \<open>h\<close> calls and not through fewer; no symbol is listed twice, and the
  totals count what is listed. Without roots a named symbol is an error and a whole file has an empty radius.\<close>

theorem blast_radius_correct:
  "(let N = callers_of db; roots = map fst (find_roots db (bo_file_path opts) (bo_symbol opts));
        limit = max 1 (min 10 (bo_max_hops opts))
    in case get_blastradius db opts of
         Inl _ \<Rightarrow> roots = [] \<and> bo_symbol opts \<noteq> None
       | Inr r \<Rightarrow>
           br_roots r = roots
           \<and> hop_ids h (br_hops r) = (if roots \<noteq> [] \<and> 1 \<le> h \<and> h \<le> limit then at_distance N (set roots) h else {})
           \<and> distinct (map af_symbol_id (concat (map hl_symbols (br_hops r))))
           \<and> br_total_affected_symbols r = card (\<Union>k \<in> {1..limit}. hop_ids k (br_hops r))
           \<and> br_total_affected_files r = card (af_file_path ` set (concat (map hl_symbols (br_hops r)))))"
proof (cases "find_roots db (bo_file_path opts) (bo_symbol opts) = []")
  case True
  then show ?thesis
    by (cases "bo_symbol opts") (simp_all add: get_blastradius_def Let_def hop_ids_def)
next
  case False
  let ?roots = "map fst (find_roots db (bo_file_path opts) (bo_symbol opts))" and ?limit = "max 1 (min 10 (bo_max_hops opts))"
  let ?hops = "blast_hops db ?limit 1 ?roots (set ?roots)"
  have start: "set ?roots = at_distance (callers_of db) (set ?roots) 0" by simp
  note res = blast_hops_result [OF start, of ?limit, unfolded within_steps.simps(1) One_nat_def [symmetric]]
  have ids: "hop_ids h ?hops = (if 1 \<le> h \<and> h \<le> ?limit then at_distance (callers_of db) (set ?roots) h else {})" for h
    using res by (simp add: Suc_le_eq)
  have all: "af_symbol_id ` set (concat (map hl_symbols ?hops)) = (\<Union>k \<in> {1..?limit}. hop_ids k ?hops)"
  proof
    show "af_symbol_id ` set (concat (map hl_symbols ?hops)) \<subseteq> (\<Union>k \<in> {1..?limit}. hop_ids k ?hops)"
    proof
      fix i
      assume "i \<in> af_symbol_id ` set (concat (map hl_symbols ?hops))"
      then obtain l where "l \<in> set ?hops" "i \<in> af_symbol_id ` set (hl_symbols l)" by auto
      then have "i \<in> hop_ids (hl_hop l) ?hops" by (auto simp: hop_ids_def)
      then show "i \<in> (\<Union>k \<in> {1..?limit}. hop_ids k ?hops)" using ids [of "hl_hop l"] by (auto split: if_splits)
    qed
    show "(\<Union>k \<in> {1..?limit}. hop_ids k ?hops) \<subseteq> af_symbol_id ` set (concat (map hl_symbols ?hops))"
      by (auto simp: hop_ids_def)
  qed
  have distinct: "distinct (map af_symbol_id (concat (map hl_symbols ?hops)))" using res by blast
  then have "length (concat (map hl_symbols ?hops)) = card (\<Union>k \<in> {1..?limit}. hop_ids k ?hops)"
    unfolding all [symmetric] set_map [symmetric] by (simp only: distinct_card length_map)
  moreover have "{Suc 0..m} \<inter> {x. x \<le> m} = {Suc 0..m}" for m by auto
  ultimately show ?thesis using False ids distinct by (simp add: get_blastradius_def Let_def)
qed

section \<open>Call graphs\<close>

datatype cg_direction = Inbound | Outbound | Both

record cg_node =
  cn_symbol_id :: string
  cn_name :: string
  cn_file_path :: string

record cg_edge =
  cg_caller :: cg_node
  cg_callee :: cg_node
  cg_source :: string
  cg_depth :: nat

record call_graph =
  gr_root :: cg_node
  gr_edges :: "cg_edge list"
  gr_nodes :: "cg_node list"

datatype edge_side = Caller | Callee

definition query_edges_by_side :: "index_db \<Rightarrow> edge_side \<Rightarrow> string \<Rightarrow> nat \<Rightarrow> cg_edge list" where
  "query_edges_by_side db side i depth =
     [\<lparr>cg_caller = \<lparr>cn_symbol_id = ce_caller_id e, cn_name = sy_name c1, cn_file_path = ce_caller_file e\<rparr>,
       cg_callee = \<lparr>cn_symbol_id = ce_callee_id e, cn_name = sy_name c2, cn_file_path = ce_callee_file e\<rparr>,
       cg_source = ce_source e, cg_depth = depth\<rparr>.
       e \<leftarrow> db_edges db, (case side of Caller \<Rightarrow> ce_caller_id e | Callee \<Rightarrow> ce_callee_id e) = i,
       c1 \<leftarrow> db_symbols db, sy_id c1 = ce_caller_id e, c2 \<leftarrow> db_symbols db, sy_id c2 = ce_callee_id e]"

definition fetch_edges :: "index_db \<Rightarrow> string \<Rightarrow> cg_direction \<Rightarrow> nat \<Rightarrow> cg_edge list" where
  "fetch_edges db i dir depth =
     (if dir = Outbound \<or> dir = Both then query_edges_by_side db Caller i depth else [])
     @ (if dir = Inbound \<or> dir = Both then query_edges_by_side db Callee i depth else [])"

record walk_state =
  wk_queue :: "(string \<times> nat) list"
  wk_visited :: "string set"
  wk_nodes :: "cg_node list"
  wk_edges :: "cg_edge list"

definition next_id :: "cg_direction \<Rightarrow> cg_edge \<Rightarrow> string set \<Rightarrow> string" where
  "next_id dir e visited =
     (case dir of
        Inbound \<Rightarrow> cn_symbol_id (cg_caller e)
      | Outbound \<Rightarrow> cn_symbol_id (cg_callee e)
      | Both \<Rightarrow> if cn_symbol_id (cg_callee e) \<notin> visited then cn_symbol_id (cg_callee e) else cn_symbol_id (cg_caller e))"

definition expand_edge :: "cg_direction \<Rightarrow> nat \<Rightarrow> cg_edge \<Rightarrow> walk_state \<Rightarrow> walk_state" where
  "expand_edge dir depth e s =
     (let i = next_id dir e (wk_visited s)
      in if i \<in> wk_visited s then s
         else s\<lparr>wk_visited := insert i (wk_visited s),
                wk_nodes := wk_nodes s @ [if i = cn_symbol_id (cg_caller e) then cg_caller e else cg_callee e],
                wk_queue := wk_queue s @ [(i, depth + 1)]\<rparr>)"

definition push_edge :: "cg_direction \<Rightarrow> nat \<Rightarrow> cg_edge \<Rightarrow> walk_state \<Rightarrow> walk_state" where
  "push_edge dir depth e s = (expand_edge dir depth e s)\<lparr>wk_edges := wk_edges s @ [e]\<rparr>"

text \<open>One turn of the loop, for a queue that is not empty.\<close>

definition walk_turn :: "index_db \<Rightarrow> cg_direction \<Rightarrow> nat \<Rightarrow> walk_state \<Rightarrow> walk_state" where
  "walk_turn db dir max_depth s =
     (case hd (wk_queue s) of (i, depth) \<Rightarrow>
        let s' = s\<lparr>wk_queue := tl (wk_queue s)\<rparr>
        in if max_depth \<le> depth then s'
           else fold (push_edge dir depth) (fetch_edges db i dir (depth + 1)) s')"

text \<open>Each turn takes one entry off the queue and puts one on for each symbol that it visits first.\<close>

definition walk_measure :: "index_db \<Rightarrow> walk_state \<Rightarrow> nat" where
  "walk_measure db s = card (symbol_ids db - wk_visited s) + length (wk_queue s)"

lemma fetched_ids:
  "e \<in> set (fetch_edges db i dir depth) \<Longrightarrow> cn_symbol_id (cg_caller e) \<in> symbol_ids db \<and> cn_symbol_id (cg_callee e) \<in> symbol_ids db"
  by (auto simp: fetch_edges_def query_edges_by_side_def symbol_ids_def image_iff split: if_splits) (metis+)

lemma finite_symbol_ids [simp]: "finite (symbol_ids db)"
  by (simp add: symbol_ids_def)

lemma push_edge_measure:
  assumes "cn_symbol_id (cg_caller e) \<in> symbol_ids db" "cn_symbol_id (cg_callee e) \<in> symbol_ids db"
  shows "walk_measure db (push_edge dir depth e s) = walk_measure db s"
proof -
  let ?i = "next_id dir e (wk_visited s)"
  have i: "?i \<in> symbol_ids db" using assms by (cases dir) (auto simp: next_id_def)
  show ?thesis
  proof (cases "?i \<in> wk_visited s")
    case False
    have "symbol_ids db - wk_visited s = insert ?i (symbol_ids db - insert ?i (wk_visited s))" using i False by auto
    then have "card (symbol_ids db - wk_visited s) = Suc (card (symbol_ids db - insert ?i (wk_visited s)))"
      by (metis Diff_iff card_insert_disjoint finite_Diff finite_symbol_ids insertI1)
    then show ?thesis using False by (simp add: push_edge_def expand_edge_def Let_def walk_measure_def)
  qed (simp add: push_edge_def expand_edge_def Let_def walk_measure_def)
qed

lemma fold_push_edge_measure:
  "(\<And>e. e \<in> set es \<Longrightarrow> cn_symbol_id (cg_caller e) \<in> symbol_ids db \<and> cn_symbol_id (cg_callee e) \<in> symbol_ids db)
     \<Longrightarrow> walk_measure db (fold (push_edge dir depth) es s) = walk_measure db s"
  by (induction es arbitrary: s) (simp_all add: push_edge_measure)

lemma walk_turn_measure: "wk_queue s \<noteq> [] \<Longrightarrow> walk_measure db (walk_turn db dir max_depth s) < walk_measure db s"
proof -
  assume "wk_queue s \<noteq> []"
  then have "walk_measure db (s\<lparr>wk_queue := tl (wk_queue s)\<rparr>) < walk_measure db s" by (simp add: walk_measure_def)
  then show ?thesis
    by (cases "hd (wk_queue s)") (simp add: walk_turn_def Let_def fold_push_edge_measure fetched_ids)
qed

function walk :: "index_db \<Rightarrow> cg_direction \<Rightarrow> nat \<Rightarrow> walk_state \<Rightarrow> walk_state" where
  "walk db dir max_depth s = (if wk_queue s = [] then s else walk db dir max_depth (walk_turn db dir max_depth s))"
  by pat_completeness auto
termination by (relation "measure (\<lambda>(db, _, _, s). walk_measure db s)") (auto intro: walk_turn_measure)

declare walk.simps [simp del]

section \<open>Finding the start\<close>

text \<open>\<open>rsplitn(3, ':')\<close>: the last piece, the one before and the rest, if there are two colons.\<close>

definition rsplit_colon :: "string \<Rightarrow> (string \<times> string) option" where
  "rsplit_colon s =
     (if CHR '':'' \<in> set s
      then Some (rev (tl (dropWhile (\<lambda>c. c \<noteq> CHR '':'') (rev s))), rev (takeWhile (\<lambda>c. c \<noteq> CHR '':'') (rev s)))
      else None)"

definition rsplitn_3_colon :: "string \<Rightarrow> (string \<times> string \<times> string) option" where
  "rsplitn_3_colon s =
     (case rsplit_colon s of
        None \<Rightarrow> None
      | Some (r, char_str) \<Rightarrow> map_option (\<lambda>(file, line_str). (char_str, line_str, file)) (rsplit_colon r))"

definition narrower :: "symbol_row \<Rightarrow> symbol_row \<Rightarrow> bool" where
  "narrower a b \<longleftrightarrow>
     (let la = sy_end_line a - sy_start_line a; lb = sy_end_line b - sy_start_line b
      in la < lb \<or> la = lb \<and> sy_end_char a - sy_start_char a < sy_end_char b - sy_start_char b)"

definition narrowest :: "symbol_row list \<Rightarrow> symbol_row option" where
  "narrowest rows = fold (\<lambda>r best. case best of None \<Rightarrow> Some r | Some b \<Rightarrow> if narrower r b then Some r else Some b) rows None"

definition node_of :: "symbol_row \<Rightarrow> cg_node" where
  "node_of s = \<lparr>cn_symbol_id = sy_id s, cn_name = sy_name s, cn_file_path = sy_file_path s\<rparr>"

definition try_resolve_by_location :: "index_db \<Rightarrow> string \<Rightarrow> cg_node option" where
  "try_resolve_by_location db symbol =
     (case rsplitn_3_colon symbol of
        None \<Rightarrow> None
      | Some (char_str, line_str, file) \<Rightarrow>
          (case (from_str_radix (2 ^ 32) 10 line_str, from_str_radix (2 ^ 32) 10 char_str) of
             (Some line, Some char_pos) \<Rightarrow>
               map_option node_of
                 (narrowest (filter (\<lambda>s. sy_file_path s = file \<and> sy_start_line s \<le> int line \<and> int line \<le> sy_end_line s
                    \<and> sy_start_char s \<le> int char_pos) (db_symbols db)))
           | _ \<Rightarrow> None))"

definition resolve_by_name :: "index_db \<Rightarrow> string \<Rightarrow> string + cg_node" where
  "resolve_by_name db name =
     (case find (\<lambda>s. symbol_matches (sy_file_path s) s name) (db_symbols db) of
        Some s \<Rightarrow> Inr (node_of s)
      | None \<Rightarrow> Inl (''symbol not found: '' @ name))"

definition resolve_symbol :: "index_db \<Rightarrow> string \<Rightarrow> string + cg_node" where
  "resolve_symbol db symbol =
     (case try_resolve_by_location db symbol of Some n \<Rightarrow> Inr n | None \<Rightarrow> resolve_by_name db symbol)"

definition start_walk :: "cg_node \<Rightarrow> walk_state" where
  "start_walk root =
     \<lparr>wk_queue = [(cn_symbol_id root, 0)], wk_visited = {cn_symbol_id root}, wk_nodes = [root], wk_edges = []\<rparr>"

definition get_callgraph :: "index_db \<Rightarrow> string \<Rightarrow> cg_direction \<Rightarrow> nat \<Rightarrow> string + call_graph" where
  "get_callgraph db symbol dir depth =
     (let max_depth = max 1 (min 5 depth)
      in case resolve_symbol db symbol of
           Inl e \<Rightarrow> Inl e
         | Inr root \<Rightarrow>
             (let s = walk db dir max_depth (start_walk root)
              in Inr \<lparr>gr_root = root, gr_edges = wk_edges s, gr_nodes = wk_nodes s\<rparr>))"

end
