(* ===== verification/Call_Walk.thy ===== *)
theory Call_Walk
  imports Call_Graph
begin

text \<open>The walk of \<open>get_callgraph\<close> visits the symbols level by level: what it returns, in terms of distances.\<close>

section \<open>Neighbours\<close>

definition calls :: "index_db \<Rightarrow> (string \<times> string) set" where
  "calls db = {(ce_caller_id e, ce_callee_id e) |e. e \<in> set (db_edges db)} \<inter> symbol_ids db \<times> symbol_ids db"

definition next_symbols :: "index_db \<Rightarrow> cg_direction \<Rightarrow> string \<Rightarrow> string set" where
  "next_symbols db dir i =
     (if dir = Inbound then {} else {j. (i, j) \<in> calls db}) \<union> (if dir = Outbound then {} else {j. (j, i) \<in> calls db})"

text \<open>The end of an edge that the walk goes to from \<open>i\<close>.\<close>

definition far_end :: "cg_direction \<Rightarrow> string \<Rightarrow> cg_edge \<Rightarrow> string" where
  "far_end dir i e =
     (case dir of
        Inbound \<Rightarrow> cn_symbol_id (cg_caller e)
      | Outbound \<Rightarrow> cn_symbol_id (cg_callee e)
      | Both \<Rightarrow> if cn_symbol_id (cg_caller e) = i then cn_symbol_id (cg_callee e) else cn_symbol_id (cg_caller e))"

definition at_edge :: "cg_direction \<Rightarrow> string \<Rightarrow> cg_edge \<Rightarrow> bool" where
  "at_edge dir i e \<longleftrightarrow> dir = Both \<longrightarrow> cn_symbol_id (cg_caller e) = i \<or> cn_symbol_id (cg_callee e) = i"

lemma query_ends:
  "(\<lambda>e. (cn_symbol_id (cg_caller e), cn_symbol_id (cg_callee e))) ` set (query_edges_by_side db side i depth)
    = {(a, b) \<in> calls db. (case side of Caller \<Rightarrow> a | Callee \<Rightarrow> b) = i}"
proof
  show "(\<lambda>e. (cn_symbol_id (cg_caller e), cn_symbol_id (cg_callee e))) ` set (query_edges_by_side db side i depth)
    \<subseteq> {(a, b) \<in> calls db. (case side of Caller \<Rightarrow> a | Callee \<Rightarrow> b) = i}"
    by (cases side) (auto simp: query_edges_by_side_def calls_def symbol_ids_def, (metis image_eqI)+)
  show "{(a, b) \<in> calls db. (case side of Caller \<Rightarrow> a | Callee \<Rightarrow> b) = i}
    \<subseteq> (\<lambda>e. (cn_symbol_id (cg_caller e), cn_symbol_id (cg_callee e))) ` set (query_edges_by_side db side i depth)"
  proof
    fix p
    assume "p \<in> {(a, b) \<in> calls db. (case side of Caller \<Rightarrow> a | Callee \<Rightarrow> b) = i}"
    then obtain a b where p: "p = (a, b)" and ab: "(a, b) \<in> calls db" "(case side of Caller \<Rightarrow> a | Callee \<Rightarrow> b) = i" by auto
    then obtain e c1 c2 where e: "e \<in> set (db_edges db)" "ce_caller_id e = a" "ce_callee_id e = b"
      "c1 \<in> set (db_symbols db)" "sy_id c1 = a" "c2 \<in> set (db_symbols db)" "sy_id c2 = b"
      by (auto simp: calls_def symbol_ids_def)
    let ?e = "\<lparr>cg_caller = \<lparr>cn_symbol_id = a, cn_name = sy_name c1, cn_file_path = ce_caller_file e\<rparr>,
       cg_callee = \<lparr>cn_symbol_id = b, cn_name = sy_name c2, cn_file_path = ce_callee_file e\<rparr>,
       cg_source = ce_source e, cg_depth = depth\<rparr>"
    have "?e \<in> set (query_edges_by_side db side i depth)"
      using ab(2) e by (cases side) (force simp: query_edges_by_side_def)+
    then show "p \<in> (\<lambda>e. (cn_symbol_id (cg_caller e), cn_symbol_id (cg_callee e))) ` set (query_edges_by_side db side i depth)"
      by (rule rev_image_eqI) (simp add: p)
  qed
qed

lemma query_far:
  "far_end Outbound i ` set (query_edges_by_side db Caller i depth) = {j. (i, j) \<in> calls db}"
  "far_end Inbound i ` set (query_edges_by_side db Callee i depth) = {j. (j, i) \<in> calls db}"
  "far_end Both i ` set (query_edges_by_side db Caller i depth) = {j. (i, j) \<in> calls db}"
  "far_end Both i ` set (query_edges_by_side db Callee i depth) = {j. (j, i) \<in> calls db}"
proof -
  let ?ends = "\<lambda>e. (cn_symbol_id (cg_caller e), cn_symbol_id (cg_callee e))"
  have caller: "f ` set (query_edges_by_side db Caller i depth) = g ` {(a, b) \<in> calls db. a = i}"
    if "\<And>e. f e = g (?ends e)" for f :: "cg_edge \<Rightarrow> string" and g
    using arg_cong [OF query_ends [of db Caller i depth], of "image g"] that by (simp add: image_image)
  have callee: "f ` set (query_edges_by_side db Callee i depth) = g ` {(a, b) \<in> calls db. b = i}"
    if "\<And>e. f e = g (?ends e)" for f :: "cg_edge \<Rightarrow> string" and g
    using arg_cong [OF query_ends [of db Callee i depth], of "image g"] that by (simp add: image_image)
  show "far_end Outbound i ` set (query_edges_by_side db Caller i depth) = {j. (i, j) \<in> calls db}"
    by (subst caller [of _ snd]) (auto simp: far_end_def image_iff)
  show "far_end Inbound i ` set (query_edges_by_side db Callee i depth) = {j. (j, i) \<in> calls db}"
    by (subst callee [of _ fst]) (auto simp: far_end_def image_iff)
  show "far_end Both i ` set (query_edges_by_side db Caller i depth) = {j. (i, j) \<in> calls db}"
    by (subst caller [of _ "\<lambda>(a, b). if a = i then b else a"]) (auto simp: far_end_def image_iff)
  show "far_end Both i ` set (query_edges_by_side db Callee i depth) = {j. (j, i) \<in> calls db}"
    by (subst callee [of _ "\<lambda>(a, b). if a = i then b else a"]) (auto simp: far_end_def image_iff)
qed

lemma fetch_far: "far_end dir i ` set (fetch_edges db i dir depth) = next_symbols db dir i"
  by (cases dir) (simp_all add: fetch_edges_def next_symbols_def image_Un query_far)

lemma fetch_at: "e \<in> set (fetch_edges db i dir depth) \<Longrightarrow> at_edge dir i e"
  by (auto simp: fetch_edges_def query_edges_by_side_def at_edge_def split: if_splits)

section \<open>One turn\<close>

lemma push_edge_visits:
  assumes "i \<in> wk_visited s" "at_edge dir i e"
  shows "push_edge dir d e s =
    (if far_end dir i e \<in> wk_visited s then s\<lparr>wk_edges := wk_edges s @ [e]\<rparr>
     else s\<lparr>wk_visited := insert (far_end dir i e) (wk_visited s),
            wk_nodes := wk_nodes s @ [if far_end dir i e = cn_symbol_id (cg_caller e) then cg_caller e else cg_callee e],
            wk_queue := wk_queue s @ [(far_end dir i e, d + 1)], wk_edges := wk_edges s @ [e]\<rparr>)"
  using assms by (cases dir) (auto simp: push_edge_def expand_edge_def next_id_def far_end_def at_edge_def Let_def)

lemma far_node: "cn_symbol_id (if far_end dir i e = cn_symbol_id (cg_caller e) then cg_caller e else cg_callee e) = far_end dir i e"
  by (cases dir) (auto simp: far_end_def)

lemma fold_push_edge:
  assumes "i \<in> wk_visited s" "\<And>e. e \<in> set es \<Longrightarrow> at_edge dir i e"
  shows "\<exists>new. distinct new \<and> set new = far_end dir i ` set es - wk_visited s
    \<and> wk_queue (fold (push_edge dir d) es s) = wk_queue s @ map (\<lambda>x. (x, d + 1)) new
    \<and> map cn_symbol_id (wk_nodes (fold (push_edge dir d) es s)) = map cn_symbol_id (wk_nodes s) @ new
    \<and> prefix (wk_nodes s) (wk_nodes (fold (push_edge dir d) es s))
    \<and> wk_visited (fold (push_edge dir d) es s) = wk_visited s \<union> far_end dir i ` set es
    \<and> wk_edges (fold (push_edge dir d) es s) = wk_edges s @ es"
  using assms
proof (induction es arbitrary: s)
  case (Cons e es)
  let ?s = "push_edge dir d e s" and ?f = "far_end dir i e"
  note push = push_edge_visits [OF Cons.prems(1), of dir e d] 
  have at: "at_edge dir i e" using Cons.prems(2) by simp
  have "i \<in> wk_visited ?s" using Cons.prems(1) at by (simp add: push)
  from Cons.IH [OF this] Cons.prems(2) obtain new where new: "distinct new" "set new = far_end dir i ` set es - wk_visited ?s"
    "wk_queue (fold (push_edge dir d) es ?s) = wk_queue ?s @ map (\<lambda>x. (x, d + 1)) new"
    "map cn_symbol_id (wk_nodes (fold (push_edge dir d) es ?s)) = map cn_symbol_id (wk_nodes ?s) @ new"
    "prefix (wk_nodes ?s) (wk_nodes (fold (push_edge dir d) es ?s))"
    "wk_visited (fold (push_edge dir d) es ?s) = wk_visited ?s \<union> far_end dir i ` set es"
    "wk_edges (fold (push_edge dir d) es ?s) = wk_edges ?s @ es" by auto
  show ?case
  proof (cases "?f \<in> wk_visited s")
    case True
    then have "?s = s\<lparr>wk_edges := wk_edges s @ [e]\<rparr>" using push at by simp
    then show ?thesis using True new by (intro exI [of _ new]) auto
  next
    case False
    then have s: "?s = s\<lparr>wk_visited := insert ?f (wk_visited s),
            wk_nodes := wk_nodes s @ [if ?f = cn_symbol_id (cg_caller e) then cg_caller e else cg_callee e],
            wk_queue := wk_queue s @ [(?f, d + 1)], wk_edges := wk_edges s @ [e]\<rparr>" using push at by simp
    have "map cn_symbol_id (wk_nodes ?s) = map cn_symbol_id (wk_nodes s) @ [?f]"
      using far_node [of dir i e] by (simp add: s)
    moreover have "prefix (wk_nodes s) (wk_nodes (fold (push_edge dir d) es ?s))"
      using new(5) unfolding s by (auto simp: prefix_def)
    ultimately show ?thesis using False new by (intro exI [of _ "?f # new"]) (auto simp: s)
  qed
qed auto

section \<open>Levels\<close>

definition level_inv ::
  "index_db \<Rightarrow> cg_direction \<Rightarrow> nat \<Rightarrow> cg_node \<Rightarrow> nat \<Rightarrow> string list \<Rightarrow> string list \<Rightarrow> walk_state \<Rightarrow> bool" where
  "level_inv db dir m root d qs1 qs2 s \<longleftrightarrow>
     (let N = next_symbols db dir; L = at_distance N {cn_symbol_id root}; W = within_steps N {cn_symbol_id root}
      in wk_queue s = map (\<lambda>x. (x, d)) qs1 @ map (\<lambda>x. (x, Suc d)) qs2
         \<and> d \<le> m \<and> distinct qs1 \<and> distinct qs2 \<and> set qs1 \<subseteq> L d \<and> set qs2 \<subseteq> L (Suc d) \<and> (d = m \<longrightarrow> qs2 = [])
         \<and> wk_visited s = W d \<union> set qs2
         \<and> (d < m \<longrightarrow> L (Suc d) \<subseteq> set qs2 \<union> \<Union> (N ` set qs1))
         \<and> distinct (map cn_symbol_id (wk_nodes s)) \<and> cn_symbol_id ` set (wk_nodes s) = wk_visited s \<and> prefix [root] (wk_nodes s)
         \<and> (\<forall>e. e \<in> set (wk_edges s)
              \<longleftrightarrow> (\<exists>n \<le> d. n < m \<and> (\<exists>i \<in> L n. (n = d \<longrightarrow> i \<notin> set qs1) \<and> e \<in> set (fetch_edges db i dir (Suc n))))))"

lemma level_inv_rotate:
  assumes inv: "level_inv db dir m root d [] qs2 s" and ne: "qs2 \<noteq> []"
  shows "level_inv db dir m root (Suc d) qs2 [] s"
proof -
  let ?N = "next_symbols db dir" and ?A = "{cn_symbol_id root}"
  have d: "d < m" using inv ne by (auto simp: level_inv_def Let_def order_le_less)
  then have level: "set qs2 = at_distance ?N ?A (Suc d)" using inv by (auto simp: level_inv_def Let_def)
  have "at_distance ?N ?A (Suc (Suc d)) \<subseteq> \<Union> (?N ` set qs2)" unfolding level by auto
  moreover have "wk_visited s = within_steps ?N ?A (Suc d)"
    unfolding within_steps_Suc level [symmetric] using inv by (simp add: level_inv_def Let_def)
  moreover have "(\<exists>n \<le> Suc d. n < m \<and> (\<exists>i \<in> at_distance ?N ?A n. (n = Suc d \<longrightarrow> i \<notin> set qs2) \<and> e \<in> set (fetch_edges db i dir (Suc n))))
      = (\<exists>n \<le> d. n < m \<and> (\<exists>i \<in> at_distance ?N ?A n. e \<in> set (fetch_edges db i dir (Suc n))))" for e
    unfolding level by (metis le_Suc_eq Suc_n_not_le_n)
  ultimately show ?thesis using inv d level by (simp add: level_inv_def Let_def del: within_steps.simps at_distance.simps)
qed

lemma level_inv_turn:
  assumes inv: "level_inv db dir m root d (x # xs) qs2 s"
  shows "\<exists>qs2'. level_inv db dir m root d xs qs2' (walk_turn db dir m s)"
proof -
  let ?N = "next_symbols db dir" and ?A = "{cn_symbol_id root}"
  let ?s = "s\<lparr>wk_queue := map (\<lambda>x. (x, d)) xs @ map (\<lambda>x. (x, Suc d)) qs2\<rparr>"
  have queue: "wk_queue s = (x, d) # map (\<lambda>x. (x, d)) xs @ map (\<lambda>x. (x, Suc d)) qs2"
    using inv by (simp add: level_inv_def Let_def)
  show ?thesis
  proof (cases "d = m")
    case True
    then have "walk_turn db dir m s = ?s" using queue by (simp add: walk_turn_def)
    then show ?thesis using inv True by (intro exI [of _ "[]"]) (auto simp: level_inv_def Let_def)
  next
    case False
    then have d: "d < m" using inv by (auto simp: level_inv_def Let_def)
    let ?es = "fetch_edges db x dir (d + 1)"
    have turn: "walk_turn db dir m s = fold (push_edge dir d) ?es ?s" using queue d by (simp add: walk_turn_def)
    have x: "x \<in> at_distance ?N ?A d" "x \<notin> set xs" using inv by (auto simp: level_inv_def Let_def)
    have "x \<in> wk_visited ?s" using x(1) at_distance_within [of ?N ?A d] inv by (auto simp: level_inv_def Let_def)
    moreover have "at_edge dir x e" if "e \<in> set ?es" for e using that by (rule fetch_at)
    ultimately have "\<exists>new. distinct new \<and> set new = ?N x - wk_visited s
      \<and> wk_queue (walk_turn db dir m s) = map (\<lambda>x. (x, d)) xs @ map (\<lambda>x. (x, Suc d)) (qs2 @ new)
      \<and> map cn_symbol_id (wk_nodes (walk_turn db dir m s)) = map cn_symbol_id (wk_nodes s) @ new
      \<and> prefix (wk_nodes s) (wk_nodes (walk_turn db dir m s))
      \<and> wk_visited (walk_turn db dir m s) = wk_visited s \<union> ?N x
      \<and> wk_edges (walk_turn db dir m s) = wk_edges s @ ?es"
      unfolding turn using fold_push_edge [of x ?s ?es dir d] by (simp add: fetch_far)
    then    obtain new where new: "distinct new" "set new = ?N x - wk_visited s"
      "wk_queue (walk_turn db dir m s) = map (\<lambda>x. (x, d)) xs @ map (\<lambda>x. (x, Suc d)) (qs2 @ new)"
      "map cn_symbol_id (wk_nodes (walk_turn db dir m s)) = map cn_symbol_id (wk_nodes s) @ new"
      "prefix (wk_nodes s) (wk_nodes (walk_turn db dir m s))"
      "wk_visited (walk_turn db dir m s) = wk_visited s \<union> ?N x"
      "wk_edges (walk_turn db dir m s) = wk_edges s @ ?es" by (elim exE conjE)
    have vis: "wk_visited s = within_steps ?N ?A d \<union> set qs2" using inv by (simp add: level_inv_def Let_def)
    have q2: "distinct (qs2 @ new)" using inv new(1,2) vis by (auto simp: level_inv_def Let_def)
    have lvl: "set (qs2 @ new) \<subseteq> at_distance ?N ?A (Suc d)"
      using inv new(2) x(1) vis by (auto simp: level_inv_def Let_def)
    have rest: "at_distance ?N ?A (Suc d) \<subseteq> set (qs2 @ new) \<union> \<Union> (?N ` set xs)"
      using inv d new(2) vis at_distance_disjoint [of d "Suc d" ?N ?A]
      by (auto simp: level_inv_def Let_def simp del: at_distance.simps)
    have visited: "wk_visited (walk_turn db dir m s) = within_steps ?N ?A d \<union> set (qs2 @ new)"
      using new(2,6) vis by auto
    have nodes: "distinct (map cn_symbol_id (wk_nodes (walk_turn db dir m s)))"
      "cn_symbol_id ` set (wk_nodes (walk_turn db dir m s)) = wk_visited (walk_turn db dir m s)"
      "prefix [root] (wk_nodes (walk_turn db dir m s))"
    proof -
      have old: "distinct (map cn_symbol_id (wk_nodes s))" "cn_symbol_id ` set (wk_nodes s) = wk_visited s" "prefix [root] (wk_nodes s)"
        using inv by (simp_all add: level_inv_def Let_def)
      show "distinct (map cn_symbol_id (wk_nodes (walk_turn db dir m s)))"
        unfolding new(4) using old(1,2) new(1,2) by auto
      have "cn_symbol_id ` set (wk_nodes (walk_turn db dir m s)) = set (map cn_symbol_id (wk_nodes s) @ new)"
        unfolding new(4) [symmetric] by simp
      then show "cn_symbol_id ` set (wk_nodes (walk_turn db dir m s)) = wk_visited (walk_turn db dir m s)"
        using old(2) new(2,6) by auto
      show "prefix [root] (wk_nodes (walk_turn db dir m s))" using old(3) new(5) by (rule prefix_order.trans)
    qed
    have edges: "e \<in> set (wk_edges (walk_turn db dir m s))
        \<longleftrightarrow> (\<exists>n \<le> d. n < m \<and> (\<exists>i \<in> at_distance ?N ?A n. (n = d \<longrightarrow> i \<notin> set xs) \<and> e \<in> set (fetch_edges db i dir (Suc n))))" for e
    proof -
      have "e \<in> set (wk_edges s)
          \<longleftrightarrow> (\<exists>n \<le> d. n < m \<and> (\<exists>i \<in> at_distance ?N ?A n. (n = d \<longrightarrow> i \<notin> set (x # xs)) \<and> e \<in> set (fetch_edges db i dir (Suc n))))"
        using inv unfolding level_inv_def Let_def by blast
      then show ?thesis unfolding new(7) set_append Un_iff using x d by (metis Suc_eq_plus1 le_refl set_ConsD list.set_intros(2))
    qed
    have "d \<le> m" "distinct xs" "set xs \<subseteq> at_distance ?N ?A d" using inv by (auto simp: level_inv_def Let_def)
    then show ?thesis
      unfolding level_inv_def Let_def using new(3) q2 lvl rest visited nodes edges d
      by (intro exI [of _ "qs2 @ new"] conjI) simp_all
  qed
qed

lemma walk_levels:
  assumes "level_inv db dir m root d qs1 qs2 s"
  shows "\<exists>d'. level_inv db dir m root d' [] [] (walk db dir m s)"
  using assms
proof (induction db dir m s arbitrary: d qs1 qs2 rule: walk.induct)
  case (1 db dir m s)
  show ?case
  proof (cases "wk_queue s = []")
    case True
    then have "qs1 = []" "qs2 = []" using 1(2) by (auto simp: level_inv_def Let_def)
    then show ?thesis using 1(2) True by (auto simp: walk.simps)
  next
    case False
    have "\<exists>d x xs qs2. level_inv db dir m root d (x # xs) qs2 s"
    proof (cases qs1)
      case Nil
      then have "qs2 \<noteq> []" using False 1(2) by (auto simp: level_inv_def Let_def)
      moreover from this have "level_inv db dir m root (Suc d) qs2 [] s" using level_inv_rotate 1(2) Nil by blast
      ultimately show ?thesis by (metis neq_Nil_conv)
    next
      case (Cons x xs)
      then show ?thesis using 1(2) by blast
    qed
    then obtain d' xs qs2' where "level_inv db dir m root d' xs qs2' (walk_turn db dir m s)"
      using level_inv_turn by blast
    from 1(1) [OF False this] False show ?thesis by (simp add: walk.simps [of db dir m s])
  qed
qed

text \<open>C40. A symbol that resolves to a root has a call graph whose nodes are the root, first, and every symbol within
  the clamped depth of it in the chosen direction, each once, and whose edges are all edges at the
  symbols that are nearer than the depth, each with the distance at which it was found; the walk ends on
  cycles too. It is an error exactly when neither the position nor the name resolves.\<close>

theorem callgraph_correct:
  "(let N = next_symbols db dir; m = max 1 (min 5 depth)
    in case get_callgraph db symbol dir depth of
         Inl _ \<Rightarrow> try_resolve_by_location db symbol = None
           \<and> find (\<lambda>s. symbol_matches (sy_file_path s) s symbol) (db_symbols db) = None
       | Inr g \<Rightarrow>
           distinct (map cn_symbol_id (gr_nodes g)) \<and> prefix [gr_root g] (gr_nodes g)
           \<and> cn_symbol_id ` set (gr_nodes g) = within_steps N {cn_symbol_id (gr_root g)} m
           \<and> set (gr_edges g)
             = (\<Union>n \<in> {..<m}. \<Union>i \<in> at_distance N {cn_symbol_id (gr_root g)} n. set (fetch_edges db i dir (Suc n))))"
proof (cases "resolve_symbol db symbol")
  case (Inl e)
  then show ?thesis
    by (auto simp: get_callgraph_def Let_def resolve_symbol_def resolve_by_name_def split: option.splits)
next
  case (Inr root)
  let ?N = "next_symbols db dir" and ?A = "{cn_symbol_id root}" and ?m = "max 1 (min 5 depth)"
  have "level_inv db dir ?m root 0 [cn_symbol_id root] [] (start_walk root)"
    by (auto simp: level_inv_def start_walk_def Let_def)
  from walk_levels [OF this] obtain d where inv: "level_inv db dir ?m root d [] [] (walk db dir ?m (start_walk root))" by blast
  have d: "d \<le> ?m" using inv by (simp add: level_inv_def Let_def)
  have stop: "within_steps ?N ?A n = within_steps ?N ?A d" if "d < ?m" "d \<le> n" for n
    using inv that(1) within_steps_stop [OF _ that(2), of ?N ?A] unfolding level_inv_def Let_def by simp
  have w: "within_steps ?N ?A ?m = within_steps ?N ?A d" 
  proof (cases "d = ?m")
    case False
    then have "d < ?m" using d by (rule le_neq_implies_less [rotated])
    from stop [OF this d] show ?thesis .
  qed (simp only:)
  have none: "at_distance ?N ?A n = {}" if "d < n" "n < ?m" for n
  proof -
    have "within_steps ?N ?A n = within_steps ?N ?A d" using stop that less_trans less_imp_le by metis
    then show ?thesis using at_distance_within [of ?N ?A n] at_distance_disjoint [OF that(1), of ?N ?A] by blast
  qed
  have near: "n \<le> d" if "n < ?m" "i \<in> at_distance ?N ?A n" for n i
    using none [of n] that by (metis empty_iff not_le)
  have "set (wk_edges (walk db dir ?m (start_walk root)))
      = (\<Union>n \<in> {..<?m}. \<Union>i \<in> at_distance ?N ?A n. set (fetch_edges db i dir (Suc n)))" (is "?edges = ?all")
  proof (intro set_eqI)
    fix e
    have "e \<in> ?edges \<longleftrightarrow> (\<exists>n \<le> d. n < ?m \<and> (\<exists>i \<in> at_distance ?N ?A n. e \<in> set (fetch_edges db i dir (Suc n))))"
      using inv unfolding level_inv_def Let_def by simp
    also have "\<dots> \<longleftrightarrow> e \<in> ?all" unfolding UN_iff lessThan_iff Bex_def using near by blast
    finally show "e \<in> ?edges \<longleftrightarrow> e \<in> ?all" .
  qed
  moreover have "get_callgraph db symbol dir depth = Inr \<lparr>gr_root = root, gr_edges = wk_edges (walk db dir ?m (start_walk root)),
      gr_nodes = wk_nodes (walk db dir ?m (start_walk root))\<rparr>"
    using Inr by (simp add: get_callgraph_def Let_def)
  moreover have "distinct (map cn_symbol_id (wk_nodes (walk db dir ?m (start_walk root))))"
    "prefix [root] (wk_nodes (walk db dir ?m (start_walk root)))"
    "cn_symbol_id ` set (wk_nodes (walk db dir ?m (start_walk root))) = within_steps ?N ?A d"
    using inv by (simp_all add: level_inv_def Let_def)
  ultimately show ?thesis unfolding Let_def by (simp only: sum.case call_graph.simps w simp_thms)
qed

end
