(* ===== verification/Field_Validation.thy ===== *)
theory Field_Validation
  imports Task_Ops
begin

text \<open>
  What a write does to the fields of an entity: \<open>swissarmyhammer-fields/src/validation.rs\<close>, the function
  \<open>validate_for_write\<close> of \<open>swissarmyhammer-entity/src/context.rs\<close>, and the fields that
  \<open>swissarmyhammer-kanban/builtin\<close> declares. The JavaScript engine is an argument, and so is the lookup
  of an attachment in the file system.
\<close>

section \<open>Field definitions\<close>

datatype field_type =
    TextField bool
  | MarkdownField bool
  | DateField
  | NumberField
  | ColorField
  | SelectField "string list"
  | MultiSelectField "string list"
  | ReferenceField string bool
  | AttachmentField nat bool
  | CommentLogField
  | ComputedField string

record field_def =
  fd_name :: string
  fd_type :: field_type
  fd_default :: "json option"
  fd_validate :: "string option"

type_synonym fields = "string \<Rightarrow> json option"

fun is_computed :: "field_type \<Rightarrow> bool" where
  "is_computed (ComputedField d) = True"
| "is_computed _ = False"

text \<open>A failure names the field and has a message.\<close>

datatype validation_error = ValidationFailed string string

section \<open>The validation engine\<close>

record engine =
  en_lookup :: "(string \<Rightarrow> string \<Rightarrow> bool) option"
  en_js :: "string \<Rightarrow> string \<Rightarrow> json \<Rightarrow> fields \<Rightarrow> string + json"
  en_entity_js :: "string \<Rightarrow> string \<Rightarrow> fields \<Rightarrow> string + json"

definition default_reference_validation ::
  "(string \<Rightarrow> string \<Rightarrow> bool) option \<Rightarrow> string \<Rightarrow> bool \<Rightarrow> json \<Rightarrow> json" where
  "default_reference_validation lookup ty multiple v =
     (case lookup of
        None \<Rightarrow> v
      | Some exists \<Rightarrow>
          if multiple
          then (case v of
                  JArray xs \<Rightarrow> JArray (map JString (filter (exists ty) (List.map_filter json_str xs)))
                | JNull \<Rightarrow> JArray []
                | _ \<Rightarrow> v)
          else (case json_str v of
                  Some i \<Rightarrow> (if exists ty i then v else JNull)
                | None \<Rightarrow> v))"

definition validate_field :: "engine \<Rightarrow> field_def \<Rightarrow> json \<Rightarrow> fields \<Rightarrow> string + json" where
  "validate_field en fd v siblings =
     (case fd_validate fd of
        Some body \<Rightarrow> en_js en body (fd_name fd) v siblings
      | None \<Rightarrow>
          (case fd_type fd of
             ReferenceField ty multiple \<Rightarrow> Inr (default_reference_validation (en_lookup en) ty multiple v)
           | _ \<Rightarrow> Inr v))"

definition validate_entity :: "engine \<Rightarrow> string option \<Rightarrow> string \<Rightarrow> entity \<Rightarrow> string + entity" where
  "validate_entity en rule name e =
     (case rule of
        None \<Rightarrow> Inr e
      | Some body \<Rightarrow>
          (case en_entity_js en body name (field_values e) of
             Inl m \<Rightarrow> Inl m
           | Inr (JObject fs) \<Rightarrow> Inr (fold (\<lambda>(k, v). set_field k v) fs e)
           | Inr _ \<Rightarrow> Inr e))"

section \<open>Preparing an entity for the disk\<close>

text \<open>\<open>we_resolve\<close> is \<open>resolve_single_attachment\<close>: it copies a file and answers the stored name, none for a
  value it skips.\<close>

record write_env =
  we_fields :: "string \<Rightarrow> field_def list"
  we_rule :: "string \<Rightarrow> string option"
  we_resolve :: "string \<Rightarrow> nat \<Rightarrow> json \<Rightarrow> validation_error + string option"
  we_engine :: "engine option"

fun resolve_attachments ::
  "(json \<Rightarrow> validation_error + string option) \<Rightarrow> json list \<Rightarrow> validation_error + json list" where
  "resolve_attachments resolve [] = Inr []"
| "resolve_attachments resolve (v # vs) =
     (case resolve v of
        Inl err \<Rightarrow> Inl err
      | Inr stored \<Rightarrow>
          (case resolve_attachments resolve vs of
             Inl err \<Rightarrow> Inl err
           | Inr rest \<Rightarrow> Inr ((case stored of Some s \<Rightarrow> [JString s] | None \<Rightarrow> []) @ rest)))"

definition process_attachment_field ::
  "write_env \<Rightarrow> string \<Rightarrow> nat \<Rightarrow> bool \<Rightarrow> entity \<Rightarrow> validation_error + entity" where
  "process_attachment_field env name max_bytes multiple e =
     (case field_values e name of
        None \<Rightarrow> Inr e
      | Some v \<Rightarrow>
          if \<not> multiple
          then (case we_resolve env name max_bytes v of
                  Inl err \<Rightarrow> Inl err
                | Inr (Some s) \<Rightarrow> Inr (set_field name (JString s) e)
                | Inr None \<Rightarrow> Inr e)
          else if v = JNull then Inr e
          else (case resolve_attachments (we_resolve env name max_bytes) (case v of JArray xs \<Rightarrow> xs | _ \<Rightarrow> [v]) of
                  Inl err \<Rightarrow> Inl err
                | Inr stored \<Rightarrow> Inr (set_field name (JArray stored) e)))"

fun process_attachments :: "write_env \<Rightarrow> field_def list \<Rightarrow> entity \<Rightarrow> validation_error + entity" where
  "process_attachments env [] e = Inr e"
| "process_attachments env (fd # fds) e =
     (case fd_type fd of
        AttachmentField max_bytes multiple \<Rightarrow>
          (case process_attachment_field env (fd_name fd) max_bytes multiple e of
             Inl err \<Rightarrow> Inl err
           | Inr e' \<Rightarrow> process_attachments env fds e')
      | _ \<Rightarrow> process_attachments env fds e)"

definition strip_computed :: "field_def list \<Rightarrow> entity \<Rightarrow> entity" where
  "strip_computed fds e =
     fold (\<lambda>fd e. if is_computed (fd_type fd) then remove_field (fd_name fd) e else e) fds e"

definition apply_defaults :: "field_def list \<Rightarrow> entity \<Rightarrow> entity" where
  "apply_defaults fds e =
     fold (\<lambda>fd e. if is_computed (fd_type fd) then e
                   else if field_values e (fd_name fd) \<noteq> None then e
                   else (case fd_default fd of None \<Rightarrow> e | Some d \<Rightarrow> set_field (fd_name fd) d e)) fds e"

definition names_to_validate :: "field_def list \<Rightarrow> entity \<Rightarrow> string list" where
  "names_to_validate fds e =
     map fd_name (filter (\<lambda>fd. field_values e (fd_name fd) \<noteq> None) (filter (\<lambda>fd. \<not> is_computed (fd_type fd)) fds))"

text \<open>The two calls of \<open>expect\<close> cannot fail: the names come from the definitions and from the entity.\<close>

fun validate_names ::
  "engine \<Rightarrow> field_def list \<Rightarrow> fields \<Rightarrow> string list \<Rightarrow> entity \<Rightarrow> validation_error + entity" where
  "validate_names en fds siblings [] e = Inr e"
| "validate_names en fds siblings (k # ks) e =
     (case validate_field en (the (find (\<lambda>fd. fd_name fd = k) fds)) (the (field_values e k)) siblings of
        Inl m \<Rightarrow> Inl (ValidationFailed k m)
      | Inr v \<Rightarrow> validate_names en fds siblings ks (set_field k v e))"

definition validate_for_write :: "write_env \<Rightarrow> entity \<Rightarrow> validation_error + entity" where
  "validate_for_write env e =
     (let fds = we_fields env (entity_type e)
      in if fds = [] then Inr e
         else case process_attachments env fds (apply_defaults fds (strip_computed fds e)) of
                Inl err \<Rightarrow> Inl err
              | Inr e1 \<Rightarrow>
                  (case we_engine env of
                     None \<Rightarrow> Inr e1
                   | Some en \<Rightarrow>
                       (case validate_names en fds (field_values e1) (names_to_validate fds e1) e1 of
                          Inl err \<Rightarrow> Inl err
                        | Inr e2 \<Rightarrow>
                            (case validate_entity en (we_rule env (entity_type e)) (entity_type e) e2 of
                               Inl m \<Rightarrow> Inl (ValidationFailed (''entity:'' @ entity_type e) m)
                             | Inr e3 \<Rightarrow> Inr e3))))"

section \<open>The fields of a board\<close>

definition plain_field :: "string \<Rightarrow> field_type \<Rightarrow> json option \<Rightarrow> field_def" where
  "plain_field name ty d = \<lparr>fd_name = name, fd_type = ty, fd_default = d, fd_validate = None\<rparr>"

definition task_fields :: "field_def list" where
  "task_fields =
     [plain_field ''title'' (MarkdownField True) (Some (JString ''Untitled'')),
      plain_field ''tags'' (ComputedField ''parse-body-tags'') None,
      plain_field ''assignees'' (ReferenceField ''actor'' True) None,
      plain_field ''project'' (ReferenceField ''project'' False) None,
      plain_field ''depends_on'' (ReferenceField ''task'' True) None,
      plain_field ''body'' (MarkdownField False) (Some (JString [])),
      plain_field ''position_column'' (ReferenceField ''column'' False) None,
      plain_field ''position_ordinal'' (TextField True) None,
      plain_field ''attachments'' (AttachmentField 104857600 True) None,
      plain_field ''comments'' CommentLogField None,
      plain_field ''virtual_tags'' (ComputedField ''compute-virtual-tags'') None,
      plain_field ''filter_tags'' (ComputedField ''compute-filter-tags'') None,
      plain_field ''due'' DateField None,
      plain_field ''scheduled'' DateField None,
      plain_field ''created'' (ComputedField ''derive-created'') None,
      plain_field ''updated'' (ComputedField ''derive-updated'') None,
      plain_field ''started'' (ComputedField ''derive-started'') None,
      plain_field ''completed'' (ComputedField ''derive-completed'') None,
      plain_field ''status_date'' (ComputedField ''derive-status-date'') None,
      plain_field ''progress'' (ComputedField ''parse-body-progress'') None]"

section \<open>Laws\<close>

text \<open>What a value of a reference field may hold: an id that is found, or no id at all.\<close>

definition reference_ok :: "(string \<Rightarrow> string \<Rightarrow> bool) \<Rightarrow> string \<Rightarrow> bool \<Rightarrow> json \<Rightarrow> bool" where
  "reference_ok exists ty multiple v \<longleftrightarrow>
     (if multiple then (case v of JArray xs \<Rightarrow> \<forall>x \<in> set xs. \<exists>i. x = JString i \<and> exists ty i | _ \<Rightarrow> True)
      else (case json_str v of Some i \<Rightarrow> exists ty i | None \<Rightarrow> True))"

definition references_ok :: "(string \<Rightarrow> string \<Rightarrow> bool) \<Rightarrow> field_def list \<Rightarrow> entity \<Rightarrow> bool" where
  "references_ok exists fds e \<longleftrightarrow>
     (\<forall>fd \<in> set fds. case fd_type fd of
        ReferenceField ty multiple \<Rightarrow>
          (case field_values e (fd_name fd) of Some v \<Rightarrow> reference_ok exists ty multiple v | None \<Rightarrow> True)
      | _ \<Rightarrow> True)"

lemma default_reference_ok: "reference_ok exists ty m (default_reference_validation (Some exists) ty m v)"
  by (cases v) (auto simp: reference_ok_def default_reference_validation_def split: option.splits)

lemma default_reference_id:
  "reference_ok exists ty m v \<Longrightarrow> m \<longrightarrow> v \<noteq> JNull \<Longrightarrow> default_reference_validation (Some exists) ty m v = v"
proof (cases v)
  case (JArray xs)
  assume ok: "reference_ok exists ty m v"
  have "map JString (filter (exists ty) (List.map_filter json_str xs)) = xs"
    if "\<forall>x \<in> set xs. \<exists>i. x = JString i \<and> exists ty i"
    using that by (induction xs) (auto simp: List.map_filter_simps)
  then show ?thesis using ok JArray by (auto simp: reference_ok_def default_reference_validation_def)
qed (auto simp: reference_ok_def default_reference_validation_def split: if_splits)

lemma references_mono:
  "(\<And>ty i. exists ty i \<Longrightarrow> exists' ty i) \<Longrightarrow> references_ok exists fds e \<Longrightarrow> references_ok exists' fds e"
  unfolding references_ok_def reference_ok_def
  by (fastforce split: field_type.splits option.splits if_splits json.splits)

lemma validate_names_keeps:
  "validate_names en fds siblings ks e = Inr e' \<Longrightarrow>
     entity_id e' = entity_id e \<and> entity_type e' = entity_type e
     \<and> (\<forall>k. k \<notin> set ks \<longrightarrow> field_values e' k = field_values e k)"
proof (induction ks arbitrary: e)
  case (Cons k ks)
  obtain v where "validate_names en fds siblings ks (set_field k v e) = Inr e'"
    using Cons.prems by (auto split: sum.splits)
  from Cons.IH [OF this] show ?case by auto
qed simp

lemma validate_names_value:
  "validate_names en fds siblings ks e = Inr e' \<Longrightarrow> distinct ks \<Longrightarrow> k \<in> set ks \<Longrightarrow>
     \<exists>v. validate_field en (the (find (\<lambda>fd. fd_name fd = k) fds)) (the (field_values e k)) siblings = Inr v
       \<and> field_values e' k = Some v"
proof (induction ks arbitrary: e)
  case (Cons l ks)
  obtain v where v: "validate_field en (the (find (\<lambda>fd. fd_name fd = l) fds)) (the (field_values e l)) siblings = Inr v"
    "validate_names en fds siblings ks (set_field l v e) = Inr e'"
    using Cons.prems(1) by (auto split: sum.splits)
  show ?case
  proof (cases "k = l")
    case True
    then have "field_values e' k = Some v" using validate_names_keeps [OF v(2)] Cons.prems(2) by auto
    then show ?thesis using v(1) True by blast
  next
    case False
    then show ?thesis using Cons.IH [OF v(2)] Cons.prems(2,3) by auto
  qed
qed simp

lemma find_by_name: "distinct (map fd_name fds) \<Longrightarrow> fd \<in> set fds \<Longrightarrow> find (\<lambda>f. fd_name f = fd_name fd) fds = Some fd"
  by (induction fds) (auto simp: image_iff)

lemma process_attachment_field_keeps:
  "process_attachment_field env k mb m e = Inr e' \<Longrightarrow>
     entity_id e' = entity_id e \<and> entity_type e' = entity_type e
     \<and> (\<forall>k'. k' \<noteq> k \<longrightarrow> field_values e' k' = field_values e k')"
  by (auto simp: process_attachment_field_def split: option.splits sum.splits if_splits)

lemma process_attachments_keeps:
  "process_attachments env fds e = Inr e' \<Longrightarrow> entity_id e' = entity_id e \<and> entity_type e' = entity_type e"
proof (induction fds arbitrary: e)
  case (Cons fd fds)
  then show ?case by (auto split: field_type.splits sum.splits dest!: process_attachment_field_keeps)
qed simp

lemma strip_computed_keeps [simp]:
  "entity_id (strip_computed fds e) = entity_id e" "entity_type (strip_computed fds e) = entity_type e"
proof -
  have "entity_id (strip_computed fds e) = entity_id e \<and> entity_type (strip_computed fds e) = entity_type e"
    unfolding strip_computed_def by (induction fds arbitrary: e) (simp_all add: remove_field_def)
  then show "entity_id (strip_computed fds e) = entity_id e" "entity_type (strip_computed fds e) = entity_type e" by simp_all
qed

lemma apply_defaults_keeps [simp]:
  "entity_id (apply_defaults fds e) = entity_id e" "entity_type (apply_defaults fds e) = entity_type e"
proof -
  have "entity_id (apply_defaults fds e) = entity_id e \<and> entity_type (apply_defaults fds e) = entity_type e"
    unfolding apply_defaults_def by (induction fds arbitrary: e) (simp_all split: option.split)
  then show "entity_id (apply_defaults fds e) = entity_id e" "entity_type (apply_defaults fds e) = entity_type e" by simp_all
qed

definition plain_references :: "field_def list \<Rightarrow> bool" where
  "plain_references fds \<longleftrightarrow>
     distinct (map fd_name fds)
     \<and> (\<forall>fd \<in> set fds. case fd_type fd of ReferenceField _ _ \<Rightarrow> fd_validate fd = None | _ \<Rightarrow> True)"

lemma validated_references_ok:
  assumes "validate_names en fds siblings (names_to_validate fds e) e = Inr e'"
    and "en_lookup en = Some exists" and "plain_references fds"
  shows "references_ok exists fds e'"
  unfolding references_ok_def
proof
  fix fd assume fd: "fd \<in> set fds"
  have d: "distinct (map fd_name fds)" using assms(3) by (simp add: plain_references_def)
  show "case fd_type fd of
      ReferenceField ty m \<Rightarrow> (case field_values e' (fd_name fd) of Some v \<Rightarrow> reference_ok exists ty m v | None \<Rightarrow> True)
    | _ \<Rightarrow> True"
  proof (cases "\<exists>ty m. fd_type fd = ReferenceField ty m")
    case True
    then obtain ty m where ty: "fd_type fd = ReferenceField ty m" by blast
    have none: "fd_validate fd = None" using assms(3) fd ty by (auto simp: plain_references_def)
    show ?thesis
    proof (cases "fd_name fd \<in> set (names_to_validate fds e)")
      case True
      have "distinct (names_to_validate fds e)"
        using d unfolding names_to_validate_def by (metis distinct_map_filter)
      from validate_names_value [OF assms(1) this True] obtain v where
        "validate_field en fd (the (field_values e (fd_name fd))) siblings = Inr v" "field_values e' (fd_name fd) = Some v"
        using find_by_name [OF d fd] by auto
      then show ?thesis
        using ty none assms(2) default_reference_ok by (auto simp: validate_field_def)
    next
      case False
      then have "field_values e (fd_name fd) = None"
        using fd ty by (auto simp: names_to_validate_def image_iff)
      moreover have "field_values e' (fd_name fd) = field_values e (fd_name fd)"
        using validate_names_keeps [OF assms(1)] False by simp
      ultimately show ?thesis using ty by simp
    qed
  qed (simp split: field_type.split)
qed

lemma written_references_resolve_gen:
  assumes "validate_for_write env e = Inr e'" and "we_engine env = Some en" and "en_lookup en = Some exists"
    and "plain_references (we_fields env (entity_type e))" and "we_rule env (entity_type e) = None"
  shows "entity_id e' = entity_id e \<and> entity_type e' = entity_type e
     \<and> references_ok exists (we_fields env (entity_type e)) e'"
proof (cases "we_fields env (entity_type e) = []")
  case True
  then show ?thesis using assms(1) by (simp add: validate_for_write_def references_ok_def)
next
  case False
  let ?fds = "we_fields env (entity_type e)"
  obtain e1 where e1: "process_attachments env ?fds (apply_defaults ?fds (strip_computed ?fds e)) = Inr e1"
    and names: "validate_names en ?fds (field_values e1) (names_to_validate ?fds e1) e1 = Inr e'"
    using assms(1,2,5) False by (auto simp: validate_for_write_def Let_def validate_entity_def split: sum.splits)
  have "entity_id e1 = entity_id e" "entity_type e1 = entity_type e"
    using process_attachments_keeps [OF e1] by simp_all
  then show ?thesis
    using validate_names_keeps [OF names] validated_references_ok [OF names assms(3,4)] by simp
qed

lemma strip_computed_other:
  "\<forall>fd \<in> set fds. fd_name fd = k \<longrightarrow> \<not> is_computed (fd_type fd) \<Longrightarrow>
     field_values (strip_computed fds e) k = field_values e k"
  unfolding strip_computed_def by (induction fds arbitrary: e) (auto simp: remove_field_def)

lemma apply_defaults_present:
  assumes "field_values e k = Some v"
  shows "field_values (apply_defaults fds e) k = Some v"
  unfolding apply_defaults_def
proof (rule fold_invariant [where Q = "\<lambda>_. True" and P = "\<lambda>e. field_values e k = Some v"])
  fix fd :: field_def and e' :: entity
  assume "field_values e' k = Some v"
  then show "field_values (if is_computed (fd_type fd) then e'
      else if field_values e' (fd_name fd) \<noteq> None then e'
      else (case fd_default fd of None \<Rightarrow> e' | Some d \<Rightarrow> set_field (fd_name fd) d e')) k = Some v"
    by (cases "fd_name fd = k") (simp_all split: option.split)
qed (simp_all add: assms)

lemma process_attachments_other:
  "process_attachments env fds e = Inr e' \<Longrightarrow>
     \<forall>fd \<in> set fds. fd_name fd = k \<longrightarrow> (\<nexists>mb m. fd_type fd = AttachmentField mb m) \<Longrightarrow>
     field_values e' k = field_values e k"
proof (induction fds arbitrary: e)
  case (Cons fd fds)
  show ?case
  proof (cases "\<exists>mb m. fd_type fd = AttachmentField mb m")
    case True
    then obtain mb m e1 where e1: "process_attachment_field env (fd_name fd) mb m e = Inr e1"
      "process_attachments env fds e1 = Inr e'"
      using Cons.prems(1) by (auto split: sum.splits)
    have "fd_name fd \<noteq> k" using True Cons.prems(2) by auto
    then have "field_values e1 k = field_values e k" using process_attachment_field_keeps [OF e1(1)] by auto
    moreover have "field_values e' k = field_values e1 k"
      by (rule Cons.IH [OF e1(2)]) (use Cons.prems(2) in simp)
    ultimately show ?thesis by simp
  next
    case False
    then have "process_attachments env fds e = Inr e'" using Cons.prems(1) by (auto split: field_type.splits)
    then show ?thesis by (rule Cons.IH) (use Cons.prems(2) in simp)
  qed
qed simp

lemma apply_defaults_absent:
  assumes "field_values e k = None" and "\<forall>fd \<in> set fds. fd_name fd = k \<longrightarrow> fd_default fd = None"
  shows "field_values (apply_defaults fds e) k = None"
  unfolding apply_defaults_def
proof (rule fold_invariant [where Q = "\<lambda>fd. fd \<in> set fds" and P = "\<lambda>e. field_values e k = None"])
  fix fd :: field_def and e' :: entity
  assume "fd \<in> set fds" "field_values e' k = None"
  then show "field_values (if is_computed (fd_type fd) then e'
      else if field_values e' (fd_name fd) \<noteq> None then e'
      else (case fd_default fd of None \<Rightarrow> e' | Some d \<Rightarrow> set_field (fd_name fd) d e')) k = None"
    using assms(2) by (cases "fd_name fd = k") (simp_all split: option.split)
qed (simp_all add: assms(1))

lemma strip_computed_absent: "field_values e k = None \<Longrightarrow> field_values (strip_computed fds e) k = None"
  unfolding strip_computed_def by (induction fds arbitrary: e) (auto simp: remove_field_def)

lemma apply_defaults_value:
  assumes "distinct (map fd_name fds)" and "fd \<in> set fds" and "\<not> is_computed (fd_type fd)"
  shows "field_values (apply_defaults fds e) (fd_name fd) =
    (case field_values e (fd_name fd) of Some v \<Rightarrow> Some v | None \<Rightarrow> fd_default fd)"
  using assms(1,2)
proof (induction fds arbitrary: e)
  case (Cons f fds)
  let ?step = "if is_computed (fd_type f) then e
    else if field_values e (fd_name f) \<noteq> None then e
    else (case fd_default f of None \<Rightarrow> e | Some d \<Rightarrow> set_field (fd_name f) d e)"
  have split: "apply_defaults (f # fds) e = apply_defaults fds ?step" by (simp add: apply_defaults_def)
  show ?case
  proof (cases "f = fd")
    case True
    have later: "\<forall>g \<in> set fds. fd_name g = fd_name fd \<longrightarrow> fd_default g = None"
      using Cons.prems(1) True by (auto simp: image_iff)
    have "field_values ?step (fd_name fd) = (case field_values e (fd_name fd) of Some v \<Rightarrow> Some v | None \<Rightarrow> fd_default fd)"
      using True assms(3) by (auto split: option.split)
    then show ?thesis
      unfolding split using apply_defaults_present apply_defaults_absent [OF _ later]
      by (cases "field_values ?step (fd_name fd)") metis+
  next
    case False
    then have other: "fd \<in> set fds" "fd_name f \<noteq> fd_name fd" using Cons.prems by (auto simp: image_iff)
    then have "field_values ?step (fd_name fd) = field_values e (fd_name fd)" by (simp split: option.split)
    then show ?thesis unfolding split using Cons.IH [OF _ other(1)] Cons.prems(1) by simp
  qed
qed simp

lemma strip_computed_gone:
  "fd \<in> set fds \<Longrightarrow> is_computed (fd_type fd) \<Longrightarrow> field_values (strip_computed fds e) (fd_name fd) = None"
proof (induction fds arbitrary: e)
  case (Cons f fds)
  show ?case
  proof (cases "f = fd")
    case True
    have "field_values (strip_computed fds (remove_field (fd_name fd) e)) (fd_name fd) = None"
      by (rule strip_computed_absent) (simp add: remove_field_def)
    then show ?thesis using True Cons.prems(2) by (simp add: strip_computed_def)
  next
    case False
    then show ?thesis using Cons by (simp add: strip_computed_def)
  qed
qed simp

text \<open>What the write leaves of a value, for a field without a validator of its own.\<close>

fun kept_value :: "(string \<Rightarrow> string \<Rightarrow> bool) \<Rightarrow> field_type \<Rightarrow> json \<Rightarrow> json" where
  "kept_value exists (ReferenceField ty True) (JArray xs) = JArray (filter (\<lambda>x. \<exists>i. x = JString i \<and> exists ty i) xs)"
| "kept_value exists (ReferenceField ty True) JNull = JArray []"
| "kept_value exists (ReferenceField ty False) (JString i) = (if exists ty i then JString i else JNull)"
| "kept_value exists _ v = v"

lemma found_strings:
  "map JString (filter found (List.map_filter json_str xs)) = filter (\<lambda>x. \<exists>i. x = JString i \<and> found i) xs"
proof (induction xs)
  case (Cons x xs)
  then show ?case by (cases x) (simp_all add: List.map_filter_simps)
qed (simp add: List.map_filter_simps)

lemma validate_field_keeps:
  assumes "fd_validate fd = None" and "en_lookup en = Some exists"
  shows "validate_field en fd v siblings = Inr (kept_value exists (fd_type fd) v)"
proof (cases "fd_type fd")
  case (ReferenceField ty m)
  then show ?thesis using assms
    by (cases v; cases m) (simp_all add: validate_field_def default_reference_validation_def found_strings)
qed (use assms in \<open>simp_all add: validate_field_def\<close>)

lemma written_field:
  assumes names: "validate_names en fds siblings (names_to_validate fds e) e = Inr e'"
    and look: "en_lookup en = Some exists" and d: "distinct (map fd_name fds)"
    and fd: "fd \<in> set fds" "fd_validate fd = None" "\<not> is_computed (fd_type fd)"
  shows "field_values e' (fd_name fd) = map_option (kept_value exists (fd_type fd)) (field_values e (fd_name fd))"
proof (cases "field_values e (fd_name fd)")
  case None
  then have "fd_name fd \<notin> set (names_to_validate fds e)" by (auto simp: names_to_validate_def)
  then show ?thesis using validate_names_keeps [OF names] None by simp
next
  case (Some v)
  then have "fd_name fd \<in> set (names_to_validate fds e)" using fd by (auto simp: names_to_validate_def)
  moreover have "distinct (names_to_validate fds e)"
    using d unfolding names_to_validate_def by (metis distinct_map_filter)
  ultimately obtain w where "validate_field en fd v siblings = Inr w" "field_values e' (fd_name fd) = Some w"
    using validate_names_value [OF names, of "fd_name fd"] find_by_name [OF d fd(1)] Some by auto
  then show ?thesis using validate_field_keeps [OF fd(2) look] Some by simp
qed

lemma written_computed:
  assumes names: "validate_names en fds siblings (names_to_validate fds e1) e1 = Inr e'"
    and e1: "process_attachments env fds (apply_defaults fds (strip_computed fds e)) = Inr e1"
    and d: "distinct (map fd_name fds)" and fd: "fd \<in> set fds" "is_computed (fd_type fd)" "fd_default fd = None"
  shows "field_values e' (fd_name fd) = None"
proof -
  have only: "f = fd" if "f \<in> set fds" "fd_name f = fd_name fd" for f
    using d that fd(1) by (metis distinct_map inj_onD)
  have "field_values (apply_defaults fds (strip_computed fds e)) (fd_name fd) = None"
    using apply_defaults_absent [OF strip_computed_gone [OF fd(1,2)]] only fd(3) by metis
  moreover have "\<nexists>mb m. fd_type fd = AttachmentField mb m" using fd(2) by auto
  ultimately have "field_values e1 (fd_name fd) = None"
    using process_attachments_other [OF e1, of "fd_name fd"] only by metis
  moreover from this have "fd_name fd \<notin> set (names_to_validate fds e1)" by (auto simp: names_to_validate_def)
  ultimately show ?thesis using validate_names_keeps [OF names] by simp
qed

text \<open>C19. What a successful write stores, field by field, when an engine with a lookup is attached, the fields of
  the type have distinct names and the type has no rule for the whole entity: the id and the type are kept; a
  computed field is dropped; and a field that is not an attachment and has no validator of its own holds its value, or
  its default when it has none, except that of a list of references exactly the ids that the lookup finds stay, in
  their order, that a missing list becomes empty, and that a single reference that is not found becomes null. So no
  such field holds the id of something that is not there. A value of a list field that is neither an array nor null
  passes through, and a field with its own validator is left to that validator.\<close>

theorem written_references_resolve:
  assumes "validate_for_write env e = Inr e'" and "we_engine env = Some en" and "en_lookup en = Some exists"
    and "distinct (map fd_name (we_fields env (entity_type e)))" and "we_rule env (entity_type e) = None"
  shows "entity_id e' = entity_id e \<and> entity_type e' = entity_type e
     \<and> (\<forall>fd \<in> set (we_fields env (entity_type e)).
          (if is_computed (fd_type fd) then fd_default fd = None \<longrightarrow> field_values e' (fd_name fd) = None
           else if fd_validate fd \<noteq> None \<or> (\<exists>mb m. fd_type fd = AttachmentField mb m) then True
           else field_values e' (fd_name fd) = map_option (kept_value exists (fd_type fd))
                  (case field_values e (fd_name fd) of Some v \<Rightarrow> Some v | None \<Rightarrow> fd_default fd)))
     \<and> references_ok exists (filter (\<lambda>fd. fd_validate fd = None) (we_fields env (entity_type e))) e'"
proof (cases "we_fields env (entity_type e) = []")
  case True
  then show ?thesis using assms(1) by (simp add: validate_for_write_def references_ok_def)
next
  case False
  let ?fds = "we_fields env (entity_type e)"
  obtain e1 where e1: "process_attachments env ?fds (apply_defaults ?fds (strip_computed ?fds e)) = Inr e1"
    and names: "validate_names en ?fds (field_values e1) (names_to_validate ?fds e1) e1 = Inr e'"
    using assms(1,2,5) False by (auto simp: validate_for_write_def Let_def validate_entity_def split: sum.splits)
  have same: "entity_id e1 = entity_id e" "entity_type e1 = entity_type e"
    using process_attachments_keeps [OF e1] by simp_all
  have stored: "field_values e' (fd_name fd) = map_option (kept_value exists (fd_type fd))
      (case field_values e (fd_name fd) of Some v \<Rightarrow> Some v | None \<Rightarrow> fd_default fd)"
    if fd: "fd \<in> set ?fds" "fd_validate fd = None" "\<not> is_computed (fd_type fd)"
      "\<nexists>mb m. fd_type fd = AttachmentField mb m" for fd
  proof -
    have only: "f = fd" if "f \<in> set ?fds" "fd_name f = fd_name fd" for f
      using assms(4) that fd(1) by (metis distinct_map inj_onD)
    have "field_values e1 (fd_name fd) = field_values (apply_defaults ?fds (strip_computed ?fds e)) (fd_name fd)"
      using process_attachments_other [OF e1, of "fd_name fd"] only fd(4) by metis
    also have "\<dots> = (case field_values (strip_computed ?fds e) (fd_name fd) of Some v \<Rightarrow> Some v | None \<Rightarrow> fd_default fd)"
      by (rule apply_defaults_value [OF assms(4) fd(1,3)])
    also have "field_values (strip_computed ?fds e) (fd_name fd) = field_values e (fd_name fd)"
      using strip_computed_other [of ?fds "fd_name fd" e] only fd(3) by metis
    finally show ?thesis using written_field [OF names assms(3,4) fd(1,2,3)] by simp
  qed
  have ok: "reference_ok exists ty m (kept_value exists (ReferenceField ty m) v)" for ty m v
    by (cases v; cases m) (auto simp: reference_ok_def)
  have "references_ok exists (filter (\<lambda>fd. fd_validate fd = None) ?fds) e'"
    unfolding references_ok_def using stored ok
    by (auto split: field_type.split option.split simp: map_option_case split: option.splits)
  then show ?thesis
    using validate_names_keeps [OF names] same stored written_computed [OF names e1 assms(4)] by auto
qed

text \<open>A list of references is written as those that are found.\<close>

lemma written_list:
  assumes "validate_for_write env e = Inr e'" and "we_engine env = Some en" and "en_lookup en = Some exists"
    and "plain_references (we_fields env (entity_type e))" and "we_rule env (entity_type e) = None"
    and fd: "fd \<in> set (we_fields env (entity_type e))" "fd_type fd = ReferenceField ty True"
    and v: "field_values e (fd_name fd) = Some (json_strings xs)"
  shows "get_string_list e' (fd_name fd) = filter (exists ty) xs"
proof -
  let ?fds = "we_fields env (entity_type e)" and ?k = "fd_name fd"
  have d: "distinct (map fd_name ?fds)" using assms(4) by (simp add: plain_references_def)
  have only: "f = fd" if "f \<in> set ?fds" "fd_name f = ?k" for f
    using d that fd(1) by (metis distinct_map inj_onD)
  obtain e1 where e1: "process_attachments env ?fds (apply_defaults ?fds (strip_computed ?fds e)) = Inr e1"
    and names: "validate_names en ?fds (field_values e1) (names_to_validate ?fds e1) e1 = Inr e'"
    using assms(1,2,5) fd(1) by (auto simp: validate_for_write_def Let_def validate_entity_def split: sum.splits if_splits)
  have plain: "\<not> is_computed (fd_type f) \<and> (\<nexists>mb m. fd_type f = AttachmentField mb m)"
    if "f \<in> set ?fds" "fd_name f = ?k" for f
    using only [OF that] fd(2) by simp
  have "field_values (strip_computed ?fds e) ?k = Some (json_strings xs)"
    using strip_computed_other [of ?fds ?k e] plain v by simp
  from apply_defaults_present [OF this, of ?fds] have e1v: "field_values e1 ?k = Some (json_strings xs)"
    using process_attachments_other [OF e1, of ?k] plain by simp
  then have "?k \<in> set (names_to_validate ?fds e1)"
    using fd by (auto simp: names_to_validate_def)
  moreover have "distinct (names_to_validate ?fds e1)"
    using d unfolding names_to_validate_def by (metis distinct_map_filter)
  ultimately obtain w where "validate_field en fd (json_strings xs) (field_values e1) = Inr w" "field_values e' ?k = Some w"
    using validate_names_value [OF names, of ?k] find_by_name [OF d fd(1)] e1v by auto
  moreover have "fd_validate fd = None" using assms(4) fd by (auto simp: plain_references_def)
  ultimately show ?thesis
    using fd(2) assms(3)
    by (auto simp: validate_field_def default_reference_validation_def json_strings_def get_string_list_def)
qed

lemma plain_task_fields: "plain_references task_fields"
  by (simp add: plain_references_def task_fields_def plain_field_def)

section \<open>Writes that succeed\<close>

lemma validate_names_total:
  assumes "\<forall>fd \<in> set fds. fd_validate fd = None" and "set ks \<subseteq> fd_name ` set fds"
  shows "\<exists>e'. validate_names en fds siblings ks e = Inr e'"
  using assms(2)
proof (induction ks arbitrary: e)
  case (Cons k ks)
  then obtain fd where "find (\<lambda>fd. fd_name fd = k) fds = Some fd"
    by (cases "find (\<lambda>fd. fd_name fd = k) fds") (auto simp: find_None_conv)
  moreover from this have "fd_validate fd = None" using assms(1) by (auto dest!: find_SomeD)
  ultimately have "\<exists>v. validate_field en (the (find (\<lambda>fd. fd_name fd = k) fds)) (the (field_values e k)) siblings = Inr v"
    by (simp add: validate_field_def split: field_type.split)
  then show ?case using Cons by fastforce
qed simp

lemma process_attachments_absent:
  "\<forall>fd \<in> set fds. (\<exists>mb m. fd_type fd = AttachmentField mb m) \<longrightarrow> field_values e (fd_name fd) = None \<Longrightarrow>
     process_attachments env fds e = Inr e"
  by (induction fds) (auto simp: process_attachment_field_def split: field_type.split)

text \<open>Without JavaScript and without attachments a write cannot fail.\<close>

lemma plain_write_succeeds:
  assumes "\<forall>fd \<in> set (we_fields env (entity_type e)). fd_validate fd = None" and "we_rule env (entity_type e) = None"
    and "\<forall>fd \<in> set (we_fields env (entity_type e)). (\<exists>mb m. fd_type fd = AttachmentField mb m) \<longrightarrow>
           field_values e (fd_name fd) = None \<and> fd_default fd = None"
    and "distinct (map fd_name (we_fields env (entity_type e)))"
  shows "\<exists>e'. validate_for_write env e = Inr e'"
proof -
  let ?fds = "we_fields env (entity_type e)"
  let ?e = "apply_defaults ?fds (strip_computed ?fds e)"
  have "field_values ?e (fd_name fd) = None" if "fd \<in> set ?fds" "\<exists>mb m. fd_type fd = AttachmentField mb m" for fd
  proof (rule apply_defaults_absent)
    show "field_values (strip_computed ?fds e) (fd_name fd) = None" using assms(3) that strip_computed_absent by blast
    show "\<forall>f \<in> set ?fds. fd_name f = fd_name fd \<longrightarrow> fd_default f = None"
      using assms(3,4) that by (metis distinct_map inj_onD)
  qed
  then have att: "process_attachments env ?fds ?e = Inr ?e" by (intro process_attachments_absent) blast
  have "set (names_to_validate ?fds ?e) \<subseteq> fd_name ` set ?fds" by (auto simp: names_to_validate_def)
  note total = validate_names_total [OF assms(1) this]
  show ?thesis
  proof (cases "we_engine env")
    case None
    then show ?thesis using att by (simp add: validate_for_write_def Let_def)
  next
    case (Some en)
    obtain e2 where "validate_names en ?fds (field_values ?e) (names_to_validate ?fds ?e) ?e = Inr e2"
      using total by blast
    then show ?thesis using att Some assms(2) by (simp add: validate_for_write_def Let_def validate_entity_def)
  qed
qed

text \<open>A project that does not exist is written as null.\<close>

definition sample_write_env :: write_env where
  "sample_write_env =
     \<lparr>we_fields = (\<lambda>ty. [plain_field ''project'' (ReferenceField ''project'' False) None]), we_rule = (\<lambda>ty. None),
      we_resolve = (\<lambda>name n v. Inr None),
      we_engine = Some \<lparr>en_lookup = Some (\<lambda>ty i. i = ''web''), en_js = (\<lambda>body name v siblings. Inr v),
                        en_entity_js = (\<lambda>body name siblings. Inr JNull)\<rparr>\<rparr>"

theorem written_references_resolve_witness:
  "\<exists>e'. validate_for_write sample_write_env (set_field ''project'' (JString ''gone'') (new_entity ''task'' ''x'')) = Inr e'
     \<and> entity_id e' = ''x'' \<and> field_values e' ''project'' = Some JNull"
proof -
  let ?e = "set_field ''project'' (JString ''gone'') (new_entity ''task'' ''x'')"
  let ?f = "set_field ''project'' JNull ?e"
  let ?en = "\<lparr>en_lookup = Some (\<lambda>ty i. i = ''web''), en_js = (\<lambda>body name v siblings. Inr v),
    en_entity_js = (\<lambda>body name siblings. Inr JNull)\<rparr>"
  have v: "validate_for_write sample_write_env ?e = Inr ?f"
    by (simp add: validate_for_write_def sample_write_env_def plain_field_def strip_computed_def apply_defaults_def
        names_to_validate_def validate_field_def default_reference_validation_def validate_entity_def)
  have "we_engine sample_write_env = Some ?en" "distinct (map fd_name (we_fields sample_write_env (entity_type ?e)))"
    "we_rule sample_write_env (entity_type ?e) = None" by (simp_all add: sample_write_env_def)
  note facts = written_references_resolve [OF v this(1) _ this(2,3), of "\<lambda>ty i. i = ''web''"]
  have "entity_id ?f = ''x'' \<and> field_values ?f ''project'' = Some JNull"
    using facts by (simp add: sample_write_env_def plain_field_def)
  then show ?thesis using v by blast
qed

end
