(* ===== verification/Task_Filter.thy ===== *)
theory Task_Filter
  imports Task_Ops
begin

text \<open>
  The filter language of the board: \<open>swissarmyhammer-filter-expr/src\<close> (the expressions and \<open>eval.rs\<close>),
  the slugs of \<open>swissarmyhammer-common/src/slug.rs\<close> and the adapter and registry of
  \<open>swissarmyhammer-kanban/src/task_helpers.rs\<close>. The grammar is built from the combinators of the
  library chumsky: what it answers on a text is the argument \<open>chumsky\<close>. A slug of a text in UTF-8 is
  computed on its bytes: every byte of a character outside ASCII is outside \<open>a-z0-9\<close>, and runs collapse.
\<close>

section \<open>Slugs\<close>

definition ascii_digit :: "char \<Rightarrow> bool" where
  "ascii_digit c \<longleftrightarrow> 48 \<le> (of_char c :: nat) \<and> (of_char c :: nat) \<le> 57"

definition slug_alnum :: "char \<Rightarrow> bool" where
  "slug_alnum c \<longleftrightarrow> 97 \<le> (of_char c :: nat) \<and> (of_char c :: nat) \<le> 122 \<or> ascii_digit c"

fun slug_loop :: "string \<Rightarrow> bool \<Rightarrow> string \<Rightarrow> string" where
  "slug_loop out hyphen [] = out"
| "slug_loop out hyphen (c # s) =
     (if slug_alnum (lower_char c) then slug_loop (out @ [lower_char c]) False s
      else if \<not> hyphen then slug_loop (out @ ''-'') True s
      else slug_loop out hyphen s)"

definition display_slug :: "string \<Rightarrow> string" where
  "display_slug s =
     (let out = slug_loop [] True s
      in if out \<noteq> [] \<and> last out = CHR ''-'' then butlast out else out)"

section \<open>Expressions\<close>

datatype filter_expr =
    Tag string
  | Assignee string
  | Ref string
  | Project string
  | And filter_expr filter_expr
  | Or filter_expr filter_expr
  | Not filter_expr

text \<open>The trait \<open>FilterContext\<close>.\<close>

record filter_entity =
  has_tag :: "string \<Rightarrow> bool"
  has_assignee :: "string \<Rightarrow> bool"
  has_ref :: "string \<Rightarrow> bool"
  has_project :: "string \<Rightarrow> bool"

fun evaluate :: "filter_expr \<Rightarrow> filter_entity \<Rightarrow> bool" where
  "evaluate (Tag g) cx = has_tag cx g"
| "evaluate (Assignee u) cx = has_assignee cx u"
| "evaluate (Ref i) cx = has_ref cx i"
| "evaluate (Project p) cx = has_project cx p"
| "evaluate (And l r) cx = (evaluate l cx \<and> evaluate r cx)"
| "evaluate (Or l r) cx = (evaluate l cx \<or> evaluate r cx)"
| "evaluate (Not e) cx = (\<not> evaluate e cx)"

record parse_error =
  pe_message :: string
  pe_span :: "nat \<times> nat"

type_synonym filter_parser = "string \<Rightarrow> parse_error list + filter_expr"

definition parse_filter :: "filter_parser \<Rightarrow> filter_parser" where
  "parse_filter chumsky input =
     (if trim input = [] then Inl [\<lparr>pe_message = ''empty filter expression'', pe_span = (0, length input)\<rparr>]
      else chumsky input)"

section \<open>The registry of slugs\<close>

record slug_registry =
  project_slug_to_id :: "string \<Rightarrow> string option"
  actor_slug_to_id :: "string \<Rightarrow> string option"
  task_slug_to_id :: "string \<Rightarrow> string option"

definition build_slug_index :: "entity list \<Rightarrow> string \<Rightarrow> string \<Rightarrow> string option" where
  "build_slug_index es display_field =
     fold (\<lambda>e m. case get_str e display_field of
                   None \<Rightarrow> m
                 | Some name \<Rightarrow> (if display_slug name \<noteq> [] then m(display_slug name \<mapsto> entity_id e) else m)) es Map.empty"

definition build_slug_registry :: "entity list \<Rightarrow> entity list \<Rightarrow> entity list \<Rightarrow> slug_registry" where
  "build_slug_registry projects actors ts =
     \<lparr>project_slug_to_id = build_slug_index projects ''name'',
      actor_slug_to_id = build_slug_index actors ''name'',
      task_slug_to_id = build_slug_index ts ''title''\<rparr>"

definition empty_slug_registry :: slug_registry where
  "empty_slug_registry =
     \<lparr>project_slug_to_id = Map.empty, actor_slug_to_id = Map.empty, task_slug_to_id = Map.empty\<rparr>"

definition project_id_for_slug :: "slug_registry \<Rightarrow> string \<Rightarrow> string option" where
  "project_id_for_slug r v = project_slug_to_id r (lowercase v)"

definition actor_id_for_slug :: "slug_registry \<Rightarrow> string \<Rightarrow> string option" where
  "actor_id_for_slug r v = actor_slug_to_id r (lowercase v)"

definition task_id_for_slug :: "slug_registry \<Rightarrow> string \<Rightarrow> string option" where
  "task_id_for_slug r v = task_slug_to_id r (lowercase v)"

section \<open>The adapter of tasks\<close>

record task_filter_adapter =
  ad_entity :: entity
  ad_registry :: "slug_registry option"

definition eq_ignore_case :: "string \<Rightarrow> string \<Rightarrow> bool" where
  "eq_ignore_case a b \<longleftrightarrow> lowercase a = lowercase b"

definition short_ref_matches :: "task_filter_adapter \<Rightarrow> string \<Rightarrow> string list \<Rightarrow> bool" where
  "short_ref_matches ad i deps \<longleftrightarrow>
     (case resolve_short_ref (entity_id (ad_entity ad) # deps) i of Found _ \<Rightarrow> True | _ \<Rightarrow> False)"

definition adapter_has_tag :: "task_filter_adapter \<Rightarrow> string \<Rightarrow> bool" where
  "adapter_has_tag ad g \<longleftrightarrow> list_ex (\<lambda>t. eq_ignore_case t g) (get_string_list (ad_entity ad) ''filter_tags'')"

definition adapter_has_assignee :: "task_filter_adapter \<Rightarrow> string \<Rightarrow> bool" where
  "adapter_has_assignee ad user =
     (let assignees = get_string_list (ad_entity ad) ''assignees''
      in if list_ex (\<lambda>a. eq_ignore_case a user) assignees then True
         else (case Option.bind (ad_registry ad) (\<lambda>r. actor_id_for_slug r user) of
                 None \<Rightarrow> False
               | Some i \<Rightarrow> list_ex (\<lambda>a. eq_ignore_case a i) assignees))"

definition adapter_has_ref :: "task_filter_adapter \<Rightarrow> string \<Rightarrow> bool" where
  "adapter_has_ref ad i =
     (let own = entity_id (ad_entity ad);
          deps = get_string_list (ad_entity ad) ''depends_on''
      in if own = i then True
         else if list_ex (\<lambda>r. r = i) deps then True
         else if short_ref_matches ad i deps then True
         else (case Option.bind (ad_registry ad) (\<lambda>r. task_id_for_slug r i) of
                 None \<Rightarrow> False
               | Some j \<Rightarrow> if own = j then True else list_ex (\<lambda>r. r = j) deps))"

definition adapter_has_project :: "task_filter_adapter \<Rightarrow> string \<Rightarrow> bool" where
  "adapter_has_project ad p =
     (case get_str (ad_entity ad) ''project'' of
        None \<Rightarrow> False
      | Some stored \<Rightarrow>
          if eq_ignore_case stored p then True
          else (case Option.bind (ad_registry ad) (\<lambda>r. project_id_for_slug r p) of
                  None \<Rightarrow> False
                | Some i \<Rightarrow> eq_ignore_case stored i))"

definition adapter :: "task_filter_adapter \<Rightarrow> filter_entity" where
  "adapter ad =
     \<lparr>has_tag = adapter_has_tag ad, has_assignee = adapter_has_assignee ad,
      has_ref = adapter_has_ref ad, has_project = adapter_has_project ad\<rparr>"

definition task_matches :: "slug_registry \<Rightarrow> filter_expr \<Rightarrow> entity \<Rightarrow> bool" where
  "task_matches r e t = evaluate e (adapter \<lparr>ad_entity = t, ad_registry = Some r\<rparr>)"

section \<open>Filtering tasks\<close>

definition filter_messages :: "string \<Rightarrow> parse_error list \<Rightarrow> string" where
  "filter_messages intro errors = intro @ join ''; '' (map pe_message errors)"

definition filter_task_ids ::
  "filter_parser \<Rightarrow> entity list \<Rightarrow> string \<Rightarrow> slug_registry \<Rightarrow> string + string list" where
  "filter_task_ids chumsky es f r =
     (if trim f = [] then Inr (map entity_id es)
      else case parse_filter chumsky f of
             Inl errors \<Rightarrow> Inl (filter_messages ''invalid filter expression: '' errors)
           | Inr e \<Rightarrow> Inr (map entity_id (filter (task_matches r e) es)))"

text \<open>The vector is the state; a failure leaves it as it was.\<close>

definition retain_filtered_tasks ::
  "filter_parser \<Rightarrow> string \<Rightarrow> slug_registry \<Rightarrow> (entity list, string, unit) action" where
  "retain_filtered_tasks chumsky f r es =
     (if trim f = [] then (Inr (), es)
      else case parse_filter chumsky f of
             Inl errors \<Rightarrow> (Inl (filter_messages ''invalid filter expression: '' errors), es)
           | Inr e \<Rightarrow> (Inr (), filter (task_matches r e) es))"

definition parse_filter_expr :: "filter_parser \<Rightarrow> string option \<Rightarrow> kanban_error + filter_expr option" where
  "parse_filter_expr chumsky f =
     (case f of
        None \<Rightarrow> Inr None
      | Some s \<Rightarrow>
          if trim s = [] then Inr None
          else (case parse_filter chumsky s of
                  Inl errors \<Rightarrow> Inl (ParseError (filter_messages ''invalid filter: '' errors))
                | Inr e \<Rightarrow> Inr (Some e)))"

section \<open>Laws of slugs\<close>

text \<open>Lowercase letters, digits and single hyphens; \<open>h\<close> says whether a hyphen may not come next.\<close>

fun slug_shape :: "bool \<Rightarrow> string \<Rightarrow> bool" where
  "slug_shape h [] \<longleftrightarrow> True"
| "slug_shape h (c # s) \<longleftrightarrow>
     (if slug_alnum c then slug_shape False s else c = CHR ''-'' \<and> \<not> h \<and> slug_shape True s)"

definition canonical_slug :: "string \<Rightarrow> bool" where
  "canonical_slug s \<longleftrightarrow> slug_shape True s \<and> (s \<noteq> [] \<longrightarrow> last s \<noteq> CHR ''-'')"

lemma hyphen_char [simp]: "lower_char (CHR ''-'') = CHR ''-''" "\<not> slug_alnum (CHR ''-'')"
  by (simp_all add: lower_char_def slug_alnum_def ascii_digit_def)

lemma lower_alnum [simp]: "slug_alnum c \<Longrightarrow> lower_char c = c"
  unfolding lower_char_def slug_alnum_def ascii_digit_def Let_def by auto

lemma slug_loop_shape: "slug_shape h s \<Longrightarrow> slug_loop out h s = out @ s"
  by (induction s arbitrary: out h) (auto split: if_splits)

lemma slug_loop_out: "\<exists>t. slug_loop out h s = out @ t \<and> slug_shape h t"
proof (induction s arbitrary: out h)
  case (Cons c s)
  let ?c = "lower_char c"
  consider "slug_alnum ?c" | "\<not> slug_alnum ?c" "\<not> h" | "\<not> slug_alnum ?c" h by blast
  then show ?case
  proof cases
    case 1
    obtain t where "slug_loop (out @ [?c]) False s = (out @ [?c]) @ t" "slug_shape False t" using Cons.IH by blast
    then show ?thesis using 1 by (intro exI [of _ "?c # t"]) simp
  next
    case 2
    obtain t where "slug_loop (out @ ''-'') True s = (out @ ''-'') @ t" "slug_shape True t" using Cons.IH by blast
    then show ?thesis using 2 by (intro exI [of _ "CHR ''-'' # t"]) simp
  next
    case 3
    then show ?thesis using Cons.IH [of out h] by simp
  qed
qed (intro exI [of _ "[]"], simp)

lemma slug_shape_append: "slug_shape h (s @ t) \<Longrightarrow> slug_shape h s"
  by (induction s arbitrary: h) (auto split: if_splits)

lemma slug_shape_single: "slug_shape h (s @ [c, CHR ''-'']) \<Longrightarrow> c \<noteq> CHR ''-''"
  by (induction s arbitrary: h) (auto split: if_splits)

lemma slug_canonical: "canonical_slug (display_slug s)"
proof -
  obtain t where t: "slug_loop [] True s = t" "slug_shape True t" using slug_loop_out [of "[]" True s] by auto
  show ?thesis
  proof (cases "t \<noteq> [] \<and> last t = CHR ''-''")
    case True
    then obtain u where u: "t = u @ ''-''" by (metis append_butlast_last_id)
    have "last u \<noteq> CHR ''-''" if "u \<noteq> []"
    proof -
      have "t = butlast u @ [last u, CHR ''-'']" using that u by simp
      then show ?thesis using t(2) slug_shape_single by metis
    qed
    moreover have "display_slug s = u" using t(1) u by (simp add: display_slug_def)
    ultimately show ?thesis using t(2) u slug_shape_append by (auto simp: canonical_slug_def)
  next
    case False
    then have "display_slug s = t" using t(1) by (auto simp: display_slug_def)
    then show ?thesis using t(2) False by (auto simp: canonical_slug_def)
  qed
qed

lemma display_slug_canonical: "canonical_slug s \<Longrightarrow> display_slug s = s"
  by (auto simp: canonical_slug_def display_slug_def slug_loop_shape)

lemma slug_idempotent [simp]: "display_slug (display_slug s) = display_slug s"
  by (rule display_slug_canonical) (rule slug_canonical)

lemma slug_shape_lower: "slug_shape h s \<Longrightarrow> lowercase s = s"
  by (induction s arbitrary: h) (auto simp: lowercase_def split: if_splits)

lemma lower_slug [simp]: "lowercase (display_slug s) = display_slug s"
  using slug_canonical [of s] slug_shape_lower by (auto simp: canonical_slug_def)

section \<open>Laws of the registry\<close>

text \<open>The index answers the last entity whose display name has the slug.\<close>

lemma slug_index:
  "build_slug_index es f k =
     (if k = [] then None
      else map_option entity_id (find (\<lambda>e. map_option display_slug (get_str e f) = Some k) (rev es)))"
proof -
  have "fold (\<lambda>e m. case get_str e f of None \<Rightarrow> m
          | Some name \<Rightarrow> (if display_slug name \<noteq> [] then m(display_slug name \<mapsto> entity_id e) else m)) es m k
      = (if k = [] then m k
         else case find (\<lambda>e. map_option display_slug (get_str e f) = Some k) (rev es) of
                None \<Rightarrow> m k | Some e \<Rightarrow> Some (entity_id e))" for m
  proof (induction es arbitrary: m)
    case (Cons e es)
    show ?case unfolding fold_simps o_apply Cons.IH
      by (auto simp: find_in_append split: option.splits)
  qed simp
  from this [of Map.empty] show ?thesis by (auto simp: build_slug_index_def split: option.split)
qed

lemma unique_slug_found:
  assumes "e \<in> set es" and "get_str e f = Some name" and "display_slug name \<noteq> []"
    and unique: "\<And>e' m. e' \<in> set es \<Longrightarrow> get_str e' f = Some m \<Longrightarrow> display_slug m = display_slug name \<Longrightarrow> entity_id e' = entity_id e"
  shows "build_slug_index es f (display_slug name) = Some (entity_id e)"
proof -
  let ?k = "display_slug name"
  have "find (\<lambda>e. map_option display_slug (get_str e f) = Some ?k) (rev es) \<noteq> None"
    using assms(1,2) by (auto simp: find_None_conv)
  then obtain e' where e': "find (\<lambda>e. map_option display_slug (get_str e f) = Some ?k) (rev es) = Some e'" by blast
  then obtain m where "e' \<in> set es" "get_str e' f = Some m" "display_slug m = ?k" by (auto dest!: find_SomeD)
  then have "entity_id e' = entity_id e" by (rule unique)
  with e' show ?thesis using assms(3) by (simp add: slug_index)
qed

text \<open>A project is named by its id or by the slug of its name, in any case.\<close>

lemma project_by_slug:
  assumes "p \<in> set projects" and "get_str p ''name'' = Some name" and "display_slug name \<noteq> []"
    and "\<And>q m. q \<in> set projects \<Longrightarrow> get_str q ''name'' = Some m \<Longrightarrow> display_slug m = display_slug name \<Longrightarrow> entity_id q = entity_id p"
    and "lowercase v = display_slug name"
  shows "task_matches (build_slug_registry projects actors ts) (Project v) t \<longleftrightarrow>
     (\<exists>stored. get_str t ''project'' = Some stored
        \<and> (lowercase stored = display_slug name \<or> eq_ignore_case stored (entity_id p)))"
proof -
  have "build_slug_index projects ''name'' (display_slug name) = Some (entity_id p)"
    by (rule unique_slug_found [OF assms(1,2,3)]) (rule assms(4))
  then show ?thesis
    by (auto simp: task_matches_def adapter_def adapter_has_project_def project_id_for_slug_def
        build_slug_registry_def eq_ignore_case_def assms(5) split: option.splits)
qed

text \<open>Ids of tasks match in full; every task matches the slug of its title when no other has that slug.\<close>

lemma ref_by_id: "task_matches r (Ref (entity_id t)) t"
  by (simp add: task_matches_def adapter_def adapter_has_ref_def)

lemma ref_by_slug:
  assumes "t \<in> set ts" and "get_str t ''title'' = Some title" and "display_slug title \<noteq> []"
    and "\<And>u m. u \<in> set ts \<Longrightarrow> get_str u ''title'' = Some m \<Longrightarrow> display_slug m = display_slug title \<Longrightarrow> entity_id u = entity_id t"
  shows "task_matches (build_slug_registry projects actors ts) (Ref (display_slug title)) t"
proof -
  have "build_slug_index ts ''title'' (display_slug title) = Some (entity_id t)"
    by (rule unique_slug_found [OF assms(1,2,3)]) (rule assms(4))
  then show ?thesis
    by (simp add: task_matches_def adapter_def adapter_has_ref_def task_id_for_slug_def
        build_slug_registry_def Let_def)
qed

text \<open>Both ways of filtering select the same tasks, and a text without a filter selects all.\<close>

lemma filters_agree:
  "filter_task_ids chumsky es f r =
     (case retain_filtered_tasks chumsky f r es of (Inl m, _) \<Rightarrow> Inl m | (Inr _, es') \<Rightarrow> Inr (map entity_id es'))"
  by (simp add: filter_task_ids_def retain_filtered_tasks_def split: sum.split)

end
