(* ===== verification/Task_Query.thy ===== *)
theory Task_Query
  imports Task_Filter Rust_Iter "HOL-Library.AList"
begin

text \<open>
  Reading the board: the next task to work on (\<open>swissarmyhammer-kanban/src/task/next.rs\<close>), the pages of
  a listing (\<open>task/list.rs\<close>, \<open>task/shared.rs\<close>), the JSON of a task (\<open>task_helpers.rs\<close>) and the filter
  that \<open>dispatch.rs\<close> makes of a project. The number formatter, the crate \<open>fractional_index\<close>, the
  parser of filters and the debug printer of strings are arguments.
\<close>

section \<open>The JSON of a task\<close>

record query_env =
  qe_number :: "rat \<Rightarrow> json"
  qe_fractions :: fractions
  qe_chumsky :: filter_parser
  qe_debug :: "string \<Rightarrow> string"

text \<open>\<open>value[key] = v\<close> on an object, which is where the program uses it.\<close>

definition json_set :: "string \<Rightarrow> json \<Rightarrow> json \<Rightarrow> json" where
  "json_set k v j = (case j of JObject fs \<Rightarrow> JObject (AList.update k v fs) | _ \<Rightarrow> j)"

definition task_date_fields :: "string list" where
  "task_date_fields = [''due'', ''scheduled'', ''created'', ''updated'', ''started'', ''completed'']"

definition include_date_fields :: "entity \<Rightarrow> json \<Rightarrow> json" where
  "include_date_fields e result =
     fold (\<lambda>name. json_set name (case get_field e name of Some v \<Rightarrow> v | None \<Rightarrow> JNull)) task_date_fields result"

definition str_or :: "string \<Rightarrow> entity \<Rightarrow> string \<Rightarrow> json" where
  "str_or d e k = JString (case get_str e k of Some s \<Rightarrow> s | None \<Rightarrow> d)"

definition task_entity_to_json :: "query_env \<Rightarrow> entity \<Rightarrow> json" where
  "task_entity_to_json env e =
     (let position = JObject [(''column'', str_or [] e ''position_column''),
                              (''ordinal'', str_or default_str e ''position_ordinal'')];
          result = JObject [(''id'', JString (entity_id e)), (''short_id'', JString (short_id (entity_id e))),
            (''title'', str_or [] e ''title''), (''description'', str_or [] e ''body''), (''position'', position),
            (''tags'', json_strings (get_string_list e ''tags'')),
            (''assignees'', json_strings (get_string_list e ''assignees'')),
            (''depends_on'', json_strings (get_string_list e ''depends_on'')),
            (''project'', str_or [] e ''project''), (''progress'', qe_number env (task_progress e))];
          result = json_set ''attachments'' (case get_field e ''attachments'' of Some a \<Rightarrow> a | None \<Rightarrow> JArray []) result;
          result = json_set ''project'' (case get_field e ''project'' of Some p \<Rightarrow> p | None \<Rightarrow> JNull) result
      in include_date_fields e result)"

definition task_entity_to_rich_json :: "query_env \<Rightarrow> entity \<Rightarrow> json" where
  "task_entity_to_rich_json env e =
     (let result = task_entity_to_json env e;
          result = json_set ''ready'' (case get_field e ''ready'' of Some v \<Rightarrow> v | None \<Rightarrow> JBool True) result;
          result = json_set ''blocked_by'' (json_strings (get_string_list e ''blocked_by'')) result;
          result = json_set ''blocks'' (json_strings (get_string_list e ''blocks'')) result;
          result = json_set ''virtual_tags'' (json_strings (get_string_list e ''virtual_tags'')) result
      in json_set ''filter_tags'' (json_strings (get_string_list e ''filter_tags'')) result)"

definition slim_task_fields :: "string list" where
  "slim_task_fields =
     [''id'', ''short_id'', ''title'', ''position'', ''project'', ''tags'', ''filter_tags'', ''virtual_tags'',
      ''assignees'', ''progress'', ''depends_on'', ''blocked_by'', ''blocks'', ''ready'', ''created'', ''updated'',
      ''due'', ''scheduled'', ''started'', ''completed'']"

definition slim_task_json :: "json \<Rightarrow> json" where
  "slim_task_json t =
     JObject (case t of
        JObject fs \<Rightarrow> List.map_filter (\<lambda>k. map_option (Pair k) (map_of fs k)) slim_task_fields
      | _ \<Rightarrow> [])"

datatype task_detail = Slim | Full

fun project_detail :: "task_detail \<Rightarrow> json \<Rightarrow> json" where
  "project_detail Slim full = slim_task_json full"
| "project_detail Full full = full"

definition parse_detail :: "query_env \<Rightarrow> string option \<Rightarrow> kanban_error + task_detail" where
  "parse_detail env detail =
     (case map_option trim detail of
        None \<Rightarrow> Inr Slim
      | Some s \<Rightarrow>
          if s = [] \<or> s = ''slim'' then Inr Slim
          else if s = ''full'' then Inr Full
          else Inl (ParseError (''invalid detail: '' @ qe_debug env s @ '' '' @ EM_DASH
                 @ '' expected \"slim\" or \"full\"'')))"

section \<open>The board as the queries read it\<close>

record board_view =
  bv_columns :: "entity list"
  bv_tasks :: "entity list"
  bv_projects :: "entity list"
  bv_actors :: "entity list"

definition terminal_id :: "entity list \<Rightarrow> string" where
  "terminal_id cols = (case max_by_key order_or_0 cols of Some c \<Rightarrow> entity_id c | None \<Rightarrow> ''done'')"

definition enriched_tasks :: "query_env \<Rightarrow> board_view \<Rightarrow> entity list" where
  "enriched_tasks env b =
     enrich_all_task_entities (qe_number env) default_registry (terminal_id (bv_columns b)) (bv_tasks b)"

definition view_registry :: "query_env \<Rightarrow> board_view \<Rightarrow> slug_registry" where
  "view_registry env b = build_slug_registry (bv_projects b) (bv_actors b) (enriched_tasks env b)"

section \<open>The next task\<close>

definition build_column_order :: "entity list \<Rightarrow> string \<Rightarrow> nat option" where
  "build_column_order cols = fold (\<lambda>(i, c) m. m(entity_id c \<mapsto> i)) (enumerate 0 cols) Map.empty"

definition is_actionable :: "string \<Rightarrow> filter_expr option \<Rightarrow> slug_registry \<Rightarrow> entity \<Rightarrow> bool" where
  "is_actionable terminal expr r t =
     (if get_str t ''position_column'' = Some terminal then False
      else if \<not> (case get_bool t ''ready'' of Some b \<Rightarrow> b | None \<Rightarrow> True) then False
      else (case expr of Some e \<Rightarrow> task_matches r e t | None \<Rightarrow> True))"

definition column_rank :: "(string \<Rightarrow> nat option) \<Rightarrow> entity \<Rightarrow> nat" where
  "column_rank ranks t = (case ranks (column_or_empty t) of Some i \<Rightarrow> i | None \<Rightarrow> 0)"

definition compare_by_position ::
  "fractions \<Rightarrow> (string \<Rightarrow> nat option) \<Rightarrow> entity \<Rightarrow> entity \<Rightarrow> ordering" where
  "compare_by_position fr ranks x y =
     then_cmp (cmp_of (column_rank ranks x) (column_rank ranks y)) (cmp_of (task_ordinal fr x) (task_ordinal fr y))"

definition execute_next :: "query_env \<Rightarrow> string option \<Rightarrow> board_view \<Rightarrow> kanban_error + json" where
  "execute_next env flt b =
     (let cols = sort_key order_or_0 (bv_columns b);
          terminal = terminal_id cols;
          ts = enrich_all_task_entities (qe_number env) default_registry terminal (bv_tasks b);
          r = build_slug_registry (bv_projects b) (bv_actors b) ts
      in case parse_filter_expr (qe_chumsky env) flt of
           Inl err \<Rightarrow> Inl err
         | Inr expr \<Rightarrow>
             (case sort_by (compare_by_position (qe_fractions env) (build_column_order cols))
                     (filter (is_actionable terminal expr r) ts) of
                t # _ \<Rightarrow> Inr (task_entity_to_rich_json env t)
              | [] \<Rightarrow> Inr JNull))"

section \<open>Listing tasks\<close>

definition default_page_size :: nat where "default_page_size = 10"

definition max_page_size :: nat where "max_page_size = 100"

definition usize_limit :: nat where "usize_limit = 2 ^ 64 - 1"

record list_tasks =
  lt_column :: "string option"
  lt_filter :: "string option"
  lt_project :: "string option"
  lt_page :: "nat option"
  lt_page_size :: "nat option"
  lt_detail :: "string option"

definition listed :: "string option \<Rightarrow> string \<Rightarrow> filter_expr option \<Rightarrow> slug_registry \<Rightarrow> entity \<Rightarrow> bool" where
  "listed column terminal expr r t =
     (if (case column of
            Some c \<Rightarrow> get_str t ''position_column'' \<noteq> Some c
          | None \<Rightarrow> get_str t ''position_column'' = Some terminal) then False
      else (case expr of Some e \<Rightarrow> task_matches r e t | None \<Rightarrow> True))"

definition page_of :: "nat option \<Rightarrow> nat" where
  "page_of p = max (case p of Some n \<Rightarrow> n | None \<Rightarrow> 1) 1"

definition page_size_of :: "nat option \<Rightarrow> nat" where
  "page_size_of s = min (max (case s of Some n \<Rightarrow> n | None \<Rightarrow> default_page_size) 1) max_page_size"

definition total_pages_of :: "nat \<Rightarrow> nat \<Rightarrow> nat" where
  "total_pages_of n per_page = max ((n + per_page - 1) div per_page) 1"

definition page_start :: "nat \<Rightarrow> nat \<Rightarrow> nat" where
  "page_start page per_page = min ((page - 1) * per_page) usize_limit"

definition listed_values ::
  "query_env \<Rightarrow> string option \<Rightarrow> filter_expr option \<Rightarrow> task_detail \<Rightarrow> board_view \<Rightarrow> json list" where
  "listed_values env column expr detail b =
     map (\<lambda>t. project_detail detail (task_entity_to_rich_json env t))
       (filter (listed column (terminal_id (bv_columns b)) expr (view_registry env b)) (enriched_tasks env b))"

definition execute_list :: "query_env \<Rightarrow> list_tasks \<Rightarrow> board_view \<Rightarrow> kanban_error + json" where
  "execute_list env op b =
     (case parse_filter_expr (qe_chumsky env) (lt_filter op) of
        Inl err \<Rightarrow> Inl err
      | Inr expr \<Rightarrow>
          (case parse_detail env (lt_detail op) of
             Inl err \<Rightarrow> Inl err
           | Inr detail \<Rightarrow>
               let filtered = listed_values env (lt_column op) expr detail b;
                   count = length filtered;
                   page = page_of (lt_page op);
                   per_page = page_size_of (lt_page_size op);
                   paginated = take per_page (drop (page_start page per_page) filtered)
               in Inr (JObject [(''tasks'', JArray paginated), (''count'', json_nat (length paginated)),
                    (''total'', json_nat count), (''page'', json_nat page), (''page_size'', json_nat per_page),
                    (''total_pages'', json_nat (total_pages_of count per_page))])))"

text \<open>The filter that a filter and a project are folded into.\<close>

fun effective_filter :: "string option \<Rightarrow> string option \<Rightarrow> string option" where
  "effective_filter (Some f) (Some p) = Some (f @ '' && $'' @ p)"
| "effective_filter (Some f) None = Some f"
| "effective_filter None (Some p) = Some (CHR ''$'' # p)"
| "effective_filter None None = None"

section \<open>Laws\<close>

lemma max_by_key_is_last:
  "max_by_key f xs = (if xs = [] then None else Some (last (filter (\<lambda>x. f x = Max (f ` set xs)) xs)))"
proof (induction xs)
  case (Cons x xs)
  show ?case
  proof (cases "xs = []")
    case False
    let ?m = "Max (f ` set xs)"
    have m: "?m \<in> f ` set xs" using False by (intro Max_in) auto
    then have ne: "filter (\<lambda>y. f y = ?m) xs \<noteq> []" by (auto simp: filter_empty_conv)
    have "last (filter (\<lambda>y. f y = ?m) xs) \<in> set (filter (\<lambda>y. f y = ?m) xs)" using ne by (rule last_in_set)
    then have l: "f (last (filter (\<lambda>y. f y = ?m) xs)) = ?m" by simp
    have max: "Max (f ` set (x # xs)) = max (f x) ?m" using False by simp
    show ?thesis
    proof (cases "?m < f x")
      case True
      then have "filter (\<lambda>y. f y = f x) xs = []" using False by (fastforce simp: filter_empty_conv)
      moreover have "Max (f ` set (x # xs)) = f x" using True max by simp
      moreover have "max_by_key f (x # xs) = Some x" using True False Cons.IH l by simp
      ultimately show ?thesis by simp
    next
      case False
      then have "Max (f ` set (x # xs)) = ?m" using max by simp
      moreover have "max_by_key f (x # xs) = Some (last (filter (\<lambda>y. f y = ?m) xs))"
        using \<open>xs \<noteq> []\<close> by (simp add: Cons.IH l False del: Max_less_iff)
      ultimately show ?thesis using ne by simp
    qed
  qed simp
qed simp

lemma terminal_sorted [simp]: "terminal_id (sort_key order_or_0 cols) = terminal_id cols"
proof -
  have "sort_key order_or_0 cols = [] \<longleftrightarrow> cols = []" by (metis length_0_conv length_sort)
  then show ?thesis by (simp add: terminal_id_def max_by_key_is_last sort_key_stable)
qed

definition enriched :: "query_env \<Rightarrow> board_view \<Rightarrow> entity \<Rightarrow> entity" where
  "enriched env b =
     enrich_task_from_indexes (qe_number env) default_registry (build_dependency_indexes (bv_tasks b))
       (terminal_id (bv_columns b))"

lemma enriched_tasks_map: "enriched_tasks env b = map (enriched env b) (bv_tasks b)"
  by (simp add: enriched_tasks_def enriched_def enrich_all_task_entities_def)

lemma enriched_keeps [simp]:
  "entity_id (enriched env b t) = entity_id t"
  "get_str (enriched env b t) ''position_column'' = get_str t ''position_column''"
  "get_str (enriched env b t) ''position_ordinal'' = get_str t ''position_ordinal''"
  "column_or_empty (enriched env b t) = column_or_empty t"
  "task_ordinal fr (enriched env b t) = task_ordinal fr t"
  by (simp_all add: enriched_def enrich_task_from_indexes_def set_virtual_tags_def set_task_short_id_def Let_def
      column_or_empty_def task_ordinal_def raw_ordinal_def)

lemma enriched_project: "get_str (enriched env b t) ''project'' = get_str t ''project''"
  by (simp add: enriched_def enrich_task_from_indexes_def set_virtual_tags_def set_task_short_id_def Let_def)

lemma enriched_tags:
  "set (get_string_list t ''tags'') \<subseteq> set (get_string_list (enriched env b t) ''filter_tags'')"
  by (auto simp: enriched_def enrich_task_from_indexes_def set_virtual_tags_def set_task_short_id_def Let_def tag_union_def)

lemma enriched_ready:
  assumes "distinct (map entity_id (bv_tasks b))" and "terminal_id (bv_columns b) \<noteq> []" and "t \<in> set (bv_tasks b)"
  shows "get_bool (enriched env b t) ''ready'' = Some (task_is_ready t (bv_tasks b) (terminal_id (bv_columns b)))"
proof -
  let ?ix = "build_dependency_indexes (bv_tasks b)"
  have "ix_depends_on ?ix (entity_id t) = Some (get_string_list t ''depends_on'')"
    using with_id_in [OF assms(1,3)] by (simp add: build_dependency_indexes_def fold_insert_map [OF assms(1)])
  then show ?thesis
    by (simp add: enriched_def enrich_task_from_indexes_def set_virtual_tags_def set_task_short_id_def Let_def
        indexed_dep_done [OF assms(1,2)] ready_iff_not_blocked task_blocked_by_def)
qed

lemma filter_split_at:
  "filter Q xs = us @ t # vs \<Longrightarrow> \<exists>as bs. xs = as @ t # bs \<and> us = filter Q as \<and> vs = filter Q bs \<and> Q t"
proof (induction xs arbitrary: us)
  case (Cons x xs)
  consider "Q x" "us = []" | us' where "Q x" "us = x # us'" "filter Q xs = us' @ t # vs"
    | "\<not> Q x" "filter Q xs = us @ t # vs"
    using Cons.prems by (cases us) (auto split: if_splits)
  then show ?case
  proof cases
    case 1
    then show ?thesis using Cons.prems by (intro exI [of _ "[]"] exI [of _ xs]) auto
  next
    case 2
    then obtain as bs where "xs = as @ t # bs" "us' = filter Q as" "vs = filter Q bs" "Q t" using Cons.IH by blast
    then show ?thesis using 2(1,2) by (intro exI [of _ "x # as"] exI [of _ bs]) simp
  next
    case 3
    then obtain as bs where "xs = as @ t # bs" "us = filter Q as" "vs = filter Q bs" "Q t" using Cons.IH by blast
    then show ?thesis using 3(1) by (intro exI [of _ "x # as"] exI [of _ bs]) simp
  qed
qed simp

lemma head_of_sorted_selection:
  assumes "comparison cmp" and "sort_by cmp (map f (filter Q xs)) = y # ys"
  shows "\<exists>us t vs. xs = us @ t # vs \<and> Q t \<and> y = f t
     \<and> (\<forall>u \<in> set us. Q u \<longrightarrow> cmp y (f u) = Less) \<and> (\<forall>v \<in> set vs. Q v \<longrightarrow> cmp y (f v) \<noteq> Greater)"
proof -
  obtain us vs where m: "map f (filter Q xs) = us @ y # vs"
    and less: "\<forall>u \<in> set us. cmp y u = Less" "\<forall>v \<in> set vs. cmp y v \<noteq> Greater"
    using comparison.sort_by_head [OF assms] by blast
  obtain us' rest where f: "filter Q xs = us' @ rest" "us = map f us'" and "map f rest = y # vs"
    using m unfolding map_eq_append_conv by metis
  then obtain t vs' where g: "rest = t # vs'" "y = f t" "vs = map f vs'"
    unfolding map_eq_Cons_conv by metis
  with f(1) have "filter Q xs = us' @ t # vs'" by simp
  from filter_split_at [OF this] obtain as bs
    where h: "xs = as @ t # bs" "us' = filter Q as" "vs' = filter Q bs" "Q t"
    by blast
  have "\<forall>u \<in> set as. Q u \<longrightarrow> cmp y (f u) = Less" "\<forall>v \<in> set bs. Q v \<longrightarrow> cmp y (f v) \<noteq> Greater"
    using less unfolding f(2) g(3) h(2,3) by auto
  with g(2) h(1,4) show ?thesis by blast
qed

interpretation by_position: comparison "compare_by_position fr ranks"
  unfolding compare_by_position_def by (intro comparison_then comparison_key)

section \<open>Correctness of the next task\<close>

text \<open>The tasks to choose from, and which of two comes first on the board.\<close>

definition wanted :: "query_env \<Rightarrow> filter_expr option \<Rightarrow> board_view \<Rightarrow> entity \<Rightarrow> bool" where
  "wanted env expr b t \<longleftrightarrow>
     get_str t ''position_column'' \<noteq> Some (terminal_id (bv_columns b))
     \<and> task_is_ready t (bv_tasks b) (terminal_id (bv_columns b))
     \<and> (case expr of Some e \<Rightarrow> task_matches (view_registry env b) e (enriched env b t) | None \<Rightarrow> True)"

definition comes_before :: "query_env \<Rightarrow> board_view \<Rightarrow> entity \<Rightarrow> entity \<Rightarrow> bool" where
  "comes_before env b t u \<longleftrightarrow>
     (let rank = column_rank (build_column_order (sort_key order_or_0 (bv_columns b)));
          place = task_ordinal (qe_fractions env)
      in rank t < rank u \<or> rank t = rank u \<and> place t < place u)"

lemma compare_comes_before:
  "compare_by_position (qe_fractions env) (build_column_order (sort_key order_or_0 (bv_columns b)))
     (enriched env b t) (enriched env b u) = Less \<longleftrightarrow> comes_before env b t u"
  "compare_by_position (qe_fractions env) (build_column_order (sort_key order_or_0 (bv_columns b)))
     (enriched env b t) (enriched env b u) = Greater \<longleftrightarrow> comes_before env b u t"
  by (auto simp: compare_by_position_def comes_before_def column_rank_def Let_def)

text \<open>C16. The next task is the first on the board, by column and then by ordinal, among the tasks that
  are not finished, not blocked and match the filter; of several at the same place it is the one
  listed first. There is no next task exactly when no task is wanted.\<close>

theorem next_task_correct:
  assumes "parse_filter_expr (qe_chumsky env) flt = Inr expr"
    and "distinct (map entity_id (bv_tasks b))" and "terminal_id (bv_columns b) \<noteq> []"
  shows "execute_next env flt b = Inr JNull \<and> (\<forall>t \<in> set (bv_tasks b). \<not> wanted env expr b t)
     \<or> (\<exists>us t vs. bv_tasks b = us @ t # vs \<and> wanted env expr b t
          \<and> execute_next env flt b = Inr (task_entity_to_rich_json env (enriched env b t))
          \<and> (\<forall>u \<in> set us. wanted env expr b u \<longrightarrow> comes_before env b t u)
          \<and> (\<forall>v \<in> set vs. wanted env expr b v \<longrightarrow> \<not> comes_before env b v t))"
proof -
  let ?cmp = "compare_by_position (qe_fractions env) (build_column_order (sort_key order_or_0 (bv_columns b)))"
  let ?P = "is_actionable (terminal_id (bv_columns b)) expr (view_registry env b)"
  have P: "?P (enriched env b t) = wanted env expr b t" if "t \<in> set (bv_tasks b)" for t
    using enriched_ready [OF assms(2,3) that] by (simp add: is_actionable_def wanted_def split: option.split)
  have sel: "filter ?P (enriched_tasks env b) = map (enriched env b) (filter (wanted env expr b) (bv_tasks b))"
    unfolding enriched_tasks_map filter_map o_def using P by (metis (mono_tags, lifting) filter_cong)
  have run: "execute_next env flt b =
      (case sort_by ?cmp (map (enriched env b) (filter (wanted env expr b) (bv_tasks b))) of
         t # _ \<Rightarrow> Inr (task_entity_to_rich_json env t) | [] \<Rightarrow> Inr JNull)"
    unfolding sel [symmetric]
    by (simp add: execute_next_def assms(1) enriched_tasks_def view_registry_def Let_def)
  note pick = head_of_sorted_selection [OF by_position.comparison_axioms,
      of "qe_fractions env" "build_column_order (sort_key order_or_0 (bv_columns b))" "enriched env b"
        "wanted env expr b" "bv_tasks b"]
  show ?thesis
  proof (cases "sort_by ?cmp (map (enriched env b) (filter (wanted env expr b) (bv_tasks b)))")
    case Nil
    then show ?thesis using run by (simp add: filter_empty_conv)
  next
    case (Cons y ys)
    obtain us t vs where split: "bv_tasks b = us @ t # vs" "wanted env expr b t" "y = enriched env b t"
      and order: "\<forall>u \<in> set us. wanted env expr b u \<longrightarrow> comes_before env b t u"
        "\<forall>v \<in> set vs. wanted env expr b v \<longrightarrow> \<not> comes_before env b v t"
      using pick [OF Cons] by (auto simp: compare_comes_before)
    moreover have "execute_next env flt b = Inr (task_entity_to_rich_json env (enriched env b t))"
      using run Cons split(3) by simp
    ultimately show ?thesis by blast
  qed
qed

section \<open>Correctness of listings\<close>

definition page_tasks :: "kanban_error + json \<Rightarrow> json list" where
  "page_tasks r =
     (case r of
        Inl _ \<Rightarrow> []
      | Inr j \<Rightarrow> (case Option.bind (json_get j ''tasks'') json_array of Some xs \<Rightarrow> xs | None \<Rightarrow> []))"

lemma listed_values_length: "length (listed_values env column expr detail b) \<le> length (bv_tasks b)"
proof -
  have "length (listed_values env column expr detail b) \<le> length (enriched_tasks env b)"
    by (simp add: listed_values_def)
  then show ?thesis by (simp add: enriched_tasks_map)
qed

lemma page_size_bounds: "1 \<le> page_size_of s" "page_size_of s \<le> 100"
  by (auto simp: page_size_of_def max_page_size_def)

lemma drop_page_start: "length xs \<le> usize_limit \<Longrightarrow> drop (page_start p s) xs = drop ((p - 1) * s) xs"
  by (cases "(p - 1) * s \<le> usize_limit") (simp_all add: page_start_def)

lemma concat_pages: "concat (map (\<lambda>p. take s (drop ((p - 1) * s) xs)) [1..<Suc n]) = take (n * s) xs"
proof (induction n)
  case (Suc n)
  have "take (Suc n * s) xs = take (n * s) xs @ take s (drop (n * s) xs)"
    by (metis add.commute mult_Suc take_add)
  then show ?case using Suc by simp
qed simp

lemma total_pages_cover:
  assumes "1 \<le> s"
  shows "n \<le> total_pages_of n s * s"
proof -
  have "((n + s - 1) div s) * s + (n + s - 1) mod s = n + s - 1" by (rule div_mult_mod_eq)
  moreover have "(n + s - 1) mod s < s" using assms by simp
  ultimately have "n \<le> ((n + s - 1) div s) * s" using assms by linarith
  also have "\<dots> \<le> total_pages_of n s * s" by (intro mult_le_mono1) (simp add: total_pages_of_def)
  finally show ?thesis .
qed

text \<open>C17. The pages of a listing, put one after another, are the tasks that the column, the filter and the
  detail select, in their order and each once: the number of pages that a page tells is enough, a later
  page is empty, page 0 and no page are the first, a page has between 1 and 100 tasks at most as asked
  for, and its counts are right.\<close>

theorem list_pages_partition:
  assumes "parse_filter_expr (qe_chumsky env) (lt_filter op) = Inr expr"
    and "parse_detail env (lt_detail op) = Inr detail" and "length (bv_tasks b) < 2 ^ 64"
  shows "let values = listed_values env (lt_column op) expr detail b;
             s = page_size_of (lt_page_size op);
             n = total_pages_of (length values) s;
             result = (\<lambda>p. execute_list env (op\<lparr>lt_page := p\<rparr>) b)
         in 1 \<le> s \<and> s \<le> 100 \<and> 1 \<le> n
          \<and> concat (map (\<lambda>p. page_tasks (result (Some p))) [1..<Suc n]) = values
          \<and> (\<forall>p > n. page_tasks (result (Some p)) = [])
          \<and> result None = result (Some 1) \<and> result (Some 0) = result (Some 1)
          \<and> (\<forall>p. \<exists>page. result p = Inr page
               \<and> length (page_tasks (result p)) \<le> s
               \<and> Option.bind (json_get page ''count'') json_u64 = Some (length (page_tasks (result p)))
               \<and> Option.bind (json_get page ''total'') json_u64 = Some (length values))"
proof -
  let ?vs = "listed_values env (lt_column op) expr detail b"
  let ?s = "page_size_of (lt_page_size op)"
  let ?n = "total_pages_of (length ?vs) ?s"
  let ?result = "\<lambda>p. execute_list env (op\<lparr>lt_page := p\<rparr>) b"
  have len: "length ?vs < 2 ^ 64" using listed_values_length assms(3) by (metis order_le_less_trans)
  then have fits: "length ?vs \<le> usize_limit" unfolding usize_limit_def by linarith
  have run: "?result p = Inr (JObject [(''tasks'', JArray (take ?s (drop (page_start (page_of p) ?s) ?vs))),
      (''count'', json_nat (length (take ?s (drop (page_start (page_of p) ?s) ?vs)))),
      (''total'', json_nat (length ?vs)), (''page'', json_nat (page_of p)), (''page_size'', json_nat ?s),
      (''total_pages'', json_nat ?n)])" for p
    by (simp add: execute_list_def assms(1,2) Let_def)
  then have tasks: "page_tasks (?result p) = take ?s (drop ((page_of p - 1) * ?s) ?vs)" for p
    unfolding run by (simp add: page_tasks_def drop_page_start [OF fits])
  have p: "page_of (Some p) = p" if "1 \<le> p" for p using that by (simp add: page_of_def)
  have "map (\<lambda>p. page_tasks (?result (Some p))) [1..<Suc ?n] = map (\<lambda>p. take ?s (drop ((p - 1) * ?s) ?vs)) [1..<Suc ?n]"
    by (rule map_cong [OF refl]) (simp only: tasks p set_upt atLeastLessThan_iff)
  then have "concat (map (\<lambda>p. page_tasks (?result (Some p))) [1..<Suc ?n]) = ?vs"
    using total_pages_cover [OF page_size_bounds(1), of "length ?vs" "lt_page_size op"] by (simp only: concat_pages take_all)
  moreover have "page_tasks (?result (Some p)) = []" if "?n < p" for p
  proof -
    have "?n * ?s \<le> (p - 1) * ?s" using that by (intro mult_le_mono1) simp
    then have "length ?vs \<le> (p - 1) * ?s"
      using total_pages_cover [OF page_size_bounds(1)] le_trans by blast
    then show ?thesis using that unfolding tasks by (simp add: p)
  qed
  moreover have "?result None = ?result (Some 1)" "?result (Some 0) = ?result (Some 1)"
    unfolding run by (simp_all add: page_of_def)
  moreover have "\<exists>page. ?result q = Inr page \<and> length (page_tasks (?result q)) \<le> ?s
      \<and> Option.bind (json_get page ''count'') json_u64 = Some (length (page_tasks (?result q)))
      \<and> Option.bind (json_get page ''total'') json_u64 = Some (length ?vs)" for q
  proof -
    have "length (page_tasks (?result q)) \<le> length ?vs" unfolding tasks by simp
    then have small: "length (page_tasks (?result q)) < 2 ^ 64" using len by (rule order_le_less_trans)
    have "take ?s (drop (page_start (page_of q) ?s) ?vs) = page_tasks (?result q)"
      unfolding tasks by (simp add: drop_page_start [OF fits])
    then show ?thesis
      using run [of q] json_u64_nat [OF small] json_u64_nat [OF len] unfolding tasks by simp
  qed
  moreover have "1 \<le> ?n" by (simp add: total_pages_of_def)
  ultimately show ?thesis using page_size_bounds [of "lt_page_size op"] by (simp only: Let_def) blast
qed

text \<open>Without a column a listing leaves out exactly what the listing of the terminal column has.\<close>

lemma listing_splits_board:
  "length (listed_values env None expr d b) + length (listed_values env (Some (terminal_id (bv_columns b))) expr d b)
     = length (filter (\<lambda>t. case expr of Some e \<Rightarrow> task_matches (view_registry env b) e t | None \<Rightarrow> True) (enriched_tasks env b))"
proof -
  have "length (filter (listed None c expr r) ts) + length (filter (listed (Some c) c expr r) ts)
      = length (filter (\<lambda>t. case expr of Some e \<Rightarrow> task_matches r e t | None \<Rightarrow> True) ts)" for c r ts
    by (induction ts) (auto simp: listed_def)
  then show ?thesis by (simp add: listed_values_def)
qed

text \<open>The slim projection leaves out the description and the attachments, and keeps the rest.\<close>

lemma slim_field:
  assumes "j = JObject fs"
  shows "json_get (slim_task_json j) k = (if k \<in> set slim_task_fields then json_get j k else None)"
proof -
  have "map_of (List.map_filter (\<lambda>k. map_option (Pair k) (map_of fs k)) ks) k
      = (if k \<in> set ks then map_of fs k else None)" for ks
    by (induction ks) (auto simp: List.map_filter_simps split: option.split)
  then show ?thesis by (simp add: slim_task_json_def assms)
qed

section \<open>Scoping a listing to a project\<close>

lemma trim_Nil:
  assumes "trim s = []" and "c \<in> set s"
  shows "is_ws c"
proof -
  have "dropWhile is_ws (rev (dropWhile is_ws s)) = []"
    using assms(1) by (simp add: trim_def trim_matches_def trim_start_matches_def trim_end_matches_def)
  then have "\<forall>x \<in> set (dropWhile is_ws s). is_ws x" unfolding dropWhile_eq_Nil_conv by simp
  then have "dropWhile is_ws s = []" using hd_dropWhile [of is_ws s] hd_in_set by blast
  then show ?thesis using assms(2) unfolding dropWhile_eq_Nil_conv by blast
qed

text \<open>C18. A listing with a filter and a project is meant to have the tasks of the project only. The two are
  joined as text: when the parser, as its grammar says, lets \<open>&&\<close> bind tighter than \<open>||\<close>, every
  unfinished task that matches the left side of an alternative is listed, whatever its project.\<close>

theorem project_scope_escapes:
  assumes "qe_chumsky env (f @ '' && $'' @ p) = Inr (Or e1 (And e2 (Project p)))"
    and "t \<in> set (enriched_tasks env b)" and "get_str t ''position_column'' \<noteq> Some (terminal_id (bv_columns b))"
    and "task_matches (view_registry env b) e1 t"
  shows "\<exists>expr. parse_filter_expr (qe_chumsky env) (effective_filter (Some f) (Some p)) = Inr (Some expr)
     \<and> project_detail d (task_entity_to_rich_json env t) \<in> set (listed_values env None (Some expr) d b)"
proof -
  have "CHR ''$'' \<in> set (f @ '' && $'' @ p)" "\<not> is_ws (CHR ''$'')" by (simp_all add: is_ws_def)
  then have "trim (f @ '' && $'' @ p) \<noteq> []" using trim_Nil by blast
  then have parsed: "parse_filter_expr (qe_chumsky env) (effective_filter (Some f) (Some p))
      = Inr (Some (Or e1 (And e2 (Project p))))"
    using assms(1) by (simp add: parse_filter_expr_def parse_filter_def)
  have "listed None (terminal_id (bv_columns b)) (Some (Or e1 (And e2 (Project p)))) (view_registry env b) t"
    using assms(3,4) by (simp add: listed_def task_matches_def)
  then have "project_detail d (task_entity_to_rich_json env t)
      \<in> set (listed_values env None (Some (Or e1 (And e2 (Project p)))) d b)"
    using assms(2) by (simp add: listed_values_def)
  with parsed show ?thesis by blast
qed

section \<open>Examples\<close>

definition sample_column :: "string \<Rightarrow> nat \<Rightarrow> entity" where
  "sample_column i n = set_field ''order'' (json_nat n) (new_entity ''column'' i)"

definition scoped_filter :: filter_parser where
  "scoped_filter s =
     (if s = ''#bug || #feature && $auth'' then Inr (Or (Tag ''bug'') (And (Tag ''feature'') (Project ''auth'')))
      else Inl [])"

definition sample_query_env :: query_env where
  "sample_query_env =
     \<lparr>qe_number = (\<lambda>q. JNull), qe_fractions = tree_fractions, qe_chumsky = scoped_filter, qe_debug = (\<lambda>s. s)\<rparr>"

text \<open>One task is finished, one waits for the other.\<close>

definition sample_board_view :: board_view where
  "sample_board_view =
     \<lparr>bv_columns = [sample_column ''done'' 1, sample_column ''todo'' 0],
      bv_tasks = [example_task ''c'' ''todo'' [''b''], example_task ''a'' ''done'' [],
                  set_field ''tags'' (json_strings [''bug'']) (set_field ''project'' (JString ''web'')
                    (example_task ''b'' ''todo'' [''a'']))],
      bv_projects = [], bv_actors = []\<rparr>"

lemma sample_terminal [simp]: "terminal_id (bv_columns sample_board_view) = ''done''"
  by (simp add: sample_board_view_def terminal_id_def sample_column_def order_or_0_def order_of_def json_u64_nat)

lemma sample_bug: "task_matches r (Tag ''bug'') (enriched sample_query_env sample_board_view (bv_tasks sample_board_view ! 2))"
proof -
  have "''bug'' \<in> set (get_string_list (bv_tasks sample_board_view ! 2) ''tags'')" by (simp add: sample_board_view_def)
  then have "''bug'' \<in> set (get_string_list (enriched sample_query_env sample_board_view (bv_tasks sample_board_view ! 2)) ''filter_tags'')"
    using enriched_tags by blast
  then show ?thesis by (auto simp: task_matches_def adapter_def adapter_has_tag_def eq_ignore_case_def list_ex_iff)
qed

theorem next_task_correct_witness:
  "\<exists>t. execute_next sample_query_env None sample_board_view
       = Inr (task_entity_to_rich_json sample_query_env (enriched sample_query_env sample_board_view t))
     \<and> entity_id t = ''b''"
proof -
  have w: "wanted sample_query_env None sample_board_view t \<longleftrightarrow> entity_id t = ''b''" if "t \<in> set (bv_tasks sample_board_view)" for t
    using that by (auto simp: wanted_def sample_board_view_def sample_column_def terminal_id_def order_or_0_def order_of_def
        json_u64_nat example_task_def task_is_ready_def dep_done_def with_id_def)
  have "\<exists>us t vs. bv_tasks sample_board_view = us @ t # vs \<and> wanted sample_query_env None sample_board_view t
      \<and> execute_next sample_query_env None sample_board_view
          = Inr (task_entity_to_rich_json sample_query_env (enriched sample_query_env sample_board_view t))"
    using next_task_correct [of sample_query_env None None sample_board_view] w
    by (auto simp: parse_filter_expr_def) (auto simp: sample_board_view_def example_task_def)
  then obtain us t vs where t: "bv_tasks sample_board_view = us @ t # vs" "wanted sample_query_env None sample_board_view t"
    "execute_next sample_query_env None sample_board_view
          = Inr (task_entity_to_rich_json sample_query_env (enriched sample_query_env sample_board_view t))" by blast
  have "t \<in> set (bv_tasks sample_board_view)" using t(1) by simp
  with t(2,3) w show ?thesis by blast
qed

theorem list_pages_partition_witness:
  "let values = listed_values sample_query_env None None Slim sample_board_view;
       result = (\<lambda>p. execute_list sample_query_env
         \<lparr>lt_column = None, lt_filter = None, lt_project = None, lt_page = p, lt_page_size = Some 1, lt_detail = None\<rparr> sample_board_view)
   in length values = 2 \<and> page_tasks (result (Some 1)) @ page_tasks (result (Some 2)) = values
     \<and> page_tasks (result (Some 3)) = []"
proof -
  let ?op = "\<lparr>lt_column = None, lt_filter = None, lt_project = None, lt_page = None, lt_page_size = Some 1, lt_detail = None\<rparr>"
  let ?vs = "listed_values sample_query_env None None Slim sample_board_view"
  have len: "length ?vs = 2"
    by (simp add: listed_values_def enriched_tasks_map)
      (simp add: listed_def sample_board_view_def sample_column_def terminal_id_def order_or_0_def order_of_def
        json_u64_nat example_task_def)
  have n: "total_pages_of (length ?vs) (page_size_of (Some 1)) = 2" "[Suc 0..<2] = [Suc 0]"
    unfolding len by (simp_all add: total_pages_of_def page_size_of_def max_page_size_def upt_conv_Cons)
  have small: "length (bv_tasks sample_board_view) < 2 ^ 64" by (simp add: sample_board_view_def)
  show ?thesis
    using list_pages_partition [of sample_query_env ?op None Slim sample_board_view] small len n
    by (auto simp: parse_filter_expr_def parse_detail_def Let_def)
qed

theorem project_scope_escapes_witness:
  "\<exists>t expr. get_str t ''project'' = Some ''web''
     \<and> parse_filter_expr (qe_chumsky sample_query_env) (effective_filter (Some ''#bug || #feature'') (Some ''auth''))
         = Inr (Some expr)
     \<and> task_entity_to_rich_json sample_query_env t \<in> set (listed_values sample_query_env None (Some expr) Full sample_board_view)"
proof -
  let ?t = "enriched sample_query_env sample_board_view (bv_tasks sample_board_view ! 2)"
  have "bv_tasks sample_board_view ! 2 \<in> set (bv_tasks sample_board_view)" by (rule nth_mem) (simp add: sample_board_view_def)
  then have t: "?t \<in> set (enriched_tasks sample_query_env sample_board_view)" unfolding enriched_tasks_map by simp
  have col: "get_str ?t ''position_column'' \<noteq> Some (terminal_id (bv_columns sample_board_view))"
    by (simp add: sample_board_view_def example_task_def sample_column_def terminal_id_def order_or_0_def order_of_def json_u64_nat)
  have web: "get_str ?t ''project'' = Some ''web''"
    unfolding enriched_project by (simp add: sample_board_view_def)
  have "qe_chumsky sample_query_env (''#bug || #feature'' @ '' && $'' @ ''auth'')
      = Inr (Or (Tag ''bug'') (And (Tag ''feature'') (Project ''auth'')))"
    by (simp add: sample_query_env_def scoped_filter_def)
  from project_scope_escapes [OF this t col sample_bug, of Full] web show ?thesis by auto
qed

end
