(* ===== verification/Entity_Store.thy ===== *)
theory Entity_Store
  imports Field_Validation Tag_Ops Task_Query
begin

text \<open>
  The operations of the board on top of the entity context: columns, projects, actors and tasks of
  \<open>swissarmyhammer-kanban/src\<close> (\<open>column\<close>, \<open>project\<close>, \<open>actor\<close>, \<open>task\<close>), where every write goes through the
  validation of fields. The state has the live and the archived entities of each type, in the order
  \<open>list\<close> answers them. Computed fields, which a read adds and a write strips, are not stored; the
  changelogs, the caches and the removal of attachment files are not part of this state.
\<close>

section \<open>The entity context\<close>

record entity_store =
  live :: "string \<Rightarrow> entity list"
  archived :: "string \<Rightarrow> entity list"

type_synonym 'a store_op = "(entity_store, kanban_error, 'a) action"

text \<open>The libraries: \<open>chrono\<close> for dates, the two engines for JavaScript, the generators and parsers of ids.\<close>

record store_env =
  se_query :: query_env
  se_js :: "string \<Rightarrow> string \<Rightarrow> json \<Rightarrow> fields \<Rightarrow> string + json"
  se_entity_js :: "string \<Rightarrow> string \<Rightarrow> fields \<Rightarrow> string + json"
  se_resolve :: "string \<Rightarrow> nat \<Rightarrow> json \<Rightarrow> validation_error + string option"
  se_is_ulid :: "string \<Rightarrow> bool"
  se_new_tag_id :: "entity list \<Rightarrow> string"
  se_calendar_date :: "string \<Rightarrow> string option"
  se_rfc3339_date :: "string \<Rightarrow> string option"

definition known_entity_types :: "string list" where
  "known_entity_types = [''task'', ''tag'', ''actor'', ''column'', ''attachment'', ''project'']"

definition lookup_get :: "entity_store \<Rightarrow> string \<Rightarrow> string \<Rightarrow> bool" where
  "lookup_get st ty i \<longleftrightarrow> ty \<in> set known_entity_types \<and> with_id i (live st ty) \<noteq> None"

definition tag_name_rule :: string where
  "tag_name_rule =
     ''const { value } = ctx;'' @ [NL]
     @ ''let v = value.trim().replace(/ +/g, \"_\").replace(/'' @ [CHR 0x5C] @ ''0/g, \"\");'' @ [NL]
     @ ''if (v.length === 0) throw new Error(\"tag_name cannot be empty\");'' @ [NL] @ ''return v;'' @ [NL]"

definition builtin_fields :: "string \<Rightarrow> field_def list" where
  "builtin_fields ty =
     (let name = plain_field ''name'' (TextField True) (Some (JString ''New item''));
          description = plain_field ''description'' (MarkdownField True) None;
          color = plain_field ''color'' ColorField None
      in if ty = ''task'' then task_fields
         else if ty = ''column'' then [name, plain_field ''order'' NumberField (Some (json_nat 0))]
         else if ty = ''project'' then [name, description, color]
         else if ty = ''actor'' then [name, color, plain_field ''avatar'' (TextField True) None]
         else if ty = ''tag'' then
           [\<lparr>fd_name = ''tag_name'', fd_type = TextField True, fd_default = Some (JString ''new-tag''),
              fd_validate = Some tag_name_rule\<rparr>, color, description]
         else [])"

definition board_write_env :: "store_env \<Rightarrow> entity_store \<Rightarrow> write_env" where
  "board_write_env env st =
     \<lparr>we_fields = builtin_fields, we_rule = (\<lambda>ty. None), we_resolve = se_resolve env,
      we_engine = Some \<lparr>en_lookup = Some (lookup_get st), en_js = se_js env, en_entity_js = se_entity_js env\<rparr>\<rparr>"

definition read_entity_of :: "string \<Rightarrow> string \<Rightarrow> entity_store \<Rightarrow> entity option" where
  "read_entity_of ty i st = with_id i (live st ty)"

definition write_stored :: "store_env \<Rightarrow> entity \<Rightarrow> unit store_op" where
  "write_stored env e st =
     (case validate_for_write (board_write_env env st) e of
        Inl (ValidationFailed field m) \<Rightarrow> (Inl (EntityInvalid field m), st)
      | Inr e' \<Rightarrow>
          (Inr (), st\<lparr>live := (live st)(entity_type e' := put_entity e' (live st (entity_type e')))\<rparr>))"

definition delete_stored :: "string \<Rightarrow> string \<Rightarrow> entity_store \<Rightarrow> entity_store" where
  "delete_stored ty i st = st\<lparr>live := (live st)(ty := filter (\<lambda>e. entity_id e \<noteq> i) (live st ty))\<rparr>"

definition archive_stored :: "entity \<Rightarrow> entity_store \<Rightarrow> entity_store" where
  "archive_stored e st =
     (delete_stored (entity_type e) (entity_id e) st)
       \<lparr>archived := (archived st)(entity_type e := archived st (entity_type e) @ [e])\<rparr>"

text \<open>The latest archived version is put back as it was, without validation.\<close>

definition unarchive_stored :: "string \<Rightarrow> string \<Rightarrow> unit store_op" where
  "unarchive_stored ty i st =
     (case with_id i (rev (archived st ty)) of
        None \<Rightarrow> (Inl (StoreFailed i), st)
      | Some e \<Rightarrow>
          (Inr (), st\<lparr>live := (live st)(ty := put_entity e (live st ty)),
                      archived := (archived st)(ty := rev (remove1 e (rev (archived st ty))))\<rparr>))"

definition board_of :: "entity_store \<Rightarrow> board" where
  "board_of st = \<lparr>columns = live st ''column'', tasks = live st ''task''\<rparr>"

text \<open>A write followed by an answer; a failed write ends the operation.\<close>

definition write_then :: "store_env \<Rightarrow> entity \<Rightarrow> json \<Rightarrow> json store_op" where
  "write_then env e answer st =
     (case write_stored env e st of (Inl err, st') \<Rightarrow> (Inl err, st') | (Inr _, st') \<Rightarrow> (Inr answer, st'))"

definition set_if :: "string \<Rightarrow> string option \<Rightarrow> entity \<Rightarrow> entity" where
  "set_if k v e = (case v of Some s \<Rightarrow> set_field k (JString s) e | None \<Rightarrow> e)"

section \<open>Columns\<close>

definition column_entity_to_json :: "entity \<Rightarrow> json" where
  "column_entity_to_json e =
     JObject [(''id'', JString (entity_id e)), (''name'', str_or [] e ''name''), (''order'', json_nat (order_or_0 e))]"

definition next_order :: "entity list \<Rightarrow> nat" where
  "next_order cols = (let orders = List.map_filter order_of cols in if orders = [] then 0 else Max (set orders) + 1)"

definition store_add_column :: "store_env \<Rightarrow> string \<Rightarrow> string \<Rightarrow> nat option \<Rightarrow> json store_op" where
  "store_add_column env i name pos st =
     (if read_entity_of ''column'' i st \<noteq> None then (Inl (DuplicateId ''column'' i), st)
      else let n = (case pos of Some n \<Rightarrow> n | None \<Rightarrow> next_order (live st ''column''));
               e = set_field ''order'' (json_nat n) (set_field ''name'' (JString name) (new_entity ''column'' i))
           in write_then env e (column_entity_to_json e) st)"

definition store_update_column :: "store_env \<Rightarrow> string \<Rightarrow> string option \<Rightarrow> nat option \<Rightarrow> json store_op" where
  "store_update_column env i name pos st =
     (case read_entity_of ''column'' i st of
        None \<Rightarrow> (Inl (ColumnNotFound i), st)
      | Some e \<Rightarrow>
          let e1 = set_if ''name'' name e;
              e2 = (case pos of Some n \<Rightarrow> set_field ''order'' (json_nat n) e1 | None \<Rightarrow> e1)
          in write_then env e2 (column_entity_to_json e2) st)"

definition deleted_answer :: "string \<Rightarrow> json" where
  "deleted_answer i = JObject [(''deleted'', JBool True), (''id'', JString i)]"

definition store_delete_column :: "string \<Rightarrow> json store_op" where
  "store_delete_column i st =
     (if read_entity_of ''column'' i st = None then (Inl (ColumnNotFound i), st)
      else let count = length (filter (\<lambda>t. get_str t ''position_column'' = Some i) (live st ''task''))
           in if 0 < count then (Inl (ColumnNotEmpty i count), st)
              else (Inr (deleted_answer i), delete_stored ''column'' i st))"

section \<open>Projects\<close>

definition project_entity_to_json :: "entity \<Rightarrow> json" where
  "project_entity_to_json e =
     JObject [(''id'', JString (entity_id e)), (''name'', str_or [] e ''name''),
              (''description'', str_or [] e ''description''), (''color'', str_or [] e ''color'')]"

definition store_add_project ::
  "store_env \<Rightarrow> string \<Rightarrow> string \<Rightarrow> string option \<Rightarrow> string option \<Rightarrow> json store_op" where
  "store_add_project env i name description color st =
     (if read_entity_of ''project'' i st \<noteq> None then (Inl (DuplicateId ''project'' i), st)
      else let e = set_if ''color'' color
                     (set_if ''description'' description
                       (set_field ''name'' (JString name) (new_entity ''project'' i)))
           in write_then env e (project_entity_to_json e) st)"

definition store_update_project ::
  "store_env \<Rightarrow> string \<Rightarrow> string option \<Rightarrow> string option \<Rightarrow> string option \<Rightarrow> json store_op" where
  "store_update_project env i name description color st =
     (case read_entity_of ''project'' i st of
        None \<Rightarrow> (Inl (ProjectNotFound i), st)
      | Some e \<Rightarrow>
          let e' = set_if ''color'' color (set_if ''description'' description (set_if ''name'' name e))
          in write_then env e' (project_entity_to_json e') st)"

definition store_delete_project :: "string \<Rightarrow> json store_op" where
  "store_delete_project i st =
     (if read_entity_of ''project'' i st = None then (Inl (ProjectNotFound i), st)
      else let count = length (filter (\<lambda>t. get_str t ''project'' = Some i) (live st ''task''))
           in if 0 < count then (Inl (ProjectHasTasks i count), st)
              else (Inr (deleted_answer i), delete_stored ''project'' i st))"

section \<open>Actors\<close>

definition actor_entity_to_json :: "entity \<Rightarrow> json" where
  "actor_entity_to_json e = JObject [(''id'', JString (entity_id e)), (''name'', str_or [] e ''name'')]"

text \<open>The registration that may find the actor: what changes, and whether anything does.\<close>

definition refresh_if :: "string \<Rightarrow> string option \<Rightarrow> entity \<times> bool \<Rightarrow> entity \<times> bool" where
  "refresh_if k v = (\<lambda>(e, updated).
     case v of
       None \<Rightarrow> (e, updated)
     | Some s \<Rightarrow> if get_str e k \<noteq> Some s then (set_field k (JString s) e, True) else (e, updated))"

definition refresh_actor :: "string \<Rightarrow> string option \<Rightarrow> string option \<Rightarrow> entity \<Rightarrow> entity \<times> bool" where
  "refresh_actor name color avatar e =
     refresh_if ''avatar'' avatar
       (refresh_if ''color'' color
         (if (case get_str e ''name'' of Some s \<Rightarrow> s | None \<Rightarrow> []) \<noteq> name
          then (set_field ''name'' (JString name) e, True) else (e, False)))"

definition store_add_actor ::
  "store_env \<Rightarrow> string \<Rightarrow> string \<Rightarrow> bool \<Rightarrow> string option \<Rightarrow> string option \<Rightarrow> json store_op" where
  "store_add_actor env i name ensure color avatar st =
     (case read_entity_of ''actor'' i st of
        Some existing \<Rightarrow>
          if \<not> ensure then (Inl (DuplicateId ''actor'' i), st)
          else let (e, updated) = refresh_actor name color avatar existing;
                   answer = JObject [(''actor'', actor_entity_to_json e), (''created'', JBool False),
                     (''updated'', JBool updated),
                     (''message'', JString (if updated then ''Actor updated'' else ''Actor already exists''))]
               in if updated then write_then env e answer st else (Inr answer, st)
      | None \<Rightarrow>
          let e = set_if ''avatar'' avatar
                    (set_if ''color'' color (set_field ''name'' (JString name) (new_entity ''actor'' i)))
          in write_then env e (JObject [(''actor'', actor_entity_to_json e), (''created'', JBool True)]) st)"

definition store_update_actor :: "store_env \<Rightarrow> string \<Rightarrow> string option \<Rightarrow> json store_op" where
  "store_update_actor env i name st =
     (case read_entity_of ''actor'' i st of
        None \<Rightarrow> (Inl (ActorNotFound i), st)
      | Some e \<Rightarrow> let e' = set_if ''name'' name e in write_then env e' (actor_entity_to_json e') st)"

text \<open>The loops that take an id out of a list of every task that has it.\<close>

fun drop_id :: "store_env \<Rightarrow> string \<Rightarrow> string \<Rightarrow> entity list \<Rightarrow> unit store_op" where
  "drop_id env k i [] st = (Inr (), st)"
| "drop_id env k i (t # ts) st =
     (if i \<in> set (get_string_list t k)
      then (case write_stored env (set_field k (json_strings (filter (\<lambda>d. d \<noteq> i) (get_string_list t k))) t) st of
              (Inl err, st') \<Rightarrow> (Inl err, st')
            | (Inr _, st') \<Rightarrow> drop_id env k i ts st')
      else drop_id env k i ts st)"

definition store_delete_actor :: "store_env \<Rightarrow> string \<Rightarrow> json store_op" where
  "store_delete_actor env i st =
     (if read_entity_of ''actor'' i st = None then (Inl (ActorNotFound i), st)
      else case drop_id env ''assignees'' i (live st ''task'') st of
             (Inl err, st') \<Rightarrow> (Inl err, st')
           | (Inr _, st') \<Rightarrow> (Inr (deleted_answer i), delete_stored ''actor'' i st'))"

end
