(* ===== verification/Task_Store.thy ===== *)
theory Task_Store
  imports Entity_Store
begin

text \<open>
  The operations on tasks over the entity context: \<open>swissarmyhammer-kanban/src/task/add.rs\<close>,
  \<open>update.rs\<close>, \<open>assign.rs\<close>, \<open>unassign.rs\<close>, \<open>archive.rs\<close>, and \<open>mv.rs\<close>, \<open>complete.rs\<close>, \<open>delete.rs\<close> with the
  writes that \<open>Task_Ops\<close> leaves out. The commands on columns, projects, actors and tasks are one type,
  with their arguments parsed, and a session is a list of them; tags have \<open>Tag_Ops\<close>. Minting a short id may run forever: then a command has no outcome.
\<close>

section \<open>Adding a task\<close>

record add_task =
  at_title :: string
  at_description :: "string option"
  at_column :: "string option"
  at_ordinal :: "string option"
  at_assignees :: "string list"
  at_depends_on :: "string list"
  at_tags :: "string list"
  at_project :: "string option"
  at_due :: "string option"
  at_scheduled :: "string option"

definition parse_iso8601_date :: "store_env \<Rightarrow> string \<Rightarrow> string \<Rightarrow> kanban_error + string" where
  "parse_iso8601_date env v field =
     (if trim v = []
      then Inl (ParseError (''invalid '' @ field @ '' date: empty string (omit the field to leave it unset)''))
      else case se_calendar_date env (trim v) of
             Some d \<Rightarrow> Inr d
           | None \<Rightarrow>
               (case se_rfc3339_date env (trim v) of
                  Some d \<Rightarrow> Inr d
                | None \<Rightarrow>
                    Inl (ParseError (''invalid '' @ field @ '' date: '' @ qe_debug (se_query env) v @ '' '' @ EM_DASH
                      @ '' expected ISO 8601 date (YYYY-MM-DD) or RFC 3339 datetime''))))"

definition set_date :: "store_env \<Rightarrow> string \<Rightarrow> string option \<Rightarrow> entity \<Rightarrow> kanban_error + entity" where
  "set_date env field v e =
     (case v of
        None \<Rightarrow> Inr e
      | Some s \<Rightarrow>
          (case parse_iso8601_date env s field of
             Inl err \<Rightarrow> Inl err
           | Inr d \<Rightarrow> Inr (set_field field (JString d) e)))"

definition new_task :: "add_task \<Rightarrow> string \<Rightarrow> string \<Rightarrow> string \<Rightarrow> entity" where
  "new_task op i column ordinal =
     (let e = set_position column ordinal
                (set_field ''body'' (JString (case at_description op of Some d \<Rightarrow> d | None \<Rightarrow> []))
                  (set_field ''title'' (JString (at_title op)) (new_entity ''task'' i)));
          e = (if at_assignees op = [] then e else set_field ''assignees'' (json_strings (at_assignees op)) e);
          e = (if at_depends_on op = [] then e else set_field ''depends_on'' (json_strings (at_depends_on op)) e)
      in set_if ''project'' (at_project op) e)"

text \<open>\<open>mint n\<close> is what the generator answers on its call \<open>n\<close>.\<close>

definition build_task ::
  "store_env \<Rightarrow> (nat \<Rightarrow> string) \<Rightarrow> add_task \<Rightarrow> entity_store \<Rightarrow> (kanban_error + entity) option" where
  "build_task env mint op st =
     (case resolve_column (at_column op) ''task'' (board_of st) of
        Inl err \<Rightarrow> Some (Inl err)
      | Inr column \<Rightarrow>
          (case resolve_ordinal (qe_fractions (se_query env)) column (at_ordinal op) (board_of st) of
             Inl err \<Rightarrow> Some (Inl err)
           | Inr ordinal \<Rightarrow>
               map_option
                 (\<lambda>i. case set_date env ''due'' (at_due op) (new_task op i column ordinal) of
                        Inl err \<Rightarrow> Inl err
                      | Inr e1 \<Rightarrow>
                          (case set_date env ''scheduled'' (at_scheduled op) e1 of
                             Inl err \<Rightarrow> Inl err
                           | Inr e2 \<Rightarrow>
                               (case apply_tag_refs (se_is_ulid env) (live st ''tag'') e2 (at_tags op) TagAppend of
                                  Inl err \<Rightarrow> Inl err
                                | Inr (e3, _) \<Rightarrow> Inr e3)))
                 (mint_unique_short_id ((\<lambda>t. short_id (entity_id t)) ` set (live st ''task'')) mint 0)))"

fun create_tags :: "store_env \<Rightarrow> string list \<Rightarrow> unit store_op" where
  "create_tags env [] st = (Inr (), st)"
| "create_tags env (name # names) st =
     (if tag_name_exists_entity name (live st ''tag'') then create_tags env names st
      else case write_stored env (new_tag (se_new_tag_id env (live st ''tag'')) name (auto_color name)) st of
             (Inl err, st') \<Rightarrow> (Inl err, st')
           | (Inr _, st') \<Rightarrow> create_tags env names st')"

text \<open>The write of a task, the tags its body names, and then the answer.\<close>

definition persist_task :: "store_env \<Rightarrow> entity \<Rightarrow> json \<Rightarrow> json store_op" where
  "persist_task env e answer st =
     (case write_stored env e st of
        (Inl err, st') \<Rightarrow> (Inl err, st')
      | (Inr _, st') \<Rightarrow>
          (case create_tags env (parse_tags (body_of e)) st' of
             (Inl err, st'') \<Rightarrow> (Inl err, st'')
           | (Inr _, st'') \<Rightarrow> (Inr answer, st'')))"

definition store_add_task ::
  "store_env \<Rightarrow> (nat \<Rightarrow> string) \<Rightarrow> add_task \<Rightarrow> entity_store \<Rightarrow> ((kanban_error + json) \<times> entity_store) option" where
  "store_add_task env mint op st =
     map_option
       (\<lambda>r. case r of
              Inl err \<Rightarrow> (Inl err, st)
            | Inr e \<Rightarrow> persist_task env e (slim_task_json (task_entity_to_json (se_query env) e)) st)
       (build_task env mint op st)"

section \<open>Updating a task\<close>

text \<open>A date has three states: untouched, cleared, or set.\<close>

record update_task =
  up_id :: string
  up_title :: "string option"
  up_description :: "string option"
  up_assignees :: "string list option"
  up_depends_on :: "string list option"
  up_tags :: "string list option"
  up_attachments :: "json option"
  up_project :: "string option"
  up_due :: "string option option"
  up_scheduled :: "string option option"

definition apply_optional_date ::
  "store_env \<Rightarrow> string \<Rightarrow> string option option \<Rightarrow> entity \<Rightarrow> kanban_error + entity" where
  "apply_optional_date env field v e =
     (case v of
        None \<Rightarrow> Inr e
      | Some None \<Rightarrow> Inr (remove_field field e)
      | Some (Some raw) \<Rightarrow> if trim raw = [] then Inr (remove_field field e) else set_date env field (Some raw) e)"

definition set_list_if :: "string \<Rightarrow> string list option \<Rightarrow> entity \<Rightarrow> entity" where
  "set_list_if k v e = (case v of Some xs \<Rightarrow> set_field k (json_strings xs) e | None \<Rightarrow> e)"

definition apply_update :: "store_env \<Rightarrow> update_task \<Rightarrow> entity \<Rightarrow> kanban_error + entity" where
  "apply_update env op e =
     (let e = set_if ''body'' (up_description op) (set_if ''title'' (up_title op) e);
          e = set_list_if ''depends_on'' (up_depends_on op) (set_list_if ''assignees'' (up_assignees op) e);
          e = (case up_attachments op of Some a \<Rightarrow> set_field ''attachments'' a e | None \<Rightarrow> e);
          e = set_if ''project'' (up_project op) e
      in case apply_optional_date env ''due'' (up_due op) e of
           Inl err \<Rightarrow> Inl err
         | Inr e' \<Rightarrow> apply_optional_date env ''scheduled'' (up_scheduled op) e')"

definition store_update_task :: "store_env \<Rightarrow> update_task \<Rightarrow> json store_op" where
  "store_update_task env op st =
     (case read_entity_of ''task'' (up_id op) st of
        None \<Rightarrow> (Inl (TaskNotFound (up_id op)), st)
      | Some e \<Rightarrow>
          (case apply_update env op e of
             Inl err \<Rightarrow> (Inl err, st)
           | Inr e1 \<Rightarrow>
               (case (case up_tags op of
                        None \<Rightarrow> Inr e1
                      | Some refs \<Rightarrow>
                          (case apply_tag_refs (se_is_ulid env) (live st ''tag'') e1 refs TagReplace of
                             Inl err \<Rightarrow> Inl err | Inr (e2, _) \<Rightarrow> Inr e2)) of
                  Inl err \<Rightarrow> (Inl err, st)
                | Inr e2 \<Rightarrow> persist_task env e2 (task_mutation_ack e2) st)))"

section \<open>Assigning, moving, completing\<close>

definition store_assign :: "store_env \<Rightarrow> string \<Rightarrow> string \<Rightarrow> json store_op" where
  "store_assign env i actor st =
     (case read_entity_of ''task'' i st of
        None \<Rightarrow> (Inl (EntityNotFound ''task'' i), st)
      | Some e \<Rightarrow>
          if read_entity_of ''actor'' actor st = None then (Inl (ActorNotFound actor), st)
          else let assignees = get_string_list e ''assignees'';
                   e' = (if actor \<in> set assignees then e
                         else set_field ''assignees'' (json_strings (assignees @ [actor])) e)
               in write_then env e' (task_mutation_ack e') st)"

definition store_unassign :: "store_env \<Rightarrow> string \<Rightarrow> string \<Rightarrow> json store_op" where
  "store_unassign env i actor st =
     (case read_entity_of ''task'' i st of
        None \<Rightarrow> (Inl (EntityNotFound ''task'' i), st)
      | Some e \<Rightarrow>
          let e' = set_field ''assignees''
                (json_strings (filter (\<lambda>a. a \<noteq> actor) (get_string_list e ''assignees''))) e
          in write_then env e' (task_mutation_ack e') st)"

definition store_ensure_column :: "store_env \<Rightarrow> string \<Rightarrow> unit store_op" where
  "store_ensure_column env column st =
     (if read_entity_of ''column'' column st = None then write_stored env (new_column column (live st ''column'')) st
      else (Inr (), st))"

definition store_move :: "store_env \<Rightarrow> move_task \<Rightarrow> json store_op" where
  "store_move env op st =
     (case read_entity_of ''task'' (mv_id op) st of
        None \<Rightarrow> (Inl (EntityNotFound ''task'' (mv_id op)), st)
      | Some e \<Rightarrow>
          (case store_ensure_column env (mv_column op) st of
             (Inl err, st1) \<Rightarrow> (Inl err, st1)
           | (Inr _, st1) \<Rightarrow>
               let e' = set_position (mv_column op)
                     (move_ordinal (qe_fractions (se_query env)) op (live st1 ''task'')) e
               in write_then env e' (task_mutation_ack e') st1))"

definition store_complete :: "store_env \<Rightarrow> string \<Rightarrow> json store_op" where
  "store_complete env i st =
     (case read_entity_of ''task'' i st of
        None \<Rightarrow> (Inl (EntityNotFound ''task'' i), st)
      | Some e \<Rightarrow>
          (case terminal_column (board_of st) of
             None \<Rightarrow> (Inl (ColumnNotFound ''done''), st)
           | Some c \<Rightarrow>
               let fr = qe_fractions (se_query env);
                   os = map (task_ordinal fr)
                     (filter (\<lambda>t. entity_id t \<noteq> i \<and> get_str t ''position_column'' = Some (entity_id c)) (live st ''task''));
                   e' = set_position (entity_id c) (end_ordinal fr os) e
               in write_then env e' (task_mutation_ack e') st))"

section \<open>Deleting and archiving\<close>

definition with_flag :: "string \<Rightarrow> entity \<Rightarrow> json" where
  "with_flag flag e = json_set flag (JBool True) (task_mutation_ack e)"

text \<open>The loop passes over the task itself.\<close>

definition drop_dependents :: "store_env \<Rightarrow> string \<Rightarrow> unit store_op" where
  "drop_dependents env i st = drop_id env ''depends_on'' i (filter (\<lambda>t. entity_id t \<noteq> i) (live st ''task'')) st"

definition store_delete_task :: "store_env \<Rightarrow> string \<Rightarrow> json store_op" where
  "store_delete_task env i st =
     (case read_entity_of ''task'' i st of
        None \<Rightarrow> (Inl (TaskNotFound i), st)
      | Some e \<Rightarrow>
          (case drop_dependents env i st of
             (Inl err, st') \<Rightarrow> (Inl err, st')
           | (Inr _, st') \<Rightarrow> (Inr (with_flag ''deleted'' e), delete_stored ''task'' i st')))"

definition store_archive_task :: "store_env \<Rightarrow> string \<Rightarrow> json store_op" where
  "store_archive_task env i st =
     (case read_entity_of ''task'' i st of
        None \<Rightarrow> (Inl (TaskNotFound i), st)
      | Some e \<Rightarrow>
          (case drop_dependents env i st of
             (Inl err, st') \<Rightarrow> (Inl err, st')
           | (Inr _, st') \<Rightarrow>
               (case read_entity_of ''task'' i st' of
                  None \<Rightarrow> (Inl (StoreFailed i), st')
                | Some stored \<Rightarrow> (Inr (with_flag ''archived'' e), archive_stored stored st'))))"

definition store_unarchive_task :: "string \<Rightarrow> json store_op" where
  "store_unarchive_task i st =
     (case unarchive_stored ''task'' i st of
        (Inl err, st') \<Rightarrow> (Inl err, st')
      | (Inr _, st') \<Rightarrow>
          (case read_entity_of ''task'' i st' of
             None \<Rightarrow> (Inl (TaskNotFound i), st')
           | Some e \<Rightarrow> (Inr (with_flag ''unarchived'' e), st')))"

section \<open>Commands and sessions\<close>

datatype command =
    AddColumn string string "nat option"
  | UpdateColumn string "string option" "nat option"
  | DeleteColumn string
  | AddProject string string "string option" "string option"
  | UpdateProject string "string option" "string option" "string option"
  | DeleteProject string
  | AddActor string string bool "string option" "string option"
  | UpdateActor string "string option"
  | DeleteActor string
  | AddTask "nat \<Rightarrow> string" add_task
  | UpdateTask update_task
  | AssignTask string string
  | UnassignTask string string
  | MoveTask move_task
  | CompleteTask string
  | DeleteTask string
  | ArchiveTask string
  | UnarchiveTask string

fun run_command ::
  "store_env \<Rightarrow> command \<Rightarrow> entity_store \<Rightarrow> ((kanban_error + json) \<times> entity_store) option" where
  "run_command env (AddColumn i name pos) st = Some (store_add_column env i name pos st)"
| "run_command env (UpdateColumn i name pos) st = Some (store_update_column env i name pos st)"
| "run_command env (DeleteColumn i) st = Some (store_delete_column i st)"
| "run_command env (AddProject i name description color) st = Some (store_add_project env i name description color st)"
| "run_command env (UpdateProject i name description color) st =
     Some (store_update_project env i name description color st)"
| "run_command env (DeleteProject i) st = Some (store_delete_project i st)"
| "run_command env (AddActor i name ensure color avatar) st = Some (store_add_actor env i name ensure color avatar st)"
| "run_command env (UpdateActor i name) st = Some (store_update_actor env i name st)"
| "run_command env (DeleteActor i) st = Some (store_delete_actor env i st)"
| "run_command env (AddTask mint op) st = store_add_task env mint op st"
| "run_command env (UpdateTask op) st = Some (store_update_task env op st)"
| "run_command env (AssignTask i actor) st = Some (store_assign env i actor st)"
| "run_command env (UnassignTask i actor) st = Some (store_unassign env i actor st)"
| "run_command env (MoveTask op) st = Some (store_move env op st)"
| "run_command env (CompleteTask i) st = Some (store_complete env i st)"
| "run_command env (DeleteTask i) st = Some (store_delete_task env i st)"
| "run_command env (ArchiveTask i) st = Some (store_archive_task env i st)"
| "run_command env (UnarchiveTask i) st = Some (store_unarchive_task i st)"

text \<open>A failed command does not end the session.\<close>

fun run_commands :: "store_env \<Rightarrow> command list \<Rightarrow> entity_store \<Rightarrow> entity_store option" where
  "run_commands env [] st = Some st"
| "run_commands env (c # cs) st =
     (case run_command env c st of None \<Rightarrow> None | Some (_, st') \<Rightarrow> run_commands env cs st')"

definition default_column_entities :: "entity list" where
  "default_column_entities =
     map (\<lambda>(i, name, n). set_field ''order'' (json_nat n) (set_field ''name'' (JString name) (new_entity ''column'' i)))
       [(''todo'', ''To Do'', 0), (''doing'', ''Doing'', 1), (''review'', ''Review'', 2), (''done'', ''Done'', 3)]"

definition new_board :: entity_store where
  "new_board =
     \<lparr>live = (\<lambda>ty. if ty = ''column'' then default_column_entities else []), archived = (\<lambda>ty. [])\<rparr>"

end
