(* ===== verification/Board_Integrity.thy ===== *)
theory Board_Integrity
  imports Task_Store
begin

text \<open>
  No task refers to something that is not there: the references of every live task resolve, after any
  session of commands without an unarchiving. Unarchiving brings back what was true when the task
  was archived.
\<close>

section \<open>The invariant\<close>

definition task_ok :: "entity_store \<Rightarrow> entity \<Rightarrow> bool" where
  "task_ok st t \<longleftrightarrow> entity_type t = ''task'' \<and> references_ok (lookup_get st) task_fields t"

definition integrity :: "entity_store \<Rightarrow> bool" where
  "integrity st \<longleftrightarrow>
     distinct (map entity_id (live st ''task'')) \<and> (\<forall>t \<in> set (live st ''task''). task_ok st t)"

definition grows :: "entity_store \<Rightarrow> entity_store \<Rightarrow> bool" where
  "grows st st' \<longleftrightarrow> (\<forall>ty i. lookup_get st ty i \<longrightarrow> lookup_get st' ty i)"

lemma task_ok_grows: "task_ok st t \<Longrightarrow> grows st st' \<Longrightarrow> task_ok st' t"
  unfolding task_ok_def grows_def using references_mono by blast

lemma put_exists: "with_id i es \<noteq> None \<Longrightarrow> with_id i (put_entity e es) \<noteq> None"
  using with_id_put [where e = e and es = es] by (cases "i = entity_id e") auto

lemma distinct_put: "distinct (map entity_id es) \<Longrightarrow> distinct (map entity_id (put_entity e es))"
  by (cases "with_id (entity_id e) es = None")
    (auto simp: map_id_put with_id_None, auto simp: put_entity_def with_id_None)

lemma set_put: "t \<in> set (put_entity e es) \<Longrightarrow> t = e \<or> t \<in> set es \<and> entity_id t \<noteq> entity_id e"
  by (auto simp: put_entity_def with_id_None split: if_splits)

lemma plain_builtin_fields: "plain_references (builtin_fields ty)"
  by (simp add: builtin_fields_def plain_task_fields Let_def) (simp add: plain_references_def plain_field_def)

section \<open>Writes\<close>

lemma written_stored:
  assumes "write_stored env e st = (r, st')"
  obtains (failed) err where "r = Inl err" "st' = st"
  | (written) e' where "r = Inr ()"
      "st' = st\<lparr>live := (live st)(entity_type e := put_entity e' (live st (entity_type e)))\<rparr>"
      "validate_for_write (board_write_env env st) e = Inr e'" "entity_id e' = entity_id e" "entity_type e' = entity_type e"
      "references_ok (lookup_get st) (builtin_fields (entity_type e)) e'"
proof (cases "validate_for_write (board_write_env env st) e")
  case (Inl x)
  then show ?thesis using assms failed by (cases x) (auto simp: write_stored_def)
next
  case (Inr e')
  let ?en = "\<lparr>en_lookup = Some (lookup_get st), en_js = se_js env, en_entity_js = se_entity_js env\<rparr>"
  have "entity_id e' = entity_id e \<and> entity_type e' = entity_type e
      \<and> references_ok (lookup_get st) (we_fields (board_write_env env st) (entity_type e)) e'"
    by (rule written_references_resolve_gen [OF Inr, where en = ?en])
      (simp_all add: board_write_env_def plain_builtin_fields)
  then show ?thesis using assms Inr written by (auto simp: write_stored_def board_write_env_def)
qed

lemma write_grows:
  assumes "write_stored env e st = (r, st')"
  shows "grows st st'"
  using assms
proof (cases rule: written_stored)
  case (written e')
  show ?thesis unfolding grows_def lookup_get_def written(2) using put_exists by auto
qed (simp add: grows_def)

lemma write_integrity:
  assumes "write_stored env e st = (r, st')" and "integrity st"
  shows "integrity st'"
  using assms(1)
proof (cases rule: written_stored)
  case (written e')
  have grows: "grows st st'" using write_grows [OF assms(1)] .
  show ?thesis
  proof (cases "entity_type e = ''task''")
    case True
    have "task_ok st e'" using written(5,6) True by (simp add: task_ok_def builtin_fields_def)
    moreover have "task_ok st t" if "t \<in> set (live st ''task'')" for t using assms(2) that by (simp add: integrity_def)
    ultimately have "task_ok st' t" if "t \<in> set (put_entity e' (live st ''task''))" for t
      using set_put [OF that] task_ok_grows [OF _ grows] by blast
    moreover have "live st' ''task'' = put_entity e' (live st ''task'')" unfolding written(2) True by simp
    ultimately show ?thesis using assms(2) distinct_put by (simp add: integrity_def)
  next
    case False
    then have "live st' ''task'' = live st ''task''" unfolding written(2) by simp
    then show ?thesis using assms(2) task_ok_grows [OF _ grows] by (simp add: integrity_def)
  qed
qed (use assms(2) in simp)

lemma write_then_integrity: "write_then env e answer st = (r, st') \<Longrightarrow> integrity st \<Longrightarrow> integrity st'"
  by (auto simp: write_then_def split: prod.splits sum.splits dest: write_integrity)

lemma create_tags_integrity: "create_tags env names st = (r, st') \<Longrightarrow> integrity st \<Longrightarrow> integrity st'"
proof (induction names arbitrary: st)
  case (Cons name names)
  then show ?case by (auto split: if_splits prod.splits sum.splits dest: write_integrity)
qed simp

lemma persist_integrity: "persist_task env e answer st = (r, st') \<Longrightarrow> integrity st \<Longrightarrow> integrity st'"
  by (auto simp: persist_task_def split: prod.splits sum.splits dest: write_integrity create_tags_integrity)

lemma drop_id_integrity: "drop_id env k i ts st = (r, st') \<Longrightarrow> integrity st \<Longrightarrow> integrity st'"
proof (induction ts arbitrary: st)
  case (Cons t ts)
  then show ?case by (auto split: if_splits prod.splits sum.splits dest: write_integrity)
qed simp

section \<open>Deletions\<close>

text \<open>Whether a task refers to an entity, by the field that may hold such a reference.\<close>

definition refers_to :: "string \<Rightarrow> string \<Rightarrow> entity \<Rightarrow> bool" where
  "refers_to ty i t \<longleftrightarrow>
     ty = ''column'' \<and> get_str t ''position_column'' = Some i
     \<or> ty = ''project'' \<and> get_str t ''project'' = Some i
     \<or> ty = ''actor'' \<and> i \<in> set (get_string_list t ''assignees'')
     \<or> ty = ''task'' \<and> i \<in> set (get_string_list t ''depends_on'')"

lemma references_ok_task:
  "references_ok exists task_fields t \<longleftrightarrow>
     (\<forall>v. field_values t ''assignees'' = Some v \<longrightarrow> reference_ok exists ''actor'' True v)
     \<and> (\<forall>v. field_values t ''project'' = Some v \<longrightarrow> reference_ok exists ''project'' False v)
     \<and> (\<forall>v. field_values t ''depends_on'' = Some v \<longrightarrow> reference_ok exists ''task'' True v)
     \<and> (\<forall>v. field_values t ''position_column'' = Some v \<longrightarrow> reference_ok exists ''column'' False v)"
  by (auto simp: references_ok_def task_fields_def plain_field_def split: option.split)

lemma list_reference:
  assumes "field_values t k = Some v" and "reference_ok exists ty True v" and "i \<notin> set (get_string_list t k)"
  shows "reference_ok (\<lambda>ty' j. exists ty' j \<and> (ty', j) \<noteq> (ty, i)) ty True v"
proof (cases v)
  case (JArray xs)
  have "JString i \<notin> set xs"
    using assms(1,3) JArray by (force simp: get_string_list_def map_filter_def)
  then show ?thesis using assms(2) JArray by (auto simp: reference_ok_def)
qed (simp_all add: reference_ok_def)

lemma single_reference:
  assumes "field_values t k = Some v" and "reference_ok exists ty False v" and "get_str t k \<noteq> Some i"
  shows "reference_ok (\<lambda>ty' j. exists ty' j \<and> (ty', j) \<noteq> (ty, i)) ty False v"
  using assms by (auto simp: reference_ok_def get_str_def split: option.splits)

lemma references_without:
  assumes "references_ok exists task_fields t" and "\<not> refers_to ty i t"
  shows "references_ok (\<lambda>ty' j. exists ty' j \<and> (ty', j) \<noteq> (ty, i)) task_fields t"
proof -
  let ?ex = "\<lambda>ty' j. exists ty' j \<and> (ty', j) \<noteq> (ty, i)"
  have other: "reference_ok ?ex ty' m v \<longleftrightarrow> reference_ok exists ty' m v" if "ty' \<noteq> ty" for ty' m v
    using that by (simp add: reference_ok_def cong: option.case_cong json.case_cong)
  have r: "field_values t ''assignees'' = Some v \<Longrightarrow> reference_ok exists ''actor'' True v"
    "field_values t ''project'' = Some v \<Longrightarrow> reference_ok exists ''project'' False v"
    "field_values t ''depends_on'' = Some v \<Longrightarrow> reference_ok exists ''task'' True v"
    "field_values t ''position_column'' = Some v \<Longrightarrow> reference_ok exists ''column'' False v" for v
    using assms(1) unfolding references_ok_task by blast+
  have "field_values t ''assignees'' = Some v \<Longrightarrow> reference_ok ?ex ''actor'' True v" for v
    using list_reference [of t "''assignees''" v exists ty i] other [of "''actor''"] r(1) assms(2)
    by (cases "ty = ''actor''") (auto simp: refers_to_def)
  moreover have "field_values t ''project'' = Some v \<Longrightarrow> reference_ok ?ex ''project'' False v" for v
    using single_reference [of t "''project''" v exists ty i] other [of "''project''"] r(2) assms(2)
    by (cases "ty = ''project''") (auto simp: refers_to_def)
  moreover have "field_values t ''depends_on'' = Some v \<Longrightarrow> reference_ok ?ex ''task'' True v" for v
    using list_reference [of t "''depends_on''" v exists ty i] other [of "''task''"] r(3) assms(2)
    by (cases "ty = ''task''") (auto simp: refers_to_def)
  moreover have "field_values t ''position_column'' = Some v \<Longrightarrow> reference_ok ?ex ''column'' False v" for v
    using single_reference [of t "''position_column''" v exists ty i] other [of "''column''"] r(4) assms(2)
    by (cases "ty = ''column''") (auto simp: refers_to_def)
  ultimately show ?thesis unfolding references_ok_task by blast
qed

lemma with_id_filter: "with_id j (filter (\<lambda>e. entity_id e \<noteq> i) es) = (if j = i then None else with_id j es)"
  by (induction es) (auto simp: with_id_def)

lemma delete_integrity:
  assumes "integrity st"
    and "\<forall>t \<in> set (live st ''task''). (ty = ''task'' \<longrightarrow> entity_id t \<noteq> i) \<longrightarrow> \<not> refers_to ty i t"
  shows "integrity (delete_stored ty i st)"
proof -
  let ?st = "delete_stored ty i st"
  have get: "lookup_get ?st = (\<lambda>ty' j. lookup_get st ty' j \<and> (ty', j) \<noteq> (ty, i))"
    by (auto simp: lookup_get_def delete_stored_def with_id_filter fun_eq_iff)
  have keep: "set (live ?st ''task'') = {t \<in> set (live st ''task''). ty = ''task'' \<longrightarrow> entity_id t \<noteq> i}"
    by (auto simp: delete_stored_def)
  have "task_ok ?st t" if "t \<in> set (live ?st ''task'')" for t
  proof -
    have t: "t \<in> set (live st ''task'')" "ty = ''task'' \<longrightarrow> entity_id t \<noteq> i" using that keep by auto
    then have "task_ok st t" "\<not> refers_to ty i t" using assms by (auto simp: integrity_def)
    then show ?thesis using references_without unfolding task_ok_def get by blast
  qed
  moreover have "distinct (map entity_id (live ?st ''task''))"
    using assms(1) by (auto simp: delete_stored_def integrity_def distinct_map_filter)
  ultimately show ?thesis by (simp add: integrity_def)
qed

section \<open>The loops over dependents\<close>

lemma list_fields:
  "\<exists>fd \<in> set task_fields. fd_type fd = ReferenceField ''actor'' True \<and> fd_name fd = ''assignees''"
  "\<exists>fd \<in> set task_fields. fd_type fd = ReferenceField ''task'' True \<and> fd_name fd = ''depends_on''"
proof -
  have "plain_field ''assignees'' (ReferenceField ''actor'' True) None \<in> set task_fields"
    "plain_field ''depends_on'' (ReferenceField ''task'' True) None \<in> set task_fields"
    unfolding task_fields_def list.set by blast+
  moreover have "fd_type (plain_field k ty d) = ty" "fd_name (plain_field k ty d) = k" for k ty d
    by (simp_all add: plain_field_def)
  ultimately show "\<exists>fd \<in> set task_fields. fd_type fd = ReferenceField ''actor'' True \<and> fd_name fd = ''assignees''"
    "\<exists>fd \<in> set task_fields. fd_type fd = ReferenceField ''task'' True \<and> fd_name fd = ''depends_on''" by blast+
qed

text \<open>After the loop over \<open>ts\<close> only a task outside \<open>ts\<close> can still have the id in its list.\<close>

lemma drop_id_dropped:
  assumes "k = ''assignees'' \<or> k = ''depends_on''"
    and "drop_id env k i ts st = (Inr u, st')" and "\<forall>t \<in> set ts. entity_type t = ''task''"
    and "\<forall>t \<in> set (live st ''task''). i \<in> set (get_string_list t k) \<longrightarrow>
           P (entity_id t) \<or> (\<exists>s \<in> set ts. entity_id s = entity_id t \<and> i \<in> set (get_string_list s k))"
  shows "\<forall>t \<in> set (live st' ''task''). i \<in> set (get_string_list t k) \<longrightarrow> P (entity_id t)"
  using assms(2-4)
proof (induction ts arbitrary: st)
  case (Cons s ts)
  show ?case
  proof (cases "i \<in> set (get_string_list s k)")
    case False
    then have "drop_id env k i ts st = (Inr u, st')" using Cons.prems(1) by simp
    then show ?thesis by (rule Cons.IH) (use Cons.prems(2,3) False in auto)
  next
    case True
    let ?s = "set_field k (json_strings (filter (\<lambda>d. d \<noteq> i) (get_string_list s k))) s"
    obtain st1 where w: "write_stored env ?s st = (Inr (), st1)" and rest: "drop_id env k i ts st1 = (Inr u, st')"
      using Cons.prems(1) True by (auto split: prod.splits sum.splits)
    have ty: "entity_type ?s = ''task''" using Cons.prems(2) by simp
    from w obtain e' where e': "st1 = st\<lparr>live := (live st)(''task'' := put_entity e' (live st ''task''))\<rparr>"
      "validate_for_write (board_write_env env st) ?s = Inr e'" "entity_id e' = entity_id s"
      by (cases rule: written_stored) (use ty in auto)
    obtain fd ty' where fd: "fd \<in> set task_fields" "fd_type fd = ReferenceField ty' True" "fd_name fd = k"
      using assms(1) list_fields by metis
    have "get_string_list e' (fd_name fd) = filter (lookup_get st ty') (filter (\<lambda>d. d \<noteq> i) (get_string_list s k))"
      by (rule written_list [OF e'(2), where en = "\<lparr>en_lookup = Some (lookup_get st), en_js = se_js env, en_entity_js = se_entity_js env\<rparr>"])
        (use fd ty in \<open>simp_all add: board_write_env_def builtin_fields_def plain_task_fields\<close>)
    then have gone: "i \<notin> set (get_string_list e' k)" using fd(3) by simp
    show ?thesis
    proof (rule Cons.IH [OF rest])
      show "\<forall>t \<in> set (live st1 ''task''). i \<in> set (get_string_list t k) \<longrightarrow>
          P (entity_id t) \<or> (\<exists>s \<in> set ts. entity_id s = entity_id t \<and> i \<in> set (get_string_list s k))"
      proof (intro ballI impI)
        fix t assume t: "t \<in> set (live st1 ''task'')" "i \<in> set (get_string_list t k)"
        then have "t \<in> set (put_entity e' (live st ''task''))" by (simp add: e'(1))
        then have "t \<in> set (live st ''task'')" "entity_id t \<noteq> entity_id s"
          using set_put gone t(2) e'(3) by metis+
        then show "P (entity_id t) \<or> (\<exists>s \<in> set ts. entity_id s = entity_id t \<and> i \<in> set (get_string_list s k))"
          using Cons.prems(3) t(2) by auto
      qed
    qed (use Cons.prems(2) in simp)
  qed
qed simp

lemma drop_dependents_dropped:
  assumes "integrity st" and "drop_dependents env i st = (Inr u, st')"
  shows "\<forall>t \<in> set (live st' ''task''). entity_id t \<noteq> i \<longrightarrow> \<not> refers_to ''task'' i t"
proof -
  have "\<forall>t \<in> set (live st' ''task''). i \<in> set (get_string_list t ''depends_on'') \<longrightarrow> entity_id t = i"
    by (rule drop_id_dropped [OF disjI2 [OF refl] assms(2) [unfolded drop_dependents_def]])
      (use assms(1) in \<open>auto simp: integrity_def task_ok_def\<close>)
  then show ?thesis by (auto simp: refers_to_def)
qed

section \<open>Commands\<close>

lemma integrity_archived [simp]: "integrity (st\<lparr>archived := a\<rparr>) = integrity st"
proof -
  have "lookup_get (st\<lparr>archived := a\<rparr>) = lookup_get st" by (simp add: lookup_get_def fun_eq_iff)
  then show ?thesis by (simp add: integrity_def task_ok_def)
qed

lemma column_commands:
  "store_add_column env i name pos st = (r, st') \<Longrightarrow> integrity st \<Longrightarrow> integrity st'"
  "store_update_column env i name' pos st = (r, st') \<Longrightarrow> integrity st \<Longrightarrow> integrity st'"
  "store_delete_column i st = (r, st') \<Longrightarrow> integrity st \<Longrightarrow> integrity st'"
proof -
  show "store_add_column env i name pos st = (r, st') \<Longrightarrow> integrity st \<Longrightarrow> integrity st'"
    "store_update_column env i name' pos st = (r, st') \<Longrightarrow> integrity st \<Longrightarrow> integrity st'"
    by (auto simp: store_add_column_def store_update_column_def Let_def split: if_splits option.splits
        dest: write_then_integrity)
  assume d: "store_delete_column i st = (r, st')" and ok: "integrity st"
  show "integrity st'"
  proof (cases "read_entity_of ''column'' i st = None \<or> 0 < length (filter (\<lambda>t. get_str t ''position_column'' = Some i) (live st ''task''))")
    case True
    then show ?thesis using d ok by (auto simp: store_delete_column_def Let_def split: if_splits)
  next
    case False
    then have "st' = delete_stored ''column'' i st" using d by (auto simp: store_delete_column_def Let_def)
    moreover have "\<forall>t \<in> set (live st ''task''). \<not> refers_to ''column'' i t"
      using False by (auto simp: refers_to_def filter_empty_conv)
    ultimately show ?thesis using delete_integrity [OF ok] by blast
  qed
qed

lemma project_commands:
  "store_add_project env i name description color st = (r, st') \<Longrightarrow> integrity st \<Longrightarrow> integrity st'"
  "store_update_project env i name' description color st = (r, st') \<Longrightarrow> integrity st \<Longrightarrow> integrity st'"
  "store_delete_project i st = (r, st') \<Longrightarrow> integrity st \<Longrightarrow> integrity st'"
proof -
  show "store_add_project env i name description color st = (r, st') \<Longrightarrow> integrity st \<Longrightarrow> integrity st'"
    "store_update_project env i name' description color st = (r, st') \<Longrightarrow> integrity st \<Longrightarrow> integrity st'"
    by (auto simp: store_add_project_def store_update_project_def Let_def split: if_splits option.splits
        dest: write_then_integrity)
  assume d: "store_delete_project i st = (r, st')" and ok: "integrity st"
  show "integrity st'"
  proof (cases "read_entity_of ''project'' i st = None \<or> 0 < length (filter (\<lambda>t. get_str t ''project'' = Some i) (live st ''task''))")
    case True
    then show ?thesis using d ok by (auto simp: store_delete_project_def Let_def split: if_splits)
  next
    case False
    then have "st' = delete_stored ''project'' i st" using d by (auto simp: store_delete_project_def Let_def)
    moreover have "\<forall>t \<in> set (live st ''task''). \<not> refers_to ''project'' i t"
      using False by (auto simp: refers_to_def filter_empty_conv)
    ultimately show ?thesis using delete_integrity [OF ok] by blast
  qed
qed

lemma actor_commands:
  "store_add_actor env i name ensure color avatar st = (r, st') \<Longrightarrow> integrity st \<Longrightarrow> integrity st'"
  "store_update_actor env i name' st = (r, st') \<Longrightarrow> integrity st \<Longrightarrow> integrity st'"
  "store_delete_actor env i st = (r, st') \<Longrightarrow> integrity st \<Longrightarrow> integrity st'"
proof -
  show "store_add_actor env i name ensure color avatar st = (r, st') \<Longrightarrow> integrity st \<Longrightarrow> integrity st'"
    "store_update_actor env i name' st = (r, st') \<Longrightarrow> integrity st \<Longrightarrow> integrity st'"
    by (auto simp: store_add_actor_def store_update_actor_def Let_def split: if_splits option.splits prod.splits
        dest: write_then_integrity)
  assume d: "store_delete_actor env i st = (r, st')" and ok: "integrity st"
  obtain x st1 where drop: "drop_id env ''assignees'' i (live st ''task'') st = (x, st1)" by fastforce
  have ok1: "integrity st1" using drop_id_integrity [OF drop ok] .
  show "integrity st'"
  proof (cases x)
    case (Inl err)
    then show ?thesis using d drop ok ok1 by (auto simp: store_delete_actor_def split: if_splits)
  next
    case (Inr u)
    have "\<forall>t \<in> set (live st1 ''task''). i \<in> set (get_string_list t ''assignees'') \<longrightarrow> False"
      by (rule drop_id_dropped [OF disjI1 [OF refl] drop [unfolded Inr]])
        (use ok in \<open>auto simp: integrity_def task_ok_def\<close>)
    then have "\<forall>t \<in> set (live st1 ''task''). \<not> refers_to ''actor'' i t" by (auto simp: refers_to_def)
    then have "integrity (delete_stored ''actor'' i st1)" using delete_integrity [OF ok1] by blast
    then show ?thesis using d drop Inr ok by (auto simp: store_delete_actor_def split: if_splits)
  qed
qed

lemma task_writes:
  "store_add_task env mint op st = Some (r, st') \<Longrightarrow> integrity st \<Longrightarrow> integrity st'"
  "store_update_task env up st = (r, st') \<Longrightarrow> integrity st \<Longrightarrow> integrity st'"
  "store_assign env i actor st = (r, st') \<Longrightarrow> integrity st \<Longrightarrow> integrity st'"
  "store_unassign env i actor st = (r, st') \<Longrightarrow> integrity st \<Longrightarrow> integrity st'"
  "store_complete env i st = (r, st') \<Longrightarrow> integrity st \<Longrightarrow> integrity st'"
proof -
  assume a: "store_add_task env mint op st = Some (r, st')" and ok: "integrity st"
  then obtain x where "build_task env mint op st = Some x" by (auto simp: store_add_task_def)
  then show "integrity st'"
    using a ok by (cases x) (auto simp: store_add_task_def dest: persist_integrity)
next
  show "store_update_task env up st = (r, st') \<Longrightarrow> integrity st \<Longrightarrow> integrity st'"
    by (auto simp: store_update_task_def split: option.splits sum.splits prod.splits dest: persist_integrity)
  show "store_assign env i actor st = (r, st') \<Longrightarrow> integrity st \<Longrightarrow> integrity st'"
    "store_unassign env i actor st = (r, st') \<Longrightarrow> integrity st \<Longrightarrow> integrity st'"
    "store_complete env i st = (r, st') \<Longrightarrow> integrity st \<Longrightarrow> integrity st'"
    by (auto simp: store_assign_def store_unassign_def store_complete_def Let_def split: option.splits if_splits
        dest: write_then_integrity)
qed

lemma move_keeps: "store_move env op st = (r, st') \<Longrightarrow> integrity st \<Longrightarrow> integrity st'"
  by (auto simp: store_move_def store_ensure_column_def Let_def split: option.splits prod.splits sum.splits if_splits
      dest: write_integrity write_then_integrity)

lemma task_removals:
  "store_delete_task env i st = (r, st') \<Longrightarrow> integrity st \<Longrightarrow> integrity st'"
  "store_archive_task env i st = (r, st') \<Longrightarrow> integrity st \<Longrightarrow> integrity st'"
proof -
  assume ok: "integrity st"
  obtain x st1 where drop: "drop_dependents env i st = (x, st1)" by fastforce
  have ok1: "integrity st1" using drop_id_integrity [OF drop [unfolded drop_dependents_def] ok] .
  have deleted: "integrity (delete_stored ''task'' i st1)" if "x = Inr u" for u
    using delete_integrity [OF ok1, of "''task''" i] drop_dependents_dropped [OF ok] drop that by blast
  show "integrity st'" if "store_delete_task env i st = (r, st')"
    using that ok ok1 drop deleted by (cases x) (auto simp: store_delete_task_def split: option.splits)
  assume a: "store_archive_task env i st = (r, st')"
  show "integrity st'"
  proof (cases "read_entity_of ''task'' i st = None \<or> (\<exists>err. x = Inl err) \<or> read_entity_of ''task'' i st1 = None")
    case True
    then show ?thesis using a ok ok1 drop by (auto simp: store_archive_task_def split: option.splits sum.splits)
  next
    case False
    then obtain e u where e: "read_entity_of ''task'' i st1 = Some e" "x = Inr u" by (cases x) auto
    then have "entity_id e = i" "e \<in> set (live st1 ''task'')" using with_id_Some by (auto simp: read_entity_of_def)
    then have "entity_type e = ''task''" using ok1 by (simp add: integrity_def task_ok_def)
    then have "integrity (archive_stored e st1)"
      using deleted [OF e(2)] \<open>entity_id e = i\<close> by (simp add: archive_stored_def)
    then show ?thesis using a drop e False by (auto simp: store_archive_task_def split: option.splits)
  qed
qed

fun is_unarchive :: "command \<Rightarrow> bool" where
  "is_unarchive (UnarchiveTask i) = True"
| "is_unarchive _ = False"

lemma command_integrity:
  assumes "run_command env c st = Some (r, st')" and "\<not> is_unarchive c" and "integrity st"
  shows "integrity st'"
  using assms
  by (cases c) (auto dest: column_commands project_commands actor_commands task_writes move_keeps task_removals)

lemma new_board_integrity: "integrity new_board"
  by (simp add: integrity_def new_board_def)

text \<open>C20. On a board that was just made, any session of commands on columns, projects, actors and tasks,
  whether they succeed or fail, leaves every live task with references that resolve: its column, its project, its assignees and the
  tasks it depends on are all there. Sessions that unarchive a task are left out.\<close>

theorem sessions_keep_integrity:
  assumes "run_commands env cs new_board = Some st" and "\<forall>c \<in> set cs. \<not> is_unarchive c"
    and "t \<in> set (live st ''task'')"
  shows "(\<forall>c. get_str t ''position_column'' = Some c \<longrightarrow> with_id c (live st ''column'') \<noteq> None)
     \<and> (\<forall>p. get_str t ''project'' = Some p \<longrightarrow> with_id p (live st ''project'') \<noteq> None)
     \<and> (\<forall>a \<in> set (get_string_list t ''assignees''). with_id a (live st ''actor'') \<noteq> None)
     \<and> (\<forall>d \<in> set (get_string_list t ''depends_on''). with_id d (live st ''task'') \<noteq> None)"
proof -
  have "integrity st" if "run_commands env cs st0 = Some st" "integrity st0" "\<forall>c \<in> set cs. \<not> is_unarchive c" for st0
    using that
  proof (induction cs arbitrary: st0)
    case (Cons c cs)
    then obtain r st1 where "run_command env c st0 = Some (r, st1)" "run_commands env cs st1 = Some st"
      by (auto split: option.splits prod.splits)
    then show ?case using Cons.IH [of st1] command_integrity Cons.prems(2,3) by auto
  qed simp
  then have "integrity st" using assms(1,2) new_board_integrity by blast
  then have t: "references_ok (lookup_get st) task_fields t" using assms(3) by (simp add: integrity_def task_ok_def)
  have lists: "\<forall>x \<in> set (get_string_list t k). with_id x (live st ty) \<noteq> None"
    if "\<forall>v. field_values t k = Some v \<longrightarrow> reference_ok (lookup_get st) ty True v" for k ty
    using that by (cases "field_values t k"; cases "the (field_values t k)")
      (force simp: get_string_list_def reference_ok_def lookup_get_def map_filter_def)+
  have single: "\<forall>x. get_str t k = Some x \<longrightarrow> with_id x (live st ty) \<noteq> None"
    if "\<forall>v. field_values t k = Some v \<longrightarrow> reference_ok (lookup_get st) ty False v" for k ty
    using that by (cases "field_values t k") (auto simp: get_str_def reference_ok_def lookup_get_def)
  show ?thesis using t [unfolded references_ok_task] lists single by blast
qed

section \<open>Unarchiving\<close>

text \<open>C21. Unarchiving is not validated: when the only task of a column is archived and the column is then
  deleted, as it may be, unarchiving succeeds and brings back a task whose column does not exist.\<close>

theorem unarchive_into_missing_column:
  assumes "read_entity_of ''task'' i st = Some t" and "get_str t ''position_column'' = Some c"
    and "read_entity_of ''column'' c st \<noteq> None" and "entity_type t = ''task''"
    and "\<forall>u \<in> set (live st ''task''). entity_id u \<noteq> i \<longrightarrow>
           get_str u ''position_column'' \<noteq> Some c \<and> i \<notin> set (get_string_list u ''depends_on'')"
  shows "\<exists>st1 st2 st3 a1 a2 a3.
     run_command env (ArchiveTask i) st = Some (Inr a1, st1)
     \<and> run_command env (DeleteColumn c) st1 = Some (Inr a2, st2)
     \<and> run_command env (UnarchiveTask i) st2 = Some (Inr a3, st3)
     \<and> read_entity_of ''task'' i st3 = Some t \<and> read_entity_of ''column'' c st3 = None"
proof -
  have "drop_id env ''depends_on'' i ts st = (Inr (), st)"
    if "\<forall>u \<in> set ts. i \<notin> set (get_string_list u ''depends_on'')" for ts
    using that by (induction ts) auto
  then have drop: "drop_dependents env i st = (Inr (), st)"
    using assms(5) by (simp add: drop_dependents_def)
  let ?st1 = "archive_stored t st"
  let ?st2 = "delete_stored ''column'' c ?st1"
  have i: "entity_id t = i" using with_id_Some assms(1) by (auto simp: read_entity_of_def)
  have 1: "run_command env (ArchiveTask i) st = Some (Inr (with_flag ''archived'' t), ?st1)"
    by (simp add: store_archive_task_def assms(1) drop)
  have tasks1: "live ?st1 ''task'' = filter (\<lambda>e. entity_id e \<noteq> i) (live st ''task'')" "live ?st1 ''column'' = live st ''column''"
    by (simp_all add: archive_stored_def delete_stored_def assms(4) i)
  have none: "filter (\<lambda>u. get_str u ''position_column'' = Some c) (live ?st1 ''task'') = []"
    unfolding tasks1 using assms(5) by (auto simp: filter_empty_conv)
  have 2: "run_command env (DeleteColumn c) ?st1 = Some (Inr (deleted_answer c), ?st2)"
    using assms(3) none tasks1(2) by (simp add: store_delete_column_def read_entity_of_def)
  let ?live = "(live ?st2)(''task'' := put_entity t (live ?st2 ''task''))"
  have latest: "with_id i (rev (archived ?st2 ''task'')) = Some t"
    by (simp add: delete_stored_def archive_stored_def assms(4) with_id_def i)
  have found: "with_id i (put_entity t (live ?st2 ''task'')) = Some t" using with_id_put(1) i by metis
  obtain st3 where st3: "unarchive_stored ''task'' i ?st2 = (Inr (), st3)" "live st3 = ?live"
    using latest by (simp add: unarchive_stored_def)
  have 3: "run_command env (UnarchiveTask i) ?st2 = Some (Inr (with_flag ''unarchived'' t), st3)"
    using found by (simp add: store_unarchive_task_def st3 read_entity_of_def)
  have "read_entity_of ''task'' i st3 = Some t" using found by (simp add: read_entity_of_def st3)
  moreover have "read_entity_of ''column'' c st3 = None"
    by (simp add: read_entity_of_def st3 delete_stored_def with_id_filter)
  ultimately show ?thesis using 1 2 3 by blast
qed

section \<open>Examples\<close>

definition sample_store_env :: store_env where
  "sample_store_env =
     \<lparr>se_query = sample_query_env, se_js = (\<lambda>body name v siblings. Inr v),
      se_entity_js = (\<lambda>body name siblings. Inr JNull), se_resolve = (\<lambda>name n v. Inr None),
      se_is_ulid = (\<lambda>s. False), se_new_tag_id = (\<lambda>tags. ''tag''),
      se_calendar_date = Some, se_rfc3339_date = (\<lambda>s. None)\<rparr>"

definition sample_doing :: entity where
  "sample_doing = set_position ''doing'' ''80'' (new_entity ''task'' ''01A'')"

definition sample_store :: entity_store where
  "sample_store = new_board\<lparr>live := (live new_board)(''task'' := [sample_doing])\<rparr>"

theorem unarchive_into_missing_column_witness:
  "\<exists>st1 st2 st3 a1 a2 a3.
     run_command sample_store_env (ArchiveTask ''01A'') sample_store = Some (Inr a1, st1)
     \<and> run_command sample_store_env (DeleteColumn ''doing'') st1 = Some (Inr a2, st2)
     \<and> run_command sample_store_env (UnarchiveTask ''01A'') st2 = Some (Inr a3, st3)
     \<and> read_entity_of ''task'' ''01A'' st3 = Some sample_doing \<and> read_entity_of ''column'' ''doing'' st3 = None"
  by (rule unarchive_into_missing_column)
    (simp_all add: sample_store_def sample_doing_def read_entity_of_def with_id_def new_board_def default_column_entities_def
      set_position_def)

definition sample_add :: add_task where
  "sample_add =
     \<lparr>at_title = ''a'', at_description = None, at_column = Some ''doing'', at_ordinal = None, at_assignees = [''bob''],
      at_depends_on = [], at_tags = [], at_project = Some ''web'', at_due = None, at_scheduled = None\<rparr>"

lemma sample_build:
  "build_task sample_store_env (\<lambda>n. ''01A'') sample_add new_board = Some (Inr (new_task sample_add ''01A'' ''doing'' ''80''))"
proof -
  have "resolve_column (Some ''doing'') ''task'' (board_of new_board) = Inr ''doing''"
    by (simp add: resolve_column_def board_of_def new_board_def default_column_entities_def with_id_def)
  moreover have "resolve_ordinal tree_fractions ''doing'' None (board_of new_board) = Inr ''80''"
    by (simp add: resolve_ordinal_def board_of_def new_board_def end_ordinal_def last_ordinal_def ord_first_def tree_fractions_def
        map_filter_def)
  moreover have "mint_unique_short_id {} (\<lambda>n. ''01A'') 0 = Some ''01A''" by (simp add: mint_unique_short_id.simps)
  ultimately show ?thesis
    by (simp add: build_task_def sample_add_def sample_store_env_def sample_query_env_def new_board_def set_date_def apply_tag_refs_def)
qed

lemma sample_write:
  "\<exists>e. write_stored sample_store_env (new_task sample_add ''01A'' ''doing'' ''80'') new_board
     = (Inr (), new_board\<lparr>live := (live new_board)(''task'' := [e])\<rparr>)"
proof -
  let ?e = "new_task sample_add ''01A'' ''doing'' ''80''"
  let ?env = "board_write_env sample_store_env new_board"
  have ty: "entity_type ?e = ''task''" "entity_id ?e = ''01A''" "field_values ?e ''attachments'' = None"
    by (simp_all add: new_task_def sample_add_def set_position_def Let_def set_if_def)
  have env: "we_fields ?env ''task'' = task_fields" "we_rule ?env ''task'' = None"
    by (simp_all add: board_write_env_def builtin_fields_def)
  have "\<exists>e'. validate_for_write ?env ?e = Inr e'"
    by (rule plain_write_succeeds; unfold ty(1) env) (simp_all add: task_fields_def plain_field_def ty(3))
  then obtain e' where e': "validate_for_write ?env ?e = Inr e'" by blast
  from written_references_resolve_gen [OF this]
  have "entity_type e' = ''task''"
    using ty(1) env plain_task_fields by (simp add: board_write_env_def)
  then show ?thesis using e' by (auto simp: write_stored_def new_board_def put_entity_def with_id_def)
qed

theorem sessions_keep_integrity_witness:
  "\<exists>st t. run_commands sample_store_env [AddTask (\<lambda>n. ''01A'') sample_add] new_board = Some st
     \<and> t \<in> set (live st ''task'')
     \<and> (\<forall>a \<in> set (get_string_list t ''assignees''). with_id a (live st ''actor'') \<noteq> None)"
proof -
  obtain e where w: "write_stored sample_store_env (new_task sample_add ''01A'' ''doing'' ''80'') new_board
      = (Inr (), new_board\<lparr>live := (live new_board)(''task'' := [e])\<rparr>)" using sample_write by blast
  have "parse_tags [] = []" by code_simp
  then have "create_tags sample_store_env (parse_tags (body_of (new_task sample_add ''01A'' ''doing'' ''80''))) st' = (Inr (), st')" for st'
    by (simp add: new_task_def sample_add_def set_position_def Let_def set_if_def body_of_def)
  then have run: "run_commands sample_store_env [AddTask (\<lambda>n. ''01A'') sample_add] new_board
      = Some (new_board\<lparr>live := (live new_board)(''task'' := [e])\<rparr>)"
    by (simp add: store_add_task_def sample_build persist_task_def w)
  have "e \<in> set (live (new_board\<lparr>live := (live new_board)(''task'' := [e])\<rparr>) ''task'')" by simp
  with run sessions_keep_integrity [OF run _ this] show ?thesis by fastforce
qed

end
