(* ===== verification/Spec2Isabelle.thy ===== *)
theory Spec2Isabelle
  imports Store_Claims Merge_Driver Hashline_Edits Task_Claims Focus_Claims Entity_History Tag_Ops Lease Edit_Cascade_Claims Param_Resolver Param_Messages Sem_Identity Call_Walk Board_Integrity
begin

text \<open>
  A verification library for SwissArmyHammer: the parts of the repository whose logic is its own and
  whose mistakes lose work. It models the reversible entity store, the git merge drivers of the
  files the store writes, hashline anchors and the matching of edits, the kanban board on top of the
  store, the kernel of the spatial navigation, the leadership lease, the parameters of prompts, the
  semantic difference of two versions of a code base and the queries on its call graph. Paths below are under \<open>src/crates/\<close> unless they start with \<open>apps/\<close>.

  \<^bold>\<open>The parts and how they meet.\<close> \<open>swissarmyhammer-store\<close> keeps items as files in a directory, one
  changelog per item, and one undo stack for all stores. \<open>swissarmyhammer-entity\<close> sees an item as an
  entity with fields; \<open>swissarmyhammer-kanban\<close> computes with tasks, columns and tags as entities. The
  files and the changelogs are merged by the drivers of \<open>swissarmyhammer-merge\<close>, which
  \<open>apps/kanban-cli\<close> registers with git. \<open>swissarmyhammer-hashline\<close> anchors the edits of agents to
  lines of a file. \<open>swissarmyhammer-focus\<close> decides which element of a window has the focus.

  \<^bold>\<open>Shared theories.\<close> \<open>Prelude\<close> has results with an explicit state (\<open>('s, 'e, 'a) action\<close>: every
  early return is an \<open>Inl\<close>), the string functions of the standard library and the lemma collections
  \<open>result_simps\<close> and \<open>rust_string\<close>. \<open>Rust_Num\<close> prints and parses numbers, \<open>Rust_Iter\<close> has
  \<open>Ordering\<close>, \<open>min_by\<close> and \<open>max_by\<close> with the contract \<open>comparison\<close>, \<open>Btree_Map\<close> the sorted map with the
  contract \<open>ordered_map\<close>, \<open>Json\<close> the JSON values, and \<open>Guarded_Walk\<close> the contract of a walk along
  parent links with a visited set.

  \<^bold>\<open>The store\<close> (\<open>swissarmyhammer-store/src\<close>). \<open>Undo_Stack\<close> is \<open>stack.rs\<close>; \<open>Store_Files\<close> is \<open>trash.rs\<close>
  and \<open>changelog.rs\<close> on a directory that is a map from paths to texts; \<open>Store_Handle\<close> is \<open>handle.rs\<close>
  with \<open>diff.rs\<close>, \<open>store.rs\<close>, \<open>error.rs\<close> and \<open>event.rs\<close>; \<open>Store_Context\<close> is \<open>context.rs\<close> and \<open>erased.rs\<close>.
  \<open>Store_Undo\<close> and \<open>Store_Reverse\<close> show that the undo of each operation brings back the directory up
  to what older entries need, and redo the directory itself; \<open>Reversible\<close> is the contract of a
  log of reversible steps, and \<open>Store_Session\<close> provides it for all stores of a context. A session keeps its own
  record of the versions that the operations were asked to make, and \<open>Store_Claims\<close> says: undo takes
  back exactly the top group and the stores show the version recorded before it, and redo does the group again.
  The record reaches back to the start of the stack, unless an item was unarchived whose archiving is still on
  the stack: the versions before that archiving are out of reach, for an undo of both fails. \<open>Store_Example\<close> is a
  concrete store on which the hypotheses hold.

  \<^bold>\<open>Merging\<close> (\<open>swissarmyhammer-merge/src\<close>, \<open>apps/kanban-cli/src/merge.rs\<close>). \<open>Frontmatter\<close>, \<open>Merge_Jsonl\<close>,
  \<open>Merge_Yaml\<close> (with \<open>md.rs\<close>) and \<open>Merge_Driver\<close>: the union of changelogs, the three-way merge of
  fields decided by the newest changelog entry, and the exit codes of the drivers.

  \<^bold>\<open>Hashline\<close> (\<open>swissarmyhammer-hashline/src\<close>). \<open>Hashline\<close> models tagging, parsing and the proximity
  search of 50 lines; \<open>Hashline_Edits\<close> shows that a fresh anchor resolves to its line and that
  edits replace whole lines. The checksum is a parameter.

  \<^bold>\<open>File edits\<close> (\<open>swissarmyhammer-edit-match/src/lib.rs\<close>, \<open>swissarmyhammer-tools/src/mcp/tools/files/edit\<close>).
  \<open>Rust_Str\<close> has the search in strings; \<open>Edit_Distance\<close> the two-row edit distance and its specification by
  edits; \<open>Edit_Match\<close> the ladder of ways to find a text in a file, \<open>Edit_Match_Laws\<close> and \<open>Edit_Match_Claims\<close> what
  an answer of each rung is. \<open>Edit_Cascade\<close> reads the arguments of the tool, resolves the pairs, replaces and
  reclassifies failures; \<open>Edit_Cascade_Claims\<close> says what an edit does to the content of a file. Texts are ASCII, so offsets
  in bytes and characters agree, and \<open>f32\<close> similarities are exact fractions.

  \<^bold>\<open>Leadership lease\<close> (\<open>swissarmyhammer-leader-election/src/lease.rs\<close>). \<open>Lease\<close> has each function on a
  lock file that is a text, a claim marker and one clock, and the interleaving of many candidates,
  crashes and heartbeats as a step relation, in which a write of the lease is two steps, the text and the new
  length, so that a reader may see a torn record. At most one candidate wins within the claim time when no marker
  was left behind, no heartbeat under way brings back a stale record, and all records have one length; when any of
  these fails there can be two winners.

  \<^bold>\<open>Parameters of prompts and workflows\<close> (\<open>swissarmyhammer-common/src/parameter_conditions.rs\<close> and
  \<open>parameters.rs\<close>). \<open>Conditions\<close> parses and evaluates conditions, \<open>Parameters\<close> validates values against
  their declaration, \<open>Param_Resolver\<close> gives defaults in rounds and compares the outcome with a closure that
  has no order, \<open>Param_Messages\<close> rewrites errors and suggests the nearest choice. \<open>f64\<close> values are exact
  rationals; regular expressions, environment variables and prompting are arguments.

  \<^bold>\<open>Semantic difference\<close> (\<open>swissarmyhammer-sem/src\<close>). \<open>Sem_Identity\<close> is \<open>model/entity.rs\<close>, \<open>model/change.rs\<close>,
  \<open>model/identity.rs\<close> and \<open>parser/differ.rs\<close>: entities of two versions are matched by id, then by content hash,
  then by similarity, and when no two entities of a version share an id, every entity is accounted for in the
  changes. The language plugins, the
  similarity and the order of a hash map are arguments; scores are exact rationals.

  \<^bold>\<open>Call graph\<close> (\<open>swissarmyhammer-code-context/src/ops\<close>). \<open>Call_Graph\<close> is \<open>get_blastradius.rs\<close> and \<open>Call_Walk\<close> is
  \<open>get_callgraph.rs\<close>, over the tables of the index as lists of rows: a query without an order gives its
  rows in the order of the table, and the errors of SQLite are left out. The breadth-first searches
  are compared with the distance in the graph of the edges; they end by a measure.

  \<^bold>\<open>The board\<close> (\<open>swissarmyhammer-entity/src/entity.rs\<close>, \<open>swissarmyhammer-kanban/src\<close>). \<open>Entity\<close>,
  \<open>Short_Ref\<close> (\<open>types/short_id.rs\<close>), \<open>Task_Graph\<close> (\<open>task_helpers.rs\<close>, \<open>virtual_tags.rs\<close>), \<open>Ordinal\<close>
  (\<open>types/position.rs\<close>) and \<open>Task_Ops\<close> (\<open>task/mv.rs\<close>, \<open>task/complete.rs\<close>, \<open>task/delete.rs\<close>);
  \<open>Task_Claims\<close> has the effect of the operations on the board. \<open>Task_Filter\<close> has the slugs
  (\<open>swissarmyhammer-common/src/slug.rs\<close>), the filter expressions (\<open>swissarmyhammer-filter-expr/src\<close>) and
  what they ask of a task, \<open>Task_Query\<close> the next task and the pages of a listing (\<open>task/next.rs\<close>,
  \<open>task/list.rs\<close>); the grammar of filters is built from a parser library and is an argument.

  \<^bold>\<open>Board sessions\<close> (\<open>swissarmyhammer-kanban/src\<close>). \<open>Field_Validation\<close> is what a write does to the fields of an
  entity (\<open>swissarmyhammer-fields/src/validation.rs\<close>, \<open>validate_for_write\<close> of \<open>swissarmyhammer-entity/src/context.rs\<close>)
  with the fields that \<open>swissarmyhammer-kanban/builtin\<close> declares. \<open>Entity_Store\<close> has the live and archived
  entities of each type and the operations on columns, projects and actors; \<open>Task_Store\<close> the commands on
  tasks with validated writes (\<open>task/add.rs\<close>, \<open>update.rs\<close>, \<open>assign.rs\<close>, \<open>unassign.rs\<close>, \<open>archive.rs\<close>, and \<open>mv.rs\<close>,
  \<open>complete.rs\<close>, \<open>delete.rs\<close> again), and sessions of commands from a new board. \<open>Board_Integrity\<close> shows that
  the references of every live task resolve after any session without an unarchiving, and that an
  unarchiving can break this. The JavaScript engine of the validators, \<open>chrono\<close>, the ULID generator and
  the copying of attachment files are arguments; computed fields are stripped on a write, as in the code.

  \<^bold>\<open>Tags\<close> (\<open>swissarmyhammer-kanban/src\<close>). \<open>Tag_Parser\<close> is \<open>tag_parser.rs\<close> on texts of ASCII characters:
  finding, appending, removing and renaming \<open>#tags\<close> in a description. \<open>Tag_Laws\<close> and \<open>Tag_Texts\<close> hold its laws,
  \<open>Tag_Claims\<close> what the parser does to the tags of a text, and \<open>Tag_Ops\<close> the operations of the board on
  tags, from references to tags up to renaming and deleting a tag on all tasks.

  \<^bold>\<open>Entities and their history\<close> (\<open>swissarmyhammer-entity/src\<close>). \<open>Entity_Io\<close> is \<open>io.rs\<close>, reading and writing an
  entity as front matter and body, with the YAML library as an argument; \<open>Entity_Changelog\<close> is \<open>changelog.rs\<close>,
  differences of fields, their application and reversal; \<open>Entity_History\<close> composes them with the store: the
  changelog of an item rebuilds the entity, except after an undo.

  \<^bold>\<open>The focus kernel\<close> (\<open>swissarmyhammer-focus/src\<close>). \<open>Sneak\<close> is \<open>sneak.rs\<close>, \<open>Focus_Snapshot\<close> is
  \<open>types.rs\<close> and \<open>snapshot.rs\<close>, \<open>Focus_Registry\<close> is \<open>layer.rs\<close> and \<open>registry.rs\<close>, \<open>Focus_Navigate\<close> is
  \<open>navigate.rs\<close>, \<open>Focus_State\<close> is \<open>state.rs\<close>; \<open>Focus_Claims\<close> shows that the fallback returns, that
  drilling out and in comes back, and that the events are enough to follow the focus.

  \<^bold>\<open>Interfaces.\<close> Each locale is interpreted on the model's own definitions: \<open>ordered_map\<close> on
  \<open>Btree_Map\<close>, \<open>comparison\<close> on the orders of scopes, \<open>guarded_walk\<close> on the parent zones and on the
  layers, and the reversible log on one store handle and on all stores of a context.

  \<^bold>\<open>Bounds and loops.\<close> Recursion is structural or has a measure. Loops that may not end are partial
  functions whose \<open>None\<close> is the call that does not return: minting a short id (it ends exactly when
  the generator ever answers a free one), the two walks of the focus fallback and the walk up the
  layers (they end when no layer is its own ancestor; on a cycle they do not). The rounds of the
  parameter resolver are the code's own 100: with at most 98 parameters they are never used up.

  \<^bold>\<open>Parameters.\<close> Code outside the repository is an argument: the patch, JSON and YAML libraries, the
  checksum, the crate \<open>fractional_index\<close>, the implementor of \<open>TrackedStore\<close>, the ULID generator and
  the clock. The identity test for ULIDs and the line differences of texts are arguments too. What is assumed of one is a named predicate, and a witness gives a concrete instance.

  \<^bold>\<open>Not modelled.\<close> Concurrency between operations of one store; operating-system errors other than
  missing files; floating-point rounding; characters outside ASCII where a theory says so; the events and caches of the
  entity layer; the agent runtime, the tool servers, the parsers and indexes built on tree-sitter,
  templating, the language-server client, the model runners and the user interfaces, which are glue
  around libraries, processes and terminals. The manifest lists them one by one.
\<close>

end
